(* ===== verification/Prelude.thy ===== *)
theory Prelude
  imports Main "HOL-Library.Char_ord" "HOL-Library.List_Lexorder" "HOL-Library.Sublist"
    "HOL-Library.AList" "HOL-Library.Word"
begin

text \<open>
  Shared vocabulary of the development: what the sources use of Rust's standard library.

  A Rust \<^verbatim>\<open>str\<close> is the list of its UTF-8 bytes (an Isabelle character is a byte), so
  \<^verbatim>\<open>len\<close> is \<^term>\<open>length\<close>, slicing is \<^term>\<open>take\<close> and \<^term>\<open>drop\<close>, and searching, comparing and
  ordering are the list operations (Rust compares strings byte by byte). Where the code walks over
  Unicode scalars, \<open>next_scalar\<close> splits off the bytes of the first one.

  A \<^verbatim>\<open>HashMap\<close> is an association list with distinct keys whose order stands for the (arbitrary)
  iteration order of the map: results proved for every such list hold for every iteration order.
  Fallible code returns a sum, \<^term>\<open>Inl\<close> carrying the error.
\<close>

named_theorems text_simps "evaluation of the string operations"
named_theorems hm_simps "lookup, insertion and deletion in association lists"

type_synonym u32 = "32 word"
type_synonym u64 = "64 word"

subsection \<open>Results\<close>

text \<open>The \<^verbatim>\<open>?\<close> operator: return the error, or continue with the value.\<close>

primrec and_then :: "('e, 'a) sum \<Rightarrow> ('a \<Rightarrow> ('e, 'b) sum) \<Rightarrow> ('e, 'b) sum" where
  "and_then (Inl e) f = Inl e"
| "and_then (Inr a) f = f a"

lemma and_then_Inr: "and_then r f = Inr b \<longleftrightarrow> (\<exists>a. r = Inr a \<and> f a = Inr b)"
  by (cases r) auto

lemma and_then_Inl: "and_then r f = Inl e \<longleftrightarrow> r = Inl e \<or> (\<exists>a. r = Inr a \<and> f a = Inl e)"
  by (cases r) auto

lemma and_then_cong [fundef_cong]:
  "r = r' \<Longrightarrow> (\<And>a. r' = Inr a \<Longrightarrow> f a = g a) \<Longrightarrow> and_then r f = and_then r' g"
  by (cases r') auto

definition ok_or :: "'e \<Rightarrow> 'a option \<Rightarrow> ('e, 'a) sum" where
  "ok_or e x = (case x of None \<Rightarrow> Inl e | Some a \<Rightarrow> Inr a)"

subsection \<open>Association lists as hash maps\<close>

type_synonym ('k, 'v) hashmap = "('k \<times> 'v) list"

abbreviation hm_get :: "('k, 'v) hashmap \<Rightarrow> 'k \<Rightarrow> 'v option" where
  "hm_get \<equiv> map_of"

abbreviation hm_keys :: "('k, 'v) hashmap \<Rightarrow> 'k list" where
  "hm_keys m \<equiv> map fst m"

abbreviation hm_values :: "('k, 'v) hashmap \<Rightarrow> 'v list" where
  "hm_values m \<equiv> map snd m"

abbreviation hm_insert :: "'k \<Rightarrow> 'v \<Rightarrow> ('k, 'v) hashmap \<Rightarrow> ('k, 'v) hashmap" where
  "hm_insert \<equiv> AList.update"

abbreviation hm_remove :: "'k \<Rightarrow> ('k, 'v) hashmap \<Rightarrow> ('k, 'v) hashmap" where
  "hm_remove \<equiv> AList.delete"

definition hm_contains :: "('k, 'v) hashmap \<Rightarrow> 'k \<Rightarrow> bool" where
  "hm_contains m k \<longleftrightarrow> List.member (map fst m) k"

abbreviation hm_wf :: "('k, 'v) hashmap \<Rightarrow> bool" where
  "hm_wf m \<equiv> distinct (map fst m)"

lemma hm_contains_iff [hm_simps]: "hm_contains m k \<longleftrightarrow> k \<in> fst ` set m"
  by (auto simp: hm_contains_def)

lemma hm_contains_get [hm_simps]: "(hm_get m k \<noteq> None) = hm_contains m k"
  by (simp add: hm_contains_iff map_of_eq_None_iff)

lemma hm_get_insert [hm_simps]: "hm_get (hm_insert k v m) j = (if j = k then Some v else hm_get m j)"
  by (simp add: update_conv)

lemma hm_get_remove [hm_simps]: "hm_get (hm_remove k m) j = (if j = k then None else hm_get m j)"
  by (simp add: AList.delete_conv)

lemma hm_keys_insert [hm_simps]: "set (hm_keys (hm_insert k v m)) = insert k (set (hm_keys m))"
  by (simp add: dom_update)

lemma hm_keys_remove [hm_simps]: "set (hm_keys (hm_remove k m)) = set (hm_keys m) - {k}"
  by (auto simp: delete_keys)

lemma hm_wf_insert [intro]: "hm_wf m \<Longrightarrow> hm_wf (hm_insert k v m)"
  by (rule distinct_update)

lemma hm_wf_remove [intro]: "hm_wf m \<Longrightarrow> hm_wf (hm_remove k m)"
  by (rule distinct_delete)

lemma hm_get_in_values: "hm_get m k = Some v \<Longrightarrow> v \<in> set (hm_values m)"
  by (force dest: map_of_SomeD)

lemma hm_values_get: "hm_wf m \<Longrightarrow> v \<in> set (hm_values m) \<Longrightarrow> \<exists>k. hm_get m k = Some v"
  by (auto simp: map_of_eq_Some_iff)

lemma find_Some_in: "List.find P xs = Some x \<Longrightarrow> x \<in> set xs \<and> P x"
  by (induction xs) (auto split: if_splits)

subsection \<open>Bytes, scalars and character classes\<close>

definition byte :: "char \<Rightarrow> nat" where
  "byte c = of_char c"

definition is_continuation :: "char \<Rightarrow> bool" where
  "is_continuation c \<longleftrightarrow> 128 \<le> byte c \<and> byte c < 192"

definition scalar_len :: "char \<Rightarrow> nat" where
  "scalar_len c = (if byte c < 192 then 1 else if byte c < 224 then 2 else if byte c < 240 then 3 else 4)"

definition next_scalar :: "string \<Rightarrow> (string \<times> string) option" where
  "next_scalar s = (case s of [] \<Rightarrow> None
     | c # _ \<Rightarrow> Some (take (scalar_len c) s, drop (scalar_len c) s))"

definition is_char_boundary :: "string \<Rightarrow> nat \<Rightarrow> bool" where
  "is_char_boundary s i \<longleftrightarrow> i = 0 \<or> i = length s \<or> (i < length s \<and> \<not> is_continuation (s ! i))"

text \<open>Snapping a byte offset down to a character boundary
  (\<^verbatim>\<open>while end > 0 && !s.is_char_boundary(end) { end -= 1 }\<close>).\<close>

fun snap_boundary :: "string \<Rightarrow> nat \<Rightarrow> nat" where
  "snap_boundary s 0 = 0"
| "snap_boundary s (Suc n) = (if is_char_boundary s (Suc n) then Suc n else snap_boundary s n)"

lemma snap_boundary_le: "snap_boundary s n \<le> n"
  by (induction s n rule: snap_boundary.induct) auto

lemma snap_boundary_boundary: "is_char_boundary s (snap_boundary s n)"
  by (induction s n rule: snap_boundary.induct) (auto simp: is_char_boundary_def)

lemma snap_boundary_greatest: "m \<le> n \<Longrightarrow> is_char_boundary s m \<Longrightarrow> m \<le> snap_boundary s n"
  by (induction s n rule: snap_boundary.induct) (auto simp: le_Suc_eq)

definition is_ascii_digit :: "char \<Rightarrow> bool" where
  "is_ascii_digit c \<longleftrightarrow> 48 \<le> byte c \<and> byte c \<le> 57"

definition is_ascii_alphanumeric :: "char \<Rightarrow> bool" where
  "is_ascii_alphanumeric c \<longleftrightarrow>
     is_ascii_digit c \<or> (65 \<le> byte c \<and> byte c \<le> 90) \<or> (97 \<le> byte c \<and> byte c \<le> 122)"

definition ascii_lower :: "char \<Rightarrow> char" where
  "ascii_lower c = (if 65 \<le> byte c \<and> byte c \<le> 90 then char_of (byte c + 32) else c)"

definition to_ascii_lowercase :: "string \<Rightarrow> string" where
  "to_ascii_lowercase s = map ascii_lower s"

text \<open>\<^verbatim>\<open>str::to_lowercase\<close>; the case mapping of text that is not ASCII is the first argument.\<close>

definition to_lowercase :: "(string \<Rightarrow> string) \<Rightarrow> string \<Rightarrow> string" where
  "to_lowercase wide s = (if list_all (\<lambda>c. byte c < 128) s then to_ascii_lowercase s else wide s)"

definition eq_ignore_ascii_case :: "string \<Rightarrow> string \<Rightarrow> bool" where
  "eq_ignore_ascii_case a b \<longleftrightarrow> to_ascii_lowercase a = to_ascii_lowercase b"

text \<open>The encodings of the scalars with the Unicode property White_Space, which is what
  \<^verbatim>\<open>char::is_whitespace\<close> and \<^verbatim>\<open>str::trim\<close> test.\<close>

definition white_space :: "string list" where
  "white_space =
     [[CHR 0x09], [CHR 0x0A], [CHR 0x0B], [CHR 0x0C], [CHR 0x0D], [CHR 0x20],
      [CHR 0xC2, CHR 0x85], [CHR 0xC2, CHR 0xA0], [CHR 0xE1, CHR 0x9A, CHR 0x80],
      [CHR 0xE2, CHR 0x80, CHR 0x80], [CHR 0xE2, CHR 0x80, CHR 0x81], [CHR 0xE2, CHR 0x80, CHR 0x82],
      [CHR 0xE2, CHR 0x80, CHR 0x83], [CHR 0xE2, CHR 0x80, CHR 0x84], [CHR 0xE2, CHR 0x80, CHR 0x85],
      [CHR 0xE2, CHR 0x80, CHR 0x86], [CHR 0xE2, CHR 0x80, CHR 0x87], [CHR 0xE2, CHR 0x80, CHR 0x88],
      [CHR 0xE2, CHR 0x80, CHR 0x89], [CHR 0xE2, CHR 0x80, CHR 0x8A], [CHR 0xE2, CHR 0x80, CHR 0xA8],
      [CHR 0xE2, CHR 0x80, CHR 0xA9], [CHR 0xE2, CHR 0x80, CHR 0xAF], [CHR 0xE2, CHR 0x81, CHR 0x9F],
      [CHR 0xE3, CHR 0x80, CHR 0x80]]"

definition is_whitespace :: "string \<Rightarrow> bool" where
  "is_whitespace sc \<longleftrightarrow> List.member white_space sc"

text \<open>\<^verbatim>\<open>char::is_control\<close>: the C0 controls, DEL and the C1 controls.\<close>

fun is_control :: "string \<Rightarrow> bool" where
  "is_control [c] \<longleftrightarrow> byte c < 32 \<or> byte c = 127"
| "is_control [c, d] \<longleftrightarrow> byte c = 194 \<and> 128 \<le> byte d \<and> byte d < 160"
| "is_control _ \<longleftrightarrow> False"


subsection \<open>String operations\<close>

lemma scalar_len_pos: "0 < scalar_len c"
  by (simp add: scalar_len_def)

lemma next_scalar_shorter: "next_scalar s = Some (sc, rest) \<Longrightarrow> length rest < length s"
  by (auto simp: next_scalar_def scalar_len_pos split: list.splits)

lemma next_scalar_append: "next_scalar s = Some (sc, rest) \<Longrightarrow> s = sc @ rest"
  by (auto simp: next_scalar_def split: list.splits)

function trim_start :: "string \<Rightarrow> string" where
  "trim_start s =
     (case next_scalar s of
        Some (sc, rest) \<Rightarrow> if is_whitespace sc then trim_start rest else s
      | None \<Rightarrow> s)"
  by pat_completeness auto

termination trim_start
  by (relation "measure length") (auto dest: next_scalar_shorter sym)

declare trim_start.simps [simp del]

text \<open>The last scalar is the shortest suffix that does not start with a continuation byte.\<close>

fun last_scalar_len :: "string \<Rightarrow> nat" where
  "last_scalar_len [] = 0"
| "last_scalar_len (c # rev_rest) =
     (if is_continuation c then Suc (last_scalar_len rev_rest) else 1)"

function trim_end_rev :: "string \<Rightarrow> string" where
  "trim_end_rev s =
     (let n = last_scalar_len s in
      if s \<noteq> [] \<and> is_whitespace (rev (take n s)) then trim_end_rev (drop n s) else s)"
  by pat_completeness auto

lemma last_scalar_len_pos: "s \<noteq> [] \<Longrightarrow> 0 < last_scalar_len s"
  by (cases s) auto

termination trim_end_rev
  by (relation "measure length") (auto simp: last_scalar_len_pos)

declare trim_end_rev.simps [simp del]

definition trim_end :: "string \<Rightarrow> string" where
  "trim_end s = rev (trim_end_rev (rev s))"

definition trim :: "string \<Rightarrow> string" where
  "trim s = trim_end (trim_start s)"

definition starts_with :: "string \<Rightarrow> string \<Rightarrow> bool" where
  "starts_with s p \<longleftrightarrow> prefix p s"

text \<open>\<^verbatim>\<open>str::find\<close> and \<^verbatim>\<open>Option::or\<close>.\<close>

fun find_text :: "string \<Rightarrow> string \<Rightarrow> nat option" where
  "find_text pat [] = (if pat = [] then Some 0 else None)"
| "find_text pat (c # cs) = (if starts_with (c # cs) pat then Some 0 else map_option Suc (find_text pat cs))"

definition or_else :: "'a option \<Rightarrow> 'a option \<Rightarrow> 'a option" where
  "or_else a b = (case a of Some _ \<Rightarrow> a | None \<Rightarrow> b)"

definition strip_prefix :: "string \<Rightarrow> string \<Rightarrow> string option" where
  "strip_prefix p s = (if prefix p s then Some (drop (length p) s) else None)"

definition strip_suffix :: "string \<Rightarrow> string \<Rightarrow> string option" where
  "strip_suffix p s = (if suffix p s then Some (take (length s - length p) s) else None)"

fun str_contains :: "string \<Rightarrow> string \<Rightarrow> bool" where
  "str_contains [] n \<longleftrightarrow> n = []"
| "str_contains (c # cs) n \<longleftrightarrow> prefix n (c # cs) \<or> str_contains cs n"

text \<open>\<^verbatim>\<open>str::split\<close> on one ASCII character keeps empty pieces.\<close>

fun split_char :: "char \<Rightarrow> string \<Rightarrow> string list" where
  "split_char d [] = [[]]"
| "split_char d (c # cs) =
     (if c = d then [] # split_char d cs
      else (case split_char d cs of [] \<Rightarrow> [[c]] | p # ps \<Rightarrow> (c # p) # ps))"

fun find_char :: "char \<Rightarrow> string \<Rightarrow> nat option" where
  "find_char d [] = None"
| "find_char d (c # cs) = (if c = d then Some 0 else map_option Suc (find_char d cs))"

definition split_once :: "char \<Rightarrow> string \<Rightarrow> (string \<times> string) option" where
  "split_once d s = (case find_char d s of None \<Rightarrow> None | Some i \<Rightarrow> Some (take i s, drop (Suc i) s))"

text \<open>\<^verbatim>\<open>str::lines\<close>: the pieces between line feeds, a final empty piece dropped and one
  carriage return before each line feed removed.\<close>

definition strip_cr :: "string \<Rightarrow> string" where
  "strip_cr l = (if l \<noteq> [] \<and> last l = CHR 0x0D then butlast l else l)"

definition lines :: "string \<Rightarrow> string list" where
  "lines s =
     (let ps = split_char (CHR 0x0A) s;
          fin = last ps;
          ls = map strip_cr (butlast ps)
      in if fin = [] then ls else ls @ [fin])"

fun join :: "string \<Rightarrow> string list \<Rightarrow> string" where
  "join sep [] = []"
| "join sep [x] = x"
| "join sep (x # y # ys) = x @ sep @ join sep (y # ys)"

subsection \<open>Integers as text\<close>

definition digit_value :: "char \<Rightarrow> nat" where
  "digit_value c = byte c - 48"

definition digits_value :: "string \<Rightarrow> nat" where
  "digits_value ds = foldl (\<lambda>n c. 10 * n + digit_value c) 0 ds"

text \<open>\<^verbatim>\<open>from_str\<close> of an unsigned integer type with largest value \<open>mx\<close>: an optional plus sign,
  then digits only, at least one, with a value in range.\<close>

definition parse_uint :: "nat \<Rightarrow> string \<Rightarrow> nat option" where
  "parse_uint mx s =
     (let ds = (case s of [] \<Rightarrow> [] | c # cs \<Rightarrow> if c = CHR ''+'' then cs else s)
      in if ds \<noteq> [] \<and> list_all is_ascii_digit ds \<and> digits_value ds \<le> mx
         then Some (digits_value ds) else None)"

definition parse_u32 :: "string \<Rightarrow> u32 option" where
  "parse_u32 s = map_option of_nat (parse_uint (2 ^ 32 - 1) s)"

definition parse_u64 :: "string \<Rightarrow> u64 option" where
  "parse_u64 s = map_option of_nat (parse_uint (2 ^ 64 - 1) s)"

definition parse_usize :: "string \<Rightarrow> nat option" where
  "parse_usize s = parse_uint (2 ^ 64 - 1) s"

fun nat_text :: "nat \<Rightarrow> string" where
  "nat_text n = (if n < 10 then [char_of (48 + n)] else nat_text (n div 10) @ [char_of (48 + n mod 10)])"

declare nat_text.simps [simp del]

text \<open>Saturating and checked arithmetic of the fixed-width types.\<close>

definition saturating_add :: "'a::len word \<Rightarrow> 'a word \<Rightarrow> 'a word" where
  "saturating_add a b = (if unat a + unat b < 2 ^ LENGTH('a) then a + b else - 1)"

lemma saturating_add_code [code]:
  "saturating_add (a :: 'a::len word) b = (if uint a + uint b < 2 ^ LENGTH('a) then a + b else - 1)"
proof -
  have "unat a + unat b < 2 ^ LENGTH('a) \<longleftrightarrow> int (unat a + unat b) < 2 ^ LENGTH('a)"
    by (metis of_nat_less_iff of_nat_numeral of_nat_power)
  then show ?thesis by (simp add: saturating_add_def)
qed

definition saturating_sub :: "'a::len word \<Rightarrow> 'a word \<Rightarrow> 'a word" where
  "saturating_sub a b = (if b \<le> a then a - b else 0)"

definition saturating_mul :: "'a::len word \<Rightarrow> 'a word \<Rightarrow> 'a word" where
  "saturating_mul a b = (if unat a * unat b < 2 ^ LENGTH('a) then a * b else - 1)"

definition checked_mul :: "'a::len word \<Rightarrow> 'a word \<Rightarrow> 'a word option" where
  "checked_mul a b = (if unat a * unat b < 2 ^ LENGTH('a) then Some (a * b) else None)"

subsection \<open>Lemmas on strings\<close>

lemma suffix_trim_start: "suffix (trim_start s) s"
proof (induction s rule: trim_start.induct)
  case (1 s)
  show ?case
  proof (cases "next_scalar s")
    case (Some p)
    then obtain sc rest where p: "next_scalar s = Some (sc, rest)" by (cases p) auto
    with 1 have "suffix (trim_start rest) rest" if "is_whitespace sc" using that by simp
    with p next_scalar_append[OF p] show ?thesis
      by (subst trim_start.simps) (auto intro: suffix_appendI)
  qed (simp add: trim_start.simps)
qed

lemma suffix_trim_end_rev: "suffix (trim_end_rev s) s"
  by (induction s rule: trim_end_rev.induct)
     (subst trim_end_rev.simps, auto simp: Let_def intro: suffix_order.trans[OF _ suffix_drop])

lemma prefix_trim_end: "prefix (trim_end s) s"
  using suffix_trim_end_rev[of "rev s"] by (simp add: trim_end_def suffix_to_prefix)

lemma sublist_trim: "sublist (trim s) s"
  unfolding trim_def
  using prefix_trim_end suffix_trim_start
  by (metis prefix_imp_sublist sublist_order.order_trans suffix_imp_sublist)

lemma set_trim: "set (trim s) \<subseteq> set s"
  by (metis set_mono_sublist sublist_trim)

lemma length_trim: "length (trim s) \<le> length s"
  by (simp add: sublist_length_le sublist_trim)

text \<open>Trimming removes only white space: a graphic ASCII byte survives, and a text that starts and ends
  with one is left alone.\<close>

definition is_graphic :: "char \<Rightarrow> bool" where
  "is_graphic c \<longleftrightarrow> 33 \<le> byte c \<and> byte c \<le> 126"

lemma next_scalar_ascii: "byte c < 128 \<Longrightarrow> next_scalar (c # cs) = Some ([c], cs)"
  by (simp add: next_scalar_def scalar_len_def)

lemma whitespace_not_graphic: "is_whitespace sc \<Longrightarrow> c \<in> set sc \<Longrightarrow> \<not> is_graphic c"
proof -
  have "\<forall>w \<in> set white_space. \<forall>c \<in> set w. \<not> is_graphic c"
    by (simp add: white_space_def is_graphic_def byte_def)
  then show "is_whitespace sc \<Longrightarrow> c \<in> set sc \<Longrightarrow> \<not> is_graphic c" by (auto simp: is_whitespace_def)
qed

lemma graphic_trim_start: "c \<in> set s \<Longrightarrow> is_graphic c \<Longrightarrow> c \<in> set (trim_start s)"
proof (induction s rule: trim_start.induct)
  case (1 s)
  obtain sc rest where sc: "next_scalar s = Some (sc, rest)"
    using "1.prems" by (cases s) (auto simp: next_scalar_def)
  then show ?case
    using 1 next_scalar_append[OF sc] whitespace_not_graphic[of sc c]
    by (subst trim_start.simps) auto
qed

lemma graphic_trim_end_rev: "c \<in> set s \<Longrightarrow> is_graphic c \<Longrightarrow> c \<in> set (trim_end_rev s)"
proof (induction s rule: trim_end_rev.induct)
  case (1 s)
  let ?n = "last_scalar_len s"
  have "c \<in> set (drop ?n s)" if "is_whitespace (rev (take ?n s))"
    using whitespace_not_graphic[OF that, of c] "1.prems" set_append[of "take ?n s" "drop ?n s"] by auto
  with 1 show ?case by (subst trim_end_rev.simps) (auto simp: Let_def)
qed

lemma graphic_trim: "c \<in> set s \<Longrightarrow> is_graphic c \<Longrightarrow> c \<in> set (trim s)"
  by (simp add: trim_def trim_end_def graphic_trim_start graphic_trim_end_rev)

lemma trim_graphic_ends:
  assumes "s \<noteq> []" "is_graphic (hd s)" "is_graphic (last s)"
  shows "trim s = s"
proof -
  have "trim_start s = s"
    using assms(1,2) whitespace_not_graphic[of "[hd s]"] next_scalar_ascii[of "hd s" "tl s"]
    by (subst trim_start.simps) (auto simp: is_graphic_def)
  moreover have "\<not> is_continuation (last s)"
    using assms(3) by (simp add: is_continuation_def is_graphic_def)
  then have "trim_end s = s"
    unfolding trim_end_def using assms(1,3) whitespace_not_graphic[of "[last s]"]
    by (subst trim_end_rev.simps) (cases s rule: rev_cases, auto simp: Let_def)
  ultimately show ?thesis by (simp add: trim_def)
qed

lemma str_contains_iff: "str_contains s n \<longleftrightarrow> sublist n s"
  by (induction s) (auto simp: sublist_Cons_right)

lemma strip_prefix_Some: "strip_prefix p s = Some r \<longleftrightarrow> s = p @ r"
  by (auto simp: strip_prefix_def prefix_def)

lemma strip_suffix_Some: "strip_suffix p s = Some r \<longleftrightarrow> s = r @ p"
  by (auto simp: strip_suffix_def suffix_def)

lemma split_char_nonempty [simp]: "split_char d s \<noteq> []"
  by (induction s) (auto split: list.splits)

lemma join_split_char: "join [d] (split_char d s) = s"
proof (induction s)
  case (Cons c cs)
  obtain p ps where "split_char d cs = p # ps"
    by (meson split_char_nonempty list.exhaust)
  with Cons.IH show ?case by (cases ps) auto
qed simp

lemma split_char_no_sep: "p \<in> set (split_char d s) \<Longrightarrow> d \<notin> set p"
  by (induction s arbitrary: p) (auto split: list.splits if_splits)

lemma find_char_Some: "find_char d s = Some i \<Longrightarrow> i < length s \<and> s ! i = d \<and> d \<notin> set (take i s)"
  by (induction s arbitrary: i) (auto split: if_splits)

lemma find_char_None: "find_char d s = None \<longleftrightarrow> d \<notin> set s"
  by (induction s) auto

lemma split_once_Some: "split_once d s = Some (a, b) \<longleftrightarrow> s = a @ d # b \<and> d \<notin> set a"
proof
  assume "split_once d s = Some (a, b)"
  then obtain i where i: "find_char d s = Some i" "a = take i s" "b = drop (Suc i) s"
    by (auto simp: split_once_def split: option.splits)
  with find_char_Some[OF i(1)] show "s = a @ d # b \<and> d \<notin> set a"
    using id_take_nth_drop by fastforce
next
  assume s: "s = a @ d # b \<and> d \<notin> set a"
  have "find_char d (a @ d # b) = Some (length a)" if "d \<notin> set a" for a :: string
    using that by (induction a) auto
  with s show "split_once d s = Some (a, b)" by (simp add: split_once_def)
qed

lemma parse_uint_le: "parse_uint mx s = Some n \<Longrightarrow> n \<le> mx"
  by (auto simp: parse_uint_def Let_def split: if_splits)

lemma byte_char_of [simp]: "n < 256 \<Longrightarrow> byte (char_of n) = n"
  by (simp add: byte_def)

lemma nat_text_digits: "list_all is_ascii_digit (nat_text n)"
proof (induction n rule: nat_text.induct)
  case (1 n)
  have "is_ascii_digit (char_of (48 + m))" if "m < 10" for m :: nat
    using that by (simp add: is_ascii_digit_def byte_def)
  with 1 show ?case by (subst nat_text.simps) simp
qed

lemma nat_text_nonempty [simp]: "nat_text n \<noteq> []"
  by (subst nat_text.simps) simp

lemma digits_value_snoc: "digits_value (ds @ [d]) = 10 * digits_value ds + digit_value d"
  by (simp add: digits_value_def)

lemma digits_value_nat_text: "digits_value (nat_text n) = n"
proof (induction n rule: nat_text.induct)
  case (1 n)
  then show ?case
    by (subst nat_text.simps) (auto simp: digits_value_snoc digits_value_def digit_value_def)
qed

lemma nat_text_head: "hd (nat_text n) \<noteq> CHR ''+''"
proof -
  have "is_ascii_digit (hd (nat_text n))"
    using nat_text_digits[of n] by (metis hd_in_set list_all_iff nat_text_nonempty)
  then show ?thesis by (auto simp: is_ascii_digit_def byte_def)
qed

text \<open>Printing and reading back a number in range.\<close>

lemma parse_uint_nat_text: "n \<le> mx \<Longrightarrow> parse_uint mx (nat_text n) = Some n"
  using nat_text_head[of n] nat_text_digits[of n] digits_value_nat_text[of n]
  by (cases "nat_text n") (auto simp: parse_uint_def Let_def)

lemma length_nat_text_bound: "n < 10 ^ k \<Longrightarrow> 0 < k \<Longrightarrow> length (nat_text n) \<le> k"
proof (induction n arbitrary: k rule: nat_text.induct)
  case (1 n)
  show ?case
  proof (cases "n < 10")
    case True
    with "1.prems" show ?thesis by (subst nat_text.simps) simp
  next
    case False
    with "1.prems" obtain j where k: "k = Suc j" "0 < j"
      by (metis One_nat_def Suc_lessI gr0_conv_Suc not_less_eq power_one_right)
    have "n div 10 < 10 ^ j" using "1.prems" k by (simp add: div_less_iff_less_mult mult.commute)
    with "1.IH" False k have "length (nat_text (n div 10)) \<le> j" by simp
    with False k show ?thesis by (subst nat_text.simps) simp
  qed
qed

lemma unat_saturating_add:
  "unat (saturating_add a (b :: 'a::len word)) = min (unat a + unat b) (2 ^ LENGTH('a) - 1)"
  by (auto simp: saturating_add_def unat_word_ariths unsigned_minus_1_eq_mask mask_eq_exp_minus_1 min_def)

lemma unat_saturating_sub: "unat (saturating_sub a (b :: 'a::len word)) = unat a - unat b"
  by (auto simp: saturating_sub_def unat_sub word_le_nat_alt)

lemma unat_checked_mul:
  "checked_mul a (b :: 'a::len word) = Some c \<Longrightarrow> unat c = unat a * unat b"
  by (auto simp: checked_mul_def unat_word_ariths split: if_splits)

end
