(* ===== verification/Rust_Float.thy ===== *)
theory Rust_Float
  imports Complex_Main Prelude
begin

text \<open>
  The part of Rust's \<^verbatim>\<open>f64\<close> that the pipeline engine uses: edge weights, node deadlines and
  latency scores. A value is a NaN, an infinity with its sign, or an exact rational; the sign of
  zero is not kept (no source line looks at it). Every arithmetic result and every decimal literal
  is rounded to the nearest binary64 value, ties to even, and overflows to an infinity.
\<close>

datatype f64 = NaN | Inf (negative: bool) | Fin rat

subsection \<open>Rounding\<close>

fun bit_length :: "nat \<Rightarrow> nat" where
  "bit_length n = (if n = 0 then 0 else Suc (bit_length (n div 2)))"

declare bit_length.simps [simp del]

definition pow2 :: "int \<Rightarrow> rat" where
  "pow2 e = (if 0 \<le> e then 2 ^ nat e else 1 / 2 ^ nat (- e))"

text \<open>The binary exponent of a positive rational: the \<open>e\<close> with \<open>2\<^sup>e \<le> q < 2\<^sup>e\<^sup>+\<^sup>1\<close>.\<close>

definition binary_exponent :: "rat \<Rightarrow> int" where
  "binary_exponent q =
     (let (n, d) = quotient_of q;
          e = int (bit_length (nat n)) - int (bit_length (nat d))
      in if pow2 e \<le> q then e else e - 1)"

definition round_half_even :: "rat \<Rightarrow> int" where
  "round_half_even q =
     (let f = \<lfloor>q\<rfloor>; r = q - of_int f
      in if r < 1 / 2 then f else if r > 1 / 2 then f + 1 else if even f then f else f + 1)"

definition round_f64 :: "rat \<Rightarrow> f64" where
  "round_f64 q =
     (if q = 0 then Fin 0
      else let u = pow2 (max (binary_exponent \<bar>q\<bar>) (- 1022) - 52);
               r = of_int (round_half_even (q / u)) * u
           in if pow2 1024 \<le> \<bar>r\<bar> then Inf (q < 0) else Fin r)"

subsection \<open>Comparison and arithmetic\<close>

fun f64_lt :: "f64 \<Rightarrow> f64 \<Rightarrow> bool" where
  "f64_lt (Fin a) (Fin b) \<longleftrightarrow> a < b"
| "f64_lt (Inf s) (Inf t) \<longleftrightarrow> s \<and> \<not> t"
| "f64_lt (Inf s) (Fin b) \<longleftrightarrow> s"
| "f64_lt (Fin a) (Inf t) \<longleftrightarrow> \<not> t"
| "f64_lt _ _ \<longleftrightarrow> False"

definition f64_le :: "f64 \<Rightarrow> f64 \<Rightarrow> bool" where
  "f64_le a b \<longleftrightarrow> f64_lt a b \<or> (a = b \<and> a \<noteq> NaN)"

fun is_finite :: "f64 \<Rightarrow> bool" where
  "is_finite (Fin _) \<longleftrightarrow> True"
| "is_finite _ \<longleftrightarrow> False"

fun f64_sub :: "f64 \<Rightarrow> f64 \<Rightarrow> f64" where
  "f64_sub (Fin a) (Fin b) = round_f64 (a - b)"
| "f64_sub (Inf s) (Inf t) = (if s = t then NaN else Inf s)"
| "f64_sub (Inf s) (Fin _) = Inf s"
| "f64_sub (Fin _) (Inf t) = Inf (\<not> t)"
| "f64_sub _ _ = NaN"

fun f64_abs :: "f64 \<Rightarrow> f64" where
  "f64_abs (Fin a) = Fin \<bar>a\<bar>"
| "f64_abs (Inf _) = Inf False"
| "f64_abs NaN = NaN"

text \<open>Multiplication and division by a positive constant.\<close>

fun f64_mul_const :: "f64 \<Rightarrow> rat \<Rightarrow> f64" where
  "f64_mul_const (Fin a) k = round_f64 (a * k)"
| "f64_mul_const x k = x"

fun f64_div_const :: "f64 \<Rightarrow> rat \<Rightarrow> f64" where
  "f64_div_const (Fin a) k = round_f64 (a / k)"
| "f64_div_const x k = x"

text \<open>\<^verbatim>\<open>f64::max\<close> returns the other operand when one is a NaN.\<close>

definition f64_max :: "f64 \<Rightarrow> f64 \<Rightarrow> f64" where
  "f64_max a b = (if a = NaN then b else if b = NaN then a else if f64_lt a b then b else a)"

definition f64_min :: "f64 \<Rightarrow> f64 \<Rightarrow> f64" where
  "f64_min a b = (if a = NaN then b else if b = NaN then a else if f64_lt b a then b else a)"

definition EPSILON :: f64 where
  "EPSILON = Fin (1 / 2 ^ 52)"

subsection \<open>Reading a decimal literal\<close>

text \<open>\<^verbatim>\<open>f64::from_str\<close>: an optional sign, then \<^verbatim>\<open>inf\<close>, \<^verbatim>\<open>infinity\<close> or \<^verbatim>\<open>nan\<close> in any case, or digits with an
  optional point (a digit on at least one side of it) and an optional decimal exponent.\<close>

definition span :: "(char \<Rightarrow> bool) \<Rightarrow> string \<Rightarrow> string \<times> string" where
  "span P s = (takeWhile P s, dropWhile P s)"

definition parse_exponent :: "string \<Rightarrow> int option" where
  "parse_exponent s =
     (let (neg, ds) = (case s of [] \<Rightarrow> (False, [])
            | c # cs \<Rightarrow> if c = CHR ''-'' then (True, cs) else if c = CHR ''+'' then (False, cs) else (False, s))
      in if ds \<noteq> [] \<and> list_all is_ascii_digit ds
         then Some (if neg then - int (digits_value ds) else int (digits_value ds)) else None)"

definition pow10 :: "int \<Rightarrow> rat" where
  "pow10 e = (if 0 \<le> e then 10 ^ nat e else 1 / 10 ^ nat (- e))"

definition parse_decimal :: "string \<Rightarrow> rat option" where
  "parse_decimal s =
     (let (whole, r) = span is_ascii_digit s;
          (frac, r2) = (case r of c # cs \<Rightarrow> if c = CHR ''.'' then span is_ascii_digit cs else ([], r)
                        | [] \<Rightarrow> ([], []));
          mant = whole @ frac;
          ex = (case r2 of [] \<Rightarrow> Some 0
                | c # cs \<Rightarrow> if c = CHR ''e'' \<or> c = CHR ''E'' then parse_exponent cs else None)
      in if mant = [] then None
         else map_option (\<lambda>e. of_nat (digits_value mant) * pow10 (e - int (length frac))) ex)"

definition parse_f64 :: "string \<Rightarrow> f64 option" where
  "parse_f64 s =
     (let (neg, body) = (case s of [] \<Rightarrow> (False, [])
            | c # cs \<Rightarrow> if c = CHR ''-'' then (True, cs) else if c = CHR ''+'' then (False, cs) else (False, s));
          low = to_ascii_lowercase body
      in if low = ''inf'' \<or> low = ''infinity'' then Some (Inf neg)
         else if low = ''nan'' then Some NaN
         else map_option (\<lambda>q. round_f64 (if neg then - q else q)) (parse_decimal body))"

subsection \<open>Lemmas\<close>

lemma f64_lt_irrefl [simp]: "\<not> f64_lt a a"
  by (cases a) auto

lemma f64_lt_trans: "f64_lt a b \<Longrightarrow> f64_lt b c \<Longrightarrow> f64_lt a c"
  by (cases a; cases b; cases c) auto

lemma f64_lt_total: "a \<noteq> NaN \<Longrightarrow> b \<noteq> NaN \<Longrightarrow> f64_lt a b \<or> a = b \<or> f64_lt b a"
  by (cases a; cases b) auto

lemma round_f64_0 [simp]: "round_f64 0 = Fin 0"
  by (simp add: round_f64_def)

lemma round_f64_not_NaN [simp]: "round_f64 q \<noteq> NaN"
  by (simp add: round_f64_def Let_def)

lemma f64_sub_self [simp]: "is_finite a \<Longrightarrow> f64_sub a a = Fin 0"
  by (cases a) auto

lemma f64_max_NaN [simp]: "f64_max NaN b = b" "f64_max a NaN = a"
  by (auto simp: f64_max_def)

lemma pow2_pos [simp]: "0 < pow2 e"
  by (simp add: pow2_def)

lemma round_half_even_nonneg: "0 \<le> q \<Longrightarrow> 0 \<le> round_half_even q"
  by (auto simp: round_half_even_def Let_def)

text \<open>A non-negative rational never rounds to something negative.\<close>

lemma round_f64_nonneg: "0 \<le> q \<Longrightarrow> \<not> f64_lt (round_f64 q) (Fin 0)"
  using pow2_pos[THEN less_imp_le]
  by (auto simp: round_f64_def Let_def round_half_even_nonneg not_less intro!: mult_nonneg_nonneg)

end
