(* ===== verification/Fidelity.thy ===== *)
theory Fidelity
  imports Prelude
begin

text \<open>
  Model of \<^verbatim>\<open>crates/octos-pipeline/src/fidelity.rs\<close>: how much of a node's output is carried forward,
  and the bound on the serialized size of a pipeline result. A result body is cut so that its
  JSON-escaped length, its truncation marker and the execution summary together stay below the
  frame budget. The two binary searches of the file are instances of \<open>bisect\<close>.
\<close>

definition MAX_TRUNCATE_CHARS :: nat where "MAX_TRUNCATE_CHARS = 10000000"
definition MAX_SUMMARY_LINES :: nat where "MAX_SUMMARY_LINES = 100000"
definition MAX_TEXT_FRAME_BYTES :: nat where "MAX_TEXT_FRAME_BYTES = 1024 * 1024"
definition MAX_FRAME_BUDGET_BYTES :: nat where "MAX_FRAME_BUDGET_BYTES = 512 * 1024"
definition FOOTER_BUDGET_BYTES :: nat where "FOOTER_BUDGET_BYTES = 32 * 1024"
definition MARKER_RESERVE_BYTES :: nat where "MARKER_RESERVE_BYTES = 256"
definition BODY_BUDGET_BYTES :: nat where
  "BODY_BUDGET_BYTES = MAX_FRAME_BUDGET_BYTES - FOOTER_BUDGET_BYTES"

lemmas budget_defs = MAX_TEXT_FRAME_BYTES_def MAX_FRAME_BUDGET_BYTES_def FOOTER_BUDGET_BYTES_def
  MARKER_RESERVE_BYTES_def BODY_BUDGET_BYTES_def

subsection \<open>Escaped length\<close>

definition escaped_byte_len :: "char \<Rightarrow> nat" where
  "escaped_byte_len c =
     (let b = byte c
      in if b = 34 \<or> b = 92 \<or> b = 10 \<or> b = 13 \<or> b = 9 \<or> b = 8 \<or> b = 12 then 2
         else if b \<le> 31 then 6 else 1)"

fun json_escaped_len_bytes :: "nat \<Rightarrow> string \<Rightarrow> nat" where
  "json_escaped_len_bytes len [] = len"
| "json_escaped_len_bytes len (b # bytes) = json_escaped_len_bytes (len + escaped_byte_len b) bytes"

definition json_escaped_len :: "string \<Rightarrow> nat" where
  "json_escaped_len s = json_escaped_len_bytes 0 s"

subsection \<open>Fidelity modes\<close>

datatype FidelityMode = Full | Truncate nat | Compact | Summary nat

definition parse_fidelity :: "string \<Rightarrow> FidelityMode option" where
  "parse_fidelity s0 =
     (let s = trim s0 in
      if s = ''full'' then Some Full
      else if s = ''compact'' then Some Compact
      else if starts_with s ''truncate:'' then
        map_option (\<lambda>n. Truncate (min n MAX_TRUNCATE_CHARS)) (parse_usize (drop 9 s))
      else if starts_with s ''summary:'' then
        map_option (\<lambda>n. Summary (min n MAX_SUMMARY_LINES)) (parse_usize (drop 8 s))
      else None)"

fun compact_lines :: "bool \<Rightarrow> string list \<Rightarrow> string list" where
  "compact_lines in_tool_call [] = []"
| "compact_lines in_tool_call (line # rest) =
     (if starts_with line ''Tool call: '' \<or> starts_with line ''Arguments: '' then compact_lines True rest
      else if starts_with line ''Result: '' \<or> starts_with line ''Output: '' then line # compact_lines False rest
      else if \<not> in_tool_call then line # compact_lines in_tool_call rest
      else compact_lines in_tool_call rest)"

definition compact_output :: "string \<Rightarrow> string" where
  "compact_output s = join [CHR 0x0A] (compact_lines False (lines s))"

definition truncated_note :: string where
  "truncated_note = CHR 0x0A # ''... [truncated]''"

fun apply_fidelity :: "FidelityMode \<Rightarrow> string \<Rightarrow> string" where
  "apply_fidelity Full s = s"
| "apply_fidelity (Truncate max_chars) s =
     (if length s \<le> max_chars then s else take (snap_boundary s max_chars) s @ truncated_note)"
| "apply_fidelity Compact s = compact_output s"
| "apply_fidelity (Summary max_lines) s =
     join [CHR 0x0A] (take max_lines (lines s)) @ (if max_lines < length (lines s) then truncated_note else [])"

subsection \<open>The result ceiling\<close>

record ResultCeiling =
  rc_output :: string
  rc_truncated :: bool
  rc_kept_len :: nat
  rc_original_len :: nat

definition with_marker :: "ResultCeiling \<Rightarrow> string option \<Rightarrow> string" where
  "with_marker c report =
     (if \<not> rc_truncated c then rc_output c
      else rc_output c @ (CHR 0x0A # ''... [truncated: '') @ nat_text (rc_kept_len c) @ '' of ''
           @ nat_text (rc_original_len c)
           @ (case report of
                Some name \<Rightarrow> '' bytes '' @ [CHR 0xE2, CHR 0x80, CHR 0x94] @ '' full result in '' @ name @ '']''
              | None \<Rightarrow> '' bytes]''))"

text \<open>The loop \<^verbatim>\<open>while hi - lo > 1\<close> of \<open>compute_result_ceiling\<close> and \<open>bound_footer\<close>, over the test
  whether an offset still fits.\<close>

function bisect :: "(nat \<Rightarrow> bool) \<Rightarrow> nat \<Rightarrow> nat \<Rightarrow> nat" where
  "bisect fits lo hi =
     (if 1 < hi - lo
      then let mid = lo + (hi - lo) div 2 in if fits mid then bisect fits mid hi else bisect fits lo mid
      else lo)"
  by pat_completeness auto
termination
  by (relation "measure (\<lambda>(_, lo, hi). hi - lo)") auto

declare bisect.simps [simp del]

definition compute_result_ceiling :: "string \<Rightarrow> FidelityMode option \<Rightarrow> ResultCeiling" where
  "compute_result_ceiling s declared =
     (case declared of
        Some mode \<Rightarrow> let applied = apply_fidelity mode s in
          \<lparr>rc_output = applied, rc_truncated = False, rc_kept_len = length applied, rc_original_len = length s\<rparr>
      | None \<Rightarrow>
          let head_budget = BODY_BUDGET_BYTES - MARKER_RESERVE_BYTES in
          if json_escaped_len s \<le> BODY_BUDGET_BYTES
          then \<lparr>rc_output = s, rc_truncated = False, rc_kept_len = length s, rc_original_len = length s\<rparr>
          else let lo = bisect (\<lambda>mid. json_escaped_len (take mid s) \<le> head_budget) 0 (length s);
                   best = snap_boundary s lo
               in \<lparr>rc_output = take best s, rc_truncated = True, rc_kept_len = best, rc_original_len = length s\<rparr>)"

definition apply_result_ceiling :: "string \<Rightarrow> FidelityMode option \<Rightarrow> string" where
  "apply_result_ceiling s declared = with_marker (compute_result_ceiling s declared) None"

subsection \<open>The execution summary\<close>

definition FOOTER_HEADER :: string where
  "FOOTER_HEADER = [CHR 0x0A, CHR 0x0A] @ ''---'' @ [CHR 0x0A] @ ''Pipeline execution summary:'' @ [CHR 0x0A]"

definition assemble_footer :: "string list \<Rightarrow> string \<Rightarrow> nat \<Rightarrow> string" where
  "assemble_footer node_lines total_line keep =
     (let n = length node_lines in
      FOOTER_HEADER @ join [CHR 0x0A] (take keep node_lines)
      @ (if keep < n
         then (if 0 < keep then [CHR 0x0A] else []) @ ''... [+'' @ nat_text (n - keep) @ '' more nodes omitted]''
         else [])
      @ CHR 0x0A # total_line)"

definition bound_footer :: "string list \<Rightarrow> string \<Rightarrow> string" where
  "bound_footer node_lines total_line =
     (let full = assemble_footer node_lines total_line (length node_lines) in
      if json_escaped_len full \<le> FOOTER_BUDGET_BYTES then full
      else assemble_footer node_lines total_line
             (bisect (\<lambda>keep. json_escaped_len (assemble_footer node_lines total_line keep) \<le> FOOTER_BUDGET_BYTES)
                0 (length node_lines)))"

subsection \<open>Lemmas\<close>

lemma json_escaped_len_bytes_sum:
  "json_escaped_len_bytes n s = n + sum_list (map escaped_byte_len s)"
  by (induction n s rule: json_escaped_len_bytes.induct) auto

lemma json_escaped_len_simps [simp]:
  "json_escaped_len [] = 0"
  "json_escaped_len (c # s) = escaped_byte_len c + json_escaped_len s"
  "json_escaped_len (s @ t) = json_escaped_len s + json_escaped_len t"
  by (simp_all add: json_escaped_len_def json_escaped_len_bytes_sum)

lemma escaped_byte_len_bounds: "1 \<le> escaped_byte_len c \<and> escaped_byte_len c \<le> 6"
  by (simp add: escaped_byte_len_def Let_def)

lemma json_escaped_len_take_mono: "i \<le> j \<Longrightarrow> json_escaped_len (take i s) \<le> json_escaped_len (take j s)"
  by (metis add.commute json_escaped_len_simps(3) le_add2 le_add_diff_inverse take_add)

lemma json_escaped_len_take_le: "json_escaped_len (take i s) \<le> json_escaped_len s"
  by (metis append_take_drop_id json_escaped_len_simps(3) le_add1)

lemma length_le_escaped: "length s \<le> json_escaped_len s"
  using escaped_byte_len_bounds by (induction s) (auto simp: Suc_leI add_mono intro: le_trans)

lemma json_escaped_len_replicate: "json_escaped_len (replicate n c) = n * escaped_byte_len c"
  by (induction n) auto

lemma escaped_digit: "is_ascii_digit c \<Longrightarrow> escaped_byte_len c = 1"
  by (auto simp: is_ascii_digit_def escaped_byte_len_def Let_def)

lemma escaped_nat_text: "json_escaped_len (nat_text n) = length (nat_text n)"
proof -
  have "json_escaped_len s = length s" if "list_all is_ascii_digit s" for s
    using that by (induction s) (auto simp: escaped_digit)
  then show ?thesis by (simp add: nat_text_digits)
qed

text \<open>The search keeps its bracket and stops at a place where the test flips.\<close>

lemma bisect_flip:
  assumes "lo < hi" "fits lo" "\<not> fits hi"
  shows "lo \<le> bisect fits lo hi \<and> bisect fits lo hi < hi
    \<and> fits (bisect fits lo hi) \<and> \<not> fits (Suc (bisect fits lo hi))"
  using assms
proof (induction fits lo hi rule: bisect.induct)
  case (1 fits lo hi)
  define mid where "mid = lo + (hi - lo) div 2"
  show ?case
  proof (cases "1 < hi - lo")
    case True
    then have mid: "lo < mid" "mid < hi" by (auto simp: mid_def)
    have step: "bisect fits lo hi = (if fits mid then bisect fits mid hi else bisect fits lo mid)"
      using True by (subst bisect.simps) (simp add: mid_def Let_def)
    show ?thesis
    proof (cases "fits mid")
      case T: True
      from "1.IH"(1)[OF True mid_def T mid(2) T "1.prems"(3)] mid T step show ?thesis by auto
    next
      case F: False
      from "1.IH"(2)[OF True mid_def F mid(1) "1.prems"(2) F] mid F step show ?thesis by auto
    qed
  next
    case False
    with "1.prems" have "hi = Suc lo" by auto
    with "1.prems" False show ?thesis by (subst (1 2 3 4) bisect.simps) auto
  qed
qed


lemma bisect_largest:
  assumes "lo < hi" "fits lo" "\<not> fits hi"
    and mono: "\<And>i j. i \<le> j \<Longrightarrow> fits j \<Longrightarrow> fits i"
  shows "fits i \<longleftrightarrow> i \<le> bisect fits lo hi"
  using bisect_flip[of lo hi fits, OF assms(1-3)] mono by (meson not_less_eq_eq)

lemma usize_text: "n < 2 ^ 64 \<Longrightarrow> json_escaped_len (nat_text n) \<le> 20"
  by (simp add: escaped_nat_text length_nat_text_bound)

text \<open>The marker fits its reservation.\<close>

lemma marker_fits:
  assumes "rc_kept_len c < 2 ^ 64" "rc_original_len c < 2 ^ 64"
    and "\<And>name. report = Some name \<Longrightarrow> json_escaped_len name \<le> 167"
  shows "json_escaped_len (with_marker c report) \<le> json_escaped_len (rc_output c) + MARKER_RESERVE_BYTES"
  using usize_text[OF assms(1)] usize_text[OF assms(2)] assms(3)
  by (cases report)
     (auto simp: with_marker_def MARKER_RESERVE_BYTES_def escaped_byte_len_def byte_def Let_def)

lemma ceiling_truncates:
  assumes over: "BODY_BUDGET_BYTES < json_escaped_len s"
  obtains off where
    "compute_result_ceiling s None = \<lparr>rc_output = take (snap_boundary s off) s, rc_truncated = True,
      rc_kept_len = snap_boundary s off, rc_original_len = length s\<rparr>"
    "\<And>i. json_escaped_len (take i s) \<le> BODY_BUDGET_BYTES - MARKER_RESERVE_BYTES \<longleftrightarrow> i \<le> off"
    "off < length s"
proof -
  let ?fits = "\<lambda>mid. json_escaped_len (take mid s) \<le> BODY_BUDGET_BYTES - MARKER_RESERVE_BYTES"
  have "0 < length s" using over by (cases s) auto
  moreover have "\<not> ?fits (length s)" using over by simp
  moreover have "?fits i" if "i \<le> j" "?fits j" for i j
    using that json_escaped_len_take_mono[of i j s] by simp
  ultimately have "?fits i \<longleftrightarrow> i \<le> bisect ?fits 0 (length s)" for i
    by (intro bisect_largest) auto
  moreover have "bisect ?fits 0 (length s) < length s"
    using bisect_flip[of 0 "length s" ?fits] \<open>0 < length s\<close> over by auto
  moreover have "compute_result_ceiling s None = \<lparr>rc_output = take (snap_boundary s (bisect ?fits 0 (length s))) s,
      rc_truncated = True, rc_kept_len = snap_boundary s (bisect ?fits 0 (length s)), rc_original_len = length s\<rparr>"
    using over by (simp add: compute_result_ceiling_def Let_def)
  ultimately show ?thesis using that by blast
qed

lemma footer_scaffold_fits:
  assumes "length node_lines < 2 ^ 64" "json_escaped_len total_line \<le> FOOTER_BUDGET_BYTES - 86"
  shows "json_escaped_len (assemble_footer node_lines total_line 0) \<le> FOOTER_BUDGET_BYTES"
  using usize_text[OF assms(1)] assms(2)
  by (simp add: assemble_footer_def FOOTER_HEADER_def FOOTER_BUDGET_BYTES_def escaped_byte_len_def
      byte_def Let_def)

subsection \<open>Properties\<close>

text \<open>A result body over the serialized budget is cut at the largest character boundary whose
  escaped prefix still leaves room for the truncation marker: the kept head is a prefix, ends on a
  boundary, fits, and no longer boundary prefix fits.\<close>

theorem result_head_is_longest_fitting_prefix:
  assumes "BODY_BUDGET_BYTES < json_escaped_len s"
  shows "let c = compute_result_ceiling s None; budget = BODY_BUDGET_BYTES - MARKER_RESERVE_BYTES in
    rc_truncated c \<and> rc_output c = take (rc_kept_len c) s \<and> is_char_boundary s (rc_kept_len c)
    \<and> json_escaped_len (rc_output c) \<le> budget
    \<and> (\<forall>i. is_char_boundary s i \<longrightarrow> json_escaped_len (take i s) \<le> budget \<longrightarrow> i \<le> rc_kept_len c)"
  by (rule ceiling_truncates[OF assms])
     (simp add: Let_def snap_boundary_boundary snap_boundary_le snap_boundary_greatest)

theorem result_head_is_longest_fitting_prefix_witness:
  "BODY_BUDGET_BYTES < json_escaped_len (replicate 500000 (CHR 0x41))
   \<and> rc_truncated (compute_result_ceiling (replicate 500000 (CHR 0x41)) None)"
  using result_head_is_longest_fitting_prefix[of "replicate 500000 (CHR 0x41)"]
  by (simp add: json_escaped_len_replicate escaped_byte_len_def byte_def budget_defs Let_def)

text \<open>C28. The producer-side frame guarantee: with no declared fidelity mode, the escaped length of
  the (possibly marked) body plus that of the bounded execution summary never exceeds the frame
  budget, whatever bytes the result holds and however many nodes ran; lengths are those of a
  64-bit \<^verbatim>\<open>usize\<close>, the report name has at most 167 escaped bytes and the total line leaves 86 bytes
  for the scaffold.\<close>

theorem result_and_footer_fit_frame:
  assumes "length s < 2 ^ 64" "length node_lines < 2 ^ 64"
    and "json_escaped_len total_line \<le> FOOTER_BUDGET_BYTES - 86"
    and "\<And>name. report = Some name \<Longrightarrow> json_escaped_len name \<le> 167"
  shows "json_escaped_len (with_marker (compute_result_ceiling s None) report)
       + json_escaped_len (bound_footer node_lines total_line) \<le> MAX_FRAME_BUDGET_BYTES"
proof -
  let ?c = "compute_result_ceiling s None"
  have body: "json_escaped_len (with_marker ?c report) \<le> BODY_BUDGET_BYTES"
  proof (cases "json_escaped_len s \<le> BODY_BUDGET_BYTES")
    case True
    then show ?thesis by (simp add: compute_result_ceiling_def with_marker_def)
  next
    case False
    then have "BODY_BUDGET_BYTES < json_escaped_len s" by simp
    then obtain off where c: "?c = \<lparr>rc_output = take (snap_boundary s off) s, rc_truncated = True,
        rc_kept_len = snap_boundary s off, rc_original_len = length s\<rparr>"
      and fits: "\<And>i. json_escaped_len (take i s) \<le> BODY_BUDGET_BYTES - MARKER_RESERVE_BYTES \<longleftrightarrow> i \<le> off"
      and "off < length s" by (rule ceiling_truncates) blast
    then have "snap_boundary s off < 2 ^ 64"
      using assms(1) snap_boundary_le[of s off] by linarith
    with assms(1) have "json_escaped_len (with_marker ?c report) \<le> json_escaped_len (rc_output ?c) + MARKER_RESERVE_BYTES"
      by (intro marker_fits assms(4)) (simp_all add: c)
    moreover have "json_escaped_len (rc_output ?c) \<le> BODY_BUDGET_BYTES - MARKER_RESERVE_BYTES"
      by (simp add: c fits snap_boundary_le)
    ultimately show ?thesis by (simp add: budget_defs)
  qed
  have footer: "json_escaped_len (bound_footer node_lines total_line) \<le> FOOTER_BUDGET_BYTES"
    using bisect_flip[of 0 "length node_lines"
        "\<lambda>keep. json_escaped_len (assemble_footer node_lines total_line keep) \<le> FOOTER_BUDGET_BYTES"]
      footer_scaffold_fits[OF assms(2,3)]
    by (cases "node_lines = []") (auto simp: bound_footer_def Let_def)
  from body footer show ?thesis by (simp add: BODY_BUDGET_BYTES_def budget_defs)
qed

theorem result_and_footer_fit_frame_witness:
  "json_escaped_len (with_marker (compute_result_ceiling (replicate 500000 (CHR 0x00)) None) (Some ''run.md''))
     + json_escaped_len (bound_footer (replicate 5000 ''- node (model): 12ms'') ''Total: 3'')
     \<le> MAX_FRAME_BUDGET_BYTES"
  by (rule result_and_footer_fit_frame)
     (auto simp: escaped_byte_len_def byte_def Let_def FOOTER_BUDGET_BYTES_def)

end
