(* ===== verification/Graph_Model.thy ===== *)
theory Graph_Model
  imports Prelude Rust_Float Fidelity
begin

text \<open>
  Model of the data types of \<^verbatim>\<open>crates/octos-pipeline/src/graph.rs\<close>: the parsed pipeline graph, its
  nodes, edges and subgraphs, handler kinds, deadline actions, node outcomes, and the check that an
  identifier is safe as a path component. Cycle detection of the same file is in \<open>Cycles\<close>. Fields
  carry a one-letter prefix because record fields are global constants.
\<close>

subsection \<open>Enumerations\<close>

datatype HandlerKind = Codergen | Shell | Gate | Noop | Parallel | DynamicParallel
  | ShellCheck | Notify | Wait

definition handler_from_str :: "string \<Rightarrow> HandlerKind option" where
  "handler_from_str s =
     (if s = ''codergen'' then Some Codergen
      else if s = ''shell'' then Some Shell
      else if s = ''shell_check'' then Some ShellCheck
      else if s = ''gate'' then Some Gate
      else if s = ''noop'' then Some Noop
      else if s = ''parallel'' then Some Parallel
      else if s = ''dynamic_parallel'' then Some DynamicParallel
      else None)"

definition handler_from_shape :: "string \<Rightarrow> HandlerKind option" where
  "handler_from_shape shape =
     (if shape = ''Mdiamond'' then Some Noop
      else if shape = ''Msquare'' then Some Noop
      else if shape = ''box'' then Some Codergen
      else if shape = ''hexagon'' then Some Gate
      else if shape = ''diamond'' then Some Gate
      else if shape = ''component'' then Some Parallel
      else if shape = ''parallelogram'' then Some Shell
      else None)"

datatype DeadlineAction = Abort | Skip | Retry (max_attempts: u32) | Escalate

fun deadline_action_name :: "DeadlineAction \<Rightarrow> string" where
  "deadline_action_name Abort = ''abort''"
| "deadline_action_name Skip = ''skip''"
| "deadline_action_name (Retry _) = ''retry''"
| "deadline_action_name Escalate = ''escalate''"

datatype OutcomeStatus = Pass | Fail | Error | Skipped

subsection \<open>Records\<close>

record MissionCheckpoint =
  mc_name :: string
  mc_resumable :: bool

record TokenUsage =
  input_tokens :: u32
  output_tokens :: u32
  reasoning_tokens :: u32
  cache_read_tokens :: u32
  cache_write_tokens :: u32

record NodeOutcome =
  o_node_id :: string
  o_status :: OutcomeStatus
  o_content :: string
  o_token_usage :: TokenUsage
  o_files_modified :: "string list"

record Subgraph =
  s_id :: string
  s_label :: "string option"
  s_node_ids :: "string list"

record PipelineEdge =
  e_source :: string
  e_target :: string
  e_label :: "string option"
  e_condition :: "string option"
  e_weight :: f64

record PipelineNode =
  n_id :: string
  n_handler :: HandlerKind
  n_prompt :: "string option"
  n_label :: "string option"
  n_model :: "string option"
  n_context_window :: "u32 option"
  n_max_output_tokens :: "u32 option"
  n_reasoning_effort :: "string option"
  n_max_iterations :: "u32 option"
  n_tools :: "string list"
  n_goal_gate :: bool
  n_max_retries :: u32
  n_timeout_secs :: "u64 option"
  n_suggested_next :: "string option"
  n_converge :: "string option"
  n_worker_prompt :: "string option"
  n_planner_model :: "string option"
  n_max_tasks :: "u32 option"
  n_human_gate :: bool
  n_resolver :: "string option"
  n_artifact_refs :: "string list"
  n_checkpoint_refs :: "string list"
  n_deadline_secs :: "f64 option"
  n_deadline_action :: "DeadlineAction option"
  n_continue_on_error :: bool
  n_checkpoints :: "MissionCheckpoint list"

record PipelineGraph =
  g_id :: string
  g_label :: "string option"
  g_default_model :: "string option"
  g_max_total_tokens :: "u32 option"
  g_default_timeout_secs :: "u64 option"
  g_result_fidelity :: "FidelityMode option"
  g_nodes :: "(string, PipelineNode) hashmap"
  g_edges :: "PipelineEdge list"
  g_subgraphs :: "Subgraph list"

record NodeSummary =
  ns_node_id :: string
  ns_label :: string
  ns_model :: "string option"
  ns_token_usage :: TokenUsage
  ns_duration_ms :: u64
  ns_success :: bool

definition default_node :: PipelineNode where
  "default_node =
     \<lparr>n_id = [], n_handler = Codergen, n_prompt = None, n_label = None, n_model = None,
      n_context_window = None, n_max_output_tokens = None, n_reasoning_effort = None,
      n_max_iterations = None, n_tools = [], n_goal_gate = False, n_max_retries = 0,
      n_timeout_secs = None, n_suggested_next = None, n_converge = None, n_worker_prompt = None,
      n_planner_model = None, n_max_tasks = None, n_human_gate = False, n_resolver = None,
      n_artifact_refs = [], n_checkpoint_refs = [], n_deadline_secs = None, n_deadline_action = None,
      n_continue_on_error = False, n_checkpoints = []\<rparr>"

text \<open>A graph as the parser and the compiler build it: the node map is a map and every node is
  stored under its own identifier.\<close>

definition graph_wf :: "PipelineGraph \<Rightarrow> bool" where
  "graph_wf g \<longleftrightarrow> hm_wf (g_nodes g) \<and> (\<forall>(k, n) \<in> set (g_nodes g). n_id n = k)"

abbreviation edge_pairs :: "PipelineEdge list \<Rightarrow> (string \<times> string) list" where
  "edge_pairs es \<equiv> map (\<lambda>e. (e_source e, e_target e)) es"

subsection \<open>Identifiers\<close>

datatype id_error = IdEmpty | IdTooLong string | IdUnsafe string | IdControl string

text \<open>\<^verbatim>\<open>str::chars\<close>: the scalars of a string, each as its bytes.\<close>

function scalars :: "string \<Rightarrow> string list" where
  "scalars s = (case next_scalar s of None \<Rightarrow> [] | Some (sc, rest) \<Rightarrow> sc # scalars rest)"
  by pat_completeness auto
termination
  by (relation "measure length") (auto dest: next_scalar_shorter sym)

declare scalars.simps [simp del]

definition validate_pipeline_id :: "string \<Rightarrow> (id_error, unit) sum" where
  "validate_pipeline_id i =
     (if i = [] then Inl IdEmpty
      else if 128 < length i then Inl (IdTooLong (concat (take 32 (scalars i))))
      else if List.member i (CHR ''/'') \<or> List.member i (CHR 0x5C) \<or> List.member i (CHR 0x00)
              \<or> str_contains i ''..'' then Inl (IdUnsafe i)
      else if list_ex is_control (scalars i) then Inl (IdControl i)
      else Inr ())"

text \<open>The bytes of a string are the bytes of its scalars, and an ASCII control byte at a scalar
  position is a control scalar.\<close>

lemma concat_scalars: "concat (scalars s) = s"
proof (induction s rule: scalars.induct)
  case (1 s)
  then show ?case
    by (subst scalars.simps) (auto split: option.splits dest: next_scalar_append simp: next_scalar_def split: list.splits)
qed

end
