(* ===== verification/Cycles.thy ===== *)
theory Cycles
  imports Graph_Model
begin

text \<open>
  Cycle detection by three-colour depth-first search. The repository has the search three times:
  \<^verbatim>\<open>PipelineGraph::detect_cycles\<close> (graph.rs), \<^verbatim>\<open>detect_cycles_ignoring_marked_back_edges\<close>
  (validate.rs, used by rule 17 and by the executor) and \<^verbatim>\<open>detect_cycle_ir\<close> (compose.rs). The three
  nested functions \<^verbatim>\<open>dfs\<close> have one body, modelled once as \<open>dfs\<close>; compose.rs keeps no white set, which
  is the instance with an empty one. The callers differ in the edges they skip and in the test that
  guards a new root. The recursion carries a depth fuel of one more than the number of nodes that
  can occur, and the search is shown never to exhaust it. The contract of a detector is the locale
  \<open>cycle_check\<close>; each of the three functions is an interpretation of it.
\<close>

subsection \<open>The search\<close>

record colors =
  white :: "string set"
  gray :: "string set"
  black :: "string set"
  path :: "string list"

datatype dfs_result = Explored colors | CycleAt "string list" | OutOfFuel

definition position_or_0 :: "'a \<Rightarrow> 'a list \<Rightarrow> nat" where
  "position_or_0 x xs = (if List.member xs x then length (takeWhile (\<lambda>y. y \<noteq> x) xs) else 0)"

fun visit_neighbors :: "(string \<Rightarrow> colors \<Rightarrow> dfs_result) \<Rightarrow> string list \<Rightarrow> colors \<Rightarrow> dfs_result" where
  "visit_neighbors rec [] c = Explored c"
| "visit_neighbors rec (next # rest) c =
     (if next \<in> black c then visit_neighbors rec rest c
      else if next \<in> gray c then CycleAt (drop (position_or_0 next (path c)) (path c) @ [next])
      else (case rec next c of Explored c' \<Rightarrow> visit_neighbors rec rest c' | r \<Rightarrow> r))"

primrec dfs :: "nat \<Rightarrow> (string, string list) hashmap \<Rightarrow> string \<Rightarrow> colors \<Rightarrow> dfs_result" where
  "dfs 0 adj node c = OutOfFuel"
| "dfs (Suc k) adj node c =
     (let c1 = c\<lparr>white := white c - {node}, gray := insert node (gray c), path := path c @ [node]\<rparr>
      in case visit_neighbors (dfs k adj) (case hm_get adj node of Some ns \<Rightarrow> ns | None \<Rightarrow> []) c1 of
           Explored c2 \<Rightarrow> Explored (c2\<lparr>gray := gray c2 - {node}, black := insert node (black c2), path := butlast (path c2)\<rparr>)
         | r \<Rightarrow> r)"

fun visit_roots :: "(colors \<Rightarrow> string \<Rightarrow> bool) \<Rightarrow> (string \<Rightarrow> colors \<Rightarrow> dfs_result) \<Rightarrow> string list \<Rightarrow> colors \<Rightarrow> dfs_result" where
  "visit_roots fresh rec [] c = Explored c"
| "visit_roots fresh rec (node # rest) c =
     (if fresh c node
      then (case rec node c of Explored c' \<Rightarrow> visit_roots fresh rec rest c' | r \<Rightarrow> r)
      else visit_roots fresh rec rest c)"

definition push_neighbor :: "string \<times> string \<Rightarrow> (string, string list) hashmap \<Rightarrow> (string, string list) hashmap" where
  "push_neighbor e adj =
     hm_insert (fst e) ((case hm_get adj (fst e) of Some ns \<Rightarrow> ns | None \<Rightarrow> []) @ [snd e]) adj"

definition build_adj :: "(string \<times> string) list \<Rightarrow> (string, string list) hashmap" where
  "build_adj es = fold push_neighbor es []"

definition dfs_fuel :: "string list \<Rightarrow> (string \<times> string) list \<Rightarrow> nat" where
  "dfs_fuel ks es = Suc (length ks + length es)"

subsection \<open>The three detectors\<close>

definition detect_cycles :: "PipelineGraph \<Rightarrow> dfs_result" where
  "detect_cycles g =
     (let es = edge_pairs (g_edges g); ks = hm_keys (g_nodes g)
      in visit_roots (\<lambda>c node. node \<in> white c) (dfs (dfs_fuel ks es) (build_adj es)) ks
           \<lparr>white = set ks, gray = {}, black = {}, path = []\<rparr>)"

definition has_back_edge_marker :: "string \<Rightarrow> bool" where
  "has_back_edge_marker value0 =
     (let value = to_ascii_lowercase value0 in
      str_contains value ''retry'' \<or> str_contains value ''back_edge''
      \<or> str_contains value ''back-edge'' \<or> str_contains value ''guard_back'')"

definition edge_allows_back_edge :: "PipelineEdge \<Rightarrow> bool" where
  "edge_allows_back_edge e =
     ((case e_label e of Some l \<Rightarrow> has_back_edge_marker l | None \<Rightarrow> False)
      \<or> (case e_condition e of Some c \<Rightarrow> has_back_edge_marker c | None \<Rightarrow> False))"

definition detect_cycles_ignoring_marked_back_edges :: "PipelineGraph \<Rightarrow> dfs_result" where
  "detect_cycles_ignoring_marked_back_edges g =
     (let es = edge_pairs (filter (\<lambda>e. \<not> edge_allows_back_edge e) (g_edges g)); ks = hm_keys (g_nodes g)
      in visit_roots (\<lambda>c node. node \<in> white c) (dfs (dfs_fuel ks es) (build_adj es)) ks
           \<lparr>white = set ks, gray = {}, black = {}, path = []\<rparr>)"

definition detect_cycle_ir :: "PipelineGraph \<Rightarrow> dfs_result" where
  "detect_cycle_ir g =
     (let es = edge_pairs (filter (\<lambda>e. e_label e \<noteq> Some ''back_edge'') (g_edges g)); ks = hm_keys (g_nodes g)
      in visit_roots (\<lambda>c node. node \<notin> black c) (dfs (dfs_fuel ks es) (build_adj es)) ks
           \<lparr>white = {}, gray = {}, black = {}, path = []\<rparr>)"

text \<open>The text of the error the three functions return.\<close>

definition cycle_message :: "string list \<Rightarrow> string" where
  "cycle_message cyc = ''cycle detected: '' @ join '' -> '' cyc"

subsection \<open>Adjacency\<close>

lemma build_adj_get:
  "(case hm_get (build_adj es) x of Some ns \<Rightarrow> ns | None \<Rightarrow> []) = map snd (filter (\<lambda>e. fst e = x) es)"
proof (induction es rule: rev_induct)
  case (snoc e es)
  then show ?case by (auto simp: build_adj_def push_neighbor_def hm_simps)
qed (simp add: build_adj_def)

lemma build_adj_set:
  "set (case hm_get (build_adj es) x of Some ns \<Rightarrow> ns | None \<Rightarrow> []) = {y. (x, y) \<in> set es}"
  by (force simp: build_adj_get)

subsection \<open>Correctness of the search\<close>

definition edge_path :: "string rel \<Rightarrow> string list \<Rightarrow> bool" where
  "edge_path E p \<longleftrightarrow> successively (\<lambda>a b. (a, b) \<in> E) p"

text \<open>A closed walk of at least one edge, within what the roots reach.\<close>

definition is_cycle :: "string rel \<Rightarrow> string set \<Rightarrow> string list \<Rightarrow> bool" where
  "is_cycle E R cyc \<longleftrightarrow>
     2 \<le> length cyc \<and> hd cyc = last cyc \<and> edge_path E cyc \<and> set cyc \<subseteq> E\<^sup>* `` R"

definition good :: "string rel \<Rightarrow> string set \<Rightarrow> colors \<Rightarrow> bool" where
  "good E R c \<longleftrightarrow>
     gray c = set (path c) \<and> distinct (path c) \<and> edge_path E (path c) \<and> gray c \<inter> black c = {}
     \<and> E `` black c \<subseteq> black c \<and> (\<forall>b \<in> black c. (b, b) \<notin> E\<^sup>+)
     \<and> set (path c) \<subseteq> E\<^sup>* `` R \<and> white c \<inter> (gray c \<union> black c) = {}"

definition keeps :: "colors \<Rightarrow> colors \<Rightarrow> bool" where
  "keeps c c' \<longleftrightarrow> path c' = path c \<and> black c \<subseteq> black c' \<and> white c \<subseteq> white c' \<union> black c'"

fun outcome :: "string rel \<Rightarrow> string set \<Rightarrow> (colors \<Rightarrow> bool) \<Rightarrow> dfs_result \<Rightarrow> bool" where
  "outcome E R P (Explored c) \<longleftrightarrow> P c"
| "outcome E R P (CycleAt cyc) \<longleftrightarrow> is_cycle E R cyc"
| "outcome E R P OutOfFuel \<longleftrightarrow> False"

lemma keeps_refl [simp]: "keeps c c"
  by (simp add: keeps_def)

lemma keeps_trans: "keeps a b \<Longrightarrow> keeps b c \<Longrightarrow> keeps a c"
  by (auto simp: keeps_def)

lemma outcome_cases [consumes 1, case_names Explored CycleAt]:
  assumes "outcome E R P r"
  obtains c where "r = Explored c" "P c" | cyc where "r = CycleAt cyc" "is_cycle E R cyc"
  using assms by (cases r) auto

lemma outcome_mono: "outcome E R P r \<Longrightarrow> (\<And>c. P c \<Longrightarrow> Q c) \<Longrightarrow> outcome E R Q r"
  by (cases r) auto

lemma drop_position:
  assumes "x \<in> set p"
  shows "\<exists>pre post. p = pre @ x # post \<and> drop (position_or_0 x p) p = x # post"
  using assms split_list_first[OF assms]
  by (auto simp: position_or_0_def takeWhile_append)

lemma closed_reach: "E `` B \<subseteq> B \<Longrightarrow> x \<in> B \<Longrightarrow> (x, y) \<in> E\<^sup>* \<Longrightarrow> y \<in> B"
  by (metis Image_closed_trancl ImageI)

text \<open>A gray neighbour closes a cycle along the path.\<close>

lemma gray_neighbor_cycle:
  assumes "good E R c" "path c \<noteq> []" "(last (path c), y) \<in> E" "y \<in> gray c"
  shows "is_cycle E R (drop (position_or_0 y (path c)) (path c) @ [y])"
proof -
  have "y \<in> set (path c)" using assms(1,4) by (simp add: good_def)
  then obtain pre post where p: "path c = pre @ y # post"
    and d: "drop (position_or_0 y (path c)) (path c) = y # post"
    using drop_position by metis
  have "edge_path E (y # post)" "last (y # post) = last (path c)" "set (y # post) \<subseteq> E\<^sup>* `` R"
    using assms(1) p by (auto simp: good_def edge_path_def successively_append_iff)
  moreover from this assms(3) have "edge_path E ((y # post) @ [y])"
    unfolding edge_path_def successively_append_iff by simp
  ultimately show ?thesis unfolding d is_cycle_def by simp
qed

lemma visit_neighbors_outcome:
  assumes rec: "\<And>y c. \<lbrakk>good E R c; path c = p; y \<in> set ns; y \<notin> gray c; y \<notin> black c\<rbrakk>
      \<Longrightarrow> outcome E R (\<lambda>c'. good E R c' \<and> keeps c c' \<and> y \<in> black c') (rec y c)"
    and "good E R c" "path c = p" "p \<noteq> []" "\<And>y. y \<in> set ns \<Longrightarrow> (last p, y) \<in> E"
  shows "outcome E R (\<lambda>c'. good E R c' \<and> keeps c c' \<and> set ns \<subseteq> black c') (visit_neighbors rec ns c)"
  using assms
proof (induction ns arbitrary: c)
  case (Cons y ns)
  have tail: "outcome E R (\<lambda>c'. good E R c' \<and> keeps c c' \<and> set (y # ns) \<subseteq> black c') (visit_neighbors rec ns c1)"
    if "good E R c1" "keeps c c1" "y \<in> black c1" for c1
  proof -
    have "outcome E R (\<lambda>c'. good E R c' \<and> keeps c1 c' \<and> set ns \<subseteq> black c') (visit_neighbors rec ns c1)"
      using that Cons.prems by (intro Cons.IH) (auto simp: keeps_def)
    then show ?thesis
      by (rule outcome_mono) (use that in \<open>auto simp: keeps_def\<close>)
  qed
  consider "y \<in> black c" | "y \<notin> black c" "y \<in> gray c" | "y \<notin> black c" "y \<notin> gray c" by blast
  then show ?case
  proof cases
    case 1
    then show ?thesis using tail[of c] Cons.prems by simp
  next
    case 2
    then show ?thesis using gray_neighbor_cycle[of E R c y] Cons.prems by simp
  next
    case 3
    with Cons.prems have "outcome E R (\<lambda>c'. good E R c' \<and> keeps c c' \<and> y \<in> black c') (rec y c)" by simp
    then show ?thesis
      by (cases rule: outcome_cases) (use 3 tail in auto)
  qed
qed simp

text \<open>Blackening a node whose successors are all black keeps the invariant.\<close>

lemma good_blacken:
  assumes "good E R c" "path c = p @ [x]" "E `` {x} \<subseteq> black c"
  shows "good E R (c\<lparr>gray := gray c - {x}, black := insert x (black c), path := butlast (path c)\<rparr>)"
proof -
  have "(x, x) \<notin> E\<^sup>+"
  proof
    assume "(x, x) \<in> E\<^sup>+"
    then obtain y where "(x, y) \<in> E" "(y, x) \<in> E\<^sup>*" by (meson tranclD)
    then have "x \<in> black c" using assms(1,3) closed_reach[of E "black c" y x] by (auto simp: good_def)
    then show False using assms(1,2) by (auto simp: good_def)
  qed
  with assms show ?thesis
    by (auto simp: good_def edge_path_def successively_append_iff)
qed

lemma dfs_outcome:
  assumes "finite N" "E \<subseteq> UNIV \<times> N" "\<And>x. set (case hm_get adj x of Some ns \<Rightarrow> ns | None \<Rightarrow> []) = E `` {x}"
  shows "\<lbrakk>good E R c; x \<in> N; x \<in> E\<^sup>* `` R; x \<notin> gray c; x \<notin> black c;
      path c = [] \<or> (last (path c), x) \<in> E; card (N - gray c) \<le> k\<rbrakk>
    \<Longrightarrow> outcome E R (\<lambda>c'. good E R c' \<and> keeps c c' \<and> x \<in> black c') (dfs k adj x c)"
proof (induction k arbitrary: x c)
  case 0
  then have "N - gray c = {}" using assms(1) by simp
  with 0 show ?case by auto
next
  case (Suc k)
  define c1 where "c1 = c\<lparr>white := white c - {x}, gray := insert x (gray c), path := path c @ [x]\<rparr>"
  let ?ns = "case hm_get adj x of Some ns \<Rightarrow> ns | None \<Rightarrow> []"
  have good1: "good E R c1"
    using Suc.prems by (auto simp: good_def c1_def edge_path_def successively_append_iff)
  have "outcome E R (\<lambda>c'. good E R c' \<and> keeps c1 c' \<and> set ?ns \<subseteq> black c') (visit_neighbors (dfs k adj) ?ns c1)"
  proof (rule visit_neighbors_outcome)
    fix y d assume d: "good E R d" "path d = path c1" "y \<in> set ?ns" "y \<notin> gray d" "y \<notin> black d"
    have y: "(x, y) \<in> E" using d(3) assms(3)[of x] by blast
    have "gray d = insert x (gray c)" using d(1,2) Suc.prems(1) by (auto simp: good_def c1_def)
    then have "N - gray c = insert x (N - gray d)" "x \<notin> N - gray d" using Suc.prems(2,4) by auto
    then have "card (N - gray d) \<le> k" using assms(1) Suc.prems(7) by simp
    moreover have "y \<in> E\<^sup>* `` R" using y Suc.prems(3) by (auto intro: rtrancl_into_rtrancl)
    ultimately show "outcome E R (\<lambda>c'. good E R c' \<and> keeps d c' \<and> y \<in> black c') (dfs k adj y d)"
      using d y assms(2) by (intro Suc.IH) (auto simp: c1_def)
  qed (use good1 assms(3)[of x] in \<open>auto simp: c1_def\<close>)
  then show ?case
  proof (cases rule: outcome_cases)
    case (Explored c2)
    have "good E R (c2\<lparr>gray := gray c2 - {x}, black := insert x (black c2), path := butlast (path c2)\<rparr>)"
      using Explored assms(3)[of x] by (intro good_blacken[of _ _ _ "path c"]) (auto simp: keeps_def c1_def)
    with Explored show ?thesis by (auto simp: c1_def[symmetric] Let_def) (auto simp: keeps_def c1_def)
  next
    case (CycleAt cyc)
    then show ?thesis by (simp add: c1_def[symmetric] Let_def)
  qed
qed

lemma visit_roots_outcome:
  assumes fresh: "\<And>x c. good E R c \<Longrightarrow> path c = [] \<Longrightarrow> fresh c x \<Longrightarrow> x \<notin> black c"
    and seen: "\<And>x c. good E R c \<Longrightarrow> path c = [] \<Longrightarrow> P c \<Longrightarrow> x \<in> K \<Longrightarrow> \<not> fresh c x \<Longrightarrow> x \<in> black c"
    and P: "\<And>c c'. P c \<Longrightarrow> keeps c c' \<Longrightarrow> P c'"
    and rec: "\<And>x c. \<lbrakk>good E R c; path c = []; x \<in> K; x \<notin> black c\<rbrakk>
      \<Longrightarrow> outcome E R (\<lambda>c'. good E R c' \<and> keeps c c' \<and> x \<in> black c') (rec x c)"
  shows "\<lbrakk>good E R c; path c = []; P c; set ks \<subseteq> K\<rbrakk>
    \<Longrightarrow> outcome E R (\<lambda>c'. good E R c' \<and> keeps c c' \<and> set ks \<subseteq> black c') (visit_roots fresh rec ks c)"
proof (induction ks arbitrary: c)
  case (Cons x ks)
  have tail: "outcome E R (\<lambda>c'. good E R c' \<and> keeps c c' \<and> set (x # ks) \<subseteq> black c') (visit_roots fresh rec ks c1)"
    if "good E R c1" "keeps c c1" "x \<in> black c1" for c1
  proof -
    have "outcome E R (\<lambda>c'. good E R c' \<and> keeps c1 c' \<and> set ks \<subseteq> black c') (visit_roots fresh rec ks c1)"
    proof (rule Cons.IH)
      show "P c1" using Cons.prems(3) that(2) by (rule P)
    qed (use that Cons.prems in \<open>simp_all add: keeps_def\<close>)
    then show ?thesis by (rule outcome_mono) (use that in \<open>auto simp: keeps_def\<close>)
  qed
  show ?case
  proof (cases "fresh c x")
    case True
    have "outcome E R (\<lambda>c'. good E R c' \<and> keeps c c' \<and> x \<in> black c') (rec x c)"
      using Cons.prems fresh[OF _ _ True] by (intro rec) simp_all
    then show ?thesis
      by (cases rule: outcome_cases) (use True tail in auto)
  next
    case False
    then show ?thesis using tail[of c] seen[of c x] Cons.prems by simp
  qed
qed simp

subsection \<open>The contract of a detector\<close>

fun is_ok :: "dfs_result \<Rightarrow> bool" where
  "is_ok (Explored _) \<longleftrightarrow> True"
| "is_ok _ \<longleftrightarrow> False"

text \<open>No closed walk is reachable from the given roots.\<close>

definition cycle_free_from :: "string set \<Rightarrow> string rel \<Rightarrow> bool" where
  "cycle_free_from R E \<longleftrightarrow> (\<forall>v \<in> R. \<forall>u. (v, u) \<in> E\<^sup>* \<longrightarrow> (u, u) \<notin> E\<^sup>+)"

lemma edge_path_reach: "edge_path E (a # p) \<Longrightarrow> (a, last (a # p)) \<in> E\<^sup>*"
proof (induction p arbitrary: a)
  case (Cons b p)
  then show ?case by (auto simp: edge_path_def intro: converse_rtrancl_into_rtrancl)
qed simp

lemma is_cycle_trancl:
  assumes "is_cycle E R cyc"
  shows "\<exists>v \<in> R. (v, hd cyc) \<in> E\<^sup>* \<and> (hd cyc, hd cyc) \<in> E\<^sup>+"
proof -
  obtain a b p where p: "cyc = a # b # p"
    using assms by (auto simp: is_cycle_def numeral_2_eq_2 Suc_le_length_iff)
  have "(a, b) \<in> E" "edge_path E (b # p)" "last (b # p) = a" "a \<in> E\<^sup>* `` R"
    using assms by (auto simp: p is_cycle_def edge_path_def)
  with edge_path_reach[of E b p] show ?thesis by (auto simp: p intro: rtrancl_into_trancl2)
qed

locale cycle_check =
  fixes check :: "PipelineGraph \<Rightarrow> dfs_result"
    and edges_of :: "PipelineGraph \<Rightarrow> string rel"
    and roots_of :: "PipelineGraph \<Rightarrow> string set"
  assumes outcome: "outcome (edges_of g) (roots_of g)
      (\<lambda>c. good (edges_of g) (roots_of g) c \<and> roots_of g \<subseteq> black c) (check g)"
begin

lemma not_out_of_fuel: "check g \<noteq> OutOfFuel"
  using outcome[of g] by auto

lemma reported_cycle: "check g = CycleAt cyc \<Longrightarrow> is_cycle (edges_of g) (roots_of g) cyc"
  using outcome[of g] by auto

lemma ok_iff: "is_ok (check g) \<longleftrightarrow> cycle_free_from (roots_of g) (edges_of g)"
proof
  assume "is_ok (check g)"
  then obtain c where c: "good (edges_of g) (roots_of g) c" "roots_of g \<subseteq> black c"
    using outcome[of g] by (cases "check g") auto
  then show "cycle_free_from (roots_of g) (edges_of g)"
    using closed_reach[of "edges_of g" "black c"] by (fastforce simp: cycle_free_from_def good_def)
next
  assume free: "cycle_free_from (roots_of g) (edges_of g)"
  from outcome[of g] show "is_ok (check g)"
  proof (cases rule: outcome_cases)
    case (CycleAt cyc)
    with is_cycle_trancl free show ?thesis unfolding cycle_free_from_def by blast
  qed simp
qed

text \<open>When every edge starts at a declared node, acceptance is acyclicity of the whole relation.\<close>

lemma ok_iff_acyclic:
  assumes "edges_of g \<subseteq> roots_of g \<times> UNIV"
  shows "is_ok (check g) \<longleftrightarrow> acyclic (edges_of g)"
proof -
  have "v \<in> roots_of g" if "(v, v) \<in> (edges_of g)\<^sup>+" for v
    using that assms by (meson SigmaD1 subsetD tranclD)
  then show ?thesis unfolding ok_iff cycle_free_from_def acyclic_def by blast
qed

lemma rejects_cyclic:
  assumes "edges_of g \<subseteq> roots_of g \<times> UNIV" "\<not> acyclic (edges_of g)"
  obtains cyc where "check g = CycleAt cyc" "is_cycle (edges_of g) (roots_of g) cyc"
  using outcome[of g] ok_iff_acyclic[OF assms(1)] assms(2) by (cases "check g") auto

end

subsection \<open>The detectors meet the contract\<close>

lemma dfs_from_root:
  assumes "good (set es) (set ks) c" "path c = []" "x \<in> set ks" "x \<notin> black c"
  shows "outcome (set es) (set ks) (\<lambda>c'. good (set es) (set ks) c' \<and> keeps c c' \<and> x \<in> black c')
    (dfs (dfs_fuel ks es) (build_adj es) x c)"
proof (rule dfs_outcome)
  let ?N = "set ks \<union> snd ` set es"
  show "finite ?N" "set es \<subseteq> UNIV \<times> ?N" "x \<in> ?N" using assms(3) by force+
  have "card ?N \<le> length ks + length es"
    by (meson add_mono card_Un_le card_image_le card_length finite_set le_trans)
  with card_mono[of ?N "?N - gray c"] show "card (?N - gray c) \<le> dfs_fuel ks es"
    by (auto simp: dfs_fuel_def)
  show "x \<in> (set es)\<^sup>* `` set ks" using assms(3) by auto
  show "set (case hm_get (build_adj es) y of Some ns \<Rightarrow> ns | None \<Rightarrow> []) = set es `` {y}" for y
    by (auto simp: build_adj_set)
qed (use assms in \<open>auto simp: good_def\<close>)

lemma white_roots_outcome:
  "outcome (set es) (set ks) (\<lambda>c. good (set es) (set ks) c \<and> set ks \<subseteq> black c)
     (visit_roots (\<lambda>c node. node \<in> white c) (dfs (dfs_fuel ks es) (build_adj es)) ks
        \<lparr>white = set ks, gray = {}, black = {}, path = []\<rparr>)"
  by (rule outcome_mono[OF visit_roots_outcome[where P = "\<lambda>c. set ks \<subseteq> white c \<union> black c" and K = "set ks"]])
     (auto simp: dfs_from_root, auto simp: good_def edge_path_def keeps_def)

lemma black_roots_outcome:
  "outcome (set es) (set ks) (\<lambda>c. good (set es) (set ks) c \<and> set ks \<subseteq> black c)
     (visit_roots (\<lambda>c node. node \<notin> black c) (dfs (dfs_fuel ks es) (build_adj es)) ks
        \<lparr>white = {}, gray = {}, black = {}, path = []\<rparr>)"
  by (rule outcome_mono[OF visit_roots_outcome[where P = "\<lambda>c. True" and K = "set ks"]])
     (auto simp: dfs_from_root, auto simp: good_def edge_path_def)

definition all_edges :: "PipelineGraph \<Rightarrow> string rel" where
  "all_edges g = set (edge_pairs (g_edges g))"

definition forward_edges :: "PipelineGraph \<Rightarrow> string rel" where
  "forward_edges g = set (edge_pairs (filter (\<lambda>e. \<not> edge_allows_back_edge e) (g_edges g)))"

definition unlabelled_edges :: "PipelineGraph \<Rightarrow> string rel" where
  "unlabelled_edges g = set (edge_pairs (filter (\<lambda>e. e_label e \<noteq> Some ''back_edge'') (g_edges g)))"

definition node_ids :: "PipelineGraph \<Rightarrow> string set" where
  "node_ids g = set (hm_keys (g_nodes g))"

interpretation graph_check: cycle_check detect_cycles all_edges node_ids
  unfolding all_edges_def node_ids_def detect_cycles_def Let_def
  by unfold_locales (rule white_roots_outcome)

interpretation marked_check: cycle_check detect_cycles_ignoring_marked_back_edges forward_edges node_ids
  unfolding forward_edges_def node_ids_def detect_cycles_ignoring_marked_back_edges_def Let_def
  by unfold_locales (rule white_roots_outcome)

interpretation ir_check: cycle_check detect_cycle_ir unlabelled_edges node_ids
  unfolding unlabelled_edges_def node_ids_def detect_cycle_ir_def Let_def
  by unfold_locales (rule black_roots_outcome)

subsection \<open>Properties\<close>

text \<open>A node and an edge with nothing but their names, for concrete graphs.\<close>

definition bare_node :: "string \<Rightarrow> string \<times> PipelineNode" where
  "bare_node i = (i, default_node\<lparr>n_id := i\<rparr>)"

definition bare_edge :: "string \<Rightarrow> string \<Rightarrow> PipelineEdge" where
  "bare_edge a b = \<lparr>e_source = a, e_target = b, e_label = None, e_condition = None, e_weight = Fin 1\<rparr>"

definition bare_graph :: "string list \<Rightarrow> PipelineEdge list \<Rightarrow> PipelineGraph" where
  "bare_graph ns es = \<lparr>g_id = ''g'', g_label = None, g_default_model = None, g_max_total_tokens = None,
     g_default_timeout_secs = None, g_result_fidelity = None, g_nodes = map bare_node ns, g_edges = es,
     g_subgraphs = []\<rparr>"

lemmas bare_defs = bare_graph_def bare_node_def bare_edge_def

text \<open>C21. \<^verbatim>\<open>PipelineGraph::detect_cycles\<close> terminates (its recursion depth never exceeds the number of
  nodes), succeeds exactly when no cycle is reachable from a declared node, and the path it reports
  on failure is a real closed walk along edges of the graph.\<close>

theorem detect_cycles_correct:
  "detect_cycles g \<noteq> OutOfFuel
   \<and> (is_ok (detect_cycles g) \<longleftrightarrow> cycle_free_from (node_ids g) (all_edges g))
   \<and> (\<forall>cyc. detect_cycles g = CycleAt cyc \<longrightarrow> is_cycle (all_edges g) (node_ids g) cyc)"
  using graph_check.not_out_of_fuel graph_check.ok_iff graph_check.reported_cycle by blast

theorem detect_cycles_correct_witness:
  "is_cycle (all_edges (bare_graph [''a'', ''b''] [bare_edge ''a'' ''b'', bare_edge ''b'' ''a'']))
     (node_ids (bare_graph [''a'', ''b''] [bare_edge ''a'' ''b'', bare_edge ''b'' ''a''])) [''a'', ''b'', ''a'']"
proof -
  have "detect_cycles (bare_graph [''a'', ''b''] [bare_edge ''a'' ''b'', bare_edge ''b'' ''a''])
      = CycleAt [''a'', ''b'', ''a'']"
    by (simp add: detect_cycles_def bare_defs dfs_fuel_def build_adj_def push_neighbor_def
        position_or_0_def Let_def numeral_eq_Suc)
  then show ?thesis using detect_cycles_correct by blast
qed

text \<open>The validator's cycle check sees exactly the edges that carry no back-edge marker in label
  or condition: on a graph whose edges start at declared nodes it succeeds if and only if those
  edges form an acyclic relation, and otherwise it reports a closed walk of unmarked edges.\<close>

theorem marked_back_edges_correct:
  assumes "\<forall>e \<in> set (g_edges g). e_source e \<in> node_ids g"
  shows "(is_ok (detect_cycles_ignoring_marked_back_edges g) \<longleftrightarrow> acyclic (forward_edges g))
    \<and> (\<not> acyclic (forward_edges g) \<longrightarrow> (\<exists>cyc. detect_cycles_ignoring_marked_back_edges g = CycleAt cyc
          \<and> is_cycle (forward_edges g) (node_ids g) cyc))"
proof -
  have sub: "forward_edges g \<subseteq> node_ids g \<times> UNIV" using assms by (auto simp: forward_edges_def)
  from marked_check.ok_iff_acyclic[OF this] marked_check.rejects_cyclic[OF sub]
  show ?thesis by metis
qed

theorem marked_back_edges_correct_witness:
  "acyclic (forward_edges (bare_graph [''a'', ''b'']
     [bare_edge ''a'' ''b'', (bare_edge ''b'' ''a'')\<lparr>e_label := Some ''retry''\<rparr>]))"
proof -
  let ?g = "bare_graph [''a'', ''b''] [bare_edge ''a'' ''b'', (bare_edge ''b'' ''a'')\<lparr>e_label := Some ''retry''\<rparr>]"
  have "is_ok (detect_cycles_ignoring_marked_back_edges ?g)"
    by (simp add: detect_cycles_ignoring_marked_back_edges_def edge_allows_back_edge_def
        has_back_edge_marker_def to_ascii_lowercase_def ascii_lower_def byte_def bare_defs dfs_fuel_def
        build_adj_def push_neighbor_def position_or_0_def Let_def numeral_eq_Suc)
  moreover have "\<forall>e \<in> set (g_edges ?g). e_source e \<in> node_ids ?g"
    by (simp add: bare_defs node_ids_def)
  ultimately show ?thesis using marked_back_edges_correct by blast
qed

end
