(* ===== verification/Condition.thy ===== *)
theory Condition
  imports Graph_Model
begin

text \<open>
  Model of \<^verbatim>\<open>crates/octos-pipeline/src/condition.rs\<close>: the tokenizer, the recursive-descent parser and
  the evaluator of edge conditions. The parser state is the list of tokens still to read. The mutual
  recursion of \<^verbatim>\<open>parse_or\<close>, \<^verbatim>\<open>parse_and\<close>, \<^verbatim>\<open>parse_unary\<close> and \<^verbatim>\<open>parse_primary\<close> is on the nesting depth of
  parentheses, and the two \<^verbatim>\<open>while\<close> loops count down the tokens left; both bounds are the number of
  tokens, which is shown to be enough for every input. String literals are byte lists; the final lossy UTF-8 decoding
  is the identity because the bytes come from a \<^verbatim>\<open>str\<close> and the tokenizer only drops ASCII bytes.
\<close>

subsection \<open>Expressions and their evaluation\<close>

datatype CondExpr = StatusEq string | StatusNe string | Contains string
  | ContextEq string string | ContextNe string string
  | CNot CondExpr | CAnd CondExpr CondExpr | COr CondExpr CondExpr | CTrue

type_synonym EvalContext = "(string, string) hashmap"

fun status_str :: "OutcomeStatus \<Rightarrow> string" where
  "status_str Pass = ''pass''"
| "status_str Fail = ''fail''"
| "status_str Error = ''error''"
| "status_str Skipped = ''skipped''"

fun evaluate_with_context :: "CondExpr \<Rightarrow> NodeOutcome \<Rightarrow> EvalContext \<Rightarrow> bool" where
  "evaluate_with_context (StatusEq s) out ctx \<longleftrightarrow> status_str (o_status out) = s"
| "evaluate_with_context (StatusNe s) out ctx \<longleftrightarrow> status_str (o_status out) \<noteq> s"
| "evaluate_with_context (Contains s) out ctx \<longleftrightarrow> str_contains (o_content out) s"
| "evaluate_with_context (ContextEq key val) out ctx \<longleftrightarrow> (case hm_get ctx key of Some v \<Rightarrow> v = val | None \<Rightarrow> False)"
| "evaluate_with_context (ContextNe key val) out ctx \<longleftrightarrow> (case hm_get ctx key of Some v \<Rightarrow> v \<noteq> val | None \<Rightarrow> True)"
| "evaluate_with_context (CNot e) out ctx \<longleftrightarrow> \<not> evaluate_with_context e out ctx"
| "evaluate_with_context (CAnd a b) out ctx \<longleftrightarrow> evaluate_with_context a out ctx \<and> evaluate_with_context b out ctx"
| "evaluate_with_context (COr a b) out ctx \<longleftrightarrow> evaluate_with_context a out ctx \<or> evaluate_with_context b out ctx"
| "evaluate_with_context CTrue out ctx \<longleftrightarrow> True"

definition evaluate :: "CondExpr \<Rightarrow> NodeOutcome \<Rightarrow> bool" where
  "evaluate e out = evaluate_with_context e out []"

subsection \<open>Tokens\<close>

datatype Token = TIdent string | TStringLit string | TEq | TNe | TAnd | TOr | TNot
  | TLParen | TRParen | TDot

datatype cond_error = UnexpectedChar char nat | UnexpectedToken nat Token
  | ExpectedToken Token "Token option" | ExpectedStatusCmp "Token option"
  | UnknownOutcomeField "Token option" | ExpectedContextKey "Token option"
  | ExpectedContextCmp string "Token option" | ExpectedPrimary "Token option"
  | ExpectedString "Token option" | CondOutOfFuel

definition unescape :: "char \<Rightarrow> string" where
  "unescape c =
     (if c = CHR ''n'' then [CHR 0x0A] else if c = CHR ''t'' then [CHR 0x09]
      else if c = CHR 0x5C then [CHR 0x5C] else if c = CHR 0x22 then [CHR 0x22]
      else [CHR 0x5C, c])"

fun string_literal :: "string \<Rightarrow> string \<Rightarrow> string \<times> string" where
  "string_literal buf [] = (buf, [])"
| "string_literal buf [b] = (if b = CHR 0x22 then (buf, []) else (buf @ [b], []))"
| "string_literal buf (b # c # cs) =
     (if b = CHR 0x22 then (buf, c # cs)
      else if b = CHR 0x5C then string_literal (buf @ unescape c) cs
      else string_literal (buf @ [b]) (c # cs))"

definition is_ident_byte :: "char \<Rightarrow> bool" where
  "is_ident_byte c \<longleftrightarrow> is_ascii_alphanumeric c \<or> c = CHR ''_''"

lemma string_literal_shorter: "length (snd (string_literal buf bs)) \<le> length bs"
  by (induction buf bs rule: string_literal.induct) auto

function tokenize_loop :: "nat \<Rightarrow> string \<Rightarrow> Token list \<Rightarrow> (cond_error, Token list) sum" where
  "tokenize_loop i [] tokens = Inr tokens"
| "tokenize_loop i (b # bs) tokens =
     (if b = CHR '' '' \<or> b = CHR 0x09 \<or> b = CHR 0x0A \<or> b = CHR 0x0D then tokenize_loop (i + 1) bs tokens
      else if b = CHR ''('' then tokenize_loop (i + 1) bs (tokens @ [TLParen])
      else if b = CHR '')'' then tokenize_loop (i + 1) bs (tokens @ [TRParen])
      else if b = CHR ''.'' then tokenize_loop (i + 1) bs (tokens @ [TDot])
      else if b = CHR ''='' \<and> bs \<noteq> [] \<and> hd bs = CHR ''='' then tokenize_loop (i + 2) (tl bs) (tokens @ [TEq])
      else if b = CHR ''!'' \<and> bs \<noteq> [] \<and> hd bs = CHR ''='' then tokenize_loop (i + 2) (tl bs) (tokens @ [TNe])
      else if b = CHR ''!'' then tokenize_loop (i + 1) bs (tokens @ [TNot])
      else if b = CHR ''&'' \<and> bs \<noteq> [] \<and> hd bs = CHR ''&'' then tokenize_loop (i + 2) (tl bs) (tokens @ [TAnd])
      else if b = CHR 0x7C \<and> bs \<noteq> [] \<and> hd bs = CHR 0x7C then tokenize_loop (i + 2) (tl bs) (tokens @ [TOr])
      else if b = CHR 0x22 then
        (let (s, rest) = string_literal [] bs
         in tokenize_loop (i + 1 + (length bs - length rest)) rest (tokens @ [TStringLit s]))
      else if is_ident_byte b then
        (let s = takeWhile is_ident_byte (b # bs); rest = dropWhile is_ident_byte (b # bs)
         in tokenize_loop (i + length s) rest (tokens @ [TIdent s]))
      else Inl (UnexpectedChar b i))"
  by pat_completeness auto

lemma string_literal_shorter': "string_literal buf bs = (s, rest) \<Longrightarrow> length rest \<le> length bs"
  using string_literal_shorter[of buf bs] by simp

lemma dropWhile_shorter: "P b \<Longrightarrow> length (dropWhile P (b # bs)) < Suc (length bs)"
  by (simp add: length_dropWhile_le le_imp_less_Suc)

termination tokenize_loop
  by (relation "measure (\<lambda>(i, bs, toks). length bs)")
     (auto dest: string_literal_shorter'[OF sym] simp: length_dropWhile_le le_imp_less_Suc less_Suc_eq_le)

definition tokenize :: "string \<Rightarrow> (cond_error, Token list) sum" where
  "tokenize s = tokenize_loop 0 s []"

subsection \<open>The parser\<close>

type_synonym parsed = "(cond_error, CondExpr \<times> Token list) sum"

definition advance :: "Token list \<Rightarrow> Token option \<times> Token list" where
  "advance ts = (case ts of [] \<Rightarrow> (None, []) | t # ts' \<Rightarrow> (Some t, ts'))"

definition expect_token :: "Token \<Rightarrow> Token list \<Rightarrow> (cond_error, Token list) sum" where
  "expect_token t ts = (let (got, rest) = advance ts in
     if got = Some t then Inr rest else Inl (ExpectedToken t got))"

definition expect_string :: "Token list \<Rightarrow> (cond_error, string \<times> Token list) sum" where
  "expect_string ts = (case advance ts of
     (Some (TStringLit s), rest) \<Rightarrow> Inr (s, rest) | (other, _) \<Rightarrow> Inl (ExpectedString other))"

text \<open>The \<^verbatim>\<open>outcome\<close> and \<^verbatim>\<open>context\<close> arms of \<^verbatim>\<open>parse_primary\<close>, after the keyword.\<close>

definition parse_comparison :: "(string \<Rightarrow> CondExpr) \<Rightarrow> (string \<Rightarrow> CondExpr) \<Rightarrow> (Token option \<Rightarrow> cond_error) \<Rightarrow> Token list \<Rightarrow> parsed" where
  "parse_comparison eq ne err ts = (case advance ts of
     (Some TEq, rest) \<Rightarrow> and_then (expect_string rest) (\<lambda>(v, rest'). Inr (eq v, rest'))
   | (Some TNe, rest) \<Rightarrow> and_then (expect_string rest) (\<lambda>(v, rest'). Inr (ne v, rest'))
   | (other, _) \<Rightarrow> Inl (err other))"

definition parse_outcome :: "Token list \<Rightarrow> parsed" where
  "parse_outcome ts = and_then (expect_token TDot ts) (\<lambda>ts1.
     let (field, ts2) = advance ts1 in
     if field = Some (TIdent ''status'') then parse_comparison StatusEq StatusNe ExpectedStatusCmp ts2
     else if field = Some (TIdent ''contains'') then
       and_then (expect_token TLParen ts2) (\<lambda>ts3.
       and_then (expect_string ts3) (\<lambda>(v, ts4).
       and_then (expect_token TRParen ts4) (\<lambda>ts5. Inr (Contains v, ts5))))
     else Inl (UnknownOutcomeField field))"

definition parse_context :: "Token list \<Rightarrow> parsed" where
  "parse_context ts = and_then (expect_token TDot ts) (\<lambda>ts1.
     case advance ts1 of
       (Some (TIdent k), ts2) \<Rightarrow> parse_comparison (ContextEq k) (ContextNe k) (ExpectedContextCmp k) ts2
     | (other, _) \<Rightarrow> Inl (ExpectedContextKey other))"

text \<open>\<^verbatim>\<open>parse_primary\<close> over the parser of a parenthesized expression.\<close>

definition parse_primary :: "(Token list \<Rightarrow> parsed) \<Rightarrow> Token list \<Rightarrow> parsed" where
  "parse_primary rec ts =
     (let (tok, rest) = advance ts in
      if tok = Some TLParen
      then and_then (rec rest) (\<lambda>(e, ts1). and_then (expect_token TRParen ts1) (\<lambda>ts2. Inr (e, ts2)))
      else if tok = Some (TIdent ''outcome'') then parse_outcome rest
      else if tok = Some (TIdent ''context'') then parse_context rest
      else Inl (ExpectedPrimary tok))"

primrec parse_unary :: "(Token list \<Rightarrow> parsed) \<Rightarrow> Token list \<Rightarrow> parsed" where
  "parse_unary prim [] = prim []"
| "parse_unary prim (t # ts) =
     (if t = TNot then and_then (parse_unary prim ts) (\<lambda>(e, ts1). Inr (CNot e, ts1)) else prim (t # ts))"

text \<open>The loops \<^verbatim>\<open>while self.peek() == Some(op)\<close>.\<close>

primrec operator_loop :: "Token \<Rightarrow> (CondExpr \<Rightarrow> CondExpr \<Rightarrow> CondExpr) \<Rightarrow> (Token list \<Rightarrow> parsed) \<Rightarrow> nat
    \<Rightarrow> CondExpr \<Rightarrow> Token list \<Rightarrow> parsed" where
  "operator_loop op con item 0 left ts = Inl CondOutOfFuel"
| "operator_loop op con item (Suc k) left ts =
     (let (tok, rest) = advance ts in
      if tok = Some op
      then and_then (item rest) (\<lambda>(right, ts1). operator_loop op con item k (con left right) ts1)
      else Inr (left, ts))"

definition parse_and :: "(Token list \<Rightarrow> parsed) \<Rightarrow> Token list \<Rightarrow> parsed" where
  "parse_and prim ts =
     and_then (parse_unary prim ts) (\<lambda>(left, ts1).
       operator_loop TAnd CAnd (parse_unary prim) (Suc (length ts1)) left ts1)"

definition parse_or_level :: "(Token list \<Rightarrow> parsed) \<Rightarrow> Token list \<Rightarrow> parsed" where
  "parse_or_level prim ts =
     and_then (parse_and prim ts) (\<lambda>(left, ts1).
       operator_loop TOr COr (parse_and prim) (Suc (length ts1)) left ts1)"

text \<open>\<^verbatim>\<open>parse_or\<close>, with the nesting depth of parentheses as fuel.\<close>

primrec parse_or :: "nat \<Rightarrow> Token list \<Rightarrow> parsed" where
  "parse_or 0 ts = Inl CondOutOfFuel"
| "parse_or (Suc d) ts = parse_or_level (parse_primary (parse_or d)) ts"

definition parse_condition :: "string \<Rightarrow> (cond_error, CondExpr) sum" where
  "parse_condition s =
     and_then (tokenize s) (\<lambda>tokens.
     and_then (parse_or (Suc (length tokens)) tokens) (\<lambda>(e, rest).
       case rest of [] \<Rightarrow> Inr e
       | t # _ \<Rightarrow> Inl (UnexpectedToken (length tokens - length rest) t)))"

subsection \<open>The parser never runs out of fuel\<close>

text \<open>On fewer than \<open>L\<close> tokens the parser is not short of fuel and consumes something.\<close>

definition solid :: "nat \<Rightarrow> (Token list \<Rightarrow> (cond_error, 'a \<times> Token list) sum) \<Rightarrow> bool" where
  "solid L p \<longleftrightarrow> (\<forall>ts. length ts < L \<longrightarrow>
     (case p ts of Inl e \<Rightarrow> e \<noteq> CondOutOfFuel | Inr (_, rest) \<Rightarrow> length rest < length ts))"

lemma solidD:
  assumes "solid L p" "length ts < L"
  shows "p ts \<noteq> Inl CondOutOfFuel" "p ts = Inr (a, rest) \<Longrightarrow> length rest < length ts"
  using assms unfolding solid_def by fastforce+

lemma solidI:
  assumes "\<And>ts. length ts < L \<Longrightarrow> p ts \<noteq> Inl CondOutOfFuel"
    and "\<And>ts a rest. length ts < L \<Longrightarrow> p ts = Inr (a, rest) \<Longrightarrow> length rest < length ts"
  shows "solid L p"
  using assms unfolding solid_def by (fastforce split: sum.splits)

lemma advance_simps [simp]: "advance [] = (None, [])" "advance (t # ts) = (Some t, ts)"
  by (simp_all add: advance_def)

lemma expect_token_simps [simp]:
  "expect_token t (t # ts) = Inr ts" "expect_token t [] \<noteq> Inl CondOutOfFuel"
  "expect_token t ts \<noteq> Inl CondOutOfFuel"
  by (auto simp: expect_token_def Let_def split: prod.splits)

lemma expect_token_shorter: "expect_token t ts = Inr rest \<Longrightarrow> length rest < length ts"
  by (cases ts) (auto simp: expect_token_def split: if_splits)

lemma expect_string_simps [simp]:
  "expect_string (TStringLit s # ts) = Inr (s, ts)" "expect_string ts \<noteq> Inl CondOutOfFuel"
  by (auto simp: expect_string_def split: prod.splits option.splits Token.splits)

lemma expect_string_shorter: "expect_string ts = Inr (s, rest) \<Longrightarrow> length rest < length ts"
  by (cases ts) (auto simp: expect_string_def split: Token.splits)

lemmas expect_shorter = expect_token_shorter expect_string_shorter

lemma solid_comparison:
  assumes "\<And>t. err t \<noteq> CondOutOfFuel"
  shows "solid L (parse_comparison eq ne err)"
proof (rule solidI)
  fix ts
  show "parse_comparison eq ne err ts \<noteq> Inl CondOutOfFuel"
    using assms by (cases ts) (auto simp: parse_comparison_def and_then_Inl split: Token.splits)
  fix a rest assume "parse_comparison eq ne err ts = Inr (a, rest)"
  then show "length rest < length ts"
    by (cases ts) (auto simp: parse_comparison_def and_then_Inr split: Token.splits dest: expect_shorter)
qed

lemma solid_outcome: "solid L parse_outcome"
proof (rule solidI)
  note comp = solid_comparison[of ExpectedStatusCmp, simplified]
  fix ts :: "Token list"
  show "parse_outcome ts \<noteq> Inl CondOutOfFuel"
    using solidD(1)[OF comp lessI]
    by (auto simp: parse_outcome_def and_then_Inl Let_def split: prod.splits)
  fix a rest assume "parse_outcome ts = Inr (a, rest)"
  then obtain ts1 where ts1: "expect_token TDot ts = Inr ts1"
    and a: "parse_outcome (TDot # ts1) = Inr (a, rest)"
    by (auto simp: parse_outcome_def and_then_Inr)
  from a have "length rest < length ts1"
    by (cases ts1) (auto simp: parse_outcome_def and_then_Inr split: if_splits
        dest!: expect_shorter solidD(2)[OF comp lessI])
  with ts1 show "length rest < length ts" by (auto dest: expect_shorter)
qed

lemma solid_context: "solid L parse_context"
proof (rule solidI)
  note comp = solid_comparison[of "ExpectedContextCmp _", simplified]
  fix ts :: "Token list"
  show "parse_context ts \<noteq> Inl CondOutOfFuel"
    using solidD(1)[OF comp lessI]
    by (auto simp: parse_context_def and_then_Inl split: prod.splits option.splits Token.splits)
  fix a rest assume "parse_context ts = Inr (a, rest)"
  then obtain ts1 where ts1: "expect_token TDot ts = Inr ts1"
    and a: "parse_context (TDot # ts1) = Inr (a, rest)"
    by (auto simp: parse_context_def and_then_Inr)
  from a have "length rest < length ts1"
    by (cases ts1) (auto simp: parse_context_def and_then_Inr split: Token.splits
        dest!: solidD(2)[OF comp lessI])
  with ts1 show "length rest < length ts" by (auto dest: expect_shorter)
qed

lemma solid_primary:
  assumes "solid L rec" shows "solid (Suc L) (parse_primary rec)"
proof (rule solidI)
  fix ts :: "Token list" assume len: "length ts < Suc L"
  show "parse_primary rec ts \<noteq> Inl CondOutOfFuel"
    using len solidD(1)[OF assms] solidD(1)[OF solid_outcome lessI] solidD(1)[OF solid_context lessI]
    by (cases ts) (auto simp: parse_primary_def and_then_Inl)
  fix a rest assume "parse_primary rec ts = Inr (a, rest)"
  then show "length rest < length ts"
    using len
    by (cases ts) (auto simp: parse_primary_def and_then_Inr split: if_splits
        dest!: expect_shorter solidD(2)[OF assms] solidD(2)[OF solid_outcome lessI] solidD(2)[OF solid_context lessI])
qed

lemma solid_unary:
  assumes "solid L prim" shows "solid L (parse_unary prim)"
proof (rule solidI)
  show "parse_unary prim ts \<noteq> Inl CondOutOfFuel" if "length ts < L" for ts
    using that solidD(1)[OF assms] by (induction ts) (auto simp: and_then_Inl)
  show "length rest < length ts" if "length ts < L" "parse_unary prim ts = Inr (a, rest)" for ts a rest
    using that
  proof (induction ts arbitrary: a)
    case (Cons t ts)
    then show ?case using solidD(2)[OF assms Cons.prems(1)]
      by (auto simp: and_then_Inr less_Suc_eq split: if_splits)
  qed (use solidD(2)[OF assms] in fastforce)
qed

lemma operator_loop_fuel:
  assumes "solid L item"
  shows "length ts < k \<Longrightarrow> length ts \<le> L \<Longrightarrow> operator_loop op con item k left ts \<noteq> Inl CondOutOfFuel"
proof (induction k arbitrary: left ts)
  case (Suc k)
  show ?case
  proof (cases ts)
    case (Cons t ts')
    have len: "length ts' < L" using Cons Suc.prems by simp
    have "operator_loop op con item k (con left r) ts1 \<noteq> Inl CondOutOfFuel" if "item ts' = Inr (r, ts1)" for r ts1
      using solidD(2)[OF assms len that] Suc.IH Cons Suc.prems by simp
    then show ?thesis using Cons solidD(1)[OF assms len] by (auto simp: and_then_Inl)
  qed simp
qed simp

lemma operator_loop_shorter:
  assumes "solid L item"
  shows "length ts < k \<Longrightarrow> length ts \<le> L \<Longrightarrow> operator_loop op con item k left ts = Inr (e, rest)
    \<Longrightarrow> length rest \<le> length ts"
proof (induction k arbitrary: left ts)
  case (Suc k)
  show ?case
  proof (cases ts)
    case (Cons t ts')
    show ?thesis
    proof (cases "t = op")
      case True
      with Cons Suc.prems obtain r ts1 where r: "item ts' = Inr (r, ts1)"
        and loop: "operator_loop op con item k (con left r) ts1 = Inr (e, rest)"
        by (auto simp: and_then_Inr)
      from solidD(2)[OF assms _ r] Cons Suc.prems have "length ts1 < length ts'" by simp
      with Suc.IH[OF _ _ loop] Cons Suc.prems show ?thesis by simp
    qed (use Cons Suc.prems in simp)
  qed (use Suc.prems in simp)
qed simp

lemma solid_level:
  fixes item :: "Token list \<Rightarrow> parsed"
  assumes "solid L item"
  shows "solid L (\<lambda>ts. and_then (item ts) (\<lambda>(left, ts1). operator_loop op con item (Suc (length ts1)) left ts1))"
proof (rule solidI)
  fix ts :: "Token list" assume len: "length ts < L"
  have ts1: "length ts1 < length ts" "length ts1 \<le> L" if "item ts = Inr (l, ts1)" for l ts1
    using solidD(2)[OF assms len that] len by simp_all
  show "and_then (item ts) (\<lambda>(left, ts1). operator_loop op con item (Suc (length ts1)) left ts1) \<noteq> Inl CondOutOfFuel"
    using solidD(1)[OF assms len] ts1(2) operator_loop_fuel[OF assms lessI]
    by (auto simp: and_then_Inl simp del: operator_loop.simps)
  fix a rest assume "and_then (item ts) (\<lambda>(left, ts1). operator_loop op con item (Suc (length ts1)) left ts1) = Inr (a, rest)"
  then obtain l ts1 where l: "item ts = Inr (l, ts1)" and "operator_loop op con item (Suc (length ts1)) l ts1 = Inr (a, rest)"
    by (auto simp: and_then_Inr simp del: operator_loop.simps)
  with operator_loop_shorter[OF assms lessI] ts1 show "length rest < length ts"
    using le_less_trans by blast
qed

lemma solid_parse_or: "solid d (parse_or d)"
proof (induction d)
  case 0
  then show ?case by (simp add: solid_def)
next
  case (Suc d)
  have "solid (Suc d) (parse_and (parse_primary (parse_or d)))"
    using solid_level[OF solid_unary[OF solid_primary[OF Suc]]] by (simp add: parse_and_def[abs_def])
  then show ?case using solid_level by (simp add: parse_or_level_def[abs_def])
qed

subsection \<open>Printing\<close>

text \<open>The printer writes the grammar of the file header with no more parentheses than it needs:
  level 0 is an \<^verbatim>\<open>or_expr\<close>, level 1 an \<^verbatim>\<open>and_expr\<close>, level 2 a \<^verbatim>\<open>unary\<close>.\<close>

definition parens :: "bool \<Rightarrow> Token list \<Rightarrow> Token list" where
  "parens b ts = (if b then TLParen # ts @ [TRParen] else ts)"

primrec cond_tokens :: "nat \<Rightarrow> CondExpr \<Rightarrow> Token list" where
  "cond_tokens l (StatusEq s) = [TIdent ''outcome'', TDot, TIdent ''status'', TEq, TStringLit s]"
| "cond_tokens l (StatusNe s) = [TIdent ''outcome'', TDot, TIdent ''status'', TNe, TStringLit s]"
| "cond_tokens l (Contains s) = [TIdent ''outcome'', TDot, TIdent ''contains'', TLParen, TStringLit s, TRParen]"
| "cond_tokens l (ContextEq k s) = [TIdent ''context'', TDot, TIdent k, TEq, TStringLit s]"
| "cond_tokens l (ContextNe k s) = [TIdent ''context'', TDot, TIdent k, TNe, TStringLit s]"
| "cond_tokens l (CNot e) = TNot # cond_tokens 2 e"
| "cond_tokens l (CAnd a b) = parens (1 < l) (cond_tokens 1 a @ TAnd # cond_tokens 2 b)"
| "cond_tokens l (COr a b) = parens (0 < l) (cond_tokens 0 a @ TOr # cond_tokens 1 b)"
| "cond_tokens l CTrue = []"

text \<open>The expressions the syntax can write: \<open>CTrue\<close> has no spelling, and a context key is an
  identifier.\<close>

primrec printable :: "CondExpr \<Rightarrow> bool" where
  "printable (StatusEq s) \<longleftrightarrow> True"
| "printable (StatusNe s) \<longleftrightarrow> True"
| "printable (Contains s) \<longleftrightarrow> True"
| "printable (ContextEq k s) \<longleftrightarrow> k \<noteq> [] \<and> list_all is_ident_byte k"
| "printable (ContextNe k s) \<longleftrightarrow> k \<noteq> [] \<and> list_all is_ident_byte k"
| "printable (CNot e) \<longleftrightarrow> printable e"
| "printable (CAnd a b) \<longleftrightarrow> printable a \<and> printable b"
| "printable (COr a b) \<longleftrightarrow> printable a \<and> printable b"
| "printable CTrue \<longleftrightarrow> False"

primrec nesting :: "nat \<Rightarrow> CondExpr \<Rightarrow> nat" where
  "nesting l (StatusEq s) = 0" | "nesting l (StatusNe s) = 0" | "nesting l (Contains s) = 0"
| "nesting l (ContextEq k s) = 0" | "nesting l (ContextNe k s) = 0"
| "nesting l (CNot e) = nesting 2 e"
| "nesting l (CAnd a b) = of_bool (1 < l) + max (nesting 1 a) (nesting 2 b)"
| "nesting l (COr a b) = of_bool (0 < l) + max (nesting 0 a) (nesting 1 b)"
| "nesting l CTrue = 0"

lemma nesting_le: "nesting l e \<le> length (cond_tokens l e)"
proof (induction e arbitrary: l)
  case (CAnd a b)
  show ?case using CAnd.IH(1)[of 1] CAnd.IH(2)[of 2] by (auto simp: parens_def)
next
  case (COr a b)
  show ?case using COr.IH(1)[of 0] COr.IH(2)[of 1] by (auto simp: parens_def)
qed (auto intro: le_SucI)

definition quoted :: "string \<Rightarrow> string" where
  "quoted s = concat (map (\<lambda>c. if c = CHR 0x5C \<or> c = CHR 0x22 then [CHR 0x5C, c] else [c]) s)"

primrec token_text :: "Token \<Rightarrow> string" where
  "token_text (TIdent s) = s"
| "token_text (TStringLit s) = CHR 0x22 # quoted s @ [CHR 0x22]"
| "token_text TEq = ''==''" | "token_text TNe = ''!=''" | "token_text TAnd = ''&&''"
| "token_text TOr = [CHR 0x7C, CHR 0x7C]" | "token_text TNot = ''!''" | "token_text TLParen = ''(''"
| "token_text TRParen = '')''" | "token_text TDot = ''.''"

definition print_tokens :: "Token list \<Rightarrow> string" where
  "print_tokens ts = concat (map (\<lambda>t. token_text t @ '' '') ts)"

definition print_condition :: "CondExpr \<Rightarrow> string" where
  "print_condition e = print_tokens (cond_tokens 0 e)"

subsection \<open>Reading printed tokens\<close>

lemma string_literal_plain:
  "b \<noteq> CHR 0x22 \<Longrightarrow> b \<noteq> CHR 0x5C \<Longrightarrow> string_literal buf (b # x @ [CHR 0x22] @ y) = string_literal (buf @ [b]) (x @ [CHR 0x22] @ y)"
  by (cases x) auto

lemma string_literal_quoted: "string_literal buf (quoted s @ CHR 0x22 # rest) = (buf @ s, rest)"
proof (induction s arbitrary: buf)
  case Nil
  then show ?case by (cases rest) (auto simp: quoted_def)
next
  case (Cons c s)
  show ?case
  proof (cases "c = CHR 0x5C \<or> c = CHR 0x22")
    case True
    with Cons show ?thesis by (auto simp: quoted_def unescape_def)
  next
    case False
    with Cons string_literal_plain[of c buf "quoted s" rest] show ?thesis by (simp add: quoted_def)
  qed
qed

definition token_ok :: "Token \<Rightarrow> bool" where
  "token_ok t \<longleftrightarrow> (case t of TIdent s \<Rightarrow> s \<noteq> [] \<and> list_all is_ident_byte s | _ \<Rightarrow> True)"

lemma ident_byte_not_special:
  assumes "is_ident_byte b"
  shows "b \<noteq> CHR '' ''" "b \<noteq> CHR 0x09" "b \<noteq> CHR 0x0A" "b \<noteq> CHR 0x0D" "b \<noteq> CHR ''(''" "b \<noteq> CHR '')''"
    "b \<noteq> CHR ''.''" "b \<noteq> CHR ''=''" "b \<noteq> CHR ''!''" "b \<noteq> CHR ''&''" "b \<noteq> CHR 0x7C" "b \<noteq> CHR 0x22"
  using assms by (auto simp: is_ident_byte_def is_ascii_alphanumeric_def is_ascii_digit_def byte_def)

lemma takeWhile_ident:
  assumes "list_all is_ident_byte s"
  shows "takeWhile is_ident_byte (s @ CHR '' '' # rest) = s" "dropWhile is_ident_byte (s @ CHR '' '' # rest) = CHR '' '' # rest"
  using assms by (induction s) (auto simp: is_ident_byte_def is_ascii_alphanumeric_def is_ascii_digit_def byte_def)

lemma tokenize_token:
  assumes "token_ok t"
  shows "\<exists>j. tokenize_loop i (token_text t @ CHR '' '' # rest) acc = tokenize_loop j rest (acc @ [t])"
proof (cases t)
  case (TIdent s)
  with assms obtain c cs where s: "s = c # cs" "is_ident_byte c" "list_all is_ident_byte (c # cs)"
    by (cases s) (auto simp: token_ok_def)
  show ?thesis
    using takeWhile_ident[OF s(3), of rest] ident_byte_not_special[OF s(2)] s(2)
    unfolding TIdent s(1) token_text.simps append_Cons
    by (subst tokenize_loop.simps) (auto simp: Let_def)
qed (auto simp: string_literal_quoted)

lemma tokenize_tokens:
  "list_all token_ok ts \<Longrightarrow> tokenize_loop i (print_tokens ts) acc = Inr (acc @ ts)"
proof (induction ts arbitrary: i acc)
  case (Cons t ts)
  then obtain j where "tokenize_loop i (token_text t @ CHR '' '' # print_tokens ts) acc = tokenize_loop j (print_tokens ts) (acc @ [t])"
    using tokenize_token by fastforce
  with Cons show ?case by (simp add: print_tokens_def)
qed (simp add: print_tokens_def)

subsection \<open>Parsing printed tokens\<close>

abbreviation prim_at :: "nat \<Rightarrow> Token list \<Rightarrow> parsed" where
  "prim_at d \<equiv> parse_primary (parse_or d)"

definition reads_unary :: "nat \<Rightarrow> Token list \<Rightarrow> CondExpr \<Rightarrow> bool" where
  "reads_unary d ts e \<longleftrightarrow> (\<forall>rest. parse_unary (prim_at d) (ts @ rest) = Inr (e, rest))"

definition reads_and :: "nat \<Rightarrow> Token list \<Rightarrow> CondExpr \<Rightarrow> bool" where
  "reads_and d ts e \<longleftrightarrow> (\<forall>rest. \<exists>k > length rest.
     parse_and (prim_at d) (ts @ rest) = operator_loop TAnd CAnd (parse_unary (prim_at d)) k e rest)"

definition reads_or :: "nat \<Rightarrow> Token list \<Rightarrow> CondExpr \<Rightarrow> bool" where
  "reads_or d ts e \<longleftrightarrow> (\<forall>rest. fst (advance rest) \<noteq> Some TAnd \<longrightarrow> (\<exists>k > length rest.
     parse_or_level (prim_at d) (ts @ rest) = operator_loop TOr COr (parse_and (prim_at d)) k e rest))"

lemma operator_loop_stop:
  "0 < k \<Longrightarrow> fst (advance ts) \<noteq> Some op \<Longrightarrow> operator_loop op con item k e ts = Inr (e, ts)"
  by (cases k) (auto simp: Let_def split: prod.splits)

lemma reads_unary_and: "reads_unary d ts e \<Longrightarrow> reads_and d ts e"
  by (auto simp: reads_unary_def reads_and_def parse_and_def simp del: operator_loop.simps)

lemma reads_and_stop:
  "reads_and d ts e \<Longrightarrow> fst (advance rest) \<noteq> Some TAnd \<Longrightarrow> parse_and (prim_at d) (ts @ rest) = Inr (e, rest)"
  unfolding reads_and_def using operator_loop_stop[of _ rest TAnd] by (auto dest!: spec[of _ rest])

lemma reads_and_or: "reads_and d ts e \<Longrightarrow> reads_or d ts e"
  by (auto simp: reads_or_def parse_or_level_def reads_and_stop simp del: operator_loop.simps)

lemma reads_and_snoc:
  assumes "reads_and d xs a" "reads_unary d ys b"
  shows "reads_and d (xs @ TAnd # ys) (CAnd a b)"
  unfolding reads_and_def
proof
  fix rest
  obtain k where k: "length (TAnd # ys @ rest) < k"
    "parse_and (prim_at d) (xs @ TAnd # ys @ rest) = operator_loop TAnd CAnd (parse_unary (prim_at d)) k a (TAnd # ys @ rest)"
    using assms(1) unfolding reads_and_def by blast
  from k(1) obtain j where "k = Suc j" "length rest < j" by (cases k) auto
  with k(2) assms(2) show "\<exists>k > length rest. parse_and (prim_at d) ((xs @ TAnd # ys) @ rest)
      = operator_loop TAnd CAnd (parse_unary (prim_at d)) k (CAnd a b) rest"
    by (auto simp: reads_unary_def)
qed

lemma reads_or_snoc:
  assumes "reads_or d xs a" "reads_and d ys b"
  shows "reads_or d (xs @ TOr # ys) (COr a b)"
  unfolding reads_or_def
proof (intro allI impI)
  fix rest assume rest: "fst (advance rest) \<noteq> Some TAnd"
  have "fst (advance (TOr # ys @ rest)) \<noteq> Some TAnd" by simp
  then obtain k where k: "length (TOr # ys @ rest) < k"
    "parse_or_level (prim_at d) (xs @ TOr # ys @ rest) = operator_loop TOr COr (parse_and (prim_at d)) k a (TOr # ys @ rest)"
    using assms(1) unfolding reads_or_def by blast
  from k(1) obtain j where "k = Suc j" "length rest < j" by (cases k) auto
  with k(2) reads_and_stop[OF assms(2) rest] show "\<exists>k > length rest. parse_or_level (prim_at d) ((xs @ TOr # ys) @ rest)
      = operator_loop TOr COr (parse_and (prim_at d)) k (COr a b) rest"
    by auto
qed

lemma reads_or_stop:
  "reads_or d ts e \<Longrightarrow> fst (advance rest) \<noteq> Some TAnd \<Longrightarrow> fst (advance rest) \<noteq> Some TOr
   \<Longrightarrow> parse_or (Suc d) (ts @ rest) = Inr (e, rest)"
  unfolding reads_or_def using operator_loop_stop[of _ rest TOr] by (auto dest!: spec[of _ rest])

lemma reads_parens: "reads_or d ts e \<Longrightarrow> reads_unary (Suc d) (TLParen # ts @ [TRParen]) e"
  unfolding reads_unary_def
proof
  fix rest assume "reads_or d ts e"
  then have "parse_or (Suc d) (ts @ TRParen # rest) = Inr (e, TRParen # rest)"
    by (rule reads_or_stop) simp_all
  then show "parse_unary (prim_at (Suc d)) ((TLParen # ts @ [TRParen]) @ rest) = Inr (e, rest)"
    by (simp add: parse_primary_def del: parse_or.simps)
qed

lemma reads_printed:
  assumes "printable e" "nesting l e \<le> d"
  shows "(l = 0 \<longrightarrow> reads_or d (cond_tokens l e) e) \<and> (l = 1 \<longrightarrow> reads_and d (cond_tokens l e) e)
     \<and> (l = 2 \<longrightarrow> reads_unary d (cond_tokens l e) e)"
  using assms
proof (induction e arbitrary: l d)
  case (CNot e)
  then have "reads_unary d (cond_tokens 2 e) e" using CNot.IH[of 2 d] by simp
  then have "reads_unary d (cond_tokens l (CNot e)) (CNot e)" by (simp add: reads_unary_def)
  then show ?case using reads_unary_and reads_and_or by blast
next
  case (CAnd a b)
  have ab: "reads_and d' (cond_tokens 1 a @ TAnd # cond_tokens 2 b) (CAnd a b)"
    if "max (nesting 1 a) (nesting 2 b) \<le> d'" for d'
    using CAnd.IH(1)[of 1 d'] CAnd.IH(2)[of 2 d'] CAnd.prems(1) that by (intro reads_and_snoc) auto
  show ?case
  proof (cases "1 < l")
    case True
    with CAnd.prems(2) obtain d' where "d = Suc d'" "max (nesting 1 a) (nesting 2 b) \<le> d'" by (cases d) auto
    then show ?thesis using True reads_parens[OF reads_and_or[OF ab]] by (auto simp: parens_def)
  qed (use ab[of d] reads_and_or CAnd.prems in \<open>auto simp: parens_def\<close>)
next
  case (COr a b)
  have ab: "reads_or d' (cond_tokens 0 a @ TOr # cond_tokens 1 b) (COr a b)"
    if "max (nesting 0 a) (nesting 1 b) \<le> d'" for d'
    using COr.IH(1)[of 0 d'] COr.IH(2)[of 1 d'] COr.prems(1) that by (intro reads_or_snoc) auto
  show ?case
  proof (cases "0 < l")
    case True
    with COr.prems(2) obtain d' where d: "d = Suc d'" "max (nesting 0 a) (nesting 1 b) \<le> d'" by (cases d) auto
    then have "reads_unary d (cond_tokens l (COr a b)) (COr a b)"
      using True reads_parens[OF ab] by (auto simp: parens_def)
    then show ?thesis using True reads_unary_and by blast
  qed (use ab[of d] COr.prems in \<open>auto simp: parens_def\<close>)
qed (auto simp: reads_unary_def parse_primary_def parse_outcome_def parse_context_def parse_comparison_def
    intro!: reads_and_or reads_unary_and)

lemma printed_tokens_ok: "printable e \<Longrightarrow> list_all token_ok (cond_tokens l e)"
  by (induction e arbitrary: l)
     (auto simp: token_ok_def parens_def is_ident_byte_def is_ascii_alphanumeric_def is_ascii_digit_def byte_def)

subsection \<open>Properties\<close>

text \<open>C32. Printing and parsing round trip: every expression the syntax can write, printed with the
  parentheses the precedence of \<^verbatim>\<open>!\<close>, \<^verbatim>\<open>&&\<close>, \<^verbatim>\<open>||\<close> and left associativity require and with its string
  literals escaped, parses back to itself.\<close>

theorem parse_print_condition:
  assumes "printable e"
  shows "parse_condition (print_condition e) = Inr e"
proof -
  let ?ts = "cond_tokens 0 e"
  have "tokenize (print_condition e) = Inr ?ts"
    using tokenize_tokens[OF printed_tokens_ok[OF assms], of 0] by (simp add: tokenize_def print_condition_def)
  moreover have "reads_or (length ?ts) ?ts e"
    using reads_printed[OF assms nesting_le] by blast
  then have "parse_or (Suc (length ?ts)) ?ts = Inr (e, [])"
    using reads_or_stop[of "length ?ts" ?ts e "[]"] by simp
  ultimately show ?thesis by (simp add: parse_condition_def del: parse_or.simps)
qed

theorem parse_print_condition_witness:
  "parse_condition (print_condition (CAnd (COr (StatusEq ''pass'') (Contains ''x'')) (CNot (ContextNe ''k'' ''v''))))
     = Inr (CAnd (COr (StatusEq ''pass'') (Contains ''x'')) (CNot (ContextNe ''k'' ''v'')))"
  by (rule parse_print_condition)
     (simp add: is_ident_byte_def is_ascii_alphanumeric_def is_ascii_digit_def byte_def)

text \<open>The recursive descent returns for every input: its two bounds, parenthesis depth and
  operators per level, are never the reason of a failure.\<close>

theorem parse_condition_total: "parse_condition s \<noteq> Inl CondOutOfFuel"
proof -
  have lex: "tokenize_loop i bs acc \<noteq> Inl CondOutOfFuel" for i bs acc
    by (induction i bs acc rule: tokenize_loop.induct) (auto simp: Let_def split: prod.splits)
  have "parse_or (Suc (length ts)) ts \<noteq> Inl CondOutOfFuel" for ts
    using solidD(1)[OF solid_parse_or lessI] .
  with lex show ?thesis
    by (auto simp: parse_condition_def tokenize_def and_then_Inl simp del: parse_or.simps split: list.splits)
qed

end
