(* ===== verification/Tool_Policy.thy ===== *)
theory Tool_Policy
  imports Graph_Model
begin

text \<open>
  Model of the tool policy of the agent, \<^verbatim>\<open>crates/octos-agent/src/tools/policy.rs\<close>, with the robot
  safety tiers of \<^verbatim>\<open>permissions.rs\<close> and the tier registry of \<^verbatim>\<open>robot_groups.rs\<close>, and of the policy a
  pipeline worker runs under (\<^verbatim>\<open>CodergenHandler\<close> in \<^verbatim>\<open>octos-pipeline/src/handler.rs\<close>). The registry is a
  process-wide lock in the code; here it is an argument. Its map from tiers to sets is a function,
  because no operation tells an absent tier from an empty one. Metric counters are not modelled; the
  reason they are labelled with is part of the decision.
\<close>

subsection \<open>Safety tiers\<close>

datatype SafetyTier = Observe | SafeMotion | FullActuation | EmergencyOverride

primrec tier_rank :: "SafetyTier \<Rightarrow> nat" where
  "tier_rank Observe = 0"
| "tier_rank SafeMotion = 1"
| "tier_rank FullActuation = 2"
| "tier_rank EmergencyOverride = 3"

instantiation SafetyTier :: linorder
begin

definition less_eq_SafetyTier :: "SafetyTier \<Rightarrow> SafetyTier \<Rightarrow> bool" where
  "less_eq_SafetyTier a b \<longleftrightarrow> tier_rank a \<le> tier_rank b"

definition less_SafetyTier :: "SafetyTier \<Rightarrow> SafetyTier \<Rightarrow> bool" where
  "less_SafetyTier a b \<longleftrightarrow> tier_rank a < tier_rank b"

instance
proof
  fix a b :: SafetyTier
  show "a \<le> b \<Longrightarrow> b \<le> a \<Longrightarrow> a = b"
    by (cases a; cases b) (simp_all add: less_eq_SafetyTier_def)
qed (auto simp: less_eq_SafetyTier_def less_SafetyTier_def)

end

definition ALL_TIERS :: "SafetyTier list" where
  "ALL_TIERS = [Observe, SafeMotion, FullActuation, EmergencyOverride]"

primrec tier_label :: "SafetyTier \<Rightarrow> string" where
  "tier_label Observe = ''observe''"
| "tier_label SafeMotion = ''safe_motion''"
| "tier_label FullActuation = ''full_actuation''"
| "tier_label EmergencyOverride = ''emergency_override''"

definition tier_from_str :: "string \<Rightarrow> SafetyTier option" where
  "tier_from_str s0 =
     (let s = to_ascii_lowercase (trim s0) in
      if s = ''observe'' then Some Observe
      else if s = ''safe_motion'' then Some SafeMotion
      else if s = ''full_actuation'' then Some FullActuation
      else if s = ''emergency_override'' then Some EmergencyOverride
      else None)"

subsection \<open>The robot tool registry\<close>

definition ROBOT_GROUP_PREFIX :: string where "ROBOT_GROUP_PREFIX = ''group:robot:''"

definition group_name :: "SafetyTier \<Rightarrow> string" where
  "group_name t = ROBOT_GROUP_PREFIX @ tier_label t"

definition parse_group_name :: "string \<Rightarrow> SafetyTier option" where
  "parse_group_name g = Option.bind (strip_prefix ROBOT_GROUP_PREFIX g) tier_from_str"

type_synonym registry = "SafetyTier \<Rightarrow> string set"

definition registry_insert :: "string \<Rightarrow> SafetyTier \<Rightarrow> registry \<Rightarrow> bool \<times> registry" where
  "registry_insert name tier reg =
     (let cleared = (\<lambda>t. reg t - {name})
      in (name \<notin> cleared tier, cleared(tier := insert name (cleared tier))))"

definition registry_remove :: "string \<Rightarrow> registry \<Rightarrow> bool \<times> registry" where
  "registry_remove name reg = (list_ex (\<lambda>t. name \<in> reg t) ALL_TIERS, (\<lambda>t. reg t - {name}))"

definition tier_of :: "registry \<Rightarrow> string \<Rightarrow> SafetyTier option" where
  "tier_of reg name = List.find (\<lambda>t. name \<in> reg t) ALL_TIERS"

definition tools_for_tier :: "registry \<Rightarrow> SafetyTier \<Rightarrow> string set" where
  "tools_for_tier reg tier = \<Union> (set (map reg (filter (\<lambda>t. t \<le> tier) ALL_TIERS)))"

definition matches_group :: "registry \<Rightarrow> string \<Rightarrow> string \<Rightarrow> bool" where
  "matches_group reg grp name = (case parse_group_name grp of
       Some tier \<Rightarrow> (case tier_of reg name of Some actual \<Rightarrow> actual \<le> tier | None \<Rightarrow> False)
     | None \<Rightarrow> False)"

definition group_covers_tool :: "registry \<Rightarrow> string \<Rightarrow> string \<Rightarrow> bool" where
  "group_covers_tool reg grp name \<longleftrightarrow> starts_with grp ROBOT_GROUP_PREFIX \<and> matches_group reg grp name"

definition tool_has_tier :: "registry \<Rightarrow> string \<Rightarrow> bool" where
  "tool_has_tier reg name \<longleftrightarrow> tier_of reg name \<noteq> None"

subsection \<open>Named groups\<close>

definition TOOL_GROUPS :: "(string \<times> string list) list" where
  "TOOL_GROUPS =
   [(''group:fs'', [''read_file'', ''write_file'', ''apply_patch'', ''edit_file'', ''diff_edit'']),
    (''group:runtime'', [''shell'', ''exec_command'', ''write_stdin'', ''bash'']),
    (''group:web'', [''web_search'', ''web_fetch'', ''browser'']),
    (''group:search'', [''glob'', ''grep'', ''list_dir'']),
    (''group:sessions'', [''spawn'', ''spawn_agent'', ''send_input'', ''resume_agent'', ''wait_agent'', ''close_agent'', ''delegate'']),
    (''group:memory'', [''recall_memory'', ''save_memory'', ''memory_note'', ''record_memory_use'']),
    (''group:research'', [''search'', ''synthesize_research'', ''deep_crawl'']),
    (''group:admin'', [''manage_skills'', ''configure_tool'', ''model_check'']),
    (''group:media'', [''mofa_make'', ''mofa_describe_content_type'', ''mofa_comic'', ''mofa_slides'', ''mofa_infographic'', ''mofa_cards'', ''fm_tts'', ''fm_voice_list'']),
    (''group:delegated'', [''delegate_task'', ''delegate'', ''spawn'', ''spawn_agent'', ''send_input'', ''resume_agent'', ''wait_agent'', ''close_agent'', ''message'', ''save_memory'', ''memory_note''])]"

definition expand_group :: "string \<Rightarrow> string list option" where
  "expand_group name = map_option snd (List.find (\<lambda>g. fst g = name) TOOL_GROUPS)"

subsection \<open>Policies\<close>

datatype PolicyDecision = Allow | Deny string

datatype BashFileWrites = WritesAllow | WritesWarn | WritesDeny

record ToolPolicy =
  p_allow :: "string list"
  p_deny :: "string list"
  p_require_tags :: "string list"
  p_bash_file_writes :: BashFileWrites

definition default_policy :: ToolPolicy where
  "default_policy = \<lparr>p_allow = [], p_deny = [], p_require_tags = [], p_bash_file_writes = WritesAllow\<rparr>"

definition ROBOT_TIER_GATE_REASON :: string where "ROBOT_TIER_GATE_REASON = ''robot_tier_gate''"
definition GENERIC_DENY_REASON :: string where "GENERIC_DENY_REASON = ''policy_deny''"

definition entry_is_robot_group :: "string \<Rightarrow> bool" where
  "entry_is_robot_group entry \<longleftrightarrow> parse_group_name entry \<noteq> None"

definition entry_matches :: "registry \<Rightarrow> string \<Rightarrow> string \<Rightarrow> bool" where
  "entry_matches reg entry tool =
     (if entry_is_robot_group entry then group_covers_tool reg entry tool
      else (case expand_group entry of
          Some tools \<Rightarrow> List.member tools tool
        | None \<Rightarrow> (case strip_suffix ''*'' entry of
            Some pre \<Rightarrow> starts_with tool pre
          | None \<Rightarrow> entry = tool)))"

definition evaluate_policy :: "registry \<Rightarrow> ToolPolicy \<Rightarrow> string \<Rightarrow> PolicyDecision" where
  "evaluate_policy reg p tool =
     (case List.find (\<lambda>entry. entry_matches reg entry tool) (p_deny p) of
        Some entry \<Rightarrow> Deny (if entry_is_robot_group entry then ROBOT_TIER_GATE_REASON else GENERIC_DENY_REASON)
      | None \<Rightarrow>
          if p_allow p = [] then Allow
          else if list_ex (\<lambda>entry. entry_matches reg entry tool) (p_allow p) then Allow
          else Deny (if list_ex entry_is_robot_group (p_allow p) \<and> tool_has_tier reg tool
                     then ROBOT_TIER_GATE_REASON else GENERIC_DENY_REASON))"

definition is_allowed :: "registry \<Rightarrow> ToolPolicy \<Rightarrow> string \<Rightarrow> bool" where
  "is_allowed reg p tool \<longleftrightarrow> evaluate_policy reg p tool = Allow"

definition is_allowed_with_tags :: "registry \<Rightarrow> ToolPolicy \<Rightarrow> string \<Rightarrow> string list \<Rightarrow> bool" where
  "is_allowed_with_tags reg p tool tags =
     (if \<not> is_allowed reg p tool then False
      else if p_require_tags p = [] then True
      else list_ex (\<lambda>tag. list_ex (\<lambda>req. req = tag) (p_require_tags p)) tags)"

definition policy_is_empty :: "ToolPolicy \<Rightarrow> bool" where
  "policy_is_empty p \<longleftrightarrow> p_allow p = [] \<and> p_deny p = [] \<and> p_require_tags p = []"

subsection \<open>The policy of a pipeline worker\<close>

definition SHELL_TOOLS :: "string list" where
  "SHELL_TOOLS = [''shell'', ''bash'', ''exec'', ''exec_command'', ''write_stdin'']"

definition worker_policy :: "PipelineNode \<Rightarrow> ToolPolicy" where
  "worker_policy node =
     (let allowed = filter (\<lambda>t. trim t \<noteq> []) (n_tools node);
          has_tools_attr = (n_tools node \<noteq> [])
      in if has_tools_attr \<and> allowed = [] then default_policy\<lparr>p_deny := [''*'']\<rparr>
         else default_policy\<lparr>p_allow := allowed,
                p_deny := [''spawn'', ''run_pipeline'', ''send_file'', ''message'', ''shell'', ''exec_command'',
                           ''bash'', ''exec'', ''write_stdin'']\<rparr>)"

subsection \<open>Lemmas\<close>

lemma tier_from_label [simp]: "tier_from_str (tier_label t) = Some t"
proof -
  have "tier_from_str (tier_label Observe) = Some Observe" by code_simp
  moreover have "tier_from_str (tier_label SafeMotion) = Some SafeMotion" by code_simp
  moreover have "tier_from_str (tier_label FullActuation) = Some FullActuation" by code_simp
  moreover have "tier_from_str (tier_label EmergencyOverride) = Some EmergencyOverride" by code_simp
  ultimately show ?thesis by (cases t) simp_all
qed

lemma parse_group_name_group_name [simp]: "parse_group_name (group_name t) = Some t"
  by (simp add: parse_group_name_def group_name_def strip_prefix_def)

lemma tier_of_insert:
  "tier_of (snd (registry_insert name tier reg)) m = (if m = name then Some tier else tier_of reg m)"
  by (cases tier) (auto simp: tier_of_def registry_insert_def ALL_TIERS_def Let_def)

lemma tier_of_remove: "tier_of (snd (registry_remove name reg)) m = (if m = name then None else tier_of reg m)"
  by (auto simp: tier_of_def registry_remove_def ALL_TIERS_def)

text \<open>Registries built by the integrator from the empty one.\<close>

inductive registry_built :: "registry \<Rightarrow> bool" where
  empty: "registry_built (\<lambda>_. {})"
| insert: "registry_built reg \<Longrightarrow> registry_built (snd (registry_insert name tier reg))"
| remove: "registry_built reg \<Longrightarrow> registry_built (snd (registry_remove name reg))"

lemma registry_built_unique: "registry_built reg \<Longrightarrow> name \<in> reg s \<Longrightarrow> name \<in> reg t \<Longrightarrow> s = t"
proof (induction arbitrary: name s t rule: registry_built.induct)
  case (insert reg n tier)
  then show ?case by (auto simp: registry_insert_def Let_def split: if_splits)
qed (auto simp: registry_remove_def)

lemma tier_of_iff: "registry_built reg \<Longrightarrow> tier_of reg name = Some t \<longleftrightarrow> name \<in> reg t"
  using registry_built_unique[of reg name]
  by (cases t) (fastforce simp: tier_of_def ALL_TIERS_def split: if_splits)+

lemma tools_for_tier_iff: "name \<in> tools_for_tier reg tier \<longleftrightarrow> (\<exists>t \<le> tier. name \<in> reg t)"
proof -
  have "t \<in> set ALL_TIERS" for t by (cases t) (simp_all add: ALL_TIERS_def)
  then show ?thesis by (auto simp: tools_for_tier_def)
qed

lemma is_allowed_iff:
  "is_allowed reg p tool \<longleftrightarrow>
     (\<forall>e \<in> set (p_deny p). \<not> entry_matches reg e tool)
     \<and> (p_allow p = [] \<or> (\<exists>e \<in> set (p_allow p). entry_matches reg e tool))"
  by (auto simp: is_allowed_def evaluate_policy_def find_None_iff list_ex_iff dest: find_Some_in split: option.splits if_splits)

text \<open>An entry that is no robot group, no named group and no wildcard matches exactly its name.\<close>

lemma entry_matches_plain:
  assumes "strip_prefix ''group:'' entry = None" "strip_suffix ''*'' entry = None"
  shows "entry_matches reg entry tool \<longleftrightarrow> entry = tool"
proof -
  have no: "\<not> prefix ''group:'' entry" using assms(1) by (simp add: strip_prefix_def split: if_splits)
  have "list_all (\<lambda>g. prefix ''group:'' (fst g)) TOOL_GROUPS" by code_simp
  then have "expand_group entry = None"
    using no by (auto simp: expand_group_def list_all_iff find_None_iff)
  moreover have "\<not> entry_is_robot_group entry"
    using no by (auto simp: entry_is_robot_group_def parse_group_name_def ROBOT_GROUP_PREFIX_def strip_prefix_def prefix_def)
  ultimately show ?thesis using assms(2) by (simp add: entry_matches_def)
qed

lemma entry_matches_star: "entry_matches reg ''*'' tool"
  by (simp add: entry_matches_def entry_is_robot_group_def parse_group_name_def ROBOT_GROUP_PREFIX_def
      strip_prefix_def expand_group_def TOOL_GROUPS_def strip_suffix_def starts_with_def)

lemma shell_tools_plain:
  "e \<in> set SHELL_TOOLS \<Longrightarrow> strip_prefix ''group:'' e = None \<and> strip_suffix ''*'' e = None"
  by (auto simp: SHELL_TOOLS_def strip_prefix_def strip_suffix_def suffix_def)

subsection \<open>Properties\<close>

text \<open>No pipeline worker can call a shell tool: whatever tool entries its node declares, named
  groups, wildcards and robot groups included, and whatever the robot registry holds, the policy the
  codergen handler installs denies every shell-family tool.\<close>

theorem worker_never_runs_shell:
  assumes "tool \<in> set SHELL_TOOLS"
  shows "\<not> is_allowed reg (worker_policy node) tool"
proof (cases "n_tools node \<noteq> [] \<and> filter (\<lambda>t. trim t \<noteq> []) (n_tools node) = []")
  case True
  then have "p_deny (worker_policy node) = [''*'']" by (simp add: worker_policy_def)
  then show ?thesis by (simp add: is_allowed_iff entry_matches_star)
next
  case False
  then have "tool \<in> set (p_deny (worker_policy node))"
    using assms by (auto simp: worker_policy_def SHELL_TOOLS_def Let_def)
  then show ?thesis
    using entry_matches_plain[of tool reg tool] shell_tools_plain[OF assms] by (auto simp: is_allowed_iff)
qed

theorem worker_never_runs_shell_witness:
  "\<not> is_allowed (\<lambda>_. {''bash''}) (worker_policy (default_node\<lparr>n_tools := [''group:runtime'', ''*'']\<rparr>)) ''bash''"
  by (rule worker_never_runs_shell) (simp add: SHELL_TOOLS_def)

text \<open>A policy decision is exactly this: no deny entry matches the tool, and the allow list is
  empty or one of its entries matches. In particular deny wins over allow, and with required tags an
  untagged tool is refused.\<close>

theorem policy_decision_exact:
  "(is_allowed reg p tool \<longleftrightarrow>
      \<not> (\<exists>e. List.member (p_deny p) e \<and> entry_matches reg e tool)
      \<and> (p_allow p = [] \<or> (\<exists>e. List.member (p_allow p) e \<and> entry_matches reg e tool)))
   \<and> (is_allowed_with_tags reg p tool tags \<longleftrightarrow>
      is_allowed reg p tool \<and> (p_require_tags p = [] \<or> set tags \<inter> set (p_require_tags p) \<noteq> {}))"
  by (auto simp: is_allowed_iff is_allowed_with_tags_def list_ex_iff)

theorem policy_decision_exact_witness:
  "is_allowed (\<lambda>_. {}) (default_policy\<lparr>p_allow := [''read_file'']\<rparr>) ''read_file''
   \<and> \<not> is_allowed (\<lambda>_. {}) (default_policy\<lparr>p_deny := [''*'']\<rparr>) ''read_file''
   \<and> \<not> is_allowed_with_tags (\<lambda>_. {}) (default_policy\<lparr>p_require_tags := [''safe'']\<rparr>) ''read_file'' []"
proof (intro conjI)
  have "entry_matches (\<lambda>_. {}) ''read_file'' ''read_file''"
    by (simp add: entry_matches_plain strip_prefix_def strip_suffix_def suffix_def)
  then show "is_allowed (\<lambda>_. {}) (default_policy\<lparr>p_allow := [''read_file'']\<rparr>) ''read_file''"
    using policy_decision_exact[of "\<lambda>_. {}" "default_policy\<lparr>p_allow := [''read_file'']\<rparr>" "''read_file''" "[]"]
    by (simp add: default_policy_def)
  have "entry_matches (\<lambda>_. {}) ''*'' ''read_file''" by (rule entry_matches_star)
  then show "\<not> is_allowed (\<lambda>_. {}) (default_policy\<lparr>p_deny := [''*'']\<rparr>) ''read_file''"
    using policy_decision_exact[of "\<lambda>_. {}" "default_policy\<lparr>p_deny := [''*'']\<rparr>" "''read_file''" "[]"] by simp
  show "\<not> is_allowed_with_tags (\<lambda>_. {}) (default_policy\<lparr>p_require_tags := [''safe'']\<rparr>) ''read_file'' []"
    using policy_decision_exact[of "\<lambda>_. {}" "default_policy\<lparr>p_require_tags := [''safe'']\<rparr>" "''read_file''" "[]"] by simp
qed

text \<open>Robot tiers are strictly nested: in every registry an integrator can build, a tool has at most
  one tier, granting a tier grants exactly the tools registered at that tier or below, and a higher
  grant covers everything a lower one covers.\<close>

theorem robot_tiers_nested:
  assumes "registry_built reg" "s \<le> t"
  shows "(tool \<in> reg a \<and> tool \<in> reg b \<longrightarrow> a = b)
    \<and> (entry_matches reg (group_name t) tool \<longleftrightarrow> tool \<in> tools_for_tier reg t)
    \<and> (entry_matches reg (group_name s) tool \<longrightarrow> entry_matches reg (group_name t) tool)"
proof -
  have m: "entry_matches reg (group_name u) tool \<longleftrightarrow> tool \<in> tools_for_tier reg u" for u
    using tier_of_iff[OF assms(1), of tool] registry_built_unique[OF assms(1), of tool]
    by (auto simp: entry_matches_def entry_is_robot_group_def group_covers_tool_def matches_group_def starts_with_def
        group_name_def[of u, symmetric] tools_for_tier_iff split: option.splits)
       (simp_all add: group_name_def)
  have "tools_for_tier reg s \<subseteq> tools_for_tier reg t" using assms(2) order_trans by (fastforce simp: tools_for_tier_iff)
  with m registry_built_unique[OF assms(1)] show ?thesis by blast
qed

theorem robot_tiers_nested_witness:
  "entry_matches (snd (registry_insert ''cam'' Observe (\<lambda>_. {}))) (group_name SafeMotion) ''cam''"
proof -
  have "registry_built (snd (registry_insert ''cam'' Observe (\<lambda>_. {})))" by (intro registry_built.intros)
  moreover have "Observe \<le> SafeMotion" "''cam'' \<in> snd (registry_insert ''cam'' Observe (\<lambda>_. {})) Observe"
    by (simp_all add: less_eq_SafetyTier_def registry_insert_def Let_def)
  ultimately show ?thesis
    using robot_tiers_nested[of "snd (registry_insert ''cam'' Observe (\<lambda>_. {}))" Observe SafeMotion "''cam''"]
    unfolding tools_for_tier_iff by blast
qed

text \<open>\<^verbatim>\<open>RobotToolRegistry::insert\<close> moves a tool to the new tier and leaves every other tool where it
  was; the flag it returns is always true, also when the tool was registered before.\<close>

theorem registry_insert_moves:
  "fst (registry_insert name tier reg) \<and> tier_of (snd (registry_insert name tier reg)) m = (if m = name then Some tier else tier_of reg m)"
  by (simp add: tier_of_insert) (simp add: registry_insert_def)

end
