(* ===== verification/Validate.thy ===== *)
theory Validate
  imports Cycles Condition Tool_Policy
begin

text \<open>
  Model of \<^verbatim>\<open>crates/octos-pipeline/src/validate.rs\<close>: the 23 lint rules a pipeline graph must pass
  before it runs. Each rule returns the diagnostics it pushes; \<open>diagnostics_with_context\<close> appends them
  in the order of the code. A diagnostic carries its rule, severity, location and message; the message
  is a value with the interpolated data of the format string, and the fix hint, which is a function of
  the message, is left out. Sets of names (\<^verbatim>\<open>BTreeSet\<close>) that are only tested for membership are sets.
\<close>

subsection \<open>Diagnostics\<close>

definition MAX_DECLARED_FANOUT_DEGREE :: nat where "MAX_DECLARED_FANOUT_DEGREE = 50"

datatype Severity = SevError | SevWarning

datatype GraphLocation = AtGraph | AtNode string | AtEdge string string

datatype RuleId = StartNode | Connectivity | EdgeTargetExists | NoSelfLoop | GoalGateEdges | ConditionParse
  | KnownHandler | PromptRequired | NoDuplicateEdges | PositiveWeight | NonEmptyGraph | EdgeSourceExists
  | ParallelConverge | DynamicParallelRule | NoCycle | TemplateBinding | DeadEdge | KnownModel
  | KnownToolPolicy | FanoutBound | HumanGateResolver | ReferenceResolution | NoShell

primrec rule_number :: "RuleId \<Rightarrow> u32" where
  "rule_number StartNode = 1" | "rule_number Connectivity = 2" | "rule_number EdgeTargetExists = 3"
| "rule_number NoSelfLoop = 4" | "rule_number GoalGateEdges = 5" | "rule_number ConditionParse = 6"
| "rule_number KnownHandler = 7" | "rule_number PromptRequired = 8" | "rule_number NoDuplicateEdges = 9"
| "rule_number PositiveWeight = 10" | "rule_number NonEmptyGraph = 11" | "rule_number EdgeSourceExists = 12"
| "rule_number ParallelConverge = 13" | "rule_number DynamicParallelRule = 14" | "rule_number NoCycle = 15"
| "rule_number TemplateBinding = 16" | "rule_number DeadEdge = 17" | "rule_number KnownModel = 18"
| "rule_number KnownToolPolicy = 19" | "rule_number FanoutBound = 20" | "rule_number HumanGateResolver = 21"
| "rule_number ReferenceResolution = 22" | "rule_number NoShell = 23"

definition rule_code :: "RuleId \<Rightarrow> string" where
  "rule_code r = (case r of
       TemplateBinding \<Rightarrow> ''T-Agent'' | DeadEdge \<Rightarrow> ''T-Edge''
     | Connectivity \<Rightarrow> ''T-Conn'' | NoCycle \<Rightarrow> ''T-Conn'' | NoSelfLoop \<Rightarrow> ''T-Conn''
     | KnownModel \<Rightarrow> ''OCTOS-Model'' | KnownToolPolicy \<Rightarrow> ''OCTOS-ToolPolicy''
     | FanoutBound \<Rightarrow> ''OCTOS-Fanout'' | HumanGateResolver \<Rightarrow> ''OCTOS-HumanGate''
     | ReferenceResolution \<Rightarrow> ''OCTOS-Ref'' | _ \<Rightarrow> ''PipelineLint'')"

datatype message = MsgNoStart | MsgAmbiguousStart nat "string list" | MsgUnreachable string
  | MsgTargetMissing string | MsgSelfLoop string | MsgGoalGateTerminates string
  | MsgBadCondition string string string cond_error | MsgNoPrompt string | MsgDuplicateEdge string string
  | MsgWeight string string f64 | MsgNoNodes | MsgSourceMissing string
  | MsgParallelNoConverge string | MsgParallelConvergeMissing string string | MsgParallelNoEdges string
  | MsgDynamicNoConverge string | MsgDynamicConvergeMissing string string | MsgDynamicNoPrompt string
  | MsgCycle string | MsgUnbound string string | MsgDeadEdge string string | MsgUnknownModel string
  | MsgUnknownTool string string | MsgFanout string nat nat | MsgMaxTasks string u32 nat
  | MsgNoResolver string | MsgUnknownResolver string string | MsgDanglingArtifact string string
  | MsgDanglingCheckpoint string string | MsgShellHandler string | MsgShellTool string string

record LintDiagnostic =
  d_rule :: u32
  d_rule_id :: RuleId
  d_severity :: Severity
  d_location :: GraphLocation
  d_message :: message

definition push_diag :: "RuleId \<Rightarrow> Severity \<Rightarrow> GraphLocation \<Rightarrow> message \<Rightarrow> LintDiagnostic list" where
  "push_diag r sev loc msg =
     [\<lparr>d_rule = rule_number r, d_rule_id = r, d_severity = sev, d_location = loc, d_message = msg\<rparr>]"

definition edge_location :: "PipelineEdge \<Rightarrow> GraphLocation" where
  "edge_location e = AtEdge (e_source e) (e_target e)"

subsection \<open>The validation context\<close>

record ValidationContext =
  c_known_models :: "string set"
  c_known_tools :: "string set"
  c_runtime_variables :: "string set"
  c_artifact_refs :: "string set"
  c_checkpoint_refs :: "string set"
  c_human_gate_resolvers :: "string set"
  c_max_fanout_degree :: nat

definition default_runtime_variables :: "string set" where
  "default_runtime_variables = set
    [''input'', ''user_input'', ''topic'', ''task'', ''label'', ''context'', ''previous'',
     ''workspace'', ''cwd'', ''run_dir'', ''artifact'', ''artifacts'', ''outcome'', ''status'',
     ''files'', ''current_date'', ''now'']"

definition default_known_models :: "string set" where
  "default_known_models = set
    [''cheap'', ''fast'', ''strong'', ''default'', ''mock'', ''test-model'', ''gpt-4o'',
     ''gpt-4o-mini'', ''claude-haiku'', ''claude-sonnet-4'', ''claude-sonnet-4-20250514'',
     ''claude-haiku-4-5-20251001'']"

definition default_known_tools :: "string set" where
  "default_known_tools = set
    [''shell'', ''exec_command'', ''write_stdin'', ''bash'', ''read_file'', ''write_file'',
     ''apply_patch'', ''edit_file'', ''diff_edit'', ''glob'', ''grep'', ''list_dir'',
     ''check_workspace_contract'', ''workspace_log'', ''workspace_show'', ''workspace_diff'',
     ''view_image'', ''web_search'', ''web_fetch'', ''browser'', ''tool_search'', ''tool_suggest'',
     ''request_user_input'', ''update_plan'', ''spawn'', ''spawn_agent'', ''send_input'',
     ''resume_agent'', ''wait_agent'', ''close_agent'', ''delegate'', ''read_task_output'',
     ''send_file'']
    \<union> set (concat (map snd TOOL_GROUPS))"

definition default_context :: ValidationContext where
  "default_context = \<lparr>c_known_models = default_known_models, c_known_tools = default_known_tools,
     c_runtime_variables = default_runtime_variables, c_artifact_refs = {}, c_checkpoint_refs = {},
     c_human_gate_resolvers = {}, c_max_fanout_degree = MAX_DECLARED_FANOUT_DEGREE\<rparr>"

definition with_runtime_variables :: "string list \<Rightarrow> ValidationContext \<Rightarrow> ValidationContext" where
  "with_runtime_variables vs c = c\<lparr>c_runtime_variables := c_runtime_variables c \<union> set vs\<rparr>"

definition with_known_models :: "string list \<Rightarrow> ValidationContext \<Rightarrow> ValidationContext" where
  "with_known_models ms c = c\<lparr>c_known_models := c_known_models c \<union> set ms\<rparr>"

definition with_known_tools :: "string list \<Rightarrow> ValidationContext \<Rightarrow> ValidationContext" where
  "with_known_tools ts c = c\<lparr>c_known_tools := c_known_tools c \<union> set ts\<rparr>"

subsection \<open>Start node and connectivity\<close>

definition source_nodes :: "PipelineGraph \<Rightarrow> string list" where
  "source_nodes g = filter (\<lambda>i. i \<notin> set (map e_target (g_edges g))) (hm_keys (g_nodes g))"

definition find_start_node :: "PipelineGraph \<Rightarrow> string option" where
  "find_start_node g =
     (if hm_contains (g_nodes g) ''start'' then Some ''start''
      else (case source_nodes g of [s] \<Rightarrow> Some s | _ \<Rightarrow> None))"

definition rule_01_start_node :: "PipelineGraph \<Rightarrow> LintDiagnostic list" where
  "rule_01_start_node g =
     (if find_start_node g = None
      then push_diag StartNode SevError AtGraph
             (if source_nodes g = [] then MsgNoStart
              else MsgAmbiguousStart (length (source_nodes g)) (source_nodes g))
      else [])"

fun enqueue_new :: "string list \<Rightarrow> string set \<times> string list \<Rightarrow> string set \<times> string list" where
  "enqueue_new [] st = st"
| "enqueue_new (next # rest) (visited, queue) =
     (if next \<in> visited then enqueue_new rest (visited, queue)
      else enqueue_new rest (insert next visited, queue @ [next]))"

definition neighbors_of :: "(string, string list) hashmap \<Rightarrow> string \<Rightarrow> string list" where
  "neighbors_of adj n = (case hm_get adj n of Some ns \<Rightarrow> ns | None \<Rightarrow> [])"

definition adj_targets :: "(string, string list) hashmap \<Rightarrow> string set" where
  "adj_targets adj = set (concat (hm_values adj))"

lemma enqueue_new_measure:
  assumes "finite U" "set ns \<subseteq> U" "enqueue_new ns (v, q) = (v', q')"
  shows "2 * card (U - v') + length q' \<le> 2 * card (U - v) + length q"
  using assms(2,3)
proof (induction ns arbitrary: v q)
  case (Cons n ns)
  show ?case
  proof (cases "n \<in> v")
    case False
    then have "2 * card (U - v') + length q' \<le> 2 * card (U - insert n v) + length (q @ [n])"
      using Cons.prems by (intro Cons.IH) simp_all
    moreover have "U - v = insert n (U - insert n v)" using Cons.prems(1) False by auto
    then have "card (U - v) = Suc (card (U - insert n v))" using assms(1) by (metis card_insert_disjoint Diff_iff finite_Diff insertI1)
    ultimately show ?thesis by simp
  qed (use Cons in simp)
qed simp

lemma finite_adj_targets: "finite (adj_targets adj)"
  by (simp add: adj_targets_def)

lemma neighbors_targets: "set (neighbors_of adj n) \<subseteq> adj_targets adj"
proof (cases "hm_get adj n")
  case (Some ns)
  then have "ns \<in> set (hm_values adj)" by (rule hm_get_in_values)
  with Some show ?thesis unfolding neighbors_of_def adj_targets_def by auto
qed (simp add: neighbors_of_def)

function bfs :: "(string, string list) hashmap \<Rightarrow> string set \<Rightarrow> string list \<Rightarrow> string set" where
  "bfs adj visited [] = visited"
| "bfs adj visited (node # queue) =
     (let (v, q) = enqueue_new (neighbors_of adj node) (visited, queue) in bfs adj v q)"
  by pat_completeness auto
termination
proof (relation "measure (\<lambda>(adj, visited, queue). 2 * card (adj_targets adj - visited) + length queue)", rule wf_measure)
  fix adj :: "(string, string list) hashmap" and visited node queue x v q
  assume "x = enqueue_new (neighbors_of adj node) (visited, queue)" "(v, q) = x"
  then have "enqueue_new (neighbors_of adj node) (visited, queue) = (v, q)" by simp
  from enqueue_new_measure[OF _ neighbors_targets this]
  show "((adj, v, q), adj, visited, node # queue)
      \<in> measure (\<lambda>(adj, visited, queue). 2 * card (adj_targets adj - visited) + length queue)"
    by (simp add: finite_adj_targets)
qed

definition rule_02_unreachable_nodes :: "PipelineGraph \<Rightarrow> LintDiagnostic list" where
  "rule_02_unreachable_nodes g = (case find_start_node g of
       None \<Rightarrow> []
     | Some start \<Rightarrow>
         let visited = bfs (build_adj (edge_pairs (g_edges g))) {start} [start]
         in concat (map (\<lambda>i. if i \<in> visited then [] else push_diag Connectivity SevError (AtNode i) (MsgUnreachable i))
              (hm_keys (g_nodes g))))"

subsection \<open>Edges, conditions and handlers\<close>

definition for_edges :: "PipelineGraph \<Rightarrow> (PipelineEdge \<Rightarrow> LintDiagnostic list) \<Rightarrow> LintDiagnostic list" where
  "for_edges g f = concat (map f (g_edges g))"

definition for_nodes :: "PipelineGraph \<Rightarrow> (PipelineNode \<Rightarrow> LintDiagnostic list) \<Rightarrow> LintDiagnostic list" where
  "for_nodes g f = concat (map f (hm_values (g_nodes g)))"

definition rule_03_edge_targets_exist :: "PipelineGraph \<Rightarrow> LintDiagnostic list" where
  "rule_03_edge_targets_exist g = for_edges g (\<lambda>e.
     if hm_contains (g_nodes g) (e_target e) then []
     else push_diag EdgeTargetExists SevError (edge_location e) (MsgTargetMissing (e_target e)))"

definition rule_04_no_self_loops :: "PipelineGraph \<Rightarrow> LintDiagnostic list" where
  "rule_04_no_self_loops g = for_edges g (\<lambda>e.
     if e_source e = e_target e \<and> \<not> edge_allows_back_edge e
     then push_diag NoSelfLoop SevError (edge_location e) (MsgSelfLoop (e_source e)) else [])"

definition rule_05_goal_gate_edges :: "PipelineGraph \<Rightarrow> LintDiagnostic list" where
  "rule_05_goal_gate_edges g = for_nodes g (\<lambda>n.
     if n_goal_gate n \<and> \<not> list_ex (\<lambda>e. e_source e = n_id n) (g_edges g)
     then push_diag GoalGateEdges SevWarning (AtNode (n_id n)) (MsgGoalGateTerminates (n_id n)) else [])"

definition rule_06_conditions_parse :: "PipelineGraph \<Rightarrow> LintDiagnostic list" where
  "rule_06_conditions_parse g = for_edges g (\<lambda>e. case e_condition e of
       None \<Rightarrow> []
     | Some cond \<Rightarrow> (case parse_condition cond of
         Inl err \<Rightarrow> push_diag ConditionParse SevError (edge_location e)
                     (MsgBadCondition (e_source e) (e_target e) cond err)
       | Inr _ \<Rightarrow> []))"

definition rule_07_known_handler :: "PipelineGraph \<Rightarrow> LintDiagnostic list" where
  "rule_07_known_handler g = []"

definition rule_08_prompt_required :: "PipelineGraph \<Rightarrow> LintDiagnostic list" where
  "rule_08_prompt_required g = for_nodes g (\<lambda>n.
     if n_handler n = Codergen \<and> n_prompt n = None
     then push_diag PromptRequired SevWarning (AtNode (n_id n)) (MsgNoPrompt (n_id n)) else [])"

fun duplicate_edges :: "(string \<times> string) set \<Rightarrow> PipelineEdge list \<Rightarrow> LintDiagnostic list" where
  "duplicate_edges seen [] = []"
| "duplicate_edges seen (e # es) =
     (if (e_source e, e_target e) \<in> seen
      then push_diag NoDuplicateEdges SevWarning (edge_location e) (MsgDuplicateEdge (e_source e) (e_target e))
           @ duplicate_edges seen es
      else duplicate_edges (insert (e_source e, e_target e) seen) es)"

definition rule_09_no_duplicate_edges :: "PipelineGraph \<Rightarrow> LintDiagnostic list" where
  "rule_09_no_duplicate_edges g = duplicate_edges {} (g_edges g)"

definition rule_10_positive_weight :: "PipelineGraph \<Rightarrow> LintDiagnostic list" where
  "rule_10_positive_weight g = for_edges g (\<lambda>e.
     if f64_le (e_weight e) (Fin 0)
     then push_diag PositiveWeight SevError (edge_location e) (MsgWeight (e_source e) (e_target e) (e_weight e))
     else [])"

definition rule_11_at_least_one_node :: "PipelineGraph \<Rightarrow> LintDiagnostic list" where
  "rule_11_at_least_one_node g =
     (if g_nodes g = [] then push_diag NonEmptyGraph SevError AtGraph MsgNoNodes else [])"

definition rule_12_edge_sources_exist :: "PipelineGraph \<Rightarrow> LintDiagnostic list" where
  "rule_12_edge_sources_exist g = for_edges g (\<lambda>e.
     if hm_contains (g_nodes g) (e_source e) then []
     else push_diag EdgeSourceExists SevError (edge_location e) (MsgSourceMissing (e_source e)))"

definition rule_13_parallel_converge :: "PipelineGraph \<Rightarrow> LintDiagnostic list" where
  "rule_13_parallel_converge g = for_nodes g (\<lambda>n.
     if n_handler n \<noteq> Parallel then []
     else (case n_converge n of
             None \<Rightarrow> push_diag ParallelConverge SevError (AtNode (n_id n)) (MsgParallelNoConverge (n_id n))
           | Some target \<Rightarrow>
               if hm_contains (g_nodes g) target then []
               else push_diag ParallelConverge SevError (AtNode (n_id n)) (MsgParallelConvergeMissing (n_id n) target))
          @ (if list_ex (\<lambda>e. e_source e = n_id n) (g_edges g) then []
             else push_diag ParallelConverge SevWarning (AtNode (n_id n)) (MsgParallelNoEdges (n_id n))))"

definition rule_14_dynamic_parallel :: "PipelineGraph \<Rightarrow> LintDiagnostic list" where
  "rule_14_dynamic_parallel g = for_nodes g (\<lambda>n.
     if n_handler n \<noteq> DynamicParallel then []
     else (case n_converge n of
             None \<Rightarrow> push_diag DynamicParallelRule SevError (AtNode (n_id n)) (MsgDynamicNoConverge (n_id n))
           | Some target \<Rightarrow>
               if hm_contains (g_nodes g) target then []
               else push_diag DynamicParallelRule SevError (AtNode (n_id n)) (MsgDynamicConvergeMissing (n_id n) target))
          @ (if n_prompt n = None
             then push_diag DynamicParallelRule SevWarning (AtNode (n_id n)) (MsgDynamicNoPrompt (n_id n)) else []))"

definition rule_15_no_cycles :: "PipelineGraph \<Rightarrow> LintDiagnostic list" where
  "rule_15_no_cycles g = (case detect_cycles_ignoring_marked_back_edges g of
       CycleAt cyc \<Rightarrow> push_diag NoCycle SevError AtGraph (MsgCycle (cycle_message cyc))
     | _ \<Rightarrow> [])"

subsection \<open>Template references\<close>

definition is_template_ref_token :: "string \<Rightarrow> bool" where
  "is_template_ref_token cand \<longleftrightarrow> cand \<noteq> [] \<and>
     list_all (\<lambda>c. is_ascii_alphanumeric c \<or> c = CHR ''_'' \<or> c = CHR ''-'' \<or> c = CHR ''.'' \<or> c = CHR '':'') cand"

text \<open>The loop of \<^verbatim>\<open>extract_template_refs\<close>, collecting the candidates between braces.\<close>

function template_loop :: "string \<Rightarrow> string list" where
  "template_loop rest = (case split_once (CHR 0x7B) rest of
       None \<Rightarrow> []
     | Some (_, rest1) \<Rightarrow> (case split_once (CHR 0x7D) rest1 of
         None \<Rightarrow> []
       | Some (inner, rest2) \<Rightarrow>
           let cand = trim inner
           in (if is_template_ref_token cand then [cand] else []) @ template_loop rest2))"
  by pat_completeness auto
termination
  by (relation "measure length") (auto dest!: split_once_Some[THEN iffD1, OF sym] split_once_Some[THEN iffD1])

declare template_loop.simps [simp del]

definition extract_template_refs :: "string \<Rightarrow> string list" where
  "extract_template_refs prompt = sort (remdups (template_loop prompt))"

definition template_refs_for_node :: "PipelineNode \<Rightarrow> string list" where
  "template_refs_for_node n =
     sort (remdups (concat (map extract_template_refs
       ((case n_prompt n of Some p \<Rightarrow> [p] | None \<Rightarrow> []) @ (case n_worker_prompt n of Some p \<Rightarrow> [p] | None \<Rightarrow> [])))))"

definition runtime_ref_stem :: "string \<Rightarrow> string option" where
  "runtime_ref_stem reference =
     (let stem = trim (takeWhile (\<lambda>c. c \<noteq> CHR ''.'' \<and> c \<noteq> CHR '':'') reference)
      in if stem = [] then None else Some stem)"

definition is_ref_to_node :: "string \<Rightarrow> string \<Rightarrow> bool" where
  "is_ref_to_node reference i \<longleftrightarrow> runtime_ref_stem reference = Some i"

definition artifact_ref_resolves :: "string \<Rightarrow> ValidationContext \<Rightarrow> PipelineGraph \<Rightarrow> bool" where
  "artifact_ref_resolves a c g \<longleftrightarrow> hm_contains (g_nodes g) a \<or> a \<in> c_artifact_refs c"

definition graph_checkpoint_names :: "PipelineGraph \<Rightarrow> ValidationContext \<Rightarrow> string set" where
  "graph_checkpoint_names g c =
     c_checkpoint_refs c \<union> set (concat (map (\<lambda>n. map mc_name (n_checkpoints n)) (hm_values (g_nodes g))))"

definition strip_either :: "string \<Rightarrow> string \<Rightarrow> string \<Rightarrow> string option" where
  "strip_either p q s = (case strip_prefix p s of Some r \<Rightarrow> Some r | None \<Rightarrow> strip_prefix q s)"

definition reference_resolves_in_template :: "string \<Rightarrow> string set \<Rightarrow> ValidationContext \<Rightarrow> PipelineGraph \<Rightarrow> bool" where
  "reference_resolves_in_template reference upstream c g =
     (case strip_either ''artifact:'' ''artifact.'' reference of
        Some a \<Rightarrow> artifact_ref_resolves a c g
      | None \<Rightarrow> (case strip_either ''checkpoint:'' ''checkpoint.'' reference of
          Some cp \<Rightarrow> cp \<in> graph_checkpoint_names g c
        | None \<Rightarrow> (case runtime_ref_stem reference of
            None \<Rightarrow> False
          | Some stem \<Rightarrow> stem \<in> c_runtime_variables c \<or> stem \<in> upstream)))"

definition incoming_sources :: "PipelineGraph \<Rightarrow> (string, string set) hashmap" where
  "incoming_sources g = fold (\<lambda>e m. hm_insert (e_target e)
     (insert (e_source e) (case hm_get m (e_target e) of Some s \<Rightarrow> s | None \<Rightarrow> {})) m) (g_edges g) []"

definition rule_16_template_bindings :: "PipelineGraph \<Rightarrow> ValidationContext \<Rightarrow> LintDiagnostic list" where
  "rule_16_template_bindings g c =
     (let incoming = incoming_sources g in
      for_nodes g (\<lambda>n.
        let upstream = (case hm_get incoming (n_id n) of Some s \<Rightarrow> s | None \<Rightarrow> {})
        in concat (map (\<lambda>reference.
             if reference_resolves_in_template reference upstream c g then []
             else push_diag TemplateBinding SevError (AtNode (n_id n)) (MsgUnbound (n_id n) reference))
             (template_refs_for_node n))))"

definition rule_17_dead_edges :: "PipelineGraph \<Rightarrow> LintDiagnostic list" where
  "rule_17_dead_edges g = for_edges g (\<lambda>e. case hm_get (g_nodes g) (e_target e) of
       None \<Rightarrow> []
     | Some target \<Rightarrow>
         if list_ex (\<lambda>reference. is_ref_to_node reference (e_source e)
              \<or> (case runtime_ref_stem reference of
                   Some stem \<Rightarrow> stem = ''input'' \<or> stem = ''previous'' \<or> stem = ''context'' | None \<Rightarrow> False))
              (template_refs_for_node target)
         then []
         else push_diag DeadEdge SevWarning (edge_location e) (MsgDeadEdge (e_source e) (e_target e)))"

subsection \<open>Models, tools, fan-out, gates and references\<close>

definition model_known :: "string \<Rightarrow> string set \<Rightarrow> bool" where
  "model_known model known \<longleftrightarrow> model \<in> known
     \<or> (case split_once (CHR ''/'') model of Some (_, name) \<Rightarrow> name \<in> known | None \<Rightarrow> False)"

definition validate_model_name :: "string \<Rightarrow> ValidationContext \<Rightarrow> GraphLocation \<Rightarrow> LintDiagnostic list" where
  "validate_model_name model c loc =
     (if model_known model (c_known_models c) then []
      else push_diag KnownModel SevError loc (MsgUnknownModel model))"

definition node_models :: "PipelineNode \<Rightarrow> string list" where
  "node_models n = filter (\<lambda>m. m \<noteq> []) (map trim (concat (map (split_char (CHR '',''))
     ((case n_model n of Some m \<Rightarrow> [m] | None \<Rightarrow> []) @ (case n_planner_model n of Some m \<Rightarrow> [m] | None \<Rightarrow> [])))))"

definition rule_18_known_models :: "PipelineGraph \<Rightarrow> ValidationContext \<Rightarrow> LintDiagnostic list" where
  "rule_18_known_models g c =
     (case g_default_model g of Some m \<Rightarrow> validate_model_name m c AtGraph | None \<Rightarrow> [])
     @ for_nodes g (\<lambda>n. concat (map (\<lambda>m. validate_model_name m c (AtNode (n_id n))) (node_models n)))"

definition tool_policy_entry_known :: "string \<Rightarrow> ValidationContext \<Rightarrow> bool" where
  "tool_policy_entry_known entry c =
     (if entry = [] then False
      else if starts_with entry ''group:'' then expand_group entry \<noteq> None
      else (case strip_suffix ''*'' entry of
          Some pre \<Rightarrow> \<exists>tool \<in> c_known_tools c. starts_with tool pre
        | None \<Rightarrow> entry \<in> c_known_tools c))"

definition rule_19_known_tools :: "PipelineGraph \<Rightarrow> ValidationContext \<Rightarrow> LintDiagnostic list" where
  "rule_19_known_tools g c = for_nodes g (\<lambda>n. concat (map (\<lambda>tool.
     if trim tool = [] then []
     else if tool_policy_entry_known tool c then []
     else push_diag KnownToolPolicy SevError (AtNode (n_id n)) (MsgUnknownTool (n_id n) tool)) (n_tools n)))"

definition outgoing_degrees :: "PipelineGraph \<Rightarrow> (string, nat) hashmap" where
  "outgoing_degrees g = fold (\<lambda>e m. hm_insert (e_source e)
     (Suc (case hm_get m (e_source e) of Some d \<Rightarrow> d | None \<Rightarrow> 0)) m) (g_edges g) []"

definition rule_20_fanout_bound :: "PipelineGraph \<Rightarrow> ValidationContext \<Rightarrow> LintDiagnostic list" where
  "rule_20_fanout_bound g c =
     concat (map (\<lambda>(source, degree).
       if c_max_fanout_degree c < degree
       then push_diag FanoutBound SevError (AtNode source) (MsgFanout source degree (c_max_fanout_degree c)) else [])
       (outgoing_degrees g))
     @ for_nodes g (\<lambda>n. case n_max_tasks n of
         None \<Rightarrow> []
       | Some max_tasks \<Rightarrow>
           if c_max_fanout_degree c < unat max_tasks
           then push_diag FanoutBound SevError (AtNode (n_id n)) (MsgMaxTasks (n_id n) max_tasks (c_max_fanout_degree c))
           else [])"

definition rule_21_human_gate_resolver :: "PipelineGraph \<Rightarrow> ValidationContext \<Rightarrow> LintDiagnostic list" where
  "rule_21_human_gate_resolver g c = for_nodes g (\<lambda>n.
     if \<not> n_human_gate n then []
     else (case n_resolver n of
         Some resolver \<Rightarrow>
           if resolver = [] then push_diag HumanGateResolver SevError (AtNode (n_id n)) (MsgNoResolver (n_id n))
           else if c_human_gate_resolvers c \<noteq> {} \<and> resolver \<notin> c_human_gate_resolvers c
           then push_diag HumanGateResolver SevError (AtNode (n_id n)) (MsgUnknownResolver (n_id n) resolver)
           else []
       | None \<Rightarrow> push_diag HumanGateResolver SevError (AtNode (n_id n)) (MsgNoResolver (n_id n))))"

definition rule_22_reference_resolution :: "PipelineGraph \<Rightarrow> ValidationContext \<Rightarrow> LintDiagnostic list" where
  "rule_22_reference_resolution g c =
     (let names = graph_checkpoint_names g c in
      for_nodes g (\<lambda>n.
        concat (map (\<lambda>a. if artifact_ref_resolves a c g then []
           else push_diag ReferenceResolution SevError (AtNode (n_id n)) (MsgDanglingArtifact (n_id n) a)) (n_artifact_refs n))
        @ concat (map (\<lambda>cp. if cp \<in> names then []
           else push_diag ReferenceResolution SevError (AtNode (n_id n)) (MsgDanglingCheckpoint (n_id n) cp)) (n_checkpoint_refs n))))"

definition tool_entry_grants_shell :: "string \<Rightarrow> bool" where
  "tool_entry_grants_shell entry =
     (let e = trim entry in
      if List.member SHELL_TOOLS e then True
      else if eq_ignore_ascii_case e ''group:runtime'' \<or> e = ''group:*'' then True
      else if \<not> starts_with e ''group:'' then
        (case strip_suffix ''*'' e of
           Some pre \<Rightarrow> pre = [] \<or> list_ex (\<lambda>s. starts_with s pre) SHELL_TOOLS
         | None \<Rightarrow> False)
      else False)"

definition rule_23_no_shell :: "PipelineGraph \<Rightarrow> LintDiagnostic list" where
  "rule_23_no_shell g = for_nodes g (\<lambda>n.
     (if n_handler n = Shell then push_diag NoShell SevError (AtNode (n_id n)) (MsgShellHandler (n_id n)) else [])
     @ (case List.find tool_entry_grants_shell (n_tools n) of
          Some tool \<Rightarrow> push_diag NoShell SevError (AtNode (n_id n)) (MsgShellTool (n_id n) tool)
        | None \<Rightarrow> []))"

subsection \<open>Validation\<close>

definition diagnostics_with_context :: "PipelineGraph \<Rightarrow> ValidationContext \<Rightarrow> LintDiagnostic list" where
  "diagnostics_with_context g c =
     rule_01_start_node g @ rule_02_unreachable_nodes g @ rule_03_edge_targets_exist g
     @ rule_04_no_self_loops g @ rule_05_goal_gate_edges g @ rule_06_conditions_parse g
     @ rule_07_known_handler g @ rule_08_prompt_required g @ rule_09_no_duplicate_edges g
     @ rule_10_positive_weight g @ rule_11_at_least_one_node g @ rule_12_edge_sources_exist g
     @ rule_13_parallel_converge g @ rule_14_dynamic_parallel g @ rule_15_no_cycles g
     @ rule_16_template_bindings g c @ rule_17_dead_edges g @ rule_18_known_models g c
     @ rule_19_known_tools g c @ rule_20_fanout_bound g c @ rule_21_human_gate_resolver g c
     @ rule_22_reference_resolution g c @ rule_23_no_shell g"

definition diagnostics :: "PipelineGraph \<Rightarrow> LintDiagnostic list" where
  "diagnostics g = diagnostics_with_context g default_context"

definition has_errors :: "LintDiagnostic list \<Rightarrow> bool" where
  "has_errors diags = list_ex (\<lambda>d. d_severity d = SevError) diags"

definition validate_with_context :: "PipelineGraph \<Rightarrow> ValidationContext \<Rightarrow> (LintDiagnostic list, unit) sum" where
  "validate_with_context g c =
     (let diags = diagnostics_with_context g c in if has_errors diags then Inl diags else Inr ())"

definition validate :: "PipelineGraph \<Rightarrow> (LintDiagnostic list, unit) sum" where
  "validate g = validate_with_context g default_context"

text \<open>The tool names rule 19 is given. The built-in registry and the names the plugin loader registers
  are arguments: both are built by the agent crate at run time.\<close>

definition referenced_tool_entries :: "PipelineGraph \<Rightarrow> string list" where
  "referenced_tool_entries g = concat (map n_tools (hm_values (g_nodes g)))"

definition needs_plugin :: "string list \<Rightarrow> string \<Rightarrow> bool" where
  "needs_plugin builtins entry =
     (let t = trim entry in
      if t = [] \<or> starts_with t ''group:'' then False
      else (case strip_suffix ''*'' t of
          Some pre \<Rightarrow> \<not> list_ex (\<lambda>b. starts_with b pre) builtins
        | None \<Rightarrow> \<not> List.member builtins t))"

definition known_tool_names_with_plugins :: "string list \<Rightarrow> (string list \<Rightarrow> bool \<Rightarrow> string list) \<Rightarrow> string list
    \<Rightarrow> bool \<Rightarrow> string list \<Rightarrow> string list" where
  "known_tool_names_with_plugins builtins load plugin_dirs plugin_require_signed referenced =
     (if plugin_dirs = [] then builtins
      else if \<not> list_ex (needs_plugin builtins) referenced then builtins
      else load plugin_dirs plugin_require_signed)"

end
