(* ===== verification/Validate_Properties.thy ===== *)
theory Validate_Properties
  imports Validate
begin

text \<open>
  What validation means. The declarative predicate \<open>graph_valid\<close> says when a graph is acceptable in a
  context, with reachability, acyclicity and name resolution as mathematical notions; the rules of
  \<open>Validate\<close> accept exactly these graphs. A second group relates rules 19 and 23 to the tool policy of
  the agent: no tool entry of an accepted graph can match a shell tool.
\<close>

subsection \<open>Breadth-first search\<close>

declare bfs.simps(2) [simp del]

lemma enqueue_new_sets:
  "enqueue_new ns (v, q) = (v', q') \<Longrightarrow> v' = v \<union> set ns \<and> set q' = set q \<union> (set ns - v)"
proof (induction ns arbitrary: v q)
  case (Cons n ns)
  then show ?case by (cases "n \<in> v") fastforce+
qed simp

definition closed_under :: "(string, string list) hashmap \<Rightarrow> string set \<Rightarrow> bool" where
  "closed_under adj S \<longleftrightarrow> (\<forall>x \<in> S. set (neighbors_of adj x) \<subseteq> S)"

lemma bfs_closed:
  assumes "set queue \<subseteq> visited" "\<And>x. x \<in> visited - set queue \<Longrightarrow> set (neighbors_of adj x) \<subseteq> visited"
  shows "visited \<subseteq> bfs adj visited queue \<and> closed_under adj (bfs adj visited queue)"
  using assms
proof (induction adj visited queue rule: bfs.induct)
  case (2 adj visited node queue)
  obtain v q where vq: "enqueue_new (neighbors_of adj node) (visited, queue) = (v, q)" by fastforce
  note sets = enqueue_new_sets[OF vq]
  have "v \<subseteq> bfs adj v q \<and> closed_under adj (bfs adj v q)"
  proof (rule "2.IH"[OF vq[symmetric] refl])
    show "set q \<subseteq> v" using sets "2.prems"(1) by auto
    fix x assume "x \<in> v - set q"
    then show "set (neighbors_of adj x) \<subseteq> v" using sets "2.prems"(2)[of x] by (cases "x = node") auto
  qed
  with sets vq show ?case by (auto simp: bfs.simps(2))
qed (simp add: closed_under_def)

lemma bfs_sound:
  assumes "\<And>x. set (neighbors_of adj x) = E `` {x}" "set queue \<subseteq> E\<^sup>* `` {s}" "visited \<subseteq> E\<^sup>* `` {s}"
  shows "bfs adj visited queue \<subseteq> E\<^sup>* `` {s}"
  using assms
proof (induction adj visited queue rule: bfs.induct)
  case (2 adj visited node queue)
  obtain v q where vq: "enqueue_new (neighbors_of adj node) (visited, queue) = (v, q)" by fastforce
  have "set (neighbors_of adj node) \<subseteq> E\<^sup>* `` {s}"
    using "2.prems"(1)[of node] "2.prems"(2) by (auto intro: rtrancl_into_rtrancl)
  then have "bfs adj v q \<subseteq> E\<^sup>* `` {s}"
    using enqueue_new_sets[OF vq] "2.prems" by (intro "2.IH"[OF vq[symmetric] refl]) auto
  with vq show ?case by (simp add: bfs.simps(2))
qed simp

lemma bfs_reachable: "bfs (build_adj es) {s} [s] = (set es)\<^sup>* `` {s}"
proof
  have nb: "set (neighbors_of (build_adj es) x) = set es `` {x}" for x
    using build_adj_set[of es x] by (auto simp: neighbors_of_def)
  show "bfs (build_adj es) {s} [s] \<subseteq> (set es)\<^sup>* `` {s}" by (rule bfs_sound[OF nb]) auto
  have "s \<in> bfs (build_adj es) {s} [s]" "set es `` bfs (build_adj es) {s} [s] \<subseteq> bfs (build_adj es) {s} [s]"
    using bfs_closed[of "[s]" "{s}" "build_adj es"] unfolding closed_under_def nb by auto
  then show "(set es)\<^sup>* `` {s} \<subseteq> bfs (build_adj es) {s} [s]"
    using closed_reach[of "set es" "bfs (build_adj es) {s} [s]" s] by auto
qed

subsection \<open>When a rule reports an error\<close>

lemma has_errors_simps [simp]:
  "has_errors [] = False" "has_errors (xs @ ys) = (has_errors xs \<or> has_errors ys)"
  "has_errors (push_diag r SevError loc msg) = True" "has_errors (push_diag r SevWarning loc msg) = False"
  by (auto simp: has_errors_def push_diag_def)

lemma has_errors_concat [simp]: "has_errors (concat (map f xs)) \<longleftrightarrow> (\<exists>x \<in> set xs. has_errors (f x))"
  by (induction xs) auto

definition nodes_of :: "PipelineGraph \<Rightarrow> PipelineNode set" where
  "nodes_of g = set (hm_values (g_nodes g))"

lemma has_errors_for [simp]:
  "has_errors (for_edges g f) \<longleftrightarrow> (\<exists>e \<in> set (g_edges g). has_errors (f e))"
  "has_errors (for_nodes g h) \<longleftrightarrow> (\<exists>n \<in> nodes_of g. has_errors (h n))"
  unfolding for_edges_def for_nodes_def nodes_of_def by (rule has_errors_concat)+

lemma has_errors_if [simp]:
  "has_errors (if b then xs else ys) \<longleftrightarrow> (if b then has_errors xs else has_errors ys)"
  by simp

definition starts_somewhere :: "PipelineGraph \<Rightarrow> bool" where
  "starts_somewhere g \<longleftrightarrow> (\<exists>s. find_start_node g = Some s \<and> node_ids g \<subseteq> (all_edges g)\<^sup>* `` {s})"

definition edges_valid :: "PipelineGraph \<Rightarrow> bool" where
  "edges_valid g \<longleftrightarrow> (\<forall>e \<in> set (g_edges g).
     e_source e \<in> node_ids g \<and> e_target e \<in> node_ids g \<and> \<not> f64_le (e_weight e) (Fin 0)
     \<and> (\<forall>cond. e_condition e = Some cond \<longrightarrow> (\<exists>x. parse_condition cond = Inr x)))"

definition converges :: "PipelineGraph \<Rightarrow> bool" where
  "converges g \<longleftrightarrow> (\<forall>n \<in> nodes_of g. n_handler n = Parallel \<or> n_handler n = DynamicParallel \<longrightarrow>
     (\<exists>t \<in> node_ids g. n_converge n = Some t))"

definition upstream_of :: "PipelineGraph \<Rightarrow> PipelineNode \<Rightarrow> string set" where
  "upstream_of g n = {a. (a, n_id n) \<in> all_edges g}"

definition names_resolve :: "PipelineGraph \<Rightarrow> ValidationContext \<Rightarrow> bool" where
  "names_resolve g c \<longleftrightarrow>
     (\<forall>m. g_default_model g = Some m \<longrightarrow> model_known m (c_known_models c))
     \<and> (\<forall>n \<in> nodes_of g.
          (\<forall>r \<in> set (template_refs_for_node n). reference_resolves_in_template r (upstream_of g n) c g)
          \<and> (\<forall>m \<in> set (node_models n). model_known m (c_known_models c))
          \<and> (\<forall>t \<in> set (n_tools n). trim t \<noteq> [] \<longrightarrow> tool_policy_entry_known t c)
          \<and> (\<forall>a \<in> set (n_artifact_refs n). artifact_ref_resolves a c g)
          \<and> set (n_checkpoint_refs n) \<subseteq> graph_checkpoint_names g c)"

definition fanout_bounded :: "PipelineGraph \<Rightarrow> ValidationContext \<Rightarrow> bool" where
  "fanout_bounded g c \<longleftrightarrow>
     (\<forall>i. length (filter (\<lambda>e. e_source e = i) (g_edges g)) \<le> c_max_fanout_degree c)
     \<and> (\<forall>n \<in> nodes_of g. \<forall>k. n_max_tasks n = Some k \<longrightarrow> unat k \<le> c_max_fanout_degree c)"

definition gates_resolved :: "PipelineGraph \<Rightarrow> ValidationContext \<Rightarrow> bool" where
  "gates_resolved g c \<longleftrightarrow> (\<forall>n \<in> nodes_of g. n_human_gate n \<longrightarrow>
     (\<exists>r. n_resolver n = Some r \<and> r \<noteq> [] \<and> (c_human_gate_resolvers c = {} \<or> r \<in> c_human_gate_resolvers c)))"

definition shell_free :: "PipelineGraph \<Rightarrow> bool" where
  "shell_free g \<longleftrightarrow> (\<forall>n \<in> nodes_of g. n_handler n \<noteq> Shell \<and> (\<forall>t \<in> set (n_tools n). \<not> tool_entry_grants_shell t))"

definition graph_valid :: "PipelineGraph \<Rightarrow> ValidationContext \<Rightarrow> bool" where
  "graph_valid g c \<longleftrightarrow> starts_somewhere g \<and> edges_valid g \<and> acyclic (forward_edges g) \<and> converges g
     \<and> names_resolve g c \<and> fanout_bounded g c \<and> gates_resolved g c \<and> shell_free g"

lemma contains_node: "hm_contains (g_nodes g) i \<longleftrightarrow> i \<in> node_ids g"
  by (simp add: hm_contains_iff node_ids_def)

lemma rules_01_02: "\<not> has_errors (rule_01_start_node g) \<and> \<not> has_errors (rule_02_unreachable_nodes g) \<longleftrightarrow> starts_somewhere g"
  by (auto simp: rule_01_start_node_def rule_02_unreachable_nodes_def starts_somewhere_def bfs_reachable
      all_edges_def node_ids_def Let_def split: option.splits)

lemma start_is_node: "find_start_node g = Some s \<Longrightarrow> s \<in> node_ids g"
proof -
  have "s \<in> node_ids g" if "source_nodes g = [s]" for s
  proof -
    have "s \<in> set (source_nodes g)" using that by simp
    then show ?thesis by (auto simp: source_nodes_def node_ids_def)
  qed
  then show "find_start_node g = Some s \<Longrightarrow> s \<in> node_ids g"
    by (auto simp: find_start_node_def hm_contains_iff node_ids_def split: if_splits list.splits)
qed

lemma rule_11: "starts_somewhere g \<Longrightarrow> \<not> has_errors (rule_11_at_least_one_node g)"
  using start_is_node[of g] by (auto simp: rule_11_at_least_one_node_def starts_somewhere_def node_ids_def)

lemma rules_edges:
  "\<not> has_errors (rule_03_edge_targets_exist g) \<and> \<not> has_errors (rule_06_conditions_parse g)
   \<and> \<not> has_errors (rule_10_positive_weight g) \<and> \<not> has_errors (rule_12_edge_sources_exist g) \<longleftrightarrow> edges_valid g"
  by (auto simp: rule_03_edge_targets_exist_def rule_06_conditions_parse_def rule_10_positive_weight_def
      rule_12_edge_sources_exist_def edges_valid_def contains_node split: option.splits sum.splits) (metis old.sum.exhaust)+

lemma forward_self_loop:
  "e \<in> set (g_edges g) \<Longrightarrow> \<not> edge_allows_back_edge e \<Longrightarrow> (e_source e, e_target e) \<in> forward_edges g"
  by (auto simp: forward_edges_def)

lemma rules_04_15:
  assumes "edges_valid g"
  shows "\<not> has_errors (rule_04_no_self_loops g) \<and> \<not> has_errors (rule_15_no_cycles g) \<longleftrightarrow> acyclic (forward_edges g)"
proof -
  have sub: "forward_edges g \<subseteq> node_ids g \<times> UNIV"
    using assms by (auto simp: forward_edges_def edges_valid_def)
  have "has_errors (rule_15_no_cycles g) \<longleftrightarrow> \<not> acyclic (forward_edges g)"
    using marked_check.ok_iff_acyclic[OF sub] marked_check.not_out_of_fuel[of g]
    by (cases "detect_cycles_ignoring_marked_back_edges g") (auto simp: rule_15_no_cycles_def)
  moreover have "\<not> acyclic (forward_edges g)" if "has_errors (rule_04_no_self_loops g)"
  proof -
    from that obtain e where "e \<in> set (g_edges g)" "e_source e = e_target e" "\<not> edge_allows_back_edge e"
      by (auto simp: rule_04_no_self_loops_def split: if_splits)
    with forward_self_loop[of e g] have "(e_target e, e_target e) \<in> (forward_edges g)\<^sup>+" by auto
    then show ?thesis by (auto simp: acyclic_def)
  qed
  ultimately show ?thesis by blast
qed

lemma rule_13: "\<not> has_errors (rule_13_parallel_converge g) \<longleftrightarrow>
    (\<forall>n \<in> nodes_of g. n_handler n = Parallel \<longrightarrow> (\<exists>t \<in> node_ids g. n_converge n = Some t))"
  by (auto simp: rule_13_parallel_converge_def contains_node split: option.splits)

lemma rule_14: "\<not> has_errors (rule_14_dynamic_parallel g) \<longleftrightarrow>
    (\<forall>n \<in> nodes_of g. n_handler n = DynamicParallel \<longrightarrow> (\<exists>t \<in> node_ids g. n_converge n = Some t))"
  by (auto simp: rule_14_dynamic_parallel_def contains_node split: option.splits)

lemma rules_13_14:
  "\<not> has_errors (rule_13_parallel_converge g) \<and> \<not> has_errors (rule_14_dynamic_parallel g) \<longleftrightarrow> converges g"
  unfolding rule_13 rule_14 converges_def by blast

lemma incoming_get:
  "(case hm_get (incoming_sources g) i of Some s \<Rightarrow> s | None \<Rightarrow> {}) = {a. (a, i) \<in> all_edges g}"
proof -
  let ?add = "\<lambda>e m. hm_insert (e_target e) (insert (e_source e) (case hm_get m (e_target e) of Some s \<Rightarrow> s | None \<Rightarrow> {})) m"
  have "(case hm_get (fold ?add es []) i of Some s \<Rightarrow> s | None \<Rightarrow> {}) = {a. (a, i) \<in> set (edge_pairs es)}" for es
    by (induction es rule: rev_induct) (auto simp: update_conv)
  then show ?thesis by (simp add: incoming_sources_def all_edges_def)
qed

lemma degrees_get:
  "hm_get (outgoing_degrees g) i = (let d = length (filter (\<lambda>e. e_source e = i) (g_edges g)) in if d = 0 then None else Some d)"
proof -
  let ?add = "\<lambda>e m. hm_insert (e_source e) (Suc (case hm_get m (e_source e) of Some d \<Rightarrow> d | None \<Rightarrow> 0)) m"
  have "hm_get (fold ?add es []) i = (let d = length (filter (\<lambda>e. e_source e = i) es) in if d = 0 then None else Some d)" for es
    by (induction es rule: rev_induct) (auto simp: update_conv Let_def)
  then show ?thesis unfolding outgoing_degrees_def .
qed

lemma degrees_wf: "hm_wf (outgoing_degrees g)"
proof -
  let ?add = "\<lambda>e m. hm_insert (e_source e) (Suc (case hm_get m (e_source e) of Some d \<Rightarrow> d | None \<Rightarrow> 0)) m"
  have "hm_wf (fold ?add es [])" for es by (induction es rule: rev_induct) (auto simp: distinct_update)
  then show ?thesis by (simp add: outgoing_degrees_def)
qed

lemma rule_16: "\<not> has_errors (rule_16_template_bindings g c) \<longleftrightarrow>
    (\<forall>n \<in> nodes_of g. \<forall>r \<in> set (template_refs_for_node n). reference_resolves_in_template r (upstream_of g n) c g)"
  by (auto simp: rule_16_template_bindings_def Let_def incoming_get upstream_of_def)

lemma rule_18: "\<not> has_errors (rule_18_known_models g c) \<longleftrightarrow>
    (\<forall>m. g_default_model g = Some m \<longrightarrow> model_known m (c_known_models c))
    \<and> (\<forall>n \<in> nodes_of g. \<forall>m \<in> set (node_models n). model_known m (c_known_models c))"
  by (auto simp: rule_18_known_models_def validate_model_name_def split: option.splits)

lemma rule_19: "\<not> has_errors (rule_19_known_tools g c) \<longleftrightarrow>
    (\<forall>n \<in> nodes_of g. \<forall>t \<in> set (n_tools n). trim t \<noteq> [] \<longrightarrow> tool_policy_entry_known t c)"
  by (auto simp: rule_19_known_tools_def)

lemma degrees_mem: "(s, d) \<in> set (outgoing_degrees g) \<longleftrightarrow> d = length (filter (\<lambda>e. e_source e = s) (g_edges g)) \<and> 0 < d"
  using map_of_eq_Some_iff[OF degrees_wf, of g s d] by (auto simp: degrees_get Let_def split: if_splits)

lemma rule_20: "\<not> has_errors (rule_20_fanout_bound g c) \<longleftrightarrow> fanout_bounded g c"
proof -
  let ?d = "\<lambda>i. length (filter (\<lambda>e. e_source e = i) (g_edges g))" and ?m = "c_max_fanout_degree c"
  have deg: "(\<exists>x \<in> set (outgoing_degrees g). ?m < snd x) \<longleftrightarrow> (\<exists>i. ?m < ?d i)"
    using gr_implies_not0 by (fastforce simp: degrees_mem Bex_def)
  have tasks: "(case n_max_tasks n of None \<Rightarrow> False | Some k \<Rightarrow> ?m < unat k) \<longleftrightarrow> (\<exists>k. n_max_tasks n = Some k \<and> ?m < unat k)" for n
    by (auto split: option.splits)
  have errs: "has_errors (rule_20_fanout_bound g c) \<longleftrightarrow> (\<exists>x \<in> set (outgoing_degrees g). ?m < snd x)
      \<or> (\<exists>n \<in> nodes_of g. case n_max_tasks n of None \<Rightarrow> False | Some k \<Rightarrow> ?m < unat k)"
    unfolding rule_20_fanout_bound_def has_errors_simps has_errors_concat has_errors_for
    by (intro arg_cong2[of _ _ _ _ "(\<or>)"] bex_cong) (auto split: prod.splits option.splits)
  show ?thesis unfolding errs deg tasks fanout_bounded_def by (meson not_less)
qed

lemma rule_21: "\<not> has_errors (rule_21_human_gate_resolver g c) \<longleftrightarrow> gates_resolved g c"
proof -
  have "\<not> has_errors (if \<not> n_human_gate n then []
     else (case n_resolver n of
         Some resolver \<Rightarrow>
           if resolver = [] then push_diag HumanGateResolver SevError (AtNode (n_id n)) (MsgNoResolver (n_id n))
           else if c_human_gate_resolvers c \<noteq> {} \<and> resolver \<notin> c_human_gate_resolvers c
           then push_diag HumanGateResolver SevError (AtNode (n_id n)) (MsgUnknownResolver (n_id n) resolver)
           else []
       | None \<Rightarrow> push_diag HumanGateResolver SevError (AtNode (n_id n)) (MsgNoResolver (n_id n))))
    \<longleftrightarrow> (n_human_gate n \<longrightarrow> (\<exists>r. n_resolver n = Some r \<and> r \<noteq> [] \<and> (c_human_gate_resolvers c = {} \<or> r \<in> c_human_gate_resolvers c)))" for n
    by (cases "n_resolver n") auto
  then show ?thesis unfolding rule_21_human_gate_resolver_def has_errors_for gates_resolved_def by blast
qed

lemma rule_22: "\<not> has_errors (rule_22_reference_resolution g c) \<longleftrightarrow>
    (\<forall>n \<in> nodes_of g. (\<forall>a \<in> set (n_artifact_refs n). artifact_ref_resolves a c g)
       \<and> set (n_checkpoint_refs n) \<subseteq> graph_checkpoint_names g c)"
  by (auto simp: rule_22_reference_resolution_def Let_def)

lemma rule_23: "\<not> has_errors (rule_23_no_shell g) \<longleftrightarrow> shell_free g"
  by (auto simp: rule_23_no_shell_def shell_free_def find_None_iff split: option.splits if_splits
      dest: find_Some_in)

lemma warning_rules:
  "\<not> has_errors (rule_05_goal_gate_edges g)" "\<not> has_errors (rule_07_known_handler g)"
  "\<not> has_errors (rule_08_prompt_required g)" "\<not> has_errors (rule_09_no_duplicate_edges g)"
  "\<not> has_errors (rule_17_dead_edges g)"
proof -
  have "\<not> has_errors (duplicate_edges seen es)" for seen es
    by (induction seen es rule: duplicate_edges.induct) auto
  then show "\<not> has_errors (rule_09_no_duplicate_edges g)" by (simp add: rule_09_no_duplicate_edges_def)
qed (auto simp: rule_05_goal_gate_edges_def rule_07_known_handler_def rule_08_prompt_required_def
    rule_17_dead_edges_def split: option.splits)

lemma names_resolve_rules: "names_resolve g c \<longleftrightarrow> \<not> has_errors (rule_16_template_bindings g c)
    \<and> \<not> has_errors (rule_18_known_models g c) \<and> \<not> has_errors (rule_19_known_tools g c)
    \<and> \<not> has_errors (rule_22_reference_resolution g c)"
  unfolding rule_16 rule_18 rule_19 rule_22 names_resolve_def by blast

lemma diagnostics_exact: "\<not> has_errors (diagnostics_with_context g c) \<longleftrightarrow> graph_valid g c"
  using rules_01_02[of g] rule_11[of g] rules_edges[of g] rules_04_15[of g] rules_13_14[of g]
    rule_20[of g c] rule_21[of g c] rule_23[of g] warning_rules[of g]
  unfolding graph_valid_def names_resolve_rules diagnostics_with_context_def has_errors_simps by blast

subsection \<open>Properties\<close>

text \<open>C10. Validation is exact. A graph passes if and only if it has a start node from which every node
  is reachable, every edge joins declared nodes with a weight that is not at or below zero and a
  condition that parses, the edges without back-edge marker are acyclic, every fan-out node names an
  existing convergence node, every template variable, model, tool, artifact and checkpoint resolves,
  fan-out stays within the cap, human gates have a resolver, and neither a handler nor a tool entry
  grants shell access.\<close>

theorem validate_exact: "validate_with_context g c = Inr () \<longleftrightarrow> graph_valid g c"
  unfolding diagnostics_exact[symmetric] by (simp add: validate_with_context_def Let_def)

text \<open>Every graphic text survives trimming as a whole when it has no other bytes.\<close>

lemma trim_all_graphic: "s \<noteq> [] \<Longrightarrow> \<forall>c \<in> set s. is_graphic c \<Longrightarrow> trim s = s"
  by (simp add: trim_graphic_ends)

lemma shell_tools_graphic: "t \<in> set SHELL_TOOLS \<Longrightarrow> \<forall>c \<in> set t. is_graphic c"
  by (auto simp: SHELL_TOOLS_def is_graphic_def byte_def)

lemma shell_prefix_grants:
  assumes "t \<in> set SHELL_TOOLS" "prefix pre t"
  shows "tool_entry_grants_shell (pre @ ''*'')"
proof -
  have "\<forall>c \<in> set (pre @ ''*''). is_graphic c"
    using shell_tools_graphic[OF assms(1)] set_mono_prefix[OF assms(2)] by (auto simp: is_graphic_def byte_def)
  then have trim: "trim (pre @ ''*'') = pre @ ''*''" by (intro trim_all_graphic) auto
  have "\<not> prefix ''group:'' (pre @ ''*'')"
    using assms by (cases pre) (auto simp: SHELL_TOOLS_def)
  moreover have "strip_suffix ''*'' (pre @ ''*'') = Some pre" by (simp add: strip_suffix_Some)
  ultimately show ?thesis
    using assms unfolding tool_entry_grants_shell_def trim Let_def
    by (auto simp: starts_with_def list_ex_iff)
qed

text \<open>Among the named groups only the runtime group holds shell tools, and none is a robot group.\<close>

lemma shell_groups:
  assumes "expand_group entry = Some tools"
  shows "\<not> entry_is_robot_group entry" "t \<in> set tools \<Longrightarrow> t \<in> set SHELL_TOOLS \<Longrightarrow> entry = ''group:runtime''"
proof -
  have "list_all (\<lambda>(n, ts). \<not> entry_is_robot_group n \<and> (n = ''group:runtime'' \<or> list_all (\<lambda>t. \<not> List.member SHELL_TOOLS t) ts)) TOOL_GROUPS"
    by code_simp
  moreover from assms obtain p where "List.find (\<lambda>g. fst g = entry) TOOL_GROUPS = Some p" "snd p = tools"
    by (auto simp: expand_group_def)
  then have "(entry, tools) \<in> set TOOL_GROUPS" using find_Some_in[of "\<lambda>g. fst g = entry" TOOL_GROUPS p] by (cases p) auto
  ultimately show "\<not> entry_is_robot_group entry" "t \<in> set tools \<Longrightarrow> t \<in> set SHELL_TOOLS \<Longrightarrow> entry = ''group:runtime''"
    by (fastforce simp: list_all_iff)+
qed

lemma robot_group_prefix: "entry_is_robot_group entry \<Longrightarrow> prefix ''group:'' entry"
  by (auto simp: entry_is_robot_group_def parse_group_name_def ROBOT_GROUP_PREFIX_def strip_prefix_Some
      bind_eq_Some_conv)

lemma known_entry_no_shell:
  assumes "trim entry \<noteq> [] \<longrightarrow> tool_policy_entry_known entry c" "\<not> tool_entry_grants_shell entry"
    and tool: "tool \<in> set SHELL_TOOLS"
  shows "\<not> entry_matches reg entry tool"
proof
  assume m: "entry_matches reg entry tool"
  have group: "expand_group entry \<noteq> None" if "prefix ''group:'' entry"
  proof -
    have "CHR ''g'' \<in> set (trim entry)" using that by (intro graphic_trim) (auto simp: prefix_def is_graphic_def byte_def)
    with assms(1) that show ?thesis by (auto simp: tool_policy_entry_known_def starts_with_def split: if_splits)
  qed
  show False
  proof (cases "expand_group entry")
    case (Some tools)
    with m shell_groups[OF Some] tool have "entry = ''group:runtime''" by (simp add: entry_matches_def)
    moreover have "tool_entry_grants_shell ''group:runtime''" by code_simp
    ultimately show False using assms(2) by simp
  next
    case None
    with group robot_group_prefix have nr: "\<not> entry_is_robot_group entry" by blast
    show False
    proof (cases "strip_suffix ''*'' entry")
      case (Some pre)
      with m None nr have "prefix pre tool" by (simp add: entry_matches_def starts_with_def)
      with shell_prefix_grants[OF tool] Some assms(2) show False by (auto simp: strip_suffix_Some)
    next
      case N: None
      with m None nr have "entry = tool" by (simp add: entry_matches_def)
      moreover have "trim tool = tool" "tool \<noteq> []"
        using trim_all_graphic[OF _ shell_tools_graphic[OF tool]] tool by (auto simp: SHELL_TOOLS_def)
      ultimately show False using assms(2) tool by (simp add: tool_entry_grants_shell_def)
    qed
  qed
qed

text \<open>C12. The validator and the tool policy agree about shell access: in a graph that passes validation,
  no tool entry of any node, read the way the agent's policy reads entries (robot groups, named groups,
  wildcards, exact names), matches a shell-family tool, and no node uses the shell handler.\<close>

theorem validated_graph_grants_no_shell:
  assumes "validate_with_context g c = Inr ()" "n \<in> nodes_of g" "tool \<in> set SHELL_TOOLS"
  shows "n_handler n \<noteq> Shell \<and> \<not> (\<exists>entry. List.member (n_tools n) entry \<and> entry_matches reg entry tool)"
proof -
  have "\<not> has_errors (diagnostics_with_context g c)"
    using assms(1) by (auto simp: validate_with_context_def Let_def split: if_splits)
  then have "shell_free g" "\<not> has_errors (rule_19_known_tools g c)"
    unfolding rule_23[symmetric] diagnostics_with_context_def by simp_all
  with assms(2) have "\<not> entry_matches reg entry tool" if "entry \<in> set (n_tools n)" for entry
    using that known_entry_no_shell[of entry c tool reg] assms(3) unfolding rule_19 shell_free_def by blast
  with assms(2) \<open>shell_free g\<close> show ?thesis by (auto simp: shell_free_def)
qed

theorem validated_graph_grants_no_shell_witness:
  "validate (bare_graph [''start'', ''b''] [bare_edge ''start'' ''b'']) = Inr ()
   \<and> \<not> entry_matches (\<lambda>_. {}) ''group:fs'' ''bash''"
proof -
  let ?n = "default_node\<lparr>n_id := ''start'', n_tools := [''group:fs'', ''read_*'']\<rparr>"
  let ?g = "(bare_graph [] [])\<lparr>g_nodes := [(''start'', ?n)]\<rparr>"
  have "validate_with_context ?g default_context = Inr ()" by code_simp
  moreover have "?n \<in> nodes_of ?g" by (simp add: nodes_of_def)
  moreover have "''bash'' \<in> set SHELL_TOOLS" by (simp add: SHELL_TOOLS_def)
  ultimately have "\<not> entry_matches (\<lambda>_. {}) ''group:fs'' ''bash''"
    using validated_graph_grants_no_shell by fastforce
  moreover have "validate (bare_graph [''start'', ''b''] [bare_edge ''start'' ''b'']) = Inr ()" by code_simp
  ultimately show ?thesis by simp
qed

text \<open>The weight rule lets an infinite weight and a NaN through: it only refuses weights that compare
  at or below zero.\<close>

theorem nonfinite_weights_accepted:
  "rule_10_positive_weight (bare_graph [''start'', ''b''] [(bare_edge ''start'' ''b'')\<lparr>e_weight := Inf False\<rparr>]) = []
   \<and> rule_10_positive_weight (bare_graph [''start'', ''b''] [(bare_edge ''start'' ''b'')\<lparr>e_weight := NaN\<rparr>]) = []"
  by (simp add: rule_10_positive_weight_def for_edges_def bare_defs f64_le_def)

end
