(* ===== verification/Ir.thy ===== *)
theory Ir
  imports Validate_Properties
begin

text \<open>
  Model of \<^verbatim>\<open>crates/octos-pipeline/src/ir.rs\<close>: the typed intermediate representation a language model
  writes, the capability contract of each palette kind, and the compiler to a pipeline graph. Reading
  the JSON text is done by serde and is not part of this theory. Constructors carry the prefix \<open>Ir\<close>
  because several share their name with a handler kind.
\<close>

subsection \<open>The representation\<close>

datatype IrNodeKind =
    IrResearch string "u32 option" "u32 option"
  | IrTransform string
  | IrSynthesize string "u32 option" "u32 option"
  | IrReport string "u32 option" "u32 option"
  | IrGate
  | IrFanout "string option" string string "u32 option"
  | IrCodeReview string "string option"
  | IrCodeEdit string "string list option"
  | IrShellCheck string "u64 option"
  | IrSubAgent string "string list option" "string option"
  | IrNotify string "string option"
  | IrWait "u64 option" "string option" "u64 option"

record IrNode =
  ir_id :: string
  ir_kind :: IrNodeKind

record IrEdge =
  ir_source :: string
  ir_target :: string
  ir_condition :: "string option"
  ir_back_edge :: bool

record PipelineIr =
  ir_graph_id :: string
  ir_label :: "string option"
  ir_nodes :: "IrNode list"
  ir_edges :: "IrEdge list"

record PaletteContract =
  pc_handler :: HandlerKind
  pc_allowed_tools :: "string list"
  pc_model :: "string option"

definition contract_for :: "IrNodeKind \<Rightarrow> PaletteContract" where
  "contract_for k = (case k of
       IrResearch _ _ _ \<Rightarrow>
         \<lparr>pc_handler = Codergen, pc_allowed_tools = [''web_search'', ''web_fetch'', ''read_file''], pc_model = Some ''cheap''\<rparr>
     | IrTransform _ \<Rightarrow> \<lparr>pc_handler = Codergen, pc_allowed_tools = [''read_file''], pc_model = Some ''cheap''\<rparr>
     | IrSynthesize _ _ _ \<Rightarrow> \<lparr>pc_handler = Codergen, pc_allowed_tools = [''read_file''], pc_model = Some ''strong''\<rparr>
     | IrReport _ _ _ \<Rightarrow>
         \<lparr>pc_handler = Codergen, pc_allowed_tools = [''read_file'', ''write_file''], pc_model = Some ''strong''\<rparr>
     | IrGate \<Rightarrow> \<lparr>pc_handler = Gate, pc_allowed_tools = [], pc_model = None\<rparr>
     | IrFanout _ _ _ _ \<Rightarrow>
         \<lparr>pc_handler = DynamicParallel,
          pc_allowed_tools = [''web_search'', ''web_fetch'', ''read_file'', ''write_file''], pc_model = Some ''cheap''\<rparr>
     | IrCodeReview _ _ \<Rightarrow>
         \<lparr>pc_handler = Codergen, pc_allowed_tools = [''read_file'', ''grep'', ''glob'', ''list_dir''],
          pc_model = Some ''strong''\<rparr>
     | IrCodeEdit _ _ \<Rightarrow>
         \<lparr>pc_handler = Codergen,
          pc_allowed_tools = [''read_file'', ''write_file'', ''edit_file'', ''grep'', ''glob''], pc_model = Some ''strong''\<rparr>
     | IrShellCheck _ _ \<Rightarrow> \<lparr>pc_handler = ShellCheck, pc_allowed_tools = [], pc_model = None\<rparr>
     | IrSubAgent _ _ _ \<Rightarrow> \<lparr>pc_handler = Codergen, pc_allowed_tools = [''spawn''], pc_model = Some ''strong''\<rparr>
     | IrNotify _ _ \<Rightarrow> \<lparr>pc_handler = Notify, pc_allowed_tools = [], pc_model = None\<rparr>
     | IrWait _ _ _ \<Rightarrow> \<lparr>pc_handler = Wait, pc_allowed_tools = [], pc_model = None\<rparr>)"

subsection \<open>The compiler\<close>

definition nl :: string where "nl = [CHR 0x0A]"

definition delegator_prompt :: "string \<Rightarrow> string" where
  "delegator_prompt task =
     ''You are a delegator. Your ONLY tool is `spawn`. Use it to create a sub-agent that completes this task:''
     @ nl @ nl @ task @ nl @ nl @ ''Return the sub-agent'' @ [CHR 0x27] @ ''s final output as your result.''"

definition fill_node :: "IrNodeKind \<Rightarrow> PipelineNode \<Rightarrow> PipelineNode" where
  "fill_node k node = (case k of
       IrResearch p mo mi \<Rightarrow> node\<lparr>n_prompt := Some p, n_max_output_tokens := mo, n_max_iterations := mi\<rparr>
     | IrSynthesize p mo mi \<Rightarrow> node\<lparr>n_prompt := Some p, n_max_output_tokens := mo, n_max_iterations := mi\<rparr>
     | IrReport p mo mi \<Rightarrow> node\<lparr>n_prompt := Some p, n_max_output_tokens := mo, n_max_iterations := mi\<rparr>
     | IrTransform p \<Rightarrow> node\<lparr>n_prompt := Some p\<rparr>
     | IrGate \<Rightarrow> node
     | IrFanout plan worker conv mt \<Rightarrow>
         node\<lparr>n_prompt := plan, n_worker_prompt := Some worker, n_converge := Some conv, n_max_tasks := mt\<rparr>
     | IrCodeReview p scope \<Rightarrow> node\<lparr>n_prompt := Some p, n_label := scope\<rparr>
     | IrCodeEdit p files \<Rightarrow>
         (case files of
            Some fs \<Rightarrow> node\<lparr>n_prompt := Some p, n_label := Some (join '', '' fs)\<rparr>
          | None \<Rightarrow> node\<lparr>n_prompt := Some p\<rparr>)
     | IrShellCheck cmd t \<Rightarrow>
         node\<lparr>n_prompt := Some cmd, n_label := Some ''shell_check'',
              n_timeout_secs := Some (case t of Some s \<Rightarrow> s | None \<Rightarrow> 60)\<rparr>
     | IrSubAgent task tools model \<Rightarrow>
         (let n1 = node\<lparr>n_prompt := Some (delegator_prompt task)\<rparr>;
              n2 = (case tools of Some ts \<Rightarrow> n1\<lparr>n_label := Some (''subagent:'' @ join '','' ts)\<rparr> | None \<Rightarrow> n1)
          in case model of Some m \<Rightarrow> n2\<lparr>n_model := Some m\<rparr> | None \<Rightarrow> n2)
     | IrNotify msg ch \<Rightarrow>
         node\<lparr>n_prompt := Some msg, n_label := (case ch of Some c \<Rightarrow> Some c | None \<Rightarrow> Some ''notify'')\<rparr>
     | IrWait secs cond t \<Rightarrow>
         (let n1 = (case secs of
              Some s \<Rightarrow> node\<lparr>n_prompt := Some (''wait '' @ nat_text (unat s) @ ''s''), n_timeout_secs := Some s\<rparr>
            | None \<Rightarrow> (case cond of
                Some c \<Rightarrow> node\<lparr>n_prompt := Some (''wait until '' @ c),
                              n_timeout_secs := Some (case t of Some x \<Rightarrow> x | None \<Rightarrow> 300)\<rparr>
              | None \<Rightarrow> node))
          in n1\<lparr>n_label := Some ''wait''\<rparr>))"

definition compile_node :: "IrNode \<Rightarrow> PipelineNode" where
  "compile_node n =
     (let c = contract_for (ir_kind n)
      in fill_node (ir_kind n)
           (default_node\<lparr>n_id := ir_id n, n_handler := pc_handler c, n_tools := pc_allowed_tools c, n_model := pc_model c\<rparr>))"

datatype compile_error = DuplicateNodeId string | EdgeSourceUndeclared string | EdgeTargetUndeclared string

fun compile_nodes :: "(string, PipelineNode) hashmap \<Rightarrow> IrNode list \<Rightarrow> (compile_error, (string, PipelineNode) hashmap) sum" where
  "compile_nodes nodes [] = Inr nodes"
| "compile_nodes nodes (n # ns) =
     (if hm_contains nodes (ir_id n) then Inl (DuplicateNodeId (ir_id n))
      else compile_nodes (hm_insert (ir_id n) (compile_node n) nodes) ns)"

fun compile_edges :: "(string, PipelineNode) hashmap \<Rightarrow> IrEdge list \<Rightarrow> (compile_error, PipelineEdge list) sum" where
  "compile_edges nodes [] = Inr []"
| "compile_edges nodes (e # es) =
     (if \<not> hm_contains nodes (ir_source e) then Inl (EdgeSourceUndeclared (ir_source e))
      else if \<not> hm_contains nodes (ir_target e) then Inl (EdgeTargetUndeclared (ir_target e))
      else and_then (compile_edges nodes es) (\<lambda>rest.
        Inr (\<lparr>e_source = ir_source e, e_target = ir_target e,
              e_label = (if ir_back_edge e then Some ''back_edge'' else None),
              e_condition = ir_condition e, e_weight = Fin 1\<rparr> # rest)))"

definition compile :: "PipelineIr \<Rightarrow> (compile_error, PipelineGraph) sum" where
  "compile ir =
     and_then (compile_nodes [] (ir_nodes ir)) (\<lambda>nodes.
     and_then (compile_edges nodes (ir_edges ir)) (\<lambda>edges.
       Inr \<lparr>g_id = ir_graph_id ir, g_label = ir_label ir, g_default_model = None, g_max_total_tokens = None,
            g_default_timeout_secs = None, g_result_fidelity = None, g_nodes = nodes, g_edges = edges,
            g_subgraphs = []\<rparr>))"

subsection \<open>Lemmas\<close>

lemma fill_node_capability [simp]:
  "n_id (fill_node k n) = n_id n" "n_handler (fill_node k n) = n_handler n" "n_tools (fill_node k n) = n_tools n"
  by (auto simp: fill_node_def Let_def split: IrNodeKind.splits option.splits)

lemma compile_node_capability [simp]:
  "n_id (compile_node n) = ir_id n" "n_handler (compile_node n) = pc_handler (contract_for (ir_kind n))"
  "n_tools (compile_node n) = pc_allowed_tools (contract_for (ir_kind n))"
  by (simp_all add: compile_node_def Let_def)

lemma compile_node_model:
  "(\<And>t ts m. ir_kind n \<noteq> IrSubAgent t ts (Some m)) \<Longrightarrow> n_model (compile_node n) = pc_model (contract_for (ir_kind n))"
  by (auto simp: compile_node_def fill_node_def Let_def split: IrNodeKind.splits option.splits)

lemma update_fresh: "k \<notin> fst ` set m \<Longrightarrow> AList.update k v m = m @ [(k, v)]"
  by (induction m) auto

lemma compile_nodes_map:
  "compile_nodes m ns = Inr nodes \<Longrightarrow> hm_wf m \<Longrightarrow>
     nodes = m @ map (\<lambda>n. (ir_id n, compile_node n)) ns \<and> hm_wf nodes"
proof (induction m ns rule: compile_nodes.induct)
  case (2 m n ns)
  have new: "\<not> hm_contains m (ir_id n)" using "2.prems"(1) by (simp split: if_splits)
  then have up: "hm_insert (ir_id n) (compile_node n) m = m @ [(ir_id n, compile_node n)]"
    by (simp add: hm_contains_iff update_fresh)
  have "compile_nodes (m @ [(ir_id n, compile_node n)]) ns = Inr nodes"
    using "2.prems"(1) new up by simp
  moreover have "hm_wf (m @ [(ir_id n, compile_node n)])"
    using "2.prems"(2) new by (auto simp: hm_contains_iff)
  ultimately have "nodes = (m @ [(ir_id n, compile_node n)]) @ map (\<lambda>n. (ir_id n, compile_node n)) ns \<and> hm_wf nodes"
    using "2.IH"[OF new] up by metis
  moreover from this have "nodes = m @ map (\<lambda>n. (ir_id n, compile_node n)) (n # ns)" by simp
  ultimately show ?case by blast
qed simp

lemma compile_edges_map:
  "compile_edges nodes es = Inr edges \<Longrightarrow>
     edges = map (\<lambda>e. \<lparr>e_source = ir_source e, e_target = ir_target e,
              e_label = (if ir_back_edge e then Some ''back_edge'' else None),
              e_condition = ir_condition e, e_weight = Fin 1\<rparr>) es
     \<and> (\<forall>e \<in> set es. hm_contains nodes (ir_source e) \<and> hm_contains nodes (ir_target e))"
  by (induction es arbitrary: edges) (auto simp: and_then_Inr split: if_splits)

lemma compile_Inr:
  assumes "compile ir = Inr g"
  shows "g_nodes g = map (\<lambda>n. (ir_id n, compile_node n)) (ir_nodes ir)" "graph_wf g"
    "node_ids g = ir_id ` set (ir_nodes ir)"
    "g_edges g = map (\<lambda>e. \<lparr>e_source = ir_source e, e_target = ir_target e,
              e_label = (if ir_back_edge e then Some ''back_edge'' else None),
              e_condition = ir_condition e, e_weight = Fin 1\<rparr>) (ir_edges ir)"
    "\<forall>e \<in> set (g_edges g). e_source e \<in> node_ids g \<and> e_target e \<in> node_ids g"
proof -
  from assms obtain nodes edges where n: "compile_nodes [] (ir_nodes ir) = Inr nodes"
    and e: "compile_edges nodes (ir_edges ir) = Inr edges"
    and g: "g_nodes g = nodes" "g_edges g = edges"
    by (auto simp: compile_def and_then_Inr)
  have nodes: "nodes = map (\<lambda>n. (ir_id n, compile_node n)) (ir_nodes ir)" "hm_wf nodes"
    using compile_nodes_map[OF n] unfolding append_Nil by auto
  then show "g_nodes g = map (\<lambda>n. (ir_id n, compile_node n)) (ir_nodes ir)" by (simp add: g)
  have "\<forall>(k, n) \<in> set nodes. n_id n = k" using nodes(1) by auto
  with nodes(2) show "graph_wf g" unfolding graph_wf_def g by blast
  show ids: "node_ids g = ir_id ` set (ir_nodes ir)"
    using nodes(1) by (auto simp: node_ids_def g)
  show "g_edges g = map (\<lambda>e. \<lparr>e_source = ir_source e, e_target = ir_target e,
              e_label = (if ir_back_edge e then Some ''back_edge'' else None),
              e_condition = ir_condition e, e_weight = Fin 1\<rparr>) (ir_edges ir)"
    using compile_edges_map[OF e] by (simp add: g)
  show "\<forall>e \<in> set (g_edges g). e_source e \<in> node_ids g \<and> e_target e \<in> node_ids g"
    using compile_edges_map[OF e] by (auto simp: g contains_node[symmetric])
qed

lemma contract_no_shell:
  "pc_handler (contract_for k) \<noteq> Shell" "t \<in> set (pc_allowed_tools (contract_for k)) \<Longrightarrow> t \<notin> set SHELL_TOOLS"
  by (auto simp: contract_for_def SHELL_TOOLS_def split: IrNodeKind.splits)

subsection \<open>Properties\<close>

text \<open>C31. Capability is locked by the compiler: every node of a compiled graph is the image of an IR node
  and has exactly the handler and the tool list of the contract of that node's kind, so no field of the
  IR can select a handler, widen the tools or reach the shell handler or a shell tool; the model too
  comes from the contract, except for the override a sub-agent node may carry. The graph is well formed
  and its edges join declared nodes.\<close>

theorem compile_locks_capability:
  assumes "compile ir = Inr g"
  shows "graph_wf g
    \<and> (\<forall>e \<in> set (g_edges g). e_source e \<in> node_ids g \<and> e_target e \<in> node_ids g)
    \<and> (\<forall>n \<in> nodes_of g. \<exists>i \<in> set (ir_nodes ir).
         n_id n = ir_id i \<and> n_handler n = pc_handler (contract_for (ir_kind i))
         \<and> n_tools n = pc_allowed_tools (contract_for (ir_kind i))
         \<and> (n_model n = pc_model (contract_for (ir_kind i)) \<or> (\<exists>t ts m. ir_kind i = IrSubAgent t ts (Some m)))
         \<and> n_handler n \<noteq> Shell \<and> set (n_tools n) \<inter> set SHELL_TOOLS = {})"
proof -
  have "\<exists>i \<in> set (ir_nodes ir).
         n_id n = ir_id i \<and> n_handler n = pc_handler (contract_for (ir_kind i))
         \<and> n_tools n = pc_allowed_tools (contract_for (ir_kind i))
         \<and> (n_model n = pc_model (contract_for (ir_kind i)) \<or> (\<exists>t ts m. ir_kind i = IrSubAgent t ts (Some m)))
         \<and> n_handler n \<noteq> Shell \<and> set (n_tools n) \<inter> set SHELL_TOOLS = {}" if "n \<in> nodes_of g" for n
  proof -
    from that obtain i where i: "i \<in> set (ir_nodes ir)" "n = compile_node i"
      by (auto simp: nodes_of_def compile_Inr(1)[OF assms])
    then show ?thesis using compile_node_model[of i] contract_no_shell[where k = "ir_kind i"] by fastforce
  qed
  with compile_Inr[OF assms] show ?thesis by blast
qed

theorem compile_locks_capability_witness:
  "\<exists>g. compile \<lparr>ir_graph_id = ''g'', ir_label = None,
       ir_nodes = [\<lparr>ir_id = ''a'', ir_kind = IrResearch ''p'' None None\<rparr>], ir_edges = []\<rparr> = Inr g
     \<and> graph_wf g"
proof -
  obtain g where g: "compile \<lparr>ir_graph_id = ''g'', ir_label = None,
       ir_nodes = [\<lparr>ir_id = ''a'', ir_kind = IrResearch ''p'' None None\<rparr>], ir_edges = []\<rparr> = Inr g"
    by (simp add: compile_def hm_contains_def)
  with compile_locks_capability[OF g] show ?thesis by blast
qed

text \<open>The compiler refuses exactly the programs with a repeated node identifier or an edge whose
  source or target is not declared.\<close>

theorem compile_defined_iff:
  "(\<exists>g. compile ir = Inr g) \<longleftrightarrow> distinct (map ir_id (ir_nodes ir))
     \<and> ir_source ` set (ir_edges ir) \<union> ir_target ` set (ir_edges ir) \<subseteq> ir_id ` set (ir_nodes ir)"
proof -
  have nodes: "(\<exists>nodes. compile_nodes m ns = Inr nodes) \<longleftrightarrow>
      distinct (map ir_id ns) \<and> fst ` set m \<inter> ir_id ` set ns = {}" for m ns
    by (induction m ns rule: compile_nodes.induct) (auto simp: hm_contains_iff update_fresh)
  have edges: "(\<exists>edges. compile_edges ns es = Inr edges) \<longleftrightarrow>
      ir_source ` set es \<union> ir_target ` set es \<subseteq> fst ` set ns" for ns es
    by (induction es) (auto simp: hm_contains_iff and_then_Inr)
  have keys: "fst ` set n = ir_id ` set (ir_nodes ir)" if "compile_nodes [] (ir_nodes ir) = Inr n" for n
    using compile_nodes_map[OF that] by (auto simp: image_image)
  have "(\<exists>g. compile ir = Inr g) \<longleftrightarrow>
      (\<exists>n es. compile_nodes [] (ir_nodes ir) = Inr n \<and> compile_edges n (ir_edges ir) = Inr es)"
    by (auto simp: compile_def and_then_Inr)
  also have "\<dots> \<longleftrightarrow> (\<exists>n. compile_nodes [] (ir_nodes ir) = Inr n)
      \<and> ir_source ` set (ir_edges ir) \<union> ir_target ` set (ir_edges ir) \<subseteq> ir_id ` set (ir_nodes ir)"
    using edges keys by metis
  also have "(\<exists>n. compile_nodes [] (ir_nodes ir) = Inr n) \<longleftrightarrow> distinct (map ir_id (ir_nodes ir))"
    using nodes[of "[]" "ir_nodes ir"] by simp
  finally show ?thesis .
qed

text \<open>A sub-agent node can do nothing: its contract allows the single tool \<^verbatim>\<open>spawn\<close>, which the
  policy of a pipeline worker denies, so no tool at all is allowed to the worker of such a node.\<close>

theorem subagent_worker_has_no_tool:
  "\<not> is_allowed reg (worker_policy (compile_node \<lparr>ir_id = i, ir_kind = IrSubAgent task ts model\<rparr>)) tool"
proof -
  let ?n = "compile_node \<lparr>ir_id = i, ir_kind = IrSubAgent task ts model\<rparr>"
  have tools: "n_tools ?n = [''spawn'']" by (simp add: contract_for_def)
  have "trim ''spawn'' = ''spawn''" by code_simp
  with tools have p: "p_allow (worker_policy ?n) = [''spawn'']" "''spawn'' \<in> set (p_deny (worker_policy ?n))"
    by (simp_all add: worker_policy_def)
  have "entry_matches reg ''spawn'' tool \<longleftrightarrow> ''spawn'' = tool"
    by (rule entry_matches_plain) (simp_all add: strip_prefix_def strip_suffix_def suffix_def)
  with p show ?thesis by (auto simp: is_allowed_iff)
qed

end
