(* ===== verification/Profile_Properties.thy ===== *)
theory Profile_Properties
  imports Profile
begin

text \<open>
  The topological pass of \<open>longest_chain\<close> is correct: its counters never underflow, and on a graph whose
  forward edges are acyclic it returns the number of nodes of a longest forward chain. From this, what a
  graph that passes the profile satisfies.
\<close>

subsection \<open>One node's neighbours\<close>

definition degrees_are :: "counts \<Rightarrow> string set \<Rightarrow> (string \<Rightarrow> nat) \<Rightarrow> bool" where
  "degrees_are indeg K f \<longleftrightarrow> (\<forall>w. hm_get indeg w = (if w \<in> K then Some (f w) else None))"

definition relaxed :: "nat \<Rightarrow> string list \<Rightarrow> counts \<Rightarrow> counts \<Rightarrow> bool" where
  "relaxed du ws dst dst' \<longleftrightarrow>
     (\<forall>w. count_of dst' 1 w = (if w \<in> set ws then max (count_of dst 1 w) (du + 1) else count_of dst 1 w))
     \<and> (\<forall>w d. hm_get dst' w = Some d \<longrightarrow> hm_get dst w = Some d \<or> (w \<in> set ws \<and> d = du + 1))
     \<and> (\<forall>w. hm_get dst w \<noteq> None \<longrightarrow> hm_get dst' w \<noteq> None) \<and> (hm_wf dst \<longrightarrow> hm_wf dst')"

lemma relaxed_step:
  "relaxed du [w] dst (if du + 1 > count_of dst 1 w then hm_insert w (du + 1) dst else dst)"
  by (auto simp: relaxed_def count_of_def update_conv max_def distinct_update split: option.splits)

lemma relaxed_Cons:
  assumes "relaxed du [w] a b" "relaxed du ws b c"
  shows "relaxed du (w # ws) a c"
proof -
  have ab: "count_of b 1 x = (if x = w then max (count_of a 1 x) (du + 1) else count_of a 1 x)"
    "hm_get b x = Some d \<Longrightarrow> hm_get a x = Some d \<or> (x = w \<and> d = du + 1)"
    "hm_get a x \<noteq> None \<Longrightarrow> hm_get b x \<noteq> None" "hm_wf a \<Longrightarrow> hm_wf b" for x d
    using assms(1) unfolding relaxed_def by auto
  have bc: "count_of c 1 x = (if x \<in> set ws then max (count_of b 1 x) (du + 1) else count_of b 1 x)"
    "hm_get c x = Some d \<Longrightarrow> hm_get b x = Some d \<or> (x \<in> set ws \<and> d = du + 1)"
    "hm_get b x \<noteq> None \<Longrightarrow> hm_get c x \<noteq> None" "hm_wf b \<Longrightarrow> hm_wf c" for x d
    using assms(2) unfolding relaxed_def by blast+
  have "count_of c 1 x = (if x \<in> set (w # ws) then max (count_of a 1 x) (du + 1) else count_of a 1 x)" for x
    unfolding bc(1) ab(1) by simp
  moreover have "hm_get a x = Some d \<or> (x \<in> set (w # ws) \<and> d = du + 1)" if "hm_get c x = Some d" for x d
    using ab(2) bc(2)[OF that] by auto
  ultimately show ?thesis unfolding relaxed_def using ab(3,4) bc(3,4) by blast
qed

definition relax_post :: "nat \<Rightarrow> string list \<Rightarrow> string set \<Rightarrow> (string \<Rightarrow> nat) \<Rightarrow> chain_state \<Rightarrow> chain_state \<Rightarrow> bool" where
  "relax_post du ws K f st st' = (case (st, st') of ((dst, indeg, queue), (dst', indeg', queue')) \<Rightarrow>
     degrees_are indeg' K (\<lambda>w. f w - count_list ws w) \<and> distinct queue'
     \<and> set queue' = set queue \<union> {w \<in> set ws. f w = count_list ws w} \<and> relaxed du ws dst dst')"

lemma relax_all_effect:
  assumes "degrees_are indeg K f" "set ws \<subseteq> K" "\<And>w. count_list ws w \<le> f w"
    and "distinct queue" "\<And>w. w \<in> set queue \<Longrightarrow> f w = 0"
  shows "\<exists>st'. relax_all du ws (dst, indeg, queue) = Some st' \<and> relax_post du ws K f (dst, indeg, queue) st'"
  using assms
proof (induction ws arbitrary: f dst indeg queue)
  case Nil
  then show ?case by (simp add: relax_post_def relaxed_def)
next
  case (Cons w ws)
  define dst1 where "dst1 = (if du + 1 > count_of dst 1 w then hm_insert w (du + 1) dst else dst)"
  define q1 where "q1 = (if f w - 1 = 0 then queue @ [w] else queue)"
  let ?f = "f(w := f w - 1)" and ?indeg = "hm_insert w (f w - 1) indeg"
  have get: "hm_get indeg w = Some (f w)" using Cons.prems(1,2) by (simp add: degrees_are_def)
  have pos: "0 < f w" using Cons.prems(3)[of w] by simp
  have step: "relax du w (dst, indeg, queue) = Some (dst1, ?indeg, q1)"
    using get pos by (simp add: dst1_def q1_def Let_def)
  have wq: "w \<notin> set queue" using Cons.prems(5)[of w] pos by auto
  have deg: "degrees_are ?indeg K ?f" using Cons.prems(1,2) by (auto simp: degrees_are_def update_conv)
  have le: "count_list ws x \<le> ?f x" for x using Cons.prems(3)[of x] by (auto split: if_splits)
  have q1: "distinct q1" using Cons.prems(4) wq by (simp add: q1_def)
  have zero: "?f x = 0" if "x \<in> set q1" for x
    using that Cons.prems(5)[of x] by (auto simp: q1_def split: if_splits)
  obtain dst' indeg' queue' where r: "relax_all du ws (dst1, ?indeg, q1) = Some (dst', indeg', queue')"
    and post: "relax_post du ws K ?f (dst1, ?indeg, q1) (dst', indeg', queue')"
    using Cons.IH[OF deg _ le q1 zero] Cons.prems(2) by fastforce
  have "(\<lambda>x. ?f x - count_list ws x) = (\<lambda>x. f x - count_list (w # ws) x)" using pos by (auto simp: fun_eq_iff)
  moreover have "set q1 \<union> {x \<in> set ws. ?f x = count_list ws x} = set queue \<union> {x \<in> set (w # ws). f x = count_list (w # ws) x}"
    using le[of w] pos by (auto simp: q1_def count_list_0_iff split: if_splits)
  moreover have "relaxed du (w # ws) dst dst'"
    using post relaxed_Cons[OF relaxed_step[of du w dst]] by (simp add: relax_post_def dst1_def)
  ultimately show ?case using post r step by (simp add: relax_post_def)
qed

subsection \<open>The loop\<close>

text \<open>Edges into \<open>w\<close> whose source is not processed yet.\<close>

definition open_degree :: "(string \<times> string) list \<Rightarrow> string set \<Rightarrow> string \<Rightarrow> nat" where
  "open_degree es P w = length (filter (\<lambda>e. snd e = w \<and> fst e \<notin> P) es)"

definition chain :: "string rel \<Rightarrow> string \<Rightarrow> nat \<Rightarrow> bool" where
  "chain E w d \<longleftrightarrow> (\<exists>p. edge_path E p \<and> p \<noteq> [] \<and> last p = w \<and> length p = d)"

definition queue_inv :: "(string \<times> string) list \<Rightarrow> string set \<Rightarrow> string set \<Rightarrow> counts \<Rightarrow> string list \<Rightarrow> bool" where
  "queue_inv es K P indeg queue \<longleftrightarrow> distinct queue \<and> set queue \<inter> P = {} \<and> P \<union> set queue \<subseteq> K
     \<and> degrees_are indeg K (open_degree es P) \<and> (\<forall>w \<in> K. open_degree es P w = 0 \<longleftrightarrow> w \<in> P \<union> set queue)"

definition dist_inv :: "(string \<times> string) list \<Rightarrow> string set \<Rightarrow> string set \<Rightarrow> counts \<Rightarrow> bool" where
  "dist_inv es V P dst \<longleftrightarrow> hm_wf dst \<and> (\<forall>k \<in> V. hm_get dst k \<noteq> None)
     \<and> (\<forall>w d. hm_get dst w = Some d \<longrightarrow> chain (set es) w d)
     \<and> (\<forall>u \<in> P. \<forall>w. (u, w) \<in> set es \<longrightarrow> count_of dst 1 u < count_of dst 1 w)"

lemma open_degree_step:
  assumes "u \<notin> P"
  shows "open_degree es (insert u P) w = open_degree es P w - count_list (neighbors_of (build_adj es) u) w"
    and "count_list (neighbors_of (build_adj es) u) w \<le> open_degree es P w"
proof -
  have "open_degree es P w = open_degree es (insert u P) w + count_list (map snd (filter (\<lambda>e. fst e = u) es)) w"
    using assms by (induction es) (auto simp: open_degree_def)
  moreover have "neighbors_of (build_adj es) u = map snd (filter (\<lambda>e. fst e = u) es)"
    using build_adj_get[of es u] by (simp add: neighbors_of_def)
  ultimately show "open_degree es (insert u P) w = open_degree es P w - count_list (neighbors_of (build_adj es) u) w"
    "count_list (neighbors_of (build_adj es) u) w \<le> open_degree es P w" by simp_all
qed

lemma neighbors_set: "set (neighbors_of (build_adj es) u) = set es `` {u}"
  using build_adj_set[of es u] by (auto simp: neighbors_of_def)

lemma open_degree_pos: "(u, w) \<in> set es \<Longrightarrow> u \<notin> P \<Longrightarrow> 0 < open_degree es P w"
  by (force simp: open_degree_def filter_empty_conv)

lemma chain_count: "dist_inv es V P dst \<Longrightarrow> chain (set es) u (count_of dst 1 u)"
  by (auto simp: dist_inv_def count_of_def chain_def edge_path_def split: option.splits intro!: exI[of _ "[u]"])

lemma chain_extend: "chain E u d \<Longrightarrow> (u, w) \<in> E \<Longrightarrow> chain E w (d + 1)"
proof -
  assume "chain E u d" "(u, w) \<in> E"
  then obtain p where "edge_path E p" "p \<noteq> []" "last p = u" "length p = d" by (auto simp: chain_def)
  with \<open>(u, w) \<in> E\<close> show ?thesis
    unfolding chain_def by (intro exI[of _ "p @ [w]"]) (auto simp: edge_path_def successively_append_iff)
qed

lemma dist_inv_step:
  assumes inv: "dist_inv es V P dst" and rel: "relaxed (count_of dst 1 u) (neighbors_of (build_adj es) u) dst dst'"
    and fresh: "\<And>x. x \<in> insert u P \<Longrightarrow> (u, x) \<notin> set es"
  shows "dist_inv es V (insert u P) dst'"
proof -
  have r: "count_of dst' 1 w = (if (u, w) \<in> set es then max (count_of dst 1 w) (count_of dst 1 u + 1) else count_of dst 1 w)"
    "hm_get dst' w = Some d \<Longrightarrow> hm_get dst w = Some d \<or> ((u, w) \<in> set es \<and> d = count_of dst 1 u + 1)"
    "hm_get dst w \<noteq> None \<Longrightarrow> hm_get dst' w \<noteq> None" "hm_wf dst \<Longrightarrow> hm_wf dst'" for w d
    using rel unfolding relaxed_def by (simp_all add: neighbors_set Image_singleton_iff)
  have same: "count_of dst' 1 x = count_of dst 1 x" if "x \<in> insert u P" for x using fresh[OF that] r(1) by simp
  have "chain (set es) w d" if "hm_get dst' w = Some d" for w d
    using r(2)[OF that] inv chain_extend[OF chain_count[OF inv, of u], of w] by (auto simp: dist_inv_def)
  moreover have "count_of dst' 1 x < count_of dst' 1 w" if "x \<in> insert u P" "(x, w) \<in> set es" for x w
  proof (cases "x = u")
    case True
    then show ?thesis using that same[of u] r(1)[of w] by simp
  next
    case False
    then have "count_of dst 1 x < count_of dst 1 w" using that inv by (auto simp: dist_inv_def)
    then show ?thesis unfolding same[OF that(1)] r(1)[of w] by (simp add: less_max_iff_disj)
  qed
  ultimately show ?thesis using inv r(3,4) unfolding dist_inv_def by blast
qed

lemma queue_inv_step:
  assumes inv: "queue_inv es K P indeg (u # queue)" and targets: "snd ` set es \<subseteq> K"
  shows "\<exists>dst' indeg' queue'. relax_all du (neighbors_of (build_adj es) u) (dst, indeg, queue) = Some (dst', indeg', queue')
    \<and> queue_inv es K (insert u P) indeg' queue' \<and> relaxed du (neighbors_of (build_adj es) u) dst dst'"
proof -
  let ?ws = "neighbors_of (build_adj es) u" and ?f = "open_degree es P"
  have u: "u \<notin> P" "u \<notin> set queue" "u \<in> K" "?f u = 0" using inv by (auto simp: queue_inv_def)
  have q: "?f w = 0" if "w \<in> set queue" for w using inv that by (auto simp: queue_inv_def)
  have ws: "set ?ws \<subseteq> K" using targets by (force simp: neighbors_set)
  have "degrees_are indeg K ?f" "distinct queue" using inv by (auto simp: queue_inv_def)
  from relax_all_effect[OF this(1) ws open_degree_step(2)[OF u(1)] this(2) q, of du dst]
  obtain dst' indeg' queue' where r: "relax_all du ?ws (dst, indeg, queue) = Some (dst', indeg', queue')"
    and post: "relax_post du ?ws K ?f (dst, indeg, queue) (dst', indeg', queue')" by fastforce
  have deg: "open_degree es (insert u P) = (\<lambda>w. ?f w - count_list ?ws w)"
    using open_degree_step(1)[OF u(1)] by auto
  have set': "set queue' = set queue \<union> {w \<in> set ?ws. ?f w = count_list ?ws w}" using post by (simp add: relax_post_def)
  have pos: "0 < ?f w" if "w \<in> set ?ws" for w
    using that open_degree_pos[of u w es P] u(1) by (auto simp: neighbors_set)
  have zero: "open_degree es (insert u P) w = 0 \<longleftrightarrow> ?f w = 0 \<or> (w \<in> set ?ws \<and> ?f w = count_list ?ws w)" for w
    using open_degree_step[OF u(1), of es w] pos[of w] by (cases "w \<in> set ?ws") (auto simp: deg count_list_0_iff)
  have "queue_inv es K (insert u P) indeg' queue'"
    unfolding queue_inv_def
  proof (intro conjI ballI)
    have "w \<notin> set ?ws" if "w \<in> insert u P" for w
      using inv that pos[of w] by (auto simp: queue_inv_def)
    then show "set queue' \<inter> insert u P = {}"
      using inv u unfolding set' by (auto simp: queue_inv_def)
    show "insert u P \<union> set queue' \<subseteq> K" using inv ws unfolding set' by (auto simp: queue_inv_def)
    show "(open_degree es (insert u P) w = 0) = (w \<in> insert u P \<union> set queue')" if "w \<in> K" for w
      using inv that unfolding zero set' by (auto simp: queue_inv_def)
  qed (use post in \<open>simp_all add: relax_post_def deg\<close>)
  with r post show ?thesis by (auto simp: relax_post_def)
qed

lemma chain_loop_inv:
  assumes "snd ` set es \<subseteq> K"
  shows "queue_inv es K P indeg queue \<Longrightarrow> dist_inv es V P dst \<Longrightarrow>
    \<exists>dst' indeg' P'. chain_loop (build_adj es) (dst, indeg, queue) = Some dst'
      \<and> queue_inv es K P' indeg' [] \<and> dist_inv es V P' dst'"
proof (induction "build_adj es" "(dst, indeg, queue)" arbitrary: P dst indeg queue rule: chain_loop.induct)
  case (2 dst indeg u queue)
  obtain dst1 indeg1 queue1 where
    r: "relax_all (count_of dst 1 u) (neighbors_of (build_adj es) u) (dst, indeg, queue) = Some (dst1, indeg1, queue1)"
    and q: "queue_inv es K (insert u P) indeg1 queue1"
    and rel: "relaxed (count_of dst 1 u) (neighbors_of (build_adj es) u) dst dst1"
    using queue_inv_step[OF "2.prems"(1) assms] by blast
  have "(u, x) \<notin> set es" if "x \<in> insert u P" for x
    using "2.prems"(1) open_degree_pos[of u x es P] that by (fastforce simp: queue_inv_def)
  from dist_inv_step[OF "2.prems"(2) rel this] "2.hyps"[OF r q] r show ?case by simp
qed auto

subsection \<open>The initial state\<close>

lemma open_degree_snoc: "open_degree (es @ [e]) {} w = open_degree es {} w + (if snd e = w then 1 else 0)"
  by (simp add: open_degree_def)

lemma open_degree_none: "w \<notin> snd ` set es \<Longrightarrow> open_degree es P w = 0"
  by (force simp: open_degree_def filter_empty_conv)

lemma init_indeg_degrees:
  "degrees_are (init_indeg ks es) (set ks \<union> snd ` set es) (open_degree es {})"
proof (induction es rule: rev_induct)
  case Nil
  then show ?case
    by (induction ks) (auto simp: degrees_are_def init_indeg_def open_degree_def)
next
  case (snoc e es)
  have step: "init_indeg ks (es @ [e]) = hm_insert (snd e) (Suc (count_of (init_indeg ks es) 0 (snd e))) (init_indeg ks es)"
    by (simp add: init_indeg_def)
  have "count_of (init_indeg ks es) 0 (snd e) = open_degree es {} (snd e)"
    using snoc open_degree_none[of "snd e" es "{}"] by (auto simp: degrees_are_def count_of_def)
  with snoc show ?case unfolding step by (auto simp: degrees_are_def update_conv open_degree_snoc)
qed

lemma init_indeg_wf: "distinct ks \<Longrightarrow> hm_wf (init_indeg ks es)"
  by (induction es rule: rev_induct) (auto simp: init_indeg_def distinct_update comp_def)

lemma queue_inv_init:
  assumes "distinct ks"
  shows "queue_inv es (set ks \<union> snd ` set es) {} (init_indeg ks es)
    (map fst (filter (\<lambda>p. snd p = 0) (init_indeg ks es)))"
proof -
  let ?m = "init_indeg ks es" and ?K = "set ks \<union> snd ` set es"
  have wf: "hm_wf ?m" by (rule init_indeg_wf[OF assms])
  have get: "hm_get ?m w = (if w \<in> ?K then Some (open_degree es {} w) else None)" for w
    using init_indeg_degrees[of ks es] by (simp add: degrees_are_def)
  have mem: "(w, d) \<in> set ?m \<longleftrightarrow> w \<in> ?K \<and> d = open_degree es {} w" for w d
    using map_of_eq_Some_iff[OF wf, of w d] get[of w] by (auto split: if_splits)
  have "set (map fst (filter (\<lambda>p. snd p = 0) ?m)) = {w \<in> ?K. open_degree es {} w = 0}"
    using mem by (force simp: image_iff)
  moreover have "distinct (map fst (filter (\<lambda>p. snd p = 0) ?m))" using wf by (simp add: distinct_map_filter)
  ultimately show ?thesis using init_indeg_degrees[of ks es] by (auto simp: queue_inv_def)
qed

lemma init_dist_get: "hm_get (init_dist ks) k = (if k \<in> set ks then Some 1 else None)"
  by (induction ks) (auto simp: init_dist_def)

lemma dist_inv_init: "distinct ks \<Longrightarrow> dist_inv es (set ks) {} (init_dist ks)"
  unfolding dist_inv_def init_dist_get
  by (auto simp: init_dist_def comp_def chain_def edge_path_def intro!: exI[of _ "[_]"] split: if_splits)

subsection \<open>On an acyclic graph every node is processed\<close>

lemma all_processed:
  assumes inv: "queue_inv es K P indeg []" and ac: "acyclic (set es)" and src: "fst ` set es \<subseteq> K"
  shows "K \<subseteq> P"
proof
  fix w
  have wf: "wf (set es)" by (rule finite_acyclic_wf) (use ac in auto)
  show "w \<in> K \<Longrightarrow> w \<in> P"
  proof (induction w rule: wf_induct_rule[OF wf])
    case (1 w)
    then have "fst e \<in> P" if "e \<in> set es" "snd e = w" for e using src that by (cases e) force
    then have "open_degree es P w = 0" by (auto simp: open_degree_def filter_empty_conv)
    then show ?case using 1(2) inv by (auto simp: queue_inv_def)
  qed
qed

lemma path_bound:
  assumes inv: "dist_inv es V P dst" and src: "fst ` set es \<subseteq> P"
  shows "edge_path (set es) p \<Longrightarrow> p \<noteq> [] \<Longrightarrow> length p \<le> count_of dst 1 (last p)"
proof (induction p rule: rev_induct)
  case (snoc w p)
  have one: "1 \<le> count_of dst 1 w"
    using chain_count[OF inv, of w] unfolding chain_def by (metis One_nat_def Suc_leI length_greater_0_conv)
  show ?case
  proof (cases "p = []")
    case False
    with snoc.prems have p: "edge_path (set es) p" "(last p, w) \<in> set es"
      by (auto simp: edge_path_def successively_append_iff)
    moreover from p(2) src have "last p \<in> P" by force
    ultimately have "count_of dst 1 (last p) < count_of dst 1 w" using inv by (auto simp: dist_inv_def)
    then show ?thesis using snoc.IH[OF p(1) False] by simp
  qed (use one in simp)
qed simp

lemma path_within:
  assumes "E \<subseteq> V \<times> V"
  shows "edge_path E p \<Longrightarrow> 2 \<le> length p \<Longrightarrow> set p \<subseteq> V"
proof (induction p)
  case (Cons a p)
  then obtain b q where p: "p = b # q" by (cases p) auto
  with Cons.prems assms have "a \<in> V" "b \<in> V" "edge_path E p" by (auto simp: edge_path_def)
  then show ?case using Cons.IH p by (cases q) auto
qed simp

subsection \<open>The result\<close>

lemma longest_chain_runs:
  assumes "hm_wf (g_nodes g)" "g_nodes g \<noteq> []"
  shows "\<exists>dst indeg P. dst \<noteq> [] \<and> longest_chain g = Some (Some (Max (set (hm_values dst))))
    \<and> queue_inv (chain_edges g) (set (hm_keys (g_nodes g)) \<union> snd ` set (chain_edges g)) P indeg []
    \<and> dist_inv (chain_edges g) (set (hm_keys (g_nodes g))) P dst"
proof -
  let ?ks = "hm_keys (g_nodes g)" and ?es = "chain_edges g"
  have d: "distinct ?ks" using assms(1) by simp
  obtain dst indeg P where
    run: "chain_loop (build_adj ?es) (init_dist ?ks, init_indeg ?ks ?es,
        map fst (filter (\<lambda>p. snd p = 0) (init_indeg ?ks ?es))) = Some dst"
    and q: "queue_inv ?es (set ?ks \<union> snd ` set ?es) P indeg []" and di: "dist_inv ?es (set ?ks) P dst"
    using chain_loop_inv[OF _ queue_inv_init[OF d, of ?es] dist_inv_init[OF d, of ?es]] by blast
  have "dst \<noteq> []" using di assms(2) by (cases "g_nodes g") (auto simp: dist_inv_def)
  then show ?thesis using run q di by (auto simp: longest_chain_def Let_def)
qed

definition declared_endpoints :: "PipelineGraph \<Rightarrow> bool" where
  "declared_endpoints g \<longleftrightarrow> set (chain_edges g) \<subseteq> set (hm_keys (g_nodes g)) \<times> set (hm_keys (g_nodes g))"

text \<open>A forward chain: declared nodes, each the source of a forward edge to the next.\<close>

definition forward_chain :: "PipelineGraph \<Rightarrow> string list \<Rightarrow> bool" where
  "forward_chain g p \<longleftrightarrow> edge_path (set (chain_edges g)) p \<and> set p \<subseteq> set (hm_keys (g_nodes g))"

lemma chain_attained:
  assumes "chain (set (chain_edges g)) w d" "declared_endpoints g" "g_nodes g \<noteq> []"
  shows "\<exists>p. forward_chain g p \<and> length p = d"
proof -
  obtain p where p: "edge_path (set (chain_edges g)) p" "p \<noteq> []" "length p = d" using assms(1) by (auto simp: chain_def)
  show ?thesis
  proof (cases "2 \<le> d")
    case True
    with p path_within[OF assms(2)[unfolded declared_endpoints_def] p(1)] show ?thesis by (auto simp: forward_chain_def)
  next
    case False
    moreover have "d \<noteq> 0" using p(2,3) by auto
    ultimately have "d = 1" by simp
    moreover have "forward_chain g [fst (hd (g_nodes g))]"
      using assms(3) by (cases "g_nodes g") (auto simp: forward_chain_def edge_path_def)
    ultimately show ?thesis by force
  qed
qed

lemma longest_chain_max:
  assumes wf: "hm_wf (g_nodes g)" and ne: "g_nodes g \<noteq> []"
    and ac: "acyclic (set (chain_edges g))" and decl: "declared_endpoints g"
  shows "\<exists>m. longest_chain g = Some (Some m) \<and> (\<exists>p. forward_chain g p \<and> length p = m)
    \<and> (\<forall>p. forward_chain g p \<longrightarrow> length p \<le> m)"
proof -
  let ?V = "set (hm_keys (g_nodes g))" and ?es = "chain_edges g"
  obtain dst indeg P where run: "dst \<noteq> []" "longest_chain g = Some (Some (Max (set (hm_values dst))))"
    and q: "queue_inv ?es (?V \<union> snd ` set ?es) P indeg []" and di: "dist_inv ?es ?V P dst"
    using longest_chain_runs[OF wf ne] by blast
  have "Max (set (hm_values dst)) \<in> set (hm_values dst)" using run(1) by (intro Max_in) auto
  then obtain w where "hm_get dst w = Some (Max (set (hm_values dst)))" using di by (auto simp: dist_inv_def)
  then have "chain (set ?es) w (Max (set (hm_values dst)))" using di by (auto simp: dist_inv_def)
  note best = chain_attained[OF this decl ne]
  have V: "fst ` set ?es \<subseteq> ?V" using decl by (force simp: declared_endpoints_def)
  then have src: "fst ` set ?es \<subseteq> P" using all_processed[OF q ac] by blast
  have "length p \<le> Max (set (hm_values dst))" if "forward_chain g p" for p
  proof (cases "p = []")
    case False
    then have "last p \<in> ?V" using that by (auto simp: forward_chain_def)
    then obtain d where d: "hm_get dst (last p) = Some d" using di by (auto simp: dist_inv_def)
    then have "d \<le> Max (set (hm_values dst))" by (intro Max_ge) (force dest!: map_of_SomeD)+
    then show ?thesis using path_bound[OF di src, of p] that False d by (auto simp: forward_chain_def count_of_def)
  qed simp
  then show ?thesis using run(2) best by blast
qed

text \<open>C30. The depth pass of the validation profile is right. On a graph with at least one node whose forward
  edges (all but those labelled \<open>back_edge\<close>) connect declared nodes without a cycle, the pass returns, no in-degree
  counter underflows, some chain of forward edges has exactly the returned number of nodes, and no chain is longer.\<close>

theorem longest_chain_correct:
  assumes "graph_wf g" "g_nodes g \<noteq> []" "acyclic (set (chain_edges g))" "declared_endpoints g"
  shows "\<exists>m. longest_chain g = Some (Some m) \<and> (\<exists>p. forward_chain g p \<and> length p = m)
    \<and> (\<forall>p. forward_chain g p \<longrightarrow> length p \<le> m)"
  using longest_chain_max[of g] assms by (simp add: graph_wf_def)

definition diamond_graph :: PipelineGraph where
  "diamond_graph = bare_graph [''a'', ''b'', ''c'', ''d''] [bare_edge ''a'' ''b'', bare_edge ''b'' ''c'', bare_edge ''a'' ''c'', bare_edge ''d'' ''c'']"

lemma diamond_facts:
  "graph_wf diamond_graph" "g_nodes diamond_graph \<noteq> []" "declared_endpoints diamond_graph"
  "chain_edges diamond_graph = [(''a'', ''b''), (''b'', ''c''), (''a'', ''c''), (''d'', ''c'')]"
  by (auto simp: diamond_graph_def bare_defs graph_wf_def declared_endpoints_def chain_edges_def)

lemma diamond_acyclic: "acyclic (set (chain_edges diamond_graph))"
proof (rule wf_acyclic, rule wf_subset)
  let ?r = "\<lambda>x. if x = ''b'' then 1 else if x = ''c'' then 2 else (0 :: nat)"
  show "wf (measure ?r)" by simp
  show "set (chain_edges diamond_graph) \<subseteq> measure ?r" by (auto simp: diamond_facts(4))
qed

theorem longest_chain_correct_witness:
  "(\<exists>m. longest_chain diamond_graph = Some (Some m) \<and> (\<exists>p. forward_chain diamond_graph p \<and> length p = m)
    \<and> (\<forall>p. forward_chain diamond_graph p \<longrightarrow> length p \<le> m)) \<and> longest_chain diamond_graph = Some (Some 3)"
proof
  show "longest_chain diamond_graph = Some (Some 3)" by code_simp
qed (rule longest_chain_correct[OF diamond_facts(1,2) diamond_acyclic diamond_facts(3)])

text \<open>The depth pass answers on every graph with a node, cyclic ones too: it never returns the empty result
  that its comment announces for cyclic graphs.\<close>

theorem longest_chain_answers:
  assumes "graph_wf g" "g_nodes g \<noteq> []"
  shows "\<exists>m. longest_chain g = Some (Some m)"
  using longest_chain_runs[of g] assms by (auto simp: graph_wf_def)

definition loop_graph :: PipelineGraph where
  "loop_graph = bare_graph [''a'', ''b''] [bare_edge ''a'' ''b'', bare_edge ''b'' ''a'']"

theorem longest_chain_answers_witness:
  "(\<exists>m. longest_chain loop_graph = Some (Some m)) \<and> longest_chain loop_graph = Some (Some 1)"
proof
  show "longest_chain loop_graph = Some (Some 1)" by code_simp
qed (rule longest_chain_answers; simp add: loop_graph_def bare_defs graph_wf_def)

subsection \<open>Passing the profile\<close>

definition node_admitted :: "ValidationProfile \<Rightarrow> PipelineNode \<Rightarrow> bool" where
  "node_admitted p n \<longleftrightarrow> n_handler n \<in> vp_allowed_handlers p
     \<and> (vp_ban_shell p \<longrightarrow> n_handler n \<noteq> Shell \<and> set (n_tools n) \<inter> set SHELL_TOOLS = {})
     \<and> (n_handler n = Codergen \<or> n_handler n = DynamicParallel \<longrightarrow> n_tools n \<noteq> [])"

lemma node_violations_none: "node_violations p n = [] \<longleftrightarrow> node_admitted p n"
  unfolding node_violations_def node_admitted_def
  by (auto simp: find_None_iff disjoint_iff split: option.splits dest!: find_Some_in)

lemma empty_graph_chain: "g_nodes g = [] \<Longrightarrow> declared_endpoints g \<Longrightarrow> longest_chain g = Some None"
  by (simp add: declared_endpoints_def longest_chain_def init_dist_def init_indeg_def Let_def)

lemma profile_admits:
  assumes "graph_wf g" "acyclic (set (chain_edges g))" "declared_endpoints g"
  shows "validate_under_profile g p = Some [] \<longleftrightarrow>
    length (g_nodes g) \<le> vp_max_nodes p \<and> length (g_edges g) \<le> vp_max_edges p
    \<and> (\<forall>c. forward_chain g c \<longrightarrow> length c \<le> vp_max_depth p)
    \<and> (\<forall>n \<in> set (hm_values (g_nodes g)). node_admitted p n)"
proof (cases "g_nodes g = []")
  case True
  then have "forward_chain g c \<longleftrightarrow> c = []" for c by (auto simp: forward_chain_def edge_path_def)
  with True empty_graph_chain[OF True assms(3)] show ?thesis by (auto simp: validate_under_profile_def)
next
  case False
  obtain m where m: "longest_chain g = Some (Some m)" "\<exists>p. forward_chain g p \<and> length p = m"
    "\<forall>p. forward_chain g p \<longrightarrow> length p \<le> m"
    using longest_chain_max[OF _ False assms(2,3)] assms(1) by (auto simp: graph_wf_def)
  then have "m \<le> vp_max_depth p \<longleftrightarrow> (\<forall>c. forward_chain g c \<longrightarrow> length c \<le> vp_max_depth p)"
    using le_trans by blast
  then show ?thesis by (auto simp: validate_under_profile_def m(1) node_violations_none)
qed

text \<open>A graph whose forward edges connect declared nodes without a cycle passes a validation profile exactly
  when it keeps the node and edge caps, no forward chain is longer than the depth cap, and every node has an
  allowed handler, no shell handler or shell tool where shell is banned, and an explicit tool list where its
  handler runs an agent.\<close>

theorem profile_exact:
  assumes "graph_wf g" "acyclic (set (chain_edges g))" "declared_endpoints g"
  shows "validate_under_profile g p = Some [] \<longleftrightarrow>
    length (g_nodes g) \<le> vp_max_nodes p \<and> length (g_edges g) \<le> vp_max_edges p
    \<and> (\<forall>c. forward_chain g c \<longrightarrow> length c \<le> vp_max_depth p)
    \<and> (\<forall>n \<in> set (hm_values (g_nodes g)). node_admitted p n)"
  using profile_admits[OF assms] .

theorem profile_exact_witness:
  "graph_wf diamond_graph \<and> (validate_under_profile diamond_graph l2_default = Some [] \<longleftrightarrow>
    length (g_nodes diamond_graph) \<le> vp_max_nodes l2_default \<and> length (g_edges diamond_graph) \<le> vp_max_edges l2_default
    \<and> (\<forall>c. forward_chain diamond_graph c \<longrightarrow> length c \<le> vp_max_depth l2_default)
    \<and> (\<forall>n \<in> set (hm_values (g_nodes diamond_graph)). node_admitted l2_default n))"
  using profile_exact[OF diamond_facts(1) diamond_acyclic diamond_facts(3)] diamond_facts(1) by blast

end
