(* ===== verification/Compose.thy ===== *)
theory Compose
  imports Profile_Properties
begin

text \<open>
  Model of \<^verbatim>\<open>crates/octos-pipeline/src/compose.rs\<close>: the gate between an IR document written by a model and
  a graph that may run. The document is parsed, compiled, checked for cycles, validated and checked
  against the profile, in that order, and the first failing stage is the error. The JSON reader is
  the parameter \<open>parse_ir\<close>. The outer option of \<open>compose\<close> is the counter underflow of the depth pass, which
  is shown not to happen.
\<close>

datatype ComposeError = Parse string | Compile compile_error | Cycle string
  | Structural "(string \<times> message) list" | Profile "ProfileViolation list"

datatype feedback_line = ParseLine string | CompileLine compile_error | CycleLine string
  | StructuralLine "string \<times> message" | NodeLine string profile_message | GraphLine profile_message

definition feedback_lines :: "ComposeError \<Rightarrow> feedback_line list" where
  "feedback_lines e = (case e of
       Parse m \<Rightarrow> [ParseLine m]
     | Compile m \<Rightarrow> [CompileLine m]
     | Cycle m \<Rightarrow> [CycleLine m]
     | Structural errs \<Rightarrow> map StructuralLine errs
     | Profile vs \<Rightarrow> map (\<lambda>v. case pv_node v of Some n \<Rightarrow> NodeLine n (pv_message v) | None \<Rightarrow> GraphLine (pv_message v)) vs)"

definition compose_context :: "PipelineGraph \<Rightarrow> string list \<Rightarrow> ValidationContext" where
  "compose_context g variables =
     (let known_models = List.map_filter n_model (hm_values (g_nodes g));
          known_tools = concat (map n_tools (hm_values (g_nodes g)))
      in with_known_tools known_tools (with_known_models known_models
           (with_runtime_variables variables default_context)))"

definition compose :: "(string \<Rightarrow> (string, PipelineIr) sum) \<Rightarrow> string \<Rightarrow> ValidationProfile \<Rightarrow> string list
    \<Rightarrow> (ComposeError, PipelineGraph) sum option" where
  "compose parse_ir ir_json profile variables = (case parse_ir ir_json of
       Inl e \<Rightarrow> Some (Inl (Parse e))
     | Inr ir \<Rightarrow> (case compile ir of
         Inl e \<Rightarrow> Some (Inl (Compile e))
       | Inr g \<Rightarrow> (case detect_cycle_ir g of
           CycleAt cyc \<Rightarrow> Some (Inl (Cycle (cycle_message cyc)))
         | OutOfFuel \<Rightarrow> None
         | Explored _ \<Rightarrow>
             (let diags = diagnostics_with_context g (compose_context g variables)
              in if has_errors diags
                 then Some (Inl (Structural (map (\<lambda>d. (rule_code (d_rule_id d), d_message d))
                        (filter (\<lambda>d. d_severity d = SevError) diags))))
                 else (case validate_under_profile g profile of
                     None \<Rightarrow> None
                   | Some [] \<Rightarrow> Some (Inr g)
                   | Some vs \<Rightarrow> Some (Inl (Profile vs)))))))"

definition compose_l2 :: "(string \<Rightarrow> (string, PipelineIr) sum) \<Rightarrow> string \<Rightarrow> (ComposeError, PipelineGraph) sum option" where
  "compose_l2 parse_ir ir_json = compose parse_ir ir_json l2_default []"

subsection \<open>Each gate\<close>

text \<open>What the profile demands of a graph, with the depth as a statement about all forward chains.\<close>

definition profile_allows :: "ValidationProfile \<Rightarrow> PipelineGraph \<Rightarrow> bool" where
  "profile_allows p g \<longleftrightarrow> length (g_nodes g) \<le> vp_max_nodes p \<and> length (g_edges g) \<le> vp_max_edges p
    \<and> (\<forall>c. forward_chain g c \<longrightarrow> length c \<le> vp_max_depth p) \<and> (\<forall>n \<in> nodes_of g. node_admitted p n)"

lemma chain_edges_unlabelled: "set (chain_edges g) = unlabelled_edges g"
  by (simp add: chain_edges_def unlabelled_edges_def)

lemma compiled_endpoints:
  assumes "compile ir = Inr g"
  shows "unlabelled_edges g \<subseteq> node_ids g \<times> UNIV" "declared_endpoints g"
  using compile_Inr(5)[OF assms]
  by (auto simp: unlabelled_edges_def declared_endpoints_def chain_edges_def node_ids_def)

lemma compiled_profile:
  assumes "compile ir = Inr g" "acyclic (unlabelled_edges g)"
  shows "validate_under_profile g p = Some [] \<longleftrightarrow> profile_allows p g"
  using profile_admits[of g p] compile_Inr(2)[OF assms(1)] compiled_endpoints(2)[OF assms(1)] assms(2)
  unfolding profile_allows_def nodes_of_def chain_edges_unlabelled by blast

lemma profile_defined: "graph_wf g \<Longrightarrow> starts_somewhere g \<Longrightarrow> validate_under_profile g p \<noteq> None"
proof -
  assume wf: "graph_wf g" and "starts_somewhere g"
  then have "g_nodes g \<noteq> []" using start_is_node[of g] by (auto simp: starts_somewhere_def node_ids_def)
  with longest_chain_runs[of g] wf show ?thesis by (auto simp: validate_under_profile_def graph_wf_def)
qed

lemma compose_cases:
  assumes "parse_ir j = Inr ir" "compile ir = Inr g"
  shows "acyclic (unlabelled_edges g) \<Longrightarrow> graph_valid g (compose_context g vs) \<Longrightarrow>
           \<exists>v. validate_under_profile g p = Some v \<and>
             compose parse_ir j p vs = Some (if v = [] then Inr g else Inl (Profile v))"
    and "acyclic (unlabelled_edges g) \<Longrightarrow> \<not> graph_valid g (compose_context g vs) \<Longrightarrow>
           \<exists>es. es \<noteq> [] \<and> compose parse_ir j p vs = Some (Inl (Structural es))"
    and "\<not> acyclic (unlabelled_edges g) \<Longrightarrow>
           \<exists>cyc. is_cycle (unlabelled_edges g) (node_ids g) cyc \<and>
             compose parse_ir j p vs = Some (Inl (Cycle (cycle_message cyc)))"
proof -
  note acyc = ir_check.ok_iff_acyclic[OF compiled_endpoints(1)[OF assms(2)]]
  have explored: "\<exists>c. detect_cycle_ir g = Explored c" if "acyclic (unlabelled_edges g)"
    using that acyc by (cases "detect_cycle_ir g") auto
  show "\<exists>v. validate_under_profile g p = Some v \<and>
      compose parse_ir j p vs = Some (if v = [] then Inr g else Inl (Profile v))"
    if "acyclic (unlabelled_edges g)" "graph_valid g (compose_context g vs)"
  proof -
    from that(2) have "validate_under_profile g p \<noteq> None"
      using profile_defined[OF compile_Inr(2)[OF assms(2)]] by (simp add: graph_valid_def)
    then obtain v where "validate_under_profile g p = Some v" by blast
    with explored[OF that(1)] that(2) assms show ?thesis
      by (cases v) (auto simp: compose_def Let_def diagnostics_exact)
  qed
  show "\<exists>es. es \<noteq> [] \<and> compose parse_ir j p vs = Some (Inl (Structural es))"
    if "acyclic (unlabelled_edges g)" "\<not> graph_valid g (compose_context g vs)"
  proof -
    from that(2) have err: "has_errors (diagnostics_with_context g (compose_context g vs))" using diagnostics_exact by blast
    with explored[OF that(1)] assms show ?thesis
      by (auto simp: compose_def Let_def has_errors_def list_ex_iff filter_empty_conv)
  qed
  show "\<exists>cyc. is_cycle (unlabelled_edges g) (node_ids g) cyc \<and>
      compose parse_ir j p vs = Some (Inl (Cycle (cycle_message cyc)))" if cyclic: "\<not> acyclic (unlabelled_edges g)"
  proof -
    obtain cyc where "detect_cycle_ir g = CycleAt cyc" "is_cycle (unlabelled_edges g) (node_ids g) cyc"
      using ir_check.rejects_cyclic[OF compiled_endpoints(1)[OF assms(2)] cyclic] by blast
    with assms show ?thesis by (auto simp: compose_def)
  qed
qed

subsection \<open>Properties\<close>

text \<open>C5. The composition gate is exact: whatever the JSON reader does, \<open>compose\<close> returns a graph if and only if the
  document parses, the compiler produces that graph, the edges not marked as back edges are acyclic, the graph is
  valid in the context built from its own models, tools and the caller's variables, and it keeps every limit of
  the profile, the depth limit being a bound on every forward chain.\<close>

theorem compose_exact:
  "compose parse_ir j p vs = Some (Inr g) \<longleftrightarrow>
     (\<exists>ir. parse_ir j = Inr ir \<and> compile ir = Inr g \<and> acyclic (unlabelled_edges g)
        \<and> graph_valid g (compose_context g vs) \<and> profile_allows p g)"
proof -
  have stage: "compose parse_ir j p vs = Some (Inr g) \<longleftrightarrow> acyclic (unlabelled_edges g)
      \<and> graph_valid g (compose_context g vs) \<and> profile_allows p g"
    if "parse_ir j = Inr ir" "compile ir = Inr g" for ir
    using that compose_cases[where parse_ir = parse_ir and j = j and ir = ir and g = g and vs = vs and p = p] compiled_profile[OF that(2), of p]
    by (cases "acyclic (unlabelled_edges g)"; cases "graph_valid g (compose_context g vs)") auto
  have "\<exists>ir. parse_ir j = Inr ir \<and> compile ir = Inr g" if c: "compose parse_ir j p vs = Some (Inr g)"
    using c by (auto simp: compose_def Let_def split: sum.splits dfs_result.splits if_splits option.splits list.splits)
  with stage show ?thesis by blast
qed

text \<open>A document that is refused is always refused with feedback: \<open>compose\<close> never aborts, and each error carries at
  least one line for the author to repair; a cycle error names a closed walk of unmarked edges.\<close>

theorem compose_refusal_has_feedback:
  "(\<exists>g. compose parse_ir j p vs = Some (Inr g))
   \<or> (\<exists>e. compose parse_ir j p vs = Some (Inl e) \<and> feedback_lines e \<noteq> []
        \<and> (\<forall>m. e = Cycle m \<longrightarrow> (\<exists>ir g cyc. parse_ir j = Inr ir \<and> compile ir = Inr g
               \<and> is_cycle (unlabelled_edges g) (node_ids g) cyc \<and> m = cycle_message cyc)))"
proof (cases "\<exists>ir g. parse_ir j = Inr ir \<and> compile ir = Inr g")
  case True
  then obtain ir g where ir: "parse_ir j = Inr ir" "compile ir = Inr g" by blast
  show ?thesis
    using compose_cases[where parse_ir = parse_ir and j = j and ir = ir and g = g and vs = vs and p = p] ir
    by (cases "acyclic (unlabelled_edges g)"; cases "graph_valid g (compose_context g vs)")
       (auto simp: feedback_lines_def split: if_splits)
next
  case False
  then show ?thesis by (auto simp: compose_def feedback_lines_def split: sum.splits)
qed

definition demo_ir :: PipelineIr where
  "demo_ir = \<lparr>ir_graph_id = ''demo'', ir_label = None,
     ir_nodes = [\<lparr>ir_id = ''r'', ir_kind = IrResearch ''find X'' None None\<rparr>,
                 \<lparr>ir_id = ''s'', ir_kind = IrSynthesize ''write'' None None\<rparr>],
     ir_edges = [\<lparr>ir_source = ''r'', ir_target = ''s'', ir_condition = None, ir_back_edge = False\<rparr>]\<rparr>"

lemma demo_composes:
  "(case compose (\<lambda>_. Inr demo_ir) ''{}'' l2_default [] of Some (Inr g) \<Rightarrow> hm_keys (g_nodes g) = [''r'', ''s''] | _ \<Rightarrow> False)"
  by code_simp

theorem compose_refusal_has_feedback_witness:
  "(\<exists>g. compose (\<lambda>_. Inr demo_ir) ''{}'' l2_default [] = Some (Inr g))
   \<and> compose (\<lambda>_. Inl ''eof'') ''{}'' l2_default [] = Some (Inl (Parse ''eof''))"
proof
  have "\<not> (\<exists>e. compose (\<lambda>_. Inr demo_ir) ''{}'' l2_default [] = Some (Inl e))"
    using demo_composes by auto
  then show "\<exists>g. compose (\<lambda>_. Inr demo_ir) ''{}'' l2_default [] = Some (Inr g)"
    using compose_refusal_has_feedback[of "\<lambda>_. Inr demo_ir" "''{}''" l2_default "[]"] by blast
qed (simp add: compose_def)

definition shell_check_ir :: "string \<Rightarrow> PipelineIr" where
  "shell_check_ir command = \<lparr>ir_graph_id = ''demo'', ir_label = None,
     ir_nodes = [\<lparr>ir_id = ''c'', ir_kind = IrShellCheck command None\<rparr>], ir_edges = []\<rparr>"

text \<open>The shell ban does not cover the \<open>shell_check\<close> kind: a document whose only node is a shell check with a
  destructive command passes every gate under the profile that bans shell, and the compiled node carries the
  command of the document, which is what the handler of that kind passes to \<^verbatim>\<open>sh -c\<close>.\<close>

theorem shell_check_command_from_document:
  "vp_ban_shell l2_default
   \<and> (case compose_l2 (\<lambda>_. Inr (shell_check_ir ''rm -rf ~'')) ''{}'' of
        Some (Inr g) \<Rightarrow> map (\<lambda>n. (n_handler n, n_prompt n)) (hm_values (g_nodes g)) = [(ShellCheck, Some ''rm -rf ~'')]
      | _ \<Rightarrow> False)"
  by code_simp

end
