(* ===== verification/Dot_Parser.thy ===== *)
theory Dot_Parser
  imports Graph_Model
begin

text \<open>
  Model of \<^verbatim>\<open>crates/octos-pipeline/src/parser.rs\<close>, the hand-written DOT parser. The parser state is the
  part of the input not read yet; a byte position of the code is the length of the input minus the
  length of that rest, and errors that report a position carry the length of the rest. The argument
  \<open>ua\<close> of the character tests says which non-ASCII scalars Unicode calls alphanumeric
  (\<^verbatim>\<open>char::is_alphanumeric\<close>); ASCII is exact. Every loop of the parser is a function with a proof that
  it ends because each round reads at least one byte.
\<close>

text \<open>One constructor per \<^verbatim>\<open>wrap_err\<close> context and per \<^verbatim>\<open>bail!\<close> site.\<close>

datatype dot_context = DigraphKeyword | GraphName | OpenBrace | StatementId | SubgraphName
  | SubgraphBrace | SubgraphNodeId | EdgeTarget | AttributeName | AttributeEq

datatype dot_error = ExpectedKeyword string | ExpectedIdentifier nat | ExpectedValue nat
  | ExpectedChar char "string option" | EofInEscape | EofInQuotedString | EofInAttributes
  | EofInSubgraph string | EofInGraph | Context dot_context dot_error

primrec wrap_err :: "dot_context \<Rightarrow> (dot_error, 'a) sum \<Rightarrow> (dot_error, 'a) sum" where
  "wrap_err ctx (Inl e) = Inl (Context ctx e)"
| "wrap_err ctx (Inr a) = Inr a"

lemma wrap_err_Inr [simp]: "wrap_err ctx r = Inr a \<longleftrightarrow> r = Inr a"
  by (cases r) auto

lemma wrap_err_cong [fundef_cong]: "r = r' \<Longrightarrow> wrap_err ctx r = wrap_err ctx r'"
  by simp

subsection \<open>Reading characters\<close>

definition peek :: "string \<Rightarrow> string option" where
  "peek s = map_option fst (next_scalar s)"

definition advance_char :: "string \<Rightarrow> string" where
  "advance_char s = (case next_scalar s of None \<Rightarrow> s | Some (_, rest) \<Rightarrow> rest)"

definition peek_is :: "string \<Rightarrow> char \<Rightarrow> bool" where
  "peek_is s c \<longleftrightarrow> peek s = Some [c]"

fun is_alphanumeric :: "(string \<Rightarrow> bool) \<Rightarrow> string \<Rightarrow> bool" where
  "is_alphanumeric ua [c] \<longleftrightarrow> is_ascii_alphanumeric c"
| "is_alphanumeric ua sc \<longleftrightarrow> ua sc"

definition is_identifier_char :: "(string \<Rightarrow> bool) \<Rightarrow> string \<Rightarrow> bool" where
  "is_identifier_char ua sc \<longleftrightarrow> is_alphanumeric ua sc \<or> sc = ''_'' \<or> sc = ''-'' \<or> sc = ''.''"

definition is_bare_value_char :: "(string \<Rightarrow> bool) \<Rightarrow> string \<Rightarrow> bool" where
  "is_bare_value_char ua sc \<longleftrightarrow> is_identifier_char ua sc \<or> sc = ''/'' \<or> sc = '':''"

text \<open>\<^verbatim>\<open>while let Some(c) = self.peek() { if ok(c) { self.advance() } else { break } }\<close>, returning what was
  read and the rest.\<close>

function take_scalars :: "(string \<Rightarrow> bool) \<Rightarrow> string \<Rightarrow> string \<times> string" where
  "take_scalars ok s = (case next_scalar s of
       None \<Rightarrow> ([], s)
     | Some (sc, rest) \<Rightarrow> if ok sc then (let (a, b) = take_scalars ok rest in (sc @ a, b)) else ([], s))"
  by pat_completeness auto
termination
  by (relation "measure (\<lambda>(ok, s). length s)") (auto dest: next_scalar_shorter sym)

declare take_scalars.simps [simp del]

function skip_line :: "string \<Rightarrow> string" where
  "skip_line s = (case next_scalar s of
       None \<Rightarrow> s
     | Some (sc, rest) \<Rightarrow> if sc = [CHR 0x0A] then rest else skip_line rest)"
  by pat_completeness auto
termination
  by (relation "measure length") (auto dest: next_scalar_shorter sym)

declare skip_line.simps [simp del]

lemma next_scalar_None [simp]: "next_scalar s = None \<longleftrightarrow> s = []"
  by (auto simp: next_scalar_def split: list.splits)

lemma next_scalar_Nil [simp]: "next_scalar [] = None"
  by simp

lemma advance_char_shorter: "s \<noteq> [] \<Longrightarrow> length (advance_char s) < length s"
  by (auto simp: advance_char_def split: option.splits dest: next_scalar_shorter)

lemma advance_char_le: "length (advance_char s) \<le> length s"
  using advance_char_shorter[of s] by (cases "s = []") (auto simp: advance_char_def next_scalar_def)

function skip_block :: "string \<Rightarrow> string" where
  "skip_block s =
     (if s = [] then [] else if prefix ''*/'' s then drop 2 s else skip_block (advance_char s))"
  by pat_completeness auto
termination
  by (relation "measure length") (auto simp: advance_char_shorter)

declare skip_block.simps [simp del]

lemma length_trim_start: "length (trim_start s) \<le> length s"
  using suffix_trim_start suffix_length_le by blast

lemma skip_line_le: "length (skip_line s) \<le> length s"
proof (induction s rule: skip_line.induct)
  case (1 s)
  then show ?case
    by (subst skip_line.simps) (fastforce split: option.splits dest: next_scalar_shorter intro: less_imp_le)
qed

lemma skip_block_le: "length (skip_block s) \<le> length s"
proof (induction s rule: skip_block.induct)
  case (1 s)
  then show ?case
    by (subst skip_block.simps) (auto dest: advance_char_shorter intro: le_trans[OF _ advance_char_le])
qed

lemma skip_line_Cons: "byte c < 128 \<Longrightarrow> length (skip_line (c # cs)) < length (c # cs)"
  using skip_line_le[of cs] by (subst skip_line.simps) (auto simp: next_scalar_ascii)

lemma skip_line_comment: "prefix ''//'' s \<or> prefix ''#'' s \<Longrightarrow> length (skip_line s) < length s"
  by (cases s) (auto simp: byte_def intro: skip_line_Cons[simplified])

function skip_ws :: "string \<Rightarrow> string" where
  "skip_ws s =
     (let s1 = trim_start s in
      if prefix ''//'' s1 \<or> prefix ''#'' s1 then skip_ws (skip_line s1)
      else if prefix ''/*'' s1 then skip_ws (skip_block (drop 2 s1))
      else s1)"
  by pat_completeness auto
termination
proof (relation "measure length")
  fix s s1 :: string assume s1: "s1 = trim_start s"
  show "(skip_line s1, s) \<in> measure length" if "prefix ''//'' s1 \<or> prefix ''#'' s1"
    using skip_line_comment[OF that] length_trim_start[of s] s1 by simp
  show "(skip_block (drop 2 s1), s) \<in> measure length" if "prefix ''/*'' s1"
    using skip_block_le[of "drop 2 s1"] length_trim_start[of s] s1 that
    by (auto simp: prefix_def)
qed auto

declare skip_ws.simps [simp del]

subsection \<open>Tokens\<close>

definition parse_identifier :: "(string \<Rightarrow> bool) \<Rightarrow> string \<Rightarrow> (dot_error, string \<times> string) sum" where
  "parse_identifier ua s =
     (let (w, rest) = take_scalars (is_identifier_char ua) s
      in if w = [] then Inl (ExpectedIdentifier (length rest)) else Inr (w, rest))"

definition parse_bare_value :: "(string \<Rightarrow> bool) \<Rightarrow> string \<Rightarrow> (dot_error, string \<times> string) sum" where
  "parse_bare_value ua s =
     (let (w, rest) = take_scalars (is_bare_value_char ua) s
      in if w = [] then Inl (ExpectedValue (length rest)) else Inr (w, rest))"

definition expect_char :: "char \<Rightarrow> string \<Rightarrow> (dot_error, string) sum" where
  "expect_char c s = (if peek_is s c then Inr (advance_char s) else Inl (ExpectedChar c (peek s)))"

definition expect_keyword :: "(string \<Rightarrow> bool) \<Rightarrow> string \<Rightarrow> string \<Rightarrow> (dot_error, string) sum" where
  "expect_keyword ua kw s = (case parse_identifier ua s of
       Inr (w, rest) \<Rightarrow> if w = kw then Inr rest else Inl (ExpectedKeyword kw)
     | Inl _ \<Rightarrow> Inl (ExpectedKeyword kw))"

text \<open>\<^verbatim>\<open>try_keyword\<close> and \<^verbatim>\<open>try_str\<close>: the rest after a match, or nothing and the position stays.\<close>

definition try_keyword :: "(string \<Rightarrow> bool) \<Rightarrow> string \<Rightarrow> string \<Rightarrow> string option" where
  "try_keyword ua kw s = (case parse_identifier ua s of
       Inr (w, rest) \<Rightarrow> if w = kw then Some rest else None
     | Inl _ \<Rightarrow> None)"

definition try_str :: "string \<Rightarrow> string \<Rightarrow> string option" where
  "try_str p s = strip_prefix p s"

definition skip_optional_semicolon :: "string \<Rightarrow> string" where
  "skip_optional_semicolon s0 = (let s = skip_ws s0 in if peek_is s (CHR '';'') then advance_char s else s)"

definition escape_scalar :: "string \<Rightarrow> string" where
  "escape_scalar sc =
     (if sc = ''n'' then [CHR 0x0A] else if sc = ''t'' then [CHR 0x09]
      else if sc = [CHR 0x5C] then [CHR 0x5C] else if sc = [CHR 0x22] then [CHR 0x22]
      else CHR 0x5C # sc)"

function quoted_loop :: "string \<Rightarrow> string \<Rightarrow> (dot_error, string \<times> string) sum" where
  "quoted_loop acc s = (case next_scalar s of
       None \<Rightarrow> Inl EofInQuotedString
     | Some (sc, rest) \<Rightarrow>
         if sc = [CHR 0x22] then Inr (acc, rest)
         else if sc = [CHR 0x5C] then
           (case next_scalar rest of
              None \<Rightarrow> Inl EofInEscape
            | Some (e, rest2) \<Rightarrow> quoted_loop (acc @ escape_scalar e) rest2)
         else quoted_loop (acc @ sc) rest)"
  by pat_completeness auto
termination
  by (relation "measure (\<lambda>(acc, s). length s)", rule wf_measure) (clarsimp, (drule next_scalar_shorter)+, simp)+

declare quoted_loop.simps [simp del]

definition parse_quoted_string :: "string \<Rightarrow> (dot_error, string \<times> string) sum" where
  "parse_quoted_string s = and_then (expect_char (CHR 0x22) s) (quoted_loop [])"

definition parse_value :: "(string \<Rightarrow> bool) \<Rightarrow> string \<Rightarrow> (dot_error, string \<times> string) sum" where
  "parse_value ua s = (if peek_is s (CHR 0x22) then parse_quoted_string s else parse_bare_value ua s)"

subsection \<open>Every reader moves forward\<close>

lemma take_scalars_le: "length (snd (take_scalars ok s)) \<le> length s"
proof (induction ok s rule: take_scalars.induct)
  case (1 ok s)
  then show ?case
    by (subst take_scalars.simps)
       (fastforce simp: Let_def split: option.splits prod.splits dest: next_scalar_shorter)
qed

lemma take_scalars_append: "take_scalars ok s = (w, rest) \<Longrightarrow> s = w @ rest"
proof (induction ok s arbitrary: w rest rule: take_scalars.induct)
  case (1 ok s)
  then show ?case
    by (subst (asm) (2) take_scalars.simps)
       (auto simp: Let_def split: option.splits prod.splits if_splits dest!: next_scalar_append)
qed

lemma parse_identifier_shorter: "parse_identifier ua s = Inr (w, rest) \<Longrightarrow> length rest < length s"
  by (auto simp: parse_identifier_def split: prod.splits if_splits dest!: take_scalars_append)

lemma parse_bare_value_shorter: "parse_bare_value ua s = Inr (w, rest) \<Longrightarrow> length rest < length s"
  by (auto simp: parse_bare_value_def split: prod.splits if_splits dest!: take_scalars_append)

lemma expect_char_shorter: "expect_char c s = Inr rest \<Longrightarrow> length rest < length s"
  by (cases "s = []") (auto simp: expect_char_def peek_is_def peek_def advance_char_shorter split: if_splits)

lemma quoted_loop_shorter: "quoted_loop acc s = Inr (w, rest) \<Longrightarrow> length rest < length s"
proof (induction acc s rule: quoted_loop.induct)
  case (1 acc s)
  obtain sc r where sc: "next_scalar s = Some (sc, r)"
    using "1.prems" by (subst (asm) quoted_loop.simps) (auto split: option.splits)
  note r = next_scalar_shorter[OF sc]
  have "length rest < length s" if "sc = [CHR 0x5C]" "next_scalar r = Some (e, r2)" "quoted_loop (acc @ escape_scalar e) r2 = Inr (w, rest)" for e r2
    using "1.IH"(1)[OF sc refl _ that(1,2) refl that(3)] next_scalar_shorter[OF that(2)] r that(1) by simp
  moreover have "length rest < length s" if "sc \<noteq> [CHR 0x22]" "sc \<noteq> [CHR 0x5C]" "quoted_loop (acc @ sc) r = Inr (w, rest)"
    using "1.IH"(2)[OF sc refl that] r by simp
  ultimately show ?case using "1.prems" r
    by (subst (asm) (1) quoted_loop.simps) (auto simp: sc split: option.splits if_splits)
qed

lemma parse_value_shorter: "parse_value ua s = Inr (w, rest) \<Longrightarrow> length rest < length s"
  by (auto simp: parse_value_def parse_quoted_string_def and_then_Inr split: if_splits
      dest!: quoted_loop_shorter expect_char_shorter parse_bare_value_shorter)

lemma skip_ws_le: "length (skip_ws s) \<le> length s"
proof (induction s rule: skip_ws.induct)
  case (1 s)
  let ?t = "trim_start s"
  have "length (skip_ws (skip_line ?t)) \<le> length s" if "prefix ''//'' ?t \<or> prefix ''#'' ?t"
    using "1.IH"(1)[OF refl that] skip_line_le[of ?t] length_trim_start[of s] by linarith
  moreover have "length (skip_ws (skip_block (drop 2 ?t))) \<le> length s" if "\<not> (prefix ''//'' ?t \<or> prefix ''#'' ?t)" "prefix ''/*'' ?t"
    using "1.IH"(2)[OF refl that] skip_block_le[of "drop 2 ?t"] length_trim_start[of s] by simp
  ultimately show ?case using length_trim_start[of s] by (subst skip_ws.simps) (simp add: Let_def)
qed

lemma skip_optional_semicolon_le: "length (skip_optional_semicolon s) \<le> length s"
  using skip_ws_le[of s] advance_char_le[of "skip_ws s"] by (simp add: skip_optional_semicolon_def Let_def)

lemma try_keyword_shorter: "try_keyword ua kw s = Some rest \<Longrightarrow> length rest < length s"
  by (auto simp: try_keyword_def split: sum.splits prod.splits if_splits dest: parse_identifier_shorter)

lemma try_str_le: "try_str p s = Some rest \<Longrightarrow> length rest \<le> length s"
  by (auto simp: try_str_def strip_prefix_Some)

lemmas reader_shorter = parse_identifier_shorter parse_value_shorter expect_char_shorter try_keyword_shorter
  try_str_le

subsection \<open>Attribute lists\<close>

type_synonym attrs = "(string, string) hashmap"

function attributes_loop :: "(string \<Rightarrow> bool) \<Rightarrow> attrs \<Rightarrow> string \<Rightarrow> (dot_error, attrs \<times> string) sum" where
  "attributes_loop ua attrs s0 =
     (let s = skip_ws s0 in
      if peek_is s (CHR '']'') then Inr (attrs, advance_char s)
      else if s = [] then Inl EofInAttributes
      else if peek_is s (CHR '','') \<or> peek_is s (CHR '';'') then attributes_loop ua attrs (advance_char s)
      else and_then (wrap_err AttributeName (parse_identifier ua s)) (\<lambda>(key, s1).
           and_then (wrap_err AttributeEq (expect_char (CHR ''='') (skip_ws s1))) (\<lambda>s2.
           and_then (parse_value ua (skip_ws s2)) (\<lambda>(val, s3).
             attributes_loop ua (hm_insert key val attrs) s3))))"
  by pat_completeness auto
termination
proof (relation "measure (\<lambda>(ua, attrs, s). length s)", rule wf_measure)
  fix ua attrs and s0 s :: string assume s: "s = skip_ws s0" "s \<noteq> []"
  show "((ua, attrs, advance_char s), ua, attrs, s0) \<in> measure (\<lambda>(ua, attrs, s). length s)"
    using s advance_char_shorter[of s] skip_ws_le[of s0] by simp
next
  fix ua attrs and s0 s s1 s2 s3 key val :: string and k v
  assume "s = skip_ws s0" "wrap_err AttributeName (parse_identifier ua s) = Inr k" "(key, s1) = k"
    "wrap_err AttributeEq (expect_char (CHR ''='') (skip_ws s1)) = Inr s2"
    "parse_value ua (skip_ws s2) = Inr v" "(val, s3) = v"
  then show "((ua, hm_insert key val attrs, s3), ua, attrs, s0) \<in> measure (\<lambda>(ua, attrs, s). length s)"
    using skip_ws_le[of s0] skip_ws_le[of s1] skip_ws_le[of s2]
    by (auto dest!: reader_shorter)
qed

declare attributes_loop.simps [simp del]

definition parse_attributes :: "(string \<Rightarrow> bool) \<Rightarrow> string \<Rightarrow> (dot_error, attrs \<times> string) sum" where
  "parse_attributes ua s = and_then (expect_char (CHR ''['') s) (attributes_loop ua [])"

text \<open>\<^verbatim>\<open>if self.peek() == Some('[') { self.parse_attributes()? } else { HashMap::new() }\<close>\<close>

definition optional_attributes :: "(string \<Rightarrow> bool) \<Rightarrow> string \<Rightarrow> (dot_error, attrs \<times> string) sum" where
  "optional_attributes ua s = (if peek_is s (CHR ''['') then parse_attributes ua s else Inr ([], s))"

subsection \<open>Attribute values\<close>

definition parse_duration_secs :: "string \<Rightarrow> u64 option" where
  "parse_duration_secs s0 =
     (let s = trim s0 in
      case strip_suffix ''s'' s of
        Some n \<Rightarrow> parse_u64 (trim n)
      | None \<Rightarrow> (case strip_suffix ''m'' s of
          Some n \<Rightarrow> Option.bind (parse_u64 (trim n)) (\<lambda>v. checked_mul v 60)
        | None \<Rightarrow> (case strip_suffix ''h'' s of
            Some n \<Rightarrow> Option.bind (parse_u64 (trim n)) (\<lambda>v. checked_mul v 3600)
          | None \<Rightarrow> parse_u64 s)))"

definition parse_duration_secs_f64 :: "string \<Rightarrow> f64 option" where
  "parse_duration_secs_f64 s0 =
     (let s = trim s0;
          parsed = (case strip_suffix ''ms'' s of
              Some n \<Rightarrow> map_option (\<lambda>x. f64_div_const x 1000) (parse_f64 (trim n))
            | None \<Rightarrow> (case strip_suffix ''s'' s of
                Some n \<Rightarrow> parse_f64 (trim n)
              | None \<Rightarrow> (case strip_suffix ''m'' s of
                  Some n \<Rightarrow> map_option (\<lambda>x. f64_mul_const x 60) (parse_f64 (trim n))
                | None \<Rightarrow> (case strip_suffix ''h'' s of
                    Some n \<Rightarrow> map_option (\<lambda>x. f64_mul_const x 3600) (parse_f64 (trim n))
                  | None \<Rightarrow> parse_f64 s))))
      in case parsed of
           Some x \<Rightarrow> if is_finite x \<and> f64_le (Fin 0) x then Some x else None
         | None \<Rightarrow> None)"

definition parse_bool :: "string \<Rightarrow> bool option" where
  "parse_bool s0 =
     (let s = trim s0 in
      if s = ''true'' \<or> s = ''yes'' \<or> s = ''1'' then Some True
      else if s = ''false'' \<or> s = ''no'' \<or> s = ''0'' then Some False
      else None)"

definition parse_csv_list :: "string \<Rightarrow> string list" where
  "parse_csv_list s = filter (\<lambda>part. part \<noteq> []) (map trim (split_char (CHR '','') s))"

definition trim_end_parens :: "string \<Rightarrow> string" where
  "trim_end_parens s = rev (dropWhile (\<lambda>c. c = CHR '')'') (rev s))"

definition parse_deadline_action :: "string \<Rightarrow> DeadlineAction option" where
  "parse_deadline_action s0 =
     (let s = trim s0 in
      if s = ''abort'' then Some Abort
      else if s = ''skip'' then Some Skip
      else if s = ''escalate'' then Some Escalate
      else let rest = (case strip_prefix ''retry:'' s of Some r \<Rightarrow> Some r | None \<Rightarrow> strip_prefix ''retry('' s)
           in case map_option trim_end_parens rest of
                None \<Rightarrow> None
              | Some r \<Rightarrow> (case parse_u32 (trim r) of
                  None \<Rightarrow> None
                | Some n \<Rightarrow> if n = 0 then None else Some (Retry n)))"

definition parse_checkpoints :: "attrs \<Rightarrow> MissionCheckpoint list" where
  "parse_checkpoints attrs = (case hm_get attrs ''checkpoint'' of
       None \<Rightarrow> []
     | Some raw \<Rightarrow>
         let trimmed = trim raw in
         if trimmed = [] then []
         else (case parse_bool trimmed of
             Some b \<Rightarrow> if b then [\<lparr>mc_name = ''default'', mc_resumable = True\<rparr>] else []
           | None \<Rightarrow> map (\<lambda>n. \<lparr>mc_name = n, mc_resumable = True\<rparr>) (parse_csv_list trimmed)))"

subsection \<open>Nodes, edges and graph attributes\<close>

definition unwrap_or :: "'a option \<Rightarrow> 'a \<Rightarrow> 'a" where
  "unwrap_or a d = (case a of Some x \<Rightarrow> x | None \<Rightarrow> d)"

definition attr_parse :: "attrs \<Rightarrow> string \<Rightarrow> (string \<Rightarrow> 'a option) \<Rightarrow> 'a option" where
  "attr_parse attrs key f = Option.bind (hm_get attrs key) f"

definition node_handler :: "attrs \<Rightarrow> HandlerKind" where
  "node_handler attrs =
     unwrap_or (or_else (attr_parse attrs ''handler'' handler_from_str) (attr_parse attrs ''shape'' handler_from_shape)) Codergen"

definition node_tools :: "attrs \<Rightarrow> string list" where
  "node_tools attrs = (case hm_get attrs ''tools'' of
       None \<Rightarrow> []
     | Some s \<Rightarrow> let parsed = parse_csv_list s in if parsed = [] then [[]] else parsed)"

definition csv_attr :: "string option \<Rightarrow> string list" where
  "csv_attr a = (case a of None \<Rightarrow> [] | Some s \<Rightarrow> parse_csv_list s)"

definition build_node :: "string \<Rightarrow> attrs \<Rightarrow> PipelineNode" where
  "build_node i attrs =
     \<lparr>n_id = i, n_handler = node_handler attrs, n_prompt = hm_get attrs ''prompt'',
      n_label = hm_get attrs ''label'', n_model = hm_get attrs ''model'',
      n_context_window = attr_parse attrs ''context_window'' parse_u32,
      n_max_output_tokens = attr_parse attrs ''max_output_tokens'' parse_u32,
      n_reasoning_effort = hm_get attrs ''reasoning_effort'',
      n_max_iterations = attr_parse attrs ''max_iterations'' parse_u32,
      n_tools = node_tools attrs,
      n_goal_gate = unwrap_or (attr_parse attrs ''goal_gate'' parse_bool) False,
      n_max_retries = unwrap_or (attr_parse attrs ''max_retries'' parse_u32) 0,
      n_timeout_secs = attr_parse attrs ''timeout_secs'' parse_duration_secs,
      n_suggested_next = hm_get attrs ''suggested_next'', n_converge = hm_get attrs ''converge'',
      n_worker_prompt = hm_get attrs ''worker_prompt'', n_planner_model = hm_get attrs ''planner_model'',
      n_max_tasks = attr_parse attrs ''max_tasks'' parse_u32,
      n_human_gate = unwrap_or
        (Option.bind (or_else (hm_get attrs ''human_gate'') (hm_get attrs ''requires_human'')) parse_bool)
        (hm_contains attrs ''input_type''),
      n_resolver = or_else (hm_get attrs ''resolver'') (hm_get attrs ''gate_resolver''),
      n_artifact_refs = csv_attr (or_else (hm_get attrs ''artifact_refs'') (hm_get attrs ''requires_artifact'')),
      n_checkpoint_refs = csv_attr (or_else (hm_get attrs ''checkpoint_refs'') (hm_get attrs ''requires_checkpoint'')),
      n_deadline_secs = attr_parse attrs ''deadline_secs'' parse_duration_secs_f64,
      n_deadline_action = attr_parse attrs ''deadline_action'' parse_deadline_action,
      n_continue_on_error = unwrap_or (attr_parse attrs ''continue_on_error'' parse_bool) False,
      n_checkpoints = parse_checkpoints attrs\<rparr>"

definition build_edge :: "attrs \<Rightarrow> string \<times> string \<Rightarrow> PipelineEdge" where
  "build_edge attrs p =
     \<lparr>e_source = fst p, e_target = snd p, e_label = hm_get attrs ''label'',
      e_condition = hm_get attrs ''condition'',
      e_weight = unwrap_or (attr_parse attrs ''weight'' parse_f64) (Fin 1)\<rparr>"

definition apply_graph_attrs :: "attrs \<Rightarrow> PipelineGraph \<Rightarrow> PipelineGraph" where
  "apply_graph_attrs attrs g =
     (let g1 = (case hm_get attrs ''label'' of Some l \<Rightarrow> g\<lparr>g_label := Some l\<rparr> | None \<Rightarrow> g);
          g2 = (case hm_get attrs ''default_model'' of Some m \<Rightarrow> g1\<lparr>g_default_model := Some m\<rparr> | None \<Rightarrow> g1);
          g3 = (case hm_get attrs ''max_total_tokens'' of Some n \<Rightarrow> g2\<lparr>g_max_total_tokens := parse_u32 n\<rparr> | None \<Rightarrow> g2);
          g4 = (case hm_get attrs ''default_timeout_secs'' of
                  Some d \<Rightarrow> g3\<lparr>g_default_timeout_secs := parse_duration_secs d\<rparr> | None \<Rightarrow> g3)
      in case hm_get attrs ''result_fidelity'' of
           Some f \<Rightarrow> g4\<lparr>g_result_fidelity := parse_fidelity f\<rparr> | None \<Rightarrow> g4)"

definition insert_node :: "string \<Rightarrow> attrs \<Rightarrow> PipelineGraph \<Rightarrow> PipelineGraph" where
  "insert_node i attrs g = g\<lparr>g_nodes := hm_insert i (build_node i attrs) (g_nodes g)\<rparr>"

subsection \<open>Statements\<close>

function edge_chain_loop :: "(string \<Rightarrow> bool) \<Rightarrow> string list \<Rightarrow> string \<Rightarrow> (dot_error, string list \<times> string) sum" where
  "edge_chain_loop ua chain s =
     and_then (wrap_err EdgeTarget (parse_identifier ua (skip_ws s))) (\<lambda>(next, s1).
       let s2 = skip_ws s1 in
       case try_str ''->'' s2 of
         Some s3 \<Rightarrow> edge_chain_loop ua (chain @ [next]) s3
       | None \<Rightarrow> Inr (chain @ [next], s2))"
  by pat_completeness auto
termination
proof (relation "measure (\<lambda>(ua, chain, s). length s)", rule wf_measure)
  fix ua and chain :: "string list" and s s1 s2 s3 nx :: string and k
  assume "wrap_err EdgeTarget (parse_identifier ua (skip_ws s)) = Inr k" "(nx, s1) = k"
    "s2 = skip_ws s1" "try_str ''->'' s2 = Some s3"
  then show "((ua, chain @ [nx], s3), ua, chain, s) \<in> measure (\<lambda>(ua, chain, s). length s)"
    using skip_ws_le[of s] skip_ws_le[of s1] by (auto dest!: reader_shorter)
qed

declare edge_chain_loop.simps [simp del]

definition windows2 :: "'a list \<Rightarrow> ('a \<times> 'a) list" where
  "windows2 xs = zip xs (tl xs)"

definition parse_edge_chain :: "(string \<Rightarrow> bool) \<Rightarrow> string \<Rightarrow> PipelineGraph \<Rightarrow> string
    \<Rightarrow> (dot_error, string list \<times> PipelineGraph \<times> string) sum" where
  "parse_edge_chain ua first g s =
     and_then (edge_chain_loop ua [first] s) (\<lambda>(chain, s1).
     and_then (optional_attributes ua (skip_ws s1)) (\<lambda>(attrs, s2).
       Inr (chain, g\<lparr>g_edges := g_edges g @ map (build_edge attrs) (windows2 chain)\<rparr>, s2)))"

definition push_new :: "string \<Rightarrow> string list \<Rightarrow> string list" where
  "push_new i ids = (if List.member ids i then ids else ids @ [i])"

lemma edge_chain_loop_shorter: "edge_chain_loop ua chain s = Inr (c, rest) \<Longrightarrow> length rest < length s"
proof (induction ua chain s rule: edge_chain_loop.induct)
  case (1 ua chain s)
  from "1.prems" obtain nx s1 where p: "parse_identifier ua (skip_ws s) = Inr (nx, s1)"
    by (subst (asm) edge_chain_loop.simps) (auto simp: and_then_Inr)
  have s2: "length (skip_ws s1) < length s"
    using parse_identifier_shorter[OF p] skip_ws_le[of s] skip_ws_le[of s1] by linarith
  show ?case
  proof (cases "try_str ''->'' (skip_ws s1)")
    case None
    then show ?thesis using "1.prems" p s2 by (subst (asm) edge_chain_loop.simps) (auto simp: Let_def)
  next
    case (Some s3)
    then have "edge_chain_loop ua (chain @ [nx]) s3 = Inr (c, rest)"
      using "1.prems" p by (subst (asm) edge_chain_loop.simps) (auto simp: Let_def)
    with "1.IH" p Some have "length rest < length s3" by simp
    then show ?thesis using try_str_le[OF Some] s2 by simp
  qed
qed

lemma attributes_loop_shorter: "attributes_loop ua attrs s = Inr (m, rest) \<Longrightarrow> length rest < length s"
proof (induction ua attrs s rule: attributes_loop.induct)
  case (1 ua attrs s0)
  let ?s = "skip_ws s0"
  have le: "length ?s \<le> length s0" by (rule skip_ws_le)
  consider (close) "peek_is ?s (CHR '']'')" | (sep) "\<not> peek_is ?s (CHR '']'')" "?s \<noteq> []" "peek_is ?s (CHR '','') \<or> peek_is ?s (CHR '';'')"
    | (attr) "\<not> peek_is ?s (CHR '']'')" "?s \<noteq> []" "\<not> (peek_is ?s (CHR '','') \<or> peek_is ?s (CHR '';''))"
    using "1.prems" by (subst (asm) attributes_loop.simps) (auto simp: Let_def split: if_splits)
  then show ?case
  proof cases
    case close
    then have "?s \<noteq> []" by (auto simp: peek_is_def peek_def)
    with close advance_char_shorter[of ?s] le "1.prems" show ?thesis
      by (subst (asm) attributes_loop.simps) (simp add: Let_def)
  next
    case sep
    then have "attributes_loop ua attrs (advance_char ?s) = Inr (m, rest)"
      using "1.prems" by (subst (asm) attributes_loop.simps) (simp add: Let_def)
    with "1.IH"(1)[OF refl sep] advance_char_shorter[OF sep(2)] le show ?thesis by simp
  next
    case attr
    with "1.prems" obtain key s1 s2 val s3 where
      r: "parse_identifier ua ?s = Inr (key, s1)" "expect_char (CHR ''='') (skip_ws s1) = Inr s2"
        "parse_value ua (skip_ws s2) = Inr (val, s3)" "attributes_loop ua (hm_insert key val attrs) s3 = Inr (m, rest)"
      by (subst (asm) attributes_loop.simps) (auto simp: Let_def and_then_Inr)
    have "length rest < length s3" using "1.IH"(2)[OF refl attr] r by simp
    with r le skip_ws_le[of s1] skip_ws_le[of s2] show ?thesis by (auto dest!: reader_shorter)
  qed
qed

lemma optional_attributes_le: "optional_attributes ua s = Inr (m, rest) \<Longrightarrow> length rest \<le> length s"
  by (auto simp: optional_attributes_def parse_attributes_def and_then_Inr split: if_splits
      dest!: attributes_loop_shorter expect_char_shorter)

lemma parse_edge_chain_shorter:
  "parse_edge_chain ua first g s = Inr (c, g', rest) \<Longrightarrow> length rest < length s"
  using skip_ws_le
  by (fastforce simp: parse_edge_chain_def and_then_Inr dest!: edge_chain_loop_shorter optional_attributes_le
      intro: le_less_trans le_trans)

text \<open>One round of the loop of \<^verbatim>\<open>parse_subgraph\<close>: the label and members so far, the graph and the rest.\<close>

type_synonym cluster = "string option \<times> string list \<times> PipelineGraph \<times> string"

definition subgraph_statement :: "(string \<Rightarrow> bool) \<Rightarrow> string option \<Rightarrow> string list \<Rightarrow> PipelineGraph \<Rightarrow> string
    \<Rightarrow> (dot_error, cluster) sum" where
  "subgraph_statement ua label ids g s =
     (case try_keyword ua ''graph'' s of
        Some s1 \<Rightarrow>
          and_then (optional_attributes ua (skip_ws s1)) (\<lambda>(attrs, s2).
            Inr (or_else (hm_get attrs ''label'') label, ids, g, skip_optional_semicolon s2))
      | None \<Rightarrow>
          and_then (wrap_err SubgraphNodeId (parse_identifier ua s)) (\<lambda>(first, s1).
            case try_str ''->'' (skip_ws s1) of
              Some s2 \<Rightarrow>
                and_then (parse_edge_chain ua first g s2) (\<lambda>(chain, g', s3).
                  Inr (label, fold push_new chain ids, g', skip_optional_semicolon s3))
            | None \<Rightarrow>
                and_then (optional_attributes ua (skip_ws s1)) (\<lambda>(attrs, s2).
                  Inr (label, push_new first ids, insert_node first attrs g, skip_optional_semicolon s2))))"

lemma subgraph_statement_shorter:
  assumes "subgraph_statement ua label ids g s = Inr (l, m, g', rest)"
  shows "length rest < length s"
proof -
  note le = skip_ws_le skip_optional_semicolon_le
  have "length rest < length s" if "try_keyword ua ''graph'' s = Some s1" for s1
    using that assms try_keyword_shorter[OF that] le(1)[of s1]
    by (auto simp: subgraph_statement_def and_then_Inr dest!: optional_attributes_le intro!: le_less_trans[OF le(2)])
  moreover have "length rest < length s" if kw: "try_keyword ua ''graph'' s = None"
  proof -
    from assms kw obtain first s1 where p: "parse_identifier ua s = Inr (first, s1)"
      by (auto simp: subgraph_statement_def and_then_Inr)
    have s1: "length (skip_ws s1) < length s" using parse_identifier_shorter[OF p] le(1)[of s1] by linarith
    show ?thesis
    proof (cases "try_str ''->'' (skip_ws s1)")
      case None
      with assms kw p s1 show ?thesis
        by (auto simp: subgraph_statement_def and_then_Inr dest!: optional_attributes_le intro!: le_less_trans[OF le(2)])
    next
      case (Some s2)
      with assms kw p s1 try_str_le[OF Some] show ?thesis
        by (auto simp: subgraph_statement_def and_then_Inr dest!: parse_edge_chain_shorter intro!: le_less_trans[OF le(2)])
    qed
  qed
  ultimately show ?thesis by (cases "try_keyword ua ''graph'' s") auto
qed

function subgraph_loop :: "(string \<Rightarrow> bool) \<Rightarrow> string \<Rightarrow> cluster \<Rightarrow> (dot_error, cluster) sum" where
  "subgraph_loop ua sid (label, ids, g, s0) =
     (let s = skip_ws s0 in
      if peek_is s (CHR 0x7D) then Inr (label, ids, g, advance_char s)
      else if s = [] then Inl (EofInSubgraph sid)
      else and_then (subgraph_statement ua label ids g s) (\<lambda>st. subgraph_loop ua sid st))"
  by pat_completeness auto
termination
proof (relation "measure (\<lambda>(ua, sid, label, ids, g, s). length s)", rule wf_measure)
  fix ua :: "string \<Rightarrow> bool" and sid :: string and label ids g and s0 s :: string and st :: cluster
  assume "s = skip_ws s0" "subgraph_statement ua label ids g s = Inr st"
  then show "((ua, sid, st), ua, sid, label, ids, g, s0) \<in> measure (\<lambda>(ua, sid, label, ids, g, s). length s)"
    using skip_ws_le[of s0] by (cases st) (auto dest!: subgraph_statement_shorter)
qed

declare subgraph_loop.simps [simp del]

definition parse_subgraph :: "(string \<Rightarrow> bool) \<Rightarrow> PipelineGraph \<Rightarrow> string \<Rightarrow> (dot_error, PipelineGraph \<times> string) sum" where
  "parse_subgraph ua g s =
     and_then (wrap_err SubgraphName (parse_identifier ua (skip_ws s))) (\<lambda>(sid, s1).
     and_then (wrap_err SubgraphBrace (expect_char (CHR 0x7B) (skip_ws s1))) (\<lambda>s2.
     and_then (subgraph_loop ua sid (None, [], g, s2)) (\<lambda>(label, ids, g', s3).
       Inr (g'\<lparr>g_subgraphs := g_subgraphs g' @ [\<lparr>s_id = sid, s_label = label, s_node_ids = ids\<rparr>]\<rparr>, s3))))"

text \<open>A bare attribute such as \<^verbatim>\<open>rankdir=LR\<close>: its value is read and dropped.\<close>

definition skip_bare_attribute :: "(string \<Rightarrow> bool) \<Rightarrow> string \<Rightarrow> (dot_error, string) sum" where
  "skip_bare_attribute ua s0 =
     (let s = skip_ws (advance_char s0) in
      if peek_is s (CHR 0x22) then and_then (parse_quoted_string s) (\<lambda>(_, rest). Inr rest)
      else (case parse_identifier ua s of Inr (_, rest) \<Rightarrow> Inr rest | Inl _ \<Rightarrow> Inr s))"

definition parse_statement :: "(string \<Rightarrow> bool) \<Rightarrow> PipelineGraph \<Rightarrow> string \<Rightarrow> (dot_error, PipelineGraph \<times> string) sum" where
  "parse_statement ua g s0 =
     (let s = skip_ws s0 in
      case try_keyword ua ''graph'' s of
        Some s1 \<Rightarrow>
          and_then (optional_attributes ua (skip_ws s1)) (\<lambda>(attrs, s2).
            Inr (apply_graph_attrs attrs g, skip_optional_semicolon s2))
      | None \<Rightarrow>
        (case try_keyword ua ''subgraph'' s of
           Some s1 \<Rightarrow> and_then (parse_subgraph ua g s1) (\<lambda>(g', s2). Inr (g', skip_optional_semicolon s2))
         | None \<Rightarrow>
             and_then (wrap_err StatementId (parse_identifier ua s)) (\<lambda>(first, s1).
               let s2 = skip_ws s1 in
               case try_str ''->'' s2 of
                 Some s3 \<Rightarrow>
                   and_then (parse_edge_chain ua first g s3) (\<lambda>(_, g', s4). Inr (g', skip_optional_semicolon s4))
               | None \<Rightarrow>
                   if peek_is s2 (CHR ''='')
                   then and_then (skip_bare_attribute ua s2) (\<lambda>s3. Inr (g, skip_optional_semicolon s3))
                   else and_then (optional_attributes ua s2) (\<lambda>(attrs, s3).
                          Inr (insert_node first attrs g, skip_optional_semicolon s3)))))"

lemma subgraph_loop_shorter: "subgraph_loop ua sid st = Inr (l, m, g', rest) \<Longrightarrow> length rest < length (snd (snd (snd st)))"
proof (induction ua sid st rule: subgraph_loop.induct)
  case (1 ua sid label ids g s0)
  let ?s = "skip_ws s0"
  have le: "length ?s \<le> length s0" by (rule skip_ws_le)
  show ?case
  proof (cases "peek_is ?s (CHR 0x7D)")
    case True
    then have "?s \<noteq> []" by (auto simp: peek_is_def peek_def)
    with True advance_char_shorter[of ?s] le "1.prems" show ?thesis
      by (subst (asm) subgraph_loop.simps) (simp add: Let_def)
  next
    case False
    with "1.prems" obtain st' where ne: "?s \<noteq> []" and st: "subgraph_statement ua label ids g ?s = Inr st'"
      and loop: "subgraph_loop ua sid st' = Inr (l, m, g', rest)"
      by (subst (asm) subgraph_loop.simps) (auto simp: Let_def and_then_Inr split: if_splits)
    from "1.IH"[OF refl False ne st loop] subgraph_statement_shorter[of ua label ids g ?s] st le
    show ?thesis by (cases st') auto
  qed
qed

lemma parse_statement_shorter:
  assumes "parse_statement ua g s0 = Inr (g', rest)"
  shows "length rest < length s0"
proof -
  note le = skip_ws_le skip_optional_semicolon_le
  let ?s = "skip_ws s0"
  have s: "length ?s \<le> length s0" by (rule skip_ws_le)
  consider (graph) s1 where "try_keyword ua ''graph'' ?s = Some s1"
    | (sub) s1 where "try_keyword ua ''graph'' ?s = None" "try_keyword ua ''subgraph'' ?s = Some s1"
    | (stmt) "try_keyword ua ''graph'' ?s = None" "try_keyword ua ''subgraph'' ?s = None"
    by (metis option.exhaust)
  then show ?thesis
  proof cases
    case graph
    with assms s try_keyword_shorter[OF graph] le(1)[of s1] show ?thesis
      by (auto simp: parse_statement_def and_then_Inr dest!: optional_attributes_le intro!: le_less_trans[OF le(2)])
  next
    case sub
    with assms obtain s2 where p: "parse_subgraph ua g s1 = Inr (g', s2)" and rest: "rest = skip_optional_semicolon s2"
      by (auto simp: parse_statement_def and_then_Inr)
    from p obtain sid s3 s4 where "parse_identifier ua (skip_ws s1) = Inr (sid, s3)"
      "expect_char (CHR 0x7B) (skip_ws s3) = Inr s4" "length s2 < length s4"
      by (auto simp: parse_subgraph_def and_then_Inr dest!: subgraph_loop_shorter)
    with le(1)[of s1] le(1)[of s3] have "length s2 < length s1" by (auto dest!: reader_shorter)
    then show ?thesis using try_keyword_shorter[OF sub(2)] s le(2)[of s2] by (simp add: rest)
  next
    case stmt
    with assms obtain first s1 where p: "parse_identifier ua ?s = Inr (first, s1)"
      by (auto simp: parse_statement_def and_then_Inr)
    let ?t = "skip_ws s1"
    have t: "length ?t < length s0" using parse_identifier_shorter[OF p] le(1)[of s1] s by linarith
    have bare: "length r \<le> length ?t" if "skip_bare_attribute ua ?t = Inr r" for r
      using that le(1)[of "advance_char ?t"] advance_char_le[of ?t]
      by (auto simp: skip_bare_attribute_def Let_def and_then_Inr parse_quoted_string_def split: if_splits sum.splits
          dest!: quoted_loop_shorter expect_char_shorter parse_identifier_shorter)
    show ?thesis
    proof (cases "try_str ''->'' ?t")
      case None
      with assms stmt p t show ?thesis
        by (auto simp: parse_statement_def Let_def and_then_Inr split: if_splits
            dest!: optional_attributes_le bare intro!: le_less_trans[OF le(2)])
    next
      case (Some s2)
      with assms stmt p t try_str_le[OF Some] show ?thesis
        by (auto simp: parse_statement_def Let_def and_then_Inr dest!: parse_edge_chain_shorter intro!: le_less_trans[OF le(2)])
    qed
  qed
qed

subsection \<open>The whole input\<close>

function statements_loop :: "(string \<Rightarrow> bool) \<Rightarrow> PipelineGraph \<times> string \<Rightarrow> (dot_error, PipelineGraph) sum" where
  "statements_loop ua (g, s0) =
     (let s = skip_ws s0 in
      if peek_is s (CHR 0x7D) then Inr g
      else if s = [] then Inl EofInGraph
      else and_then (parse_statement ua g s) (\<lambda>st. statements_loop ua st))"
  by pat_completeness auto
termination
proof (relation "measure (\<lambda>(ua, g, s). length s)", rule wf_measure)
  fix ua :: "string \<Rightarrow> bool" and g and s0 s :: string and st
  assume "s = skip_ws s0" "parse_statement ua g s = Inr st"
  then show "((ua, st), ua, g, s0) \<in> measure (\<lambda>(ua, g, s). length s)"
    using skip_ws_le[of s0] by (cases st) (auto dest!: parse_statement_shorter)
qed

declare statements_loop.simps [simp del]

definition ensure_node :: "string \<Rightarrow> (string, PipelineNode) hashmap \<Rightarrow> (string, PipelineNode) hashmap" where
  "ensure_node i nodes = (if hm_contains nodes i then nodes else hm_insert i (default_node\<lparr>n_id := i\<rparr>) nodes)"

definition ensure_endpoints :: "PipelineEdge \<Rightarrow> (string, PipelineNode) hashmap \<Rightarrow> (string, PipelineNode) hashmap" where
  "ensure_endpoints e nodes = ensure_node (e_target e) (ensure_node (e_source e) nodes)"

definition MAX_GRAPH_ID_BYTES :: nat where "MAX_GRAPH_ID_BYTES = 128"

definition bound_graph_id :: "string \<Rightarrow> string" where
  "bound_graph_id i = (if length i \<le> MAX_GRAPH_ID_BYTES then i else take (snap_boundary i MAX_GRAPH_ID_BYTES) i)"

definition empty_graph :: "string \<Rightarrow> PipelineGraph" where
  "empty_graph i = \<lparr>g_id = i, g_label = None, g_default_model = None, g_max_total_tokens = None,
     g_default_timeout_secs = None, g_result_fidelity = None, g_nodes = [], g_edges = [], g_subgraphs = []\<rparr>"

definition parse_dot :: "(string \<Rightarrow> bool) \<Rightarrow> string \<Rightarrow> (dot_error, PipelineGraph) sum" where
  "parse_dot ua s0 =
     and_then (wrap_err DigraphKeyword (expect_keyword ua ''digraph'' (skip_ws s0))) (\<lambda>s1.
     and_then (if peek_is (skip_ws s1) (CHR 0x7B) then Inr (''pipeline'', skip_ws s1)
               else wrap_err GraphName (parse_identifier ua (skip_ws s1))) (\<lambda>(i, s2).
     and_then (wrap_err OpenBrace (expect_char (CHR 0x7B) (skip_ws s2))) (\<lambda>s3.
     and_then (statements_loop ua (empty_graph (bound_graph_id i), s3)) (\<lambda>g.
       Inr (g\<lparr>g_nodes := fold ensure_endpoints (g_edges g) (g_nodes g)\<rparr>)))))"

end
