(* ===== verification/Dot_Properties.thy ===== *)
theory Dot_Properties
  imports Dot_Parser Cycles
begin

text \<open>
  What the DOT parser guarantees of the graph it returns: the node map is keyed by node identifiers,
  every edge endpoint and every subgraph member is a declared node, and the graph identifier is
  bounded. The invariant is carried through each operation that changes the graph under
  construction. Further: duration attributes never wrap around, and two spellings of DOT that the
  parser rejects.
\<close>

subsection \<open>The graph under construction\<close>

definition endpoints :: "PipelineGraph \<Rightarrow> string set" where
  "endpoints g = e_source ` set (g_edges g) \<union> e_target ` set (g_edges g)"

definition known :: "PipelineGraph \<Rightarrow> string set" where
  "known g = node_ids g \<union> endpoints g"

definition members_known :: "PipelineGraph \<Rightarrow> bool" where
  "members_known g \<longleftrightarrow>
     (\<forall>sg \<in> set (g_subgraphs g). distinct (s_node_ids sg) \<and> set (s_node_ids sg) \<subseteq> known g)"

definition dot_inv :: "string \<Rightarrow> PipelineGraph \<Rightarrow> bool" where
  "dot_inv i g \<longleftrightarrow> graph_wf g \<and> members_known g \<and> g_id g = i"

text \<open>What every statement keeps: the invariant, and what was known stays known.\<close>

definition grows :: "string \<Rightarrow> PipelineGraph \<Rightarrow> PipelineGraph \<Rightarrow> bool" where
  "grows i g g' \<longleftrightarrow> dot_inv i g' \<and> known g \<subseteq> known g'"

named_theorems dot_defs "definitions of the graph invariant"
declare endpoints_def [dot_defs] known_def [dot_defs] members_known_def [dot_defs] dot_inv_def [dot_defs]
  grows_def [dot_defs] node_ids_def [dot_defs] graph_wf_def [dot_defs]

lemma graph_wf_insert: "graph_wf g \<Longrightarrow> n_id n = i \<Longrightarrow> graph_wf (g\<lparr>g_nodes := hm_insert i n (g_nodes g)\<rparr>)"
proof -
  assume wf: "graph_wf g" and n: "n_id n = i"
  have "n_id m = k" if "(k, m) \<in> set (hm_insert i n (g_nodes g))" for k m
  proof -
    have "hm_get (hm_insert i n (g_nodes g)) k = Some m"
      using that wf by (simp add: graph_wf_def distinct_update map_of_is_SomeI)
    then show ?thesis using wf n
      by (auto simp: graph_wf_def update_conv split: if_splits dest!: map_of_SomeD)
  qed
  with wf show ?thesis by (auto simp: graph_wf_def distinct_update)
qed

lemma members_known_mono:
  "members_known g \<Longrightarrow> known g \<subseteq> known g' \<Longrightarrow> g_subgraphs g' = g_subgraphs g \<Longrightarrow> members_known g'"
  by (auto simp: members_known_def)

lemma grows_insert_node:
  assumes "dot_inv i g" shows "grows i g (insert_node n attrs g)" "n \<in> known (insert_node n attrs g)"
proof -
  have "known (insert_node n attrs g) = insert n (known g)"
    by (auto simp: insert_node_def known_def endpoints_def node_ids_def dom_update)
  moreover have "graph_wf (insert_node n attrs g)"
    using assms unfolding insert_node_def by (intro graph_wf_insert) (simp_all add: dot_inv_def build_node_def)
  ultimately show "grows i g (insert_node n attrs g)" "n \<in> known (insert_node n attrs g)"
    using assms members_known_mono[of g "insert_node n attrs g"]
    by (auto simp: grows_def dot_inv_def insert_node_def)
qed

lemma set_windows2: "2 \<le> length xs \<Longrightarrow> set xs \<subseteq> fst ` set (windows2 xs) \<union> snd ` set (windows2 xs)"
proof
  fix x assume len: "2 \<le> length xs" and "x \<in> set xs"
  then obtain i where i: "i < length xs" "x = xs ! i" by (auto simp: in_set_conv_nth)
  show "x \<in> fst ` set (windows2 xs) \<union> snd ` set (windows2 xs)"
  proof (cases "Suc i < length xs")
    case True
    then have "(x, xs ! Suc i) \<in> set (windows2 xs)" using i
      by (auto simp: windows2_def set_zip nth_tl intro!: exI[of _ i])
    then show ?thesis by force
  next
    case False
    with i len have "(xs ! (i - 1), x) \<in> set (windows2 xs)"
      by (auto simp: windows2_def set_zip nth_tl intro!: exI[of _ "i - 1"])
    then show ?thesis by force
  qed
qed

lemma grows_add_edges:
  assumes "dot_inv i g" and g'_def: "g' = g\<lparr>g_edges := g_edges g @ map (build_edge attrs) (windows2 chain)\<rparr>"
  shows "grows i g g'" "2 \<le> length chain \<Longrightarrow> set chain \<subseteq> known g'"
proof -
  have k: "known g' = known g \<union> fst ` set (windows2 chain) \<union> snd ` set (windows2 chain)"
    by (auto simp: g'_def known_def endpoints_def node_ids_def build_edge_def image_Un image_image)
  with assms(1) members_known_mono[of g g'] show "grows i g g'"
    by (auto simp: grows_def dot_inv_def g'_def graph_wf_def)
  show "2 \<le> length chain \<Longrightarrow> set chain \<subseteq> known g'" using set_windows2[of chain] k by blast
qed

lemma grows_graph_attrs: "dot_inv i g \<Longrightarrow> grows i g (apply_graph_attrs attrs g)"
  by (auto simp: apply_graph_attrs_def dot_defs Let_def split: option.splits)

lemma grows_trans: "grows i g h \<Longrightarrow> grows i h k \<Longrightarrow> grows i g k"
  by (auto simp: grows_def)

lemma edge_chain_loop_length: "edge_chain_loop ua chain s = Inr (c, rest) \<Longrightarrow> Suc (length chain) \<le> length c"
proof (induction ua chain s rule: edge_chain_loop.induct)
  case (1 ua chain s)
  from "1.prems" obtain nx s1 where p: "parse_identifier ua (skip_ws s) = Inr (nx, s1)"
    by (subst (asm) edge_chain_loop.simps) (auto simp: and_then_Inr)
  with "1.prems" "1.IH" show ?case
    by (subst (asm) edge_chain_loop.simps) (fastforce simp: Let_def split: option.splits)
qed

lemma grows_edge_chain:
  assumes "dot_inv i g" "parse_edge_chain ua first g s = Inr (chain, g', rest)"
  shows "grows i g g'" "set chain \<subseteq> known g'"
proof -
  from assms(2) obtain attrs where len: "2 \<le> length chain"
    and g': "g' = g\<lparr>g_edges := g_edges g @ map (build_edge attrs) (windows2 chain)\<rparr>"
    by (auto simp: parse_edge_chain_def and_then_Inr dest!: edge_chain_loop_length)
  show "grows i g g'" "set chain \<subseteq> known g'"
    using grows_add_edges(1)[OF assms(1) g'] grows_add_edges(2)[OF assms(1) g' len] .
qed

text \<open>The members collected by a subgraph are distinct and known.\<close>

definition cluster_inv :: "string \<Rightarrow> PipelineGraph \<Rightarrow> cluster \<Rightarrow> bool" where
  "cluster_inv i g0 st = (case st of (l, ids, g, s) \<Rightarrow> grows i g0 g \<and> distinct ids \<and> set ids \<subseteq> known g)"

lemma push_new_fold:
  "distinct ids \<Longrightarrow> distinct (fold push_new xs ids)" "set (fold push_new xs ids) = set ids \<union> set xs"
  by (induction xs arbitrary: ids) (auto simp: push_new_def)

lemma cluster_inv_statement:
  assumes "cluster_inv i g0 (l, ids, g, s0)" "subgraph_statement ua l ids g s = Inr st"
  shows "cluster_inv i g0 st"
proof -
  have inv: "dot_inv i g" "grows i g0 g" "distinct ids" "set ids \<subseteq> known g"
    using assms(1) by (auto simp: cluster_inv_def grows_def)
  have edge: "cluster_inv i g0 (l, fold push_new chain ids, g', r)"
    if "parse_edge_chain ua first g s2 = Inr (chain, g', s3)" for first s2 chain g' s3 r
    using grows_edge_chain[OF inv(1) that] inv push_new_fold(1)[of ids chain] push_new_fold(2)[of chain ids] grows_trans[OF inv(2)]
    by (auto simp: cluster_inv_def grows_def)
  have node: "cluster_inv i g0 (l, push_new n ids, insert_node n attrs g, r)" for n attrs r
    using grows_insert_node[OF inv(1), of n attrs] inv grows_trans[OF inv(2) grows_insert_node(1)[OF inv(1)], of n attrs]
    by (auto simp: cluster_inv_def grows_def push_new_def)
  have attr: "cluster_inv i g0 (l', ids, g, r)" for l' r using assms(1) by (simp add: cluster_inv_def)
  from assms(2) edge node attr show ?thesis
    by (auto simp: subgraph_statement_def and_then_Inr split: option.splits)
qed

lemma cluster_inv_loop:
  "cluster_inv i g0 st \<Longrightarrow> subgraph_loop ua sid st = Inr st' \<Longrightarrow> cluster_inv i g0 st'"
proof (induction ua sid st rule: subgraph_loop.induct)
  case (1 ua sid label ids g s0)
  show ?case
  proof (cases "peek_is (skip_ws s0) (CHR 0x7D)")
    case True
    with "1.prems" show ?thesis
      by (subst (asm) subgraph_loop.simps) (auto simp: Let_def cluster_inv_def)
  next
    case False
    with "1.prems" obtain st1 where ne: "skip_ws s0 \<noteq> []" and st: "subgraph_statement ua label ids g (skip_ws s0) = Inr st1"
      and loop: "subgraph_loop ua sid st1 = Inr st'"
      by (subst (asm) subgraph_loop.simps) (auto simp: Let_def and_then_Inr split: if_splits)
    from "1.IH"[OF refl False ne st cluster_inv_statement[OF "1.prems"(1) st] loop] show ?thesis .
  qed
qed

lemma grows_subgraph:
  assumes "dot_inv i g" "parse_subgraph ua g s = Inr (g', rest)"
  shows "grows i g g'"
proof -
  from assms(2) obtain sid s2 label ids h where loop: "subgraph_loop ua sid (None, [], g, s2) = Inr (label, ids, h, rest)"
    and g': "g' = h\<lparr>g_subgraphs := g_subgraphs h @ [\<lparr>s_id = sid, s_label = label, s_node_ids = ids\<rparr>]\<rparr>"
    by (auto simp: parse_subgraph_def and_then_Inr)
  have "cluster_inv i g (None, [], g, s2)" using assms(1) by (simp add: cluster_inv_def grows_def)
  from cluster_inv_loop[OF this loop] show ?thesis by (auto simp: cluster_inv_def g' dot_defs)
qed

lemma grows_statement:
  assumes "dot_inv i g" "parse_statement ua g s = Inr (g', rest)"
  shows "grows i g g'"
proof -
  have "grows i g g" using assms(1) by (simp add: grows_def)
  with assms(2) grows_graph_attrs[OF assms(1)] grows_subgraph[OF assms(1)] grows_edge_chain(1)[OF assms(1)]
    grows_insert_node(1)[OF assms(1)]
  show ?thesis
    by (auto simp: parse_statement_def Let_def and_then_Inr split: option.splits if_splits)
qed

lemma dot_inv_statements: "dot_inv i g \<Longrightarrow> statements_loop ua (g, s) = Inr g' \<Longrightarrow> dot_inv i g'"
proof (induction ua "(g, s)" arbitrary: g s rule: statements_loop.induct)
  case (1 ua g s0)
  show ?case
  proof (cases "peek_is (skip_ws s0) (CHR 0x7D)")
    case True
    with "1.prems" show ?thesis by (subst (asm) statements_loop.simps) (auto simp: Let_def)
  next
    case False
    with "1.prems" obtain h r where ne: "skip_ws s0 \<noteq> []" and st: "parse_statement ua g (skip_ws s0) = Inr (h, r)"
      and loop: "statements_loop ua (h, r) = Inr g'"
      by (subst (asm) statements_loop.simps) (auto simp: Let_def and_then_Inr split: if_splits)
    have "dot_inv i h" using grows_statement[OF "1.prems"(1) st] by (simp add: grows_def)
    from "1.hyps"[OF refl False ne st this loop] show ?thesis .
  qed
qed

subsection \<open>Closing the graph\<close>

definition nodes_wf :: "(string, PipelineNode) hashmap \<Rightarrow> bool" where
  "nodes_wf ns \<longleftrightarrow> hm_wf ns \<and> (\<forall>(k, n) \<in> set ns. n_id n = k)"

lemma graph_wf_nodes: "graph_wf g \<longleftrightarrow> nodes_wf (g_nodes g)"
  by (simp add: graph_wf_def nodes_wf_def)

lemma ensure_node_wf: "nodes_wf ns \<Longrightarrow> nodes_wf (ensure_node i ns)"
  using graph_wf_insert[of "(empty_graph [])\<lparr>g_nodes := ns\<rparr>" "default_node\<lparr>n_id := i\<rparr>" i]
  by (auto simp: ensure_node_def graph_wf_nodes)

lemma ensure_node_keys: "fst ` set (ensure_node i ns) = insert i (fst ` set ns)"
  using dom_update[of i _ ns] by (auto simp: ensure_node_def hm_contains_iff)

lemma ensure_endpoints_fold:
  "nodes_wf ns \<Longrightarrow> nodes_wf (fold ensure_endpoints es ns)"
  "fst ` set (fold ensure_endpoints es ns) = fst ` set ns \<union> e_source ` set es \<union> e_target ` set es"
  by (induction es arbitrary: ns) (auto simp: ensure_endpoints_def ensure_node_wf ensure_node_keys)

lemma bound_graph_id_le: "length (bound_graph_id i) \<le> 128"
  using snap_boundary_le[of i 128] by (simp add: bound_graph_id_def MAX_GRAPH_ID_BYTES_def)

subsection \<open>Properties\<close>

text \<open>C35. Whatever text is parsed, a graph the DOT parser returns is well formed: node keys are distinct
  and equal to the node identifiers, every edge starts and ends at a node of the graph, every subgraph
  lists distinct nodes of the graph, and the graph identifier has at most 128 bytes.\<close>

theorem parse_dot_well_formed:
  assumes "parse_dot ua s = Inr g"
  shows "graph_wf g \<and> (\<forall>e \<in> set (g_edges g). e_source e \<in> node_ids g \<and> e_target e \<in> node_ids g)
    \<and> (\<forall>sg \<in> set (g_subgraphs g). distinct (s_node_ids sg) \<and> set (s_node_ids sg) \<subseteq> node_ids g)
    \<and> length (g_id g) \<le> 128"
proof -
  from assms obtain i s3 h where h: "statements_loop ua (empty_graph (bound_graph_id i), s3) = Inr h"
    and g: "g = h\<lparr>g_nodes := fold ensure_endpoints (g_edges h) (g_nodes h)\<rparr>"
    by (auto simp: parse_dot_def and_then_Inr)
  have "dot_inv (bound_graph_id i) (empty_graph (bound_graph_id i))" by (simp add: dot_defs empty_graph_def)
  from dot_inv_statements[OF this h]
  have inv: "nodes_wf (g_nodes h)" "members_known h" "g_id h = bound_graph_id i"
    by (auto simp: dot_inv_def graph_wf_nodes)
  have "node_ids g = known h"
    using ensure_endpoints_fold(2)[of "g_edges h" "g_nodes h"] by (auto simp: g node_ids_def known_def endpoints_def)
  with inv ensure_endpoints_fold(1)[OF inv(1)] bound_graph_id_le show ?thesis
    by (auto simp: g graph_wf_nodes members_known_def known_def endpoints_def)
qed

theorem parse_dot_well_formed_witness:
  "\<exists>g. parse_dot (\<lambda>_. False) ''digraph g { a -> b; subgraph c { b } }'' = Inr g
     \<and> graph_wf g \<and> (\<forall>e \<in> set (g_edges g). e_source e \<in> node_ids g \<and> e_target e \<in> node_ids g)"
proof -
  have "\<not> isl (parse_dot (\<lambda>_. False) ''digraph g { a -> b; subgraph c { b } }'')" by code_simp
  then obtain g where g: "parse_dot (\<lambda>_. False) ''digraph g { a -> b; subgraph c { b } }'' = Inr g"
    by (cases "parse_dot (\<lambda>_. False) ''digraph g { a -> b; subgraph c { b } }''") auto
  with parse_dot_well_formed[OF g] show ?thesis by blast
qed

text \<open>Numbers and unit suffixes are not touched by trimming.\<close>

lemma nat_text_graphic: "is_graphic (hd (nat_text n))" "is_graphic (last (nat_text n))"
proof -
  have "\<forall>c \<in> set (nat_text n). is_graphic c"
    using nat_text_digits[of n] by (auto simp: list_all_iff is_graphic_def is_ascii_digit_def)
  then show "is_graphic (hd (nat_text n))" "is_graphic (last (nat_text n))" by simp_all
qed

lemma trim_nat_text: "trim (nat_text n) = nat_text n"
  by (simp add: trim_graphic_ends nat_text_graphic)

lemma trim_nat_text_suffix: "is_graphic u \<Longrightarrow> trim (nat_text n @ [u]) = nat_text n @ [u]"
  by (simp add: trim_graphic_ends nat_text_graphic)

lemma parse_u64_nat_text: "n < 2 ^ 64 \<Longrightarrow> parse_u64 (nat_text n) = Some (word_of_nat n)"
  by (simp add: parse_u64_def parse_uint_nat_text)

lemma checked_mul_of_nat:
  assumes "n < 2 ^ 64" "k < 2 ^ 64"
  shows "checked_mul (word_of_nat n :: u64) (word_of_nat k) =
    (if n * k < 2 ^ 64 then Some (word_of_nat (n * k)) else None)"
  using assms by (simp add: checked_mul_def unat_of_nat take_bit_nat_eq_self)

text \<open>Duration attributes: a number of seconds, minutes or hours that fits 64 bits after scaling
  is read exactly, and one that would overflow is refused instead of wrapping around.\<close>

theorem duration_exact_or_refused:
  assumes "n < 2 ^ 64"
  shows "parse_duration_secs (nat_text n @ ''s'') = Some (word_of_nat n)
    \<and> parse_duration_secs (nat_text n @ ''m'') = (if n * 60 < 2 ^ 64 then Some (word_of_nat (n * 60)) else None)
    \<and> parse_duration_secs (nat_text n @ ''h'') = (if n * 3600 < 2 ^ 64 then Some (word_of_nat (n * 3600)) else None)"
proof -
  have alnum: "is_graphic (CHR ''s'')" "is_graphic (CHR ''m'')" "is_graphic (CHR ''h'')"
    by (simp_all add: is_graphic_def byte_def)
  show ?thesis
    using assms checked_mul_of_nat[OF assms, of 60] checked_mul_of_nat[OF assms, of 3600]
    by (simp add: parse_duration_secs_def Let_def trim_nat_text_suffix[OF alnum(1)] trim_nat_text_suffix[OF alnum(2)]
        trim_nat_text_suffix[OF alnum(3)] strip_suffix_def trim_nat_text parse_u64_nat_text)
qed

theorem duration_exact_or_refused_witness:
  "parse_duration_secs (nat_text 90 @ ''m'') = Some 5400 \<and> parse_duration_secs (nat_text (2 ^ 60) @ ''m'') = None"
  using duration_exact_or_refused[of 90] duration_exact_or_refused[of "2 ^ 60"] by simp

text \<open>Two spellings of DOT the parser does not accept: an arrow written without spaces (the hyphen
  is read as part of the identifier) and a bare \<^verbatim>\<open>label=...\<close> attribute inside a subgraph block.\<close>

theorem dot_spellings_rejected:
  "isl (parse_dot ua ''digraph g { a->b }'') \<and> isl (parse_dot ua ''digraph g { subgraph c { label=x; a } }'')"
  by code_simp

end
