(* ===== verification/Node_Dispatch.thy ===== *)
theory Node_Dispatch
  imports Dag_Routing
begin

text \<open>
  Model of how one node is run: \<^verbatim>\<open>execute_with_retries\<close>, \<^verbatim>\<open>dispatch_node\<close> and the token caps of
  \<^verbatim>\<open>crates/octos-pipeline/src/executor.rs\<close>, and the single recovery attempt of
  \<^verbatim>\<open>crates/octos-pipeline/src/recovery.rs\<close>. What lies outside, the handlers that call models and
  processes, the clock, the timers of the async runtime, the escalation hook and the shutdown flag, acts
  on a world of arbitrary type: a handler maps a world to a result and a new world, and the record
  \<open>runtime\<close> holds the rest. Log lines and metrics are left out. A timer that fires cancels the attempt it
  wraps; what a cancelled attempt leaves behind is \<open>rt_cancel\<close>.
\<close>

subsection \<open>Handlers and the runtime\<close>

record HandlerContext =
  hc_input :: string
  hc_completed :: outcomes
  hc_predecessor_outcomes :: "NodeOutcome list"
  hc_working_dir :: string

datatype exec_error = HandlerError string | DeadlineAborted string f64 | DeadlineOnAllAttempts string u32
  | DeadlineEscalated string f64 | AllAttemptsFailed string | DurationPanic f64
  | UnknownNode string | NoHandler HandlerKind | BudgetBreach string | BadCondition cond_error

type_synonym 'w handler = "PipelineNode \<Rightarrow> HandlerContext \<Rightarrow> 'w \<Rightarrow> (exec_error, NodeOutcome) sum \<times> 'w"

record 'w runtime =
  rt_sleep :: "u64 \<Rightarrow> 'w \<Rightarrow> 'w"
  rt_expires :: "f64 \<Rightarrow> 'w \<Rightarrow> bool"
  rt_cancel :: "f64 \<Rightarrow> 'w \<Rightarrow> 'w"
  rt_spawn_failure_hook :: "PipelineNode \<Rightarrow> f64 \<Rightarrow> 'w \<Rightarrow> 'w"
  rt_shutdown :: "'w \<Rightarrow> bool"

subsection \<open>Retries\<close>

text \<open>The loop over the attempts; \<open>left\<close> is \<open>max_retries\<close> minus \<open>attempt\<close>. The pause is a 64-bit product.\<close>

fun retry_loop :: "'w runtime \<Rightarrow> 'w handler \<Rightarrow> PipelineNode \<Rightarrow> HandlerContext \<Rightarrow> nat \<Rightarrow> nat \<Rightarrow> 'w
    \<Rightarrow> (exec_error, NodeOutcome) sum \<times> 'w" where
  "retry_loop rt handler node ctx attempt left w = (case handler node ctx w of
       (Inl e, w1) \<Rightarrow> (Inl e, w1)
     | (Inr out, w1) \<Rightarrow>
         if o_status out \<noteq> Error then (Inr out, w1)
         else (case left of
             0 \<Rightarrow> (Inr out, w1)
           | Suc k \<Rightarrow> retry_loop rt handler node ctx (Suc attempt) k (rt_sleep rt (1000 * 2 ^ attempt) w1)))"

declare retry_loop.simps [simp del]

definition execute_with_retries :: "'w runtime \<Rightarrow> 'w handler \<Rightarrow> PipelineNode \<Rightarrow> HandlerContext \<Rightarrow> u32 \<Rightarrow> 'w
    \<Rightarrow> (exec_error, NodeOutcome) sum \<times> 'w" where
  "execute_with_retries rt handler node ctx max_retries w = retry_loop rt handler node ctx 0 (unat max_retries) w"

subsection \<open>Deadlines\<close>

datatype DispatchOutcome = DispatchCompleted NodeOutcome | DispatchSkipped string

text \<open>\<^verbatim>\<open>Duration::from_secs_f64\<close> panics on a negative value, a NaN, and a value of \<open>2 ^ 64\<close> seconds or more.\<close>

definition duration_from_secs_f64 :: "f64 \<Rightarrow> f64 option" where
  "duration_from_secs_f64 secs = (if f64_le (Fin 0) secs \<and> f64_lt secs (Fin (2 ^ 64)) then Some secs else None)"

definition deadline_attempts :: "DeadlineAction \<Rightarrow> nat" where
  "deadline_attempts action = (case action of Retry n \<Rightarrow> unat (max n 1) | _ \<Rightarrow> 1)"

text \<open>The loop over the timed attempts; \<open>left\<close> counts the attempts still to make.\<close>

fun deadline_loop :: "'w runtime \<Rightarrow> 'w handler \<Rightarrow> PipelineNode \<Rightarrow> HandlerContext \<Rightarrow> u32 \<Rightarrow> f64 \<Rightarrow> DeadlineAction
    \<Rightarrow> exec_error option \<Rightarrow> nat \<Rightarrow> 'w \<Rightarrow> (exec_error, DispatchOutcome) sum \<times> 'w" where
  "deadline_loop rt handler node ctx max_retries deadline action last_err 0 w =
     (Inl (case last_err of Some e \<Rightarrow> e | None \<Rightarrow> AllAttemptsFailed (n_id node)), w)"
| "deadline_loop rt handler node ctx max_retries deadline action last_err (Suc left) w =
     (if rt_expires rt deadline w
      then let w1 = rt_cancel rt deadline w in
        (case action of
           Abort \<Rightarrow> (Inl (DeadlineAborted (n_id node) deadline), w1)
         | Skip \<Rightarrow> (Inr (DispatchSkipped (case n_label node of Some l \<Rightarrow> l | None \<Rightarrow> n_id node)), w1)
         | Retry n \<Rightarrow>
             if left = 0 then (Inl (DeadlineOnAllAttempts (n_id node) (max n 1)), w1)
             else deadline_loop rt handler node ctx max_retries deadline action last_err left w1
         | Escalate \<Rightarrow> (Inl (DeadlineEscalated (n_id node) deadline), rt_spawn_failure_hook rt node deadline w1))
      else (case execute_with_retries rt handler node ctx max_retries w of
          (Inr out, w1) \<Rightarrow> (Inr (DispatchCompleted out), w1)
        | (Inl e, w1) \<Rightarrow>
            if left = 0 then (Inl e, w1)
            else deadline_loop rt handler node ctx max_retries deadline action (Some e) left w1))"

definition dispatch_node :: "'w runtime \<Rightarrow> 'w handler \<Rightarrow> PipelineNode \<Rightarrow> HandlerContext \<Rightarrow> u32 \<Rightarrow> 'w
    \<Rightarrow> (exec_error, DispatchOutcome) sum \<times> 'w" where
  "dispatch_node rt handler node ctx max_retries w = (case n_deadline_secs node of
       None \<Rightarrow> (case execute_with_retries rt handler node ctx max_retries w of
           (Inl e, w1) \<Rightarrow> (Inl e, w1)
         | (Inr out, w1) \<Rightarrow> (Inr (DispatchCompleted out), w1))
     | Some secs \<Rightarrow> (case duration_from_secs_f64 secs of
           None \<Rightarrow> (Inl (DurationPanic secs), w)
         | Some deadline \<Rightarrow>
             let action = (case n_deadline_action node of Some a \<Rightarrow> a | None \<Rightarrow> Abort)
             in deadline_loop rt handler node ctx max_retries deadline action None (deadline_attempts action) w))"

subsection \<open>Token budget\<close>

definition total_pipeline_tokens :: "TokenUsage \<Rightarrow> u32" where
  "total_pipeline_tokens usage = saturating_add (input_tokens usage) (output_tokens usage)"

definition remaining_pipeline_tokens :: "u32 option \<Rightarrow> TokenUsage \<Rightarrow> u32 option" where
  "remaining_pipeline_tokens max_total usage =
     (case max_total of None \<Rightarrow> None | Some m \<Rightarrow> Some (saturating_sub m (total_pipeline_tokens usage)))"

definition cap_node_output_tokens_for_remaining_budget :: "u32 \<Rightarrow> nat \<Rightarrow> PipelineNode \<Rightarrow> PipelineNode" where
  "cap_node_output_tokens_for_remaining_budget remaining peer_count node =
     (if n_handler node \<noteq> Codergen \<or> remaining = 0 then node
      else let divisor = max (if max peer_count 1 < 2 ^ 32 then of_nat (max peer_count 1) else - 1) 1;
               cap = max (remaining div divisor) 1
           in node\<lparr>n_max_output_tokens := Some (case n_max_output_tokens node of
                None \<Rightarrow> cap | Some existing \<Rightarrow> max (min existing cap) 1)\<rparr>)"

subsection \<open>Recovery\<close>

record RetryableSignal =
  rs_node_id :: string
  rs_error_message :: string
  rs_suggested_alternatives :: "string list"
  rs_original_input :: "string option"

datatype RecoveryDecision = RecoveryPass | Retryable RetryableSignal | Terminal

text \<open>\<^verbatim>\<open>trim_start_matches\<close> removes the pattern as often as it occurs at the front.\<close>

function trim_start_matches :: "string \<Rightarrow> string \<Rightarrow> string" where
  "trim_start_matches p s = (if p = [] then s else case strip_prefix p s of None \<Rightarrow> s | Some r \<Rightarrow> trim_start_matches p r)"
  by pat_completeness auto
termination
  by (relation "measure (\<lambda>(p, s). length s)") (auto simp: strip_prefix_def starts_with_def prefix_def split: if_splits)

declare trim_start_matches.simps [simp del]

definition suggests :: "string \<Rightarrow> bool" where
  "suggests line \<longleftrightarrow> starts_with line ''- '' \<or> starts_with line ''Try '' \<or> starts_with line ''Use ''
     \<or> starts_with line ''Alternative:''"

fun alternatives_loop :: "string list \<Rightarrow> string list \<Rightarrow> string list" where
  "alternatives_loop out [] = out"
| "alternatives_loop out (line # rest) =
     (let trimmed = trim line in
      if trimmed = [] then alternatives_loop out rest
      else let cleaned = trim (trim_start_matches ''Alternative:'' (trim_start_matches ''- '' trimmed));
               out1 = (if suggests trimmed \<and> cleaned \<noteq> [] then out @ [cleaned] else out)
           in if 3 \<le> length out1 then out1 else alternatives_loop out1 rest)"

definition extract_suggested_alternatives :: "string \<Rightarrow> string list" where
  "extract_suggested_alternatives content = alternatives_loop [] (lines content)"

definition from_outcome :: "PipelineNode \<Rightarrow> NodeOutcome \<Rightarrow> string option \<Rightarrow> RetryableSignal" where
  "from_outcome node out input = \<lparr>rs_node_id = n_id node, rs_error_message = o_content out,
     rs_suggested_alternatives = extract_suggested_alternatives (o_content out), rs_original_input = input\<rparr>"

definition classify_outcome :: "PipelineNode \<Rightarrow> NodeOutcome \<Rightarrow> string option \<Rightarrow> RecoveryDecision" where
  "classify_outcome node out input =
     (if n_handler node \<noteq> Codergen \<and> n_handler node \<noteq> DynamicParallel
      then (if o_status out = Pass then RecoveryPass else Terminal)
      else (case o_status out of
          Pass \<Rightarrow> RecoveryPass
        | Skipped \<Rightarrow> Terminal
        | Fail \<Rightarrow> Retryable (from_outcome node out input)
        | Error \<Rightarrow> Retryable (from_outcome node out input)))"

definition line_break :: string where "line_break = [CHR 0x0A]"

definition build_recovery_prompt :: "RetryableSignal \<Rightarrow> string" where
  "build_recovery_prompt sig =
     (let alts = (if rs_suggested_alternatives sig = [] then []
            else line_break @ ''Detected alternatives:'' @ line_break
              @ join line_break (map (\<lambda>alt. ''- '' @ alt) (rs_suggested_alternatives sig)) @ line_break);
          input = (case rs_original_input sig of None \<Rightarrow> [] | Some p \<Rightarrow> line_break @ ''Original input: '' @ p)
      in ''[system-internal] Pipeline node `'' @ rs_node_id sig @ ''` failed on the first attempt.'' @ line_break
         @ ''Error: '' @ rs_error_message sig @ input @ alts @ line_break
         @ ''Re-engage this node with a recovery plan: try the safest alternative, simplify the request, ''
         @ ''or surface a clear blocker. Do not just repeat the same approach.'')"

definition recovery_node :: "PipelineNode \<Rightarrow> RetryableSignal \<Rightarrow> PipelineNode" where
  "recovery_node node sig = node\<lparr>n_prompt := Some (case n_prompt node of
     Some existing \<Rightarrow> existing @ line_break @ line_break @ build_recovery_prompt sig
   | None \<Rightarrow> build_recovery_prompt sig)\<rparr>"

definition no_tokens :: TokenUsage where
  "no_tokens = \<lparr>input_tokens = 0, output_tokens = 0, reasoning_tokens = 0, cache_read_tokens = 0, cache_write_tokens = 0\<rparr>"

record RecoveryOutcome =
  ro_outcome :: NodeOutcome
  ro_retried :: bool

definition recover_node :: "'w runtime \<Rightarrow> 'w handler \<Rightarrow> PipelineNode \<Rightarrow> HandlerContext \<Rightarrow> RetryableSignal \<Rightarrow> 'w
    \<Rightarrow> (exec_error, RecoveryOutcome) sum \<times> 'w" where
  "recover_node rt handler node base_ctx sig w =
     (if rt_shutdown rt w
      then (Inr \<lparr>ro_outcome = \<lparr>o_node_id = n_id node, o_status = Error,
                  o_content = ''Recovery skipped for node '' @ [CHR 0x27] @ n_id node @ [CHR 0x27]
                    @ '': pipeline shutdown signal raised before retry.'',
                  o_token_usage = no_tokens, o_files_modified = []\<rparr>, ro_retried = False\<rparr>, w)
      else (case handler (recovery_node node sig) base_ctx w of
          (Inl e, w1) \<Rightarrow> (Inl e, w1)
        | (Inr out, w1) \<Rightarrow> (Inr \<lparr>ro_outcome = out, ro_retried = True\<rparr>, w1)))"

end
