(* ===== verification/Dag_Routing_Properties.thy ===== *)
theory Dag_Routing_Properties
  imports Dag_Routing
begin

text \<open>
  What the routing functions decide, stated without their loops: the walks compute reachability, the forward
  edges of a validated graph form an acyclic relation, an edge fires exactly under the rules its comment
  gives, a node that succeeds with somewhere to go always fires an edge, and the readiness verdict is total
  and fail-closed.
\<close>

subsection \<open>The walks compute reachability\<close>

lemma targets_of_set: "set (targets_of es n) = set es `` {n}"
  by (force simp: targets_of_def)

text \<open>A walk that leaves the closed part of the graph passes through its border.\<close>

lemma leaves_through_border:
  assumes "E `` seen \<subseteq> seen \<union> S" "(x, y) \<in> E\<^sup>*" "x \<in> seen" "y \<notin> seen"
  shows "y \<in> E\<^sup>* `` S"
  using assms(2-)
proof (induction rule: converse_rtrancl_induct)
  case (step x z)
  show ?case
  proof (cases "z \<in> seen")
    case False
    then have "z \<in> S" using step.hyps(1) step.prems(1) assms(1) by auto
    with step.hyps(2) show ?thesis by auto
  qed (use step in blast)
qed simp

lemma reach_loop_iff:
  assumes "set es `` seen \<subseteq> seen \<union> set stack" "to \<notin> seen"
  shows "reach_loop es to seen stack \<longleftrightarrow> to \<in> (set es)\<^sup>* `` set stack"
  using assms
proof (induction es to seen stack rule: reach_loop.induct)
  case (2 es to seen n stack)
  consider "n = to" | "n \<noteq> to" "n \<in> seen" | "n \<noteq> to" "n \<notin> seen" by blast
  then show ?case
  proof cases
    case 2
    have cl: "set es `` seen \<subseteq> seen \<union> set stack" using "2.prems"(1) 2(2) by auto
    then have "reach_loop es to seen stack \<longleftrightarrow> to \<in> (set es)\<^sup>* `` set stack" using "2.IH"(1)[OF 2] "2.prems"(2) by blast
    moreover have "to \<in> (set es)\<^sup>* `` set stack" if "(n, to) \<in> (set es)\<^sup>*"
      using leaves_through_border[OF cl that 2(2) "2.prems"(2)] .
    ultimately show ?thesis using 2 by (auto simp: reach_loop.simps(2))
  next
    case 3
    have "reach_loop es to (insert n seen) (rev (targets_of es n) @ stack) \<longleftrightarrow>
        to \<in> (set es)\<^sup>* `` set (rev (targets_of es n) @ stack)"
      using "2.IH"(2)[OF 3] "2.prems" 3 by (auto simp: targets_of_set)
    moreover have "(n, to) \<in> (set es)\<^sup>* \<longleftrightarrow> to \<in> (set es)\<^sup>* `` (set es `` {n})"
      using 3(1) by (auto elim: converse_rtranclE intro: converse_rtrancl_into_rtrancl)
    ultimately show ?thesis using 3 by (auto simp: reach_loop.simps(2) targets_of_set)
  qed (auto simp: reach_loop.simps(2))
qed simp

lemma graph_reaches_iff: "graph_reaches g a b \<longleftrightarrow> (a, b) \<in> (all_edges g)\<^sup>*"
  using reach_loop_iff[of "edge_pairs (g_edges g)" "{}" "[a]" b] by (simp add: graph_reaches_def all_edges_def)

lemma region_loop_reach:
  assumes "set es `` seen \<subseteq> seen \<union> set stack"
  shows "region_loop es seen stack = seen \<union> (set es)\<^sup>* `` set stack"
  using assms
proof (induction es seen stack rule: region_loop.induct)
  case (2 es seen n stack)
  show ?case
  proof (cases "n \<in> seen")
    case True
    then have cl: "set es `` seen \<subseteq> seen \<union> set stack" using "2.prems" by auto
    have "y \<in> seen \<union> (set es)\<^sup>* `` set stack" if "(n, y) \<in> (set es)\<^sup>*" for y
      using leaves_through_border[OF cl that True] by blast
    with True "2.IH"(1)[OF True cl] show ?thesis by (auto simp: region_loop.simps(2))
  next
    case False
    have "region_loop es (insert n seen) (rev (targets_of es n) @ stack) =
        insert n seen \<union> (set es)\<^sup>* `` (set es `` {n} \<union> set stack)"
      using "2.IH"(2)[OF False] "2.prems" by (auto simp: targets_of_set)
    moreover have "(set es)\<^sup>* `` {n} = insert n ((set es)\<^sup>* `` (set es `` {n}))"
      by (auto elim: converse_rtranclE intro: converse_rtrancl_into_rtrancl)
    ultimately show ?thesis using False by (auto simp: region_loop.simps(2))
  qed
qed simp

definition fwd :: "PipelineGraph \<Rightarrow> string rel" where
  "fwd g = set (edge_pairs (filter (\<lambda>e. \<not> edge_is_back g e) (g_edges g)))"

lemma forward_reachable_reach: "forward_reachable g s = (fwd g)\<^sup>* `` {s}"
  unfolding forward_reachable_def fwd_def by (subst region_loop_reach) auto

lemma forward_preds_set: "set (forward_preds g i) = {p. (p, i) \<in> fwd g}"
  by (auto simp: forward_preds_def fwd_def)

lemma outgoing_set: "set (outgoing_forward g i) = {e \<in> set (g_edges g). e_source e = i \<and> \<not> edge_is_back g e}"
  by (auto simp: outgoing_forward_def)

subsection \<open>Forward edges of a validated graph are acyclic\<close>

lemma edge_is_back_iff:
  "edge_is_back g e \<longleftrightarrow> edge_allows_back_edge e \<and> (e_target e, e_source e) \<in> (all_edges g)\<^sup>*"
  by (simp add: edge_is_back_def edge_allows_back_edge_def graph_reaches_iff)

lemma fwd_sub: "fwd g \<subseteq> all_edges g"
  by (auto simp: fwd_def all_edges_def)

text \<open>A marked edge on a cycle of forward edges would close that cycle, so it would be a back edge.\<close>

lemma fwd_acyclic:
  assumes "acyclic (forward_edges g)"
  shows "acyclic (fwd g)"
proof (rule ccontr)
  assume "\<not> acyclic (fwd g)"
  then obtain x where x: "(x, x) \<in> (fwd g)\<^sup>+" by (auto simp: acyclic_def)
  have unmarked: "(a, b) \<in> forward_edges g" if ab: "(a, b) \<in> fwd g" "(b, a) \<in> (fwd g)\<^sup>*" for a b
  proof -
    obtain e where e: "e \<in> set (g_edges g)" "\<not> edge_is_back g e" "e_source e = a" "e_target e = b"
      using ab(1) by (auto simp: fwd_def)
    moreover have "(b, a) \<in> (all_edges g)\<^sup>*" using ab(2) rtrancl_mono[OF fwd_sub[of g]] by auto
    ultimately show ?thesis by (force simp: edge_is_back_iff forward_edges_def)
  qed
  have "(x, y) \<in> (forward_edges g)\<^sup>+" if "(x, y) \<in> (fwd g)\<^sup>+" "(y, x) \<in> (fwd g)\<^sup>*" for y
    using that
  proof (induction rule: trancl_induct)
    case (base y)
    then show ?case using unmarked by blast
  next
    case (step y z)
    then have "(y, x) \<in> (fwd g)\<^sup>*" "(z, y) \<in> (fwd g)\<^sup>*"
      by (auto intro: converse_rtrancl_into_rtrancl trancl_into_rtrancl rtrancl_trans)
    with step unmarked show ?case by (blast intro: trancl_into_trancl)
  qed
  with x have "(x, x) \<in> (forward_edges g)\<^sup>+" by blast
  with assms show False by (auto simp: acyclic_def)
qed

subsection \<open>Firing\<close>

definition conditions_parse :: "PipelineGraph \<Rightarrow> bool" where
  "conditions_parse g \<longleftrightarrow> (\<forall>e \<in> set (g_edges g). \<forall>c. e_condition e = Some c \<longrightarrow> (\<exists>x. parse_condition c = Inr x))"

definition cond_holds :: "PipelineEdge \<Rightarrow> NodeOutcome \<Rightarrow> bool" where
  "cond_holds e src \<longleftrightarrow> (\<exists>c x. e_condition e = Some c \<and> parse_condition c = Inr x \<and> evaluate x src)"

definition succeeded :: "NodeOutcome \<Rightarrow> bool \<Rightarrow> bool" where
  "succeeded src coe \<longleftrightarrow> o_status src = Pass \<or> o_status src = Skipped \<or> (o_status src = Error \<and> coe)"

text \<open>The rule of the scheduler for a forward edge: a matching condition; or, without condition, a successful source
  none of whose conditions matches; or the smallest target of a source all of whose edges carry conditions, none
  matching.\<close>

definition edge_fires :: "PipelineGraph \<Rightarrow> PipelineEdge \<Rightarrow> NodeOutcome \<Rightarrow> bool \<Rightarrow> bool" where
  "edge_fires g e src coe \<longleftrightarrow>
     (let out = set (outgoing_forward g (e_source e)) in
      if e_condition e = None then succeeded src coe \<and> (\<forall>e' \<in> out. \<not> cond_holds e' src)
      else cond_holds e src
        \<or> ((\<forall>e' \<in> out. e_condition e' \<noteq> None \<and> \<not> cond_holds e' src) \<and> e_target e = Min (e_target ` out)))"

lemma matches_iff:
  "conditions_parse g \<Longrightarrow> e \<in> set (g_edges g) \<Longrightarrow> e_condition e = Some c \<Longrightarrow> matches c src = Inr (cond_holds e src)"
  by (fastforce simp: matches_def conditions_parse_def cond_holds_def)

lemma cond_holds_None: "e_condition e = None \<Longrightarrow> \<not> cond_holds e src"
  by (simp add: cond_holds_def)

lemma any_matched_iff:
  assumes "conditions_parse g"
  shows "set es \<subseteq> set (g_edges g) \<Longrightarrow> any_matched es src = Inr (\<exists>e \<in> set es. cond_holds e src)"
proof (induction es)
  case (Cons e es)
  then have e: "e \<in> set (g_edges g)" "any_matched es src = Inr (\<exists>e \<in> set es. cond_holds e src)" by auto
  show ?case
  proof (cases "e_condition e")
    case None
    with e cond_holds_None[OF None] show ?thesis by simp
  next
    case (Some c)
    with e matches_iff[OF assms e(1) Some] show ?thesis by auto
  qed
qed simp

lemma fold_min_Min: "fold min xs (x :: string) = Min (insert x (set xs))"
  by (simp add: Min.set_eq_fold[symmetric])

lemma min_text_Min: "xs \<noteq> [] \<Longrightarrow> min_text xs = Some (Min (set xs))"
  by (cases xs) (simp_all add: fold_min_Min)

lemma min_text_None: "min_text xs = None \<longleftrightarrow> xs = []"
  by (cases xs) auto

lemma fires_normally:
  assumes "conditions_parse g" "e \<in> set (g_edges g)"
  shows "dag_edge_fires_normally g e src coe =
    Inr (if e_condition e = None then succeeded src coe \<and> (\<forall>e' \<in> set (outgoing_forward g (e_source e)). \<not> cond_holds e' src)
         else cond_holds e src)"
proof (cases "e_condition e")
  case None
  have "list_ex (\<lambda>e'. case e_condition e' of Some cond \<Rightarrow> unwrap_false (matches cond src) | None \<Rightarrow> False) es
      \<longleftrightarrow> (\<exists>e' \<in> set es. cond_holds e' src)" if "set es \<subseteq> set (g_edges g)" for es
    using that matches_iff[OF assms(1)] cond_holds_None
    by (fastforce simp: list_ex_iff unwrap_false_def split: option.splits)
  from this[of "outgoing_forward g (e_source e)"] None show ?thesis
    by (auto simp: dag_edge_fires_normally_def succeeded_def outgoing_set)
next
  case (Some c)
  with matches_iff[OF assms Some] show ?thesis by (simp add: dag_edge_fires_normally_def)
qed

lemma forward_fires:
  assumes p: "conditions_parse g" and e: "e \<in> set (g_edges g)" "\<not> edge_is_back g e"
  shows "dag_forward_edge_fires g e src coe = Inr (edge_fires g e src coe)"
proof -
  let ?out = "outgoing_forward g (e_source e)"
  have mem: "e \<in> set ?out" using e by (simp add: outgoing_set)
  have any: "any_matched ?out src = Inr (\<exists>e' \<in> set ?out. cond_holds e' src)"
    by (rule any_matched_iff[OF p]) (auto simp: outgoing_set)
  have min: "min_text (map e_target ?out) = Some (e_target e) \<longleftrightarrow> e_target e = Min (e_target ` set ?out)"
    using mem by (subst min_text_Min) auto
  show ?thesis
  proof (cases "e_condition e")
    case None
    with mem fires_normally[OF p e(1), of src coe] show ?thesis
      by (auto simp: dag_forward_edge_fires_def edge_fires_def Let_def list_all_iff)
  next
    case (Some c)
    show ?thesis
    proof (cases "cond_holds e src")
      case False
      with Some mem fires_normally[OF p e(1), of src coe] any min show ?thesis
        by (auto simp: dag_forward_edge_fires_def edge_fires_def Let_def list_all_iff)
    qed (use Some fires_normally[OF p e(1), of src coe] in \<open>simp add: dag_forward_edge_fires_def edge_fires_def Let_def\<close>)
  qed
qed

text \<open>A fired edge leads out of every node that has somewhere to go.\<close>

lemma some_edge_fires:
  assumes out: "outgoing_forward g i \<noteq> []"
    and ok: "succeeded src coe \<or> (\<forall>e \<in> set (outgoing_forward g i). e_condition e \<noteq> None)"
  shows "\<exists>e \<in> set (outgoing_forward g i). edge_fires g e src coe"
proof -
  let ?out = "set (outgoing_forward g i)"
  have src: "e_source e = i" if "e \<in> ?out" for e using that by (simp add: outgoing_set)
  consider e where "e \<in> ?out" "cond_holds e src" | "\<forall>e \<in> ?out. \<not> cond_holds e src" by blast
  then show ?thesis
  proof cases
    case 1
    then have "e_condition e \<noteq> None" using cond_holds_None by blast
    with 1 have "edge_fires g e src coe" by (auto simp: edge_fires_def Let_def)
    with 1 show ?thesis by blast
  next
    case 2
    show ?thesis
    proof (cases "\<exists>e \<in> ?out. e_condition e = None")
      case True
      then obtain e where "e \<in> ?out" "e_condition e = None" by blast
      with 2 ok src[of e] show ?thesis by (auto simp: edge_fires_def Let_def)
    next
      case False
      have "Min (e_target ` ?out) \<in> e_target ` ?out" using out by (intro Min_in) auto
      then obtain e where "e \<in> ?out" "e_target e = Min (e_target ` ?out)" by auto
      moreover from this 2 False src[of e] have "edge_fires g e src coe" unfolding edge_fires_def Let_def by auto
      ultimately show ?thesis by blast
    qed
  qed
qed

subsection \<open>Readiness\<close>

text \<open>The sources of the forward edges into a node that fired.\<close>

definition fired_sources :: "PipelineGraph \<Rightarrow> string \<Rightarrow> (string \<rightharpoonup> NodeOutcome) \<Rightarrow> string set" where
  "fired_sources g i C = {p. \<exists>e src. e \<in> set (g_edges g) \<and> e_source e = p \<and> e_target e = i \<and> \<not> edge_is_back g e
     \<and> C p = Some src \<and> edge_fires g e src (continues_on_error g p)}"

lemma fired_into_set:
  assumes "conditions_parse g"
  shows "set es \<subseteq> {e \<in> set (g_edges g). \<not> edge_is_back g e} \<Longrightarrow> \<exists>fired. fired_into g es completed = Inr fired
    \<and> set fired = {p. \<exists>e src. e \<in> set es \<and> e_source e = p \<and> hm_get completed p = Some src
        \<and> edge_fires g e src (continues_on_error g p)}"
proof (induction es)
  case (Cons e es)
  then obtain fired where IH: "fired_into g es completed = Inr fired"
    "set fired = {p. \<exists>e src. e \<in> set es \<and> e_source e = p \<and> hm_get completed p = Some src
        \<and> edge_fires g e src (continues_on_error g p)}" by auto
  have e: "e \<in> set (g_edges g)" "\<not> edge_is_back g e" using Cons.prems by auto
  show ?case
  proof (cases "hm_get completed (e_source e)")
    case (Some src)
    with IH forward_fires[OF assms e, of src "continues_on_error g (e_source e)"] show ?thesis by auto
  qed (use IH in auto)
qed simp

lemma fired_forward_into_set:
  assumes "conditions_parse g"
  obtains fired where "fired_forward_into g i completed = Inr fired" "set fired = fired_sources g i (hm_get completed)"
proof -
  let ?es = "filter (\<lambda>e. e_target e = i \<and> \<not> edge_is_back g e) (g_edges g)"
  have "set ?es \<subseteq> {e \<in> set (g_edges g). \<not> edge_is_back g e}" by auto
  from fired_into_set[OF assms this, of completed] obtain fired where
    f: "fired_into g ?es completed = Inr fired"
      "set fired = {p. \<exists>e src. e \<in> set ?es \<and> e_source e = p \<and> hm_get completed p = Some src
        \<and> edge_fires g e src (continues_on_error g p)}" by blast
  have "set fired = fired_sources g i (hm_get completed)" unfolding f(2) fired_sources_def by auto
  with f(1) that show ?thesis by (simp add: fired_forward_into_def)
qed

text \<open>A required input of \<open>i\<close> that will not come: a predecessor pruned because of a failure, or one that failed
  on an edge without condition.\<close>

definition lost_input :: "PipelineGraph \<Rightarrow> string \<Rightarrow> (string \<rightharpoonup> NodeOutcome) \<Rightarrow> (string \<rightharpoonup> PruneReason) \<Rightarrow> string \<Rightarrow> bool" where
  "lost_input g i C P p \<longleftrightarrow> p \<notin> fired_sources g i C
     \<and> (P p = Some Failure
        \<or> (P p = None
           \<and> (\<exists>e \<in> set (g_edges g). e_source e = p \<and> e_target e = i \<and> \<not> edge_is_back g e \<and> e_condition e = None)
           \<and> (\<exists>out. C p = Some out \<and> (o_status out = Fail \<or> o_status out = Error))
           \<and> \<not> continues_on_error g p))"

definition settled_preds :: "PipelineGraph \<Rightarrow> string \<Rightarrow> (string \<rightharpoonup> NodeOutcome) \<Rightarrow> (string \<rightharpoonup> PruneReason) \<Rightarrow> bool" where
  "settled_preds g i C P \<longleftrightarrow> (\<forall>p. (p, i) \<in> fwd g \<longrightarrow> p \<in> dom C \<union> dom P)"

definition readiness :: "PipelineGraph \<Rightarrow> string \<Rightarrow> (string \<rightharpoonup> NodeOutcome) \<Rightarrow> (string \<rightharpoonup> PruneReason) \<Rightarrow> NodeReadiness" where
  "readiness g i C P =
     (if \<not> settled_preds g i C P then NotReady
      else if i \<notin> Range (fwd g) then Runnable
      else if \<exists>p. (p, i) \<in> fwd g \<and> lost_input g i C P p then Prune Failure
      else if fired_sources g i C = {} then Prune Optional
      else Runnable)"

lemma missing_required_iff:
  "set fired = fired_sources g i (hm_get completed) \<Longrightarrow>
   missing_required g i completed pruned fired p \<longleftrightarrow> lost_input g i (hm_get completed) (hm_get pruned) p"
  by (cases "hm_get pruned p"; cases "hm_get completed p")
     (auto simp: missing_required_def lost_input_def Let_def list_ex_iff split: PruneReason.splits)

lemma readiness_eq:
  assumes "conditions_parse g"
  shows "dag_node_readiness g i completed pruned = Inr (readiness g i (hm_get completed) (hm_get pruned))"
proof -
  obtain fired where f: "fired_forward_into g i completed = Inr fired" "set fired = fired_sources g i (hm_get completed)"
    using fired_forward_into_set[OF assms] .
  have nil: "forward_preds g i = [] \<longleftrightarrow> i \<notin> Range (fwd g)"
    using forward_preds_set[of g i] by (cases "forward_preds g i") auto
  have ex: "list_ex (missing_required g i completed pruned fired) (forward_preds g i) \<longleftrightarrow>
      (\<exists>p. (p, i) \<in> fwd g \<and> lost_input g i (hm_get completed) (hm_get pruned) p)"
    using missing_required_iff[OF f(2)] by (auto simp: list_ex_iff forward_preds_set)
  have all: "list_all (\<lambda>p. hm_contains completed p \<or> hm_contains pruned p) (forward_preds g i) \<longleftrightarrow>
      settled_preds g i (hm_get completed) (hm_get pruned)"
    by (auto simp: list_all_iff forward_preds_set settled_preds_def simp flip: hm_contains_get)
  have "fired = [] \<longleftrightarrow> fired_sources g i (hm_get completed) = {}" using f(2) by auto
  then show ?thesis
    unfolding dag_node_readiness_def readiness_def Let_def all nil f(1) and_then.simps ex by auto
qed

subsection \<open>Properties\<close>

text \<open>Back edges and forward edges split a graph correctly. In a graph whose edges without back-edge marker are
  acyclic, as validation demands, the forward edges of the scheduler are acyclic, every back edge closes a cycle of
  the graph, and no unmarked edge is a back edge; so a marked edge that closes no cycle keeps its place among the
  forward edges.\<close>

theorem back_edge_split:
  assumes "acyclic (forward_edges g)"
  shows "acyclic (fwd g) \<and> forward_edges g \<subseteq> fwd g
    \<and> (\<forall>e \<in> set (g_edges g). edge_is_back g e \<longrightarrow> (e_source e, e_source e) \<in> (all_edges g)\<^sup>+)"
proof (intro conjI ballI impI)
  show "acyclic (fwd g)" by (rule fwd_acyclic[OF assms])
  show "forward_edges g \<subseteq> fwd g" by (force simp: forward_edges_def fwd_def edge_is_back_iff)
  fix e assume "e \<in> set (g_edges g)" "edge_is_back g e"
  then have "(e_source e, e_target e) \<in> all_edges g" "(e_target e, e_source e) \<in> (all_edges g)\<^sup>*"
    by (auto simp: edge_is_back_iff all_edges_def)
  then show "(e_source e, e_source e) \<in> (all_edges g)\<^sup>+" by (rule rtrancl_into_trancl2)
qed

definition retry_graph :: PipelineGraph where
  "retry_graph = bare_graph [''start'', ''work'', ''check''] [bare_edge ''start'' ''work'', bare_edge ''work'' ''check'',
     (bare_edge ''check'' ''work'')\<lparr>e_label := Some ''back_edge'', e_condition := Some ''outcome.status == \"fail\"''\<rparr>]"

lemma retry_graph_valid: "validate_with_context retry_graph default_context = Inr ()"
  by code_simp

lemma retry_graph_acyclic: "acyclic (forward_edges retry_graph)"
  using retry_graph_valid by (auto simp: validate_with_context_def Let_def diagnostics_exact graph_valid_def split: if_splits)

theorem back_edge_split_witness:
  "acyclic (fwd retry_graph) \<and> graph_is_dag_schedulable retry_graph
   \<and> map (edge_is_back retry_graph) (g_edges retry_graph) = [False, False, True]"
proof (intro conjI)
  show "acyclic (fwd retry_graph)" using back_edge_split[OF retry_graph_acyclic] by blast
qed code_simp+

text \<open>A forward edge fires exactly under the documented rule, whatever the outcome of its source: an edge with a condition
  when the condition holds, an edge without one when the source succeeded and no sibling's condition holds, and when
  all edges of the source carry conditions and none holds, the one with the smallest target.\<close>

theorem forward_edge_fires_exactly:
  assumes "conditions_parse g" "e \<in> set (g_edges g)" "\<not> edge_is_back g e"
  shows "dag_forward_edge_fires g e src coe = Inr (edge_fires g e src coe)"
  using forward_fires[OF assms] .

definition outcome_of :: "string \<Rightarrow> OutcomeStatus \<Rightarrow> NodeOutcome" where
  "outcome_of i s = \<lparr>o_node_id = i, o_status = s, o_content = [],
     o_token_usage = \<lparr>input_tokens = 0, output_tokens = 0, reasoning_tokens = 0, cache_read_tokens = 0, cache_write_tokens = 0\<rparr>,
     o_files_modified = []\<rparr>"

definition router_graph :: PipelineGraph where
  "router_graph = bare_graph [''start'', ''a'', ''b'']
     [(bare_edge ''start'' ''b'')\<lparr>e_condition := Some ''outcome.status == \"pass\"''\<rparr>,
      (bare_edge ''start'' ''a'')\<lparr>e_condition := Some ''outcome.status == \"fail\"''\<rparr>]"

lemma router_graph_parses: "conditions_parse router_graph"
proof -
  have "\<forall>e \<in> set (g_edges router_graph). (case e_condition e of Some c \<Rightarrow> \<not> isl (parse_condition c) | None \<Rightarrow> True)"
    by code_simp
  then have "\<not> isl (parse_condition c)" if "e \<in> set (g_edges router_graph)" "e_condition e = Some c" for e c
    using that by (auto split: option.splits)
  then show ?thesis unfolding conditions_parse_def by (metis isl_def sum.exhaust)
qed

theorem forward_edge_fires_exactly_witness:
  "edge_fires router_graph ((bare_edge ''start'' ''a'')\<lparr>e_condition := Some ''outcome.status == \"fail\"''\<rparr>)
     (outcome_of ''start'' Error) False"
proof -
  let ?e = "(bare_edge ''start'' ''a'')\<lparr>e_condition := Some ''outcome.status == \"fail\"''\<rparr>"
  have "?e \<in> set (g_edges router_graph)" by (simp add: router_graph_def bare_graph_def)
  moreover have "\<not> edge_is_back router_graph ?e" by code_simp
  ultimately have "dag_forward_edge_fires router_graph ?e (outcome_of ''start'' Error) False
      = Inr (edge_fires router_graph ?e (outcome_of ''start'' Error) False)"
    using forward_edge_fires_exactly[OF router_graph_parses] by blast
  moreover have "dag_forward_edge_fires router_graph ?e (outcome_of ''start'' Error) False = Inr True" by code_simp
  ultimately show ?thesis by simp
qed

text \<open>C36. The readiness verdict is exact and never fails on a graph whose conditions parse: a node waits while a forward
  predecessor is unsettled, runs when it is a root, is pruned as a failure when a required input is lost, is pruned as
  optional when no edge into it fired, and runs otherwise.\<close>

theorem readiness_exact:
  assumes "conditions_parse g"
  shows "dag_node_readiness g i completed pruned = Inr (readiness g i (hm_get completed) (hm_get pruned))"
  using readiness_eq[OF assms] .

theorem readiness_exact_witness:
  "readiness router_graph ''a'' [''start'' \<mapsto> outcome_of ''start'' Pass] Map.empty = Prune Optional
   \<and> readiness router_graph ''b'' [''start'' \<mapsto> outcome_of ''start'' Pass] Map.empty = Runnable"
proof -
  have "dag_node_readiness router_graph ''a'' [(''start'', outcome_of ''start'' Pass)] [] = Inr (Prune Optional)" by code_simp
  moreover have "dag_node_readiness router_graph ''b'' [(''start'', outcome_of ''start'' Pass)] [] = Inr Runnable" by code_simp
  ultimately show ?thesis using readiness_exact[OF router_graph_parses] by simp
qed

text \<open>No success dead-ends: a node that has an outgoing forward edge fires at least one of them whenever it succeeded,
  and, when all its edges carry conditions, whatever its status.\<close>

theorem success_routes_onward:
  assumes "conditions_parse g" "outgoing_forward g i \<noteq> []"
    and "succeeded src coe \<or> (\<forall>e \<in> set (outgoing_forward g i). e_condition e \<noteq> None)"
  shows "\<exists>e \<in> set (outgoing_forward g i). dag_forward_edge_fires g e src coe = Inr True"
  using some_edge_fires[OF assms(2,3)] forward_fires[OF assms(1)] by (auto simp: outgoing_set)

theorem success_routes_onward_witness:
  "\<exists>e \<in> set (outgoing_forward router_graph ''start''). dag_forward_edge_fires router_graph e (outcome_of ''start'' Skipped) False = Inr True"
proof (rule success_routes_onward[OF router_graph_parses])
  show "outgoing_forward router_graph ''start'' \<noteq> []" by code_simp
qed (simp add: succeeded_def outcome_of_def)

end
