(* ===== verification/Dag_Executor.thy ===== *)
theory Dag_Executor
  imports Node_Dispatch Dag_Routing_Properties
begin

text \<open>
  Model of the ready-set scheduler, \<^verbatim>\<open>execute_graph_dag\<close>, \<^verbatim>\<open>dag_execute_node\<close> and \<^verbatim>\<open>dag_build_result\<close> of
  \<^verbatim>\<open>crates/octos-pipeline/src/executor.rs\<close>. The scheduler's local variables are the record
  \<open>dag_state\<close>. The supervisor, the cost accountant, the declared validators, the clock and the handlers are
  reached through the record \<open>host\<close>, whose functions act on a world of arbitrary type. Progress
  reports, the heartbeat and the status bridge only display and are left out. Token counters are added modulo
  \<open>2 ^ 32\<close>, as in a release build. The modified files of a result, a sorted list without repetitions, are
  represented by their set. The loop is a total function: its termination is part of this theory.
\<close>

subsection \<open>The host\<close>

record 'w host =
  ho_runtime :: "'w runtime"
  ho_handler :: "HandlerKind \<Rightarrow> 'w handler option"
  ho_register :: "string \<Rightarrow> 'w \<Rightarrow> (string, string option) sum \<times> 'w"
  ho_mark_running :: "string \<Rightarrow> 'w \<Rightarrow> 'w"
  ho_mark_completed :: "string \<Rightarrow> string list \<Rightarrow> 'w \<Rightarrow> 'w"
  ho_mark_failed :: "string \<Rightarrow> string \<Rightarrow> 'w \<Rightarrow> 'w"
  ho_reserve :: "string \<Rightarrow> PipelineNode \<Rightarrow> 'w \<Rightarrow> (string, f64 option) sum \<times> 'w"
  ho_release :: "f64 option \<Rightarrow> 'w \<Rightarrow> 'w"
  ho_clock_ns :: "'w \<Rightarrow> int"
  ho_validators :: "string \<Rightarrow> 'w \<Rightarrow> (string, unit) sum \<times> 'w"
  ho_project_cost_usd :: "string \<Rightarrow> u32 \<Rightarrow> u32 \<Rightarrow> f64 option"
  ho_recovery_input :: "string \<Rightarrow> string \<Rightarrow> string"
  ho_working_dir :: string

record run_ctx =
  rc_graph :: PipelineGraph
  rc_user_input :: string
  rc_variables :: "(string \<times> string option) list"

record NodeCost =
  nc_node_id :: string
  nc_model :: "string option"
  nc_reserved_usd :: f64
  nc_actual_usd :: f64
  nc_tokens_in :: u32
  nc_tokens_out :: u32
  nc_committed :: bool

record DagNodeOutput =
  dn_outcome :: NodeOutcome
  dn_summary :: NodeSummary
  dn_cost :: NodeCost

datatype DagStep = Ran DagNodeOutput | Aborted string

subsection \<open>One node\<close>

fun replace_all :: "string \<Rightarrow> string \<Rightarrow> nat \<Rightarrow> string \<Rightarrow> string" where
  "replace_all pat new skip [] = []"
| "replace_all pat new (Suc skip) (c # cs) = replace_all pat new skip cs"
| "replace_all pat new 0 (c # cs) =
     (if starts_with (c # cs) pat then new @ replace_all pat new (length pat - 1) cs
      else c # replace_all pat new 0 cs)"

definition str_replace :: "string \<Rightarrow> string \<Rightarrow> string \<Rightarrow> string" where
  "str_replace pat new s = replace_all pat new 0 s"

definition section_break :: string where
  "section_break = line_break @ line_break @ ''---'' @ line_break @ line_break"

definition resolve_prompt :: "(string \<times> string option) list \<Rightarrow> string \<Rightarrow> string" where
  "resolve_prompt variables prompt =
     trim_end (fold (\<lambda>(k, v) acc. str_replace ([CHR 0x7B] @ k @ [CHR 0x7D]) (case v of Some s \<Rightarrow> s | None \<Rightarrow> []) acc)
       variables (str_replace ([CHR 0x7B] @ ''input'' @ [CHR 0x7D]) [] prompt))"

definition predecessor_outcomes :: "string list \<Rightarrow> outcomes \<Rightarrow> NodeOutcome option \<Rightarrow> NodeOutcome list" where
  "predecessor_outcomes fired completed feedback =
     List.map_filter (hm_get completed) fired @ (case feedback of Some fb \<Rightarrow> [fb] | None \<Rightarrow> [])"

definition node_input :: "string \<Rightarrow> NodeOutcome list \<Rightarrow> string" where
  "node_input user_input preds = (if preds = [] then user_input else join section_break (map o_content preds))"

definition prepare_node :: "run_ctx \<Rightarrow> u32 option \<Rightarrow> PipelineNode \<Rightarrow> PipelineNode" where
  "prepare_node rc remaining node =
     (let n1 = (case n_prompt node of Some p \<Rightarrow> node\<lparr>n_prompt := Some (resolve_prompt (rc_variables rc) p)\<rparr> | None \<Rightarrow> node);
          n2 = (if n_model n1 = None then n1\<lparr>n_model := g_default_model (rc_graph rc)\<rparr> else n1)
      in case remaining of Some rem \<Rightarrow> cap_node_output_tokens_for_remaining_budget rem 1 n2 | None \<Rightarrow> n2)"

definition node_budget_spent :: "PipelineNode \<Rightarrow> int \<Rightarrow> int \<Rightarrow> bool" where
  "node_budget_spent node started now = (case n_timeout_secs node of
     Some secs \<Rightarrow> 0 < secs \<and> uint secs * 1000000000 \<le> now - started | None \<Rightarrow> False)"

definition skipped_outcome :: "PipelineNode \<Rightarrow> NodeOutcome" where
  "skipped_outcome node = \<lparr>o_node_id = n_id node, o_status = Skipped,
     o_content = ''Node '' @ [CHR 0x27] @ n_id node @ [CHR 0x27] @ '' skipped (deadline exceeded)'',
     o_token_usage = no_tokens, o_files_modified = []\<rparr>"

text \<open>The recovery re-attempt of a first failure, unless the node has used up its time.\<close>

definition try_recovery :: "'w host \<Rightarrow> 'w handler \<Rightarrow> PipelineNode \<Rightarrow> PipelineNode \<Rightarrow> HandlerContext \<Rightarrow> int \<Rightarrow> NodeOutcome \<Rightarrow> 'w
    \<Rightarrow> NodeOutcome \<times> 'w" where
  "try_recovery h handler node prepared ctx started out w =
     (if node_budget_spent node started (ho_clock_ns h w) then (out, w)
      else (case classify_outcome prepared out (Some (ho_recovery_input h (n_id node) (hc_input ctx))) of
          Retryable sig \<Rightarrow> (case recover_node (ho_runtime h) handler prepared ctx sig w of
              (Inr r, w1) \<Rightarrow> (if ro_retried r then ro_outcome r else out, w1)
            | (Inl _, w1) \<Rightarrow> (out, w1))
        | _ \<Rightarrow> (out, w)))"

definition validate_outcome :: "'w host \<Rightarrow> PipelineNode \<Rightarrow> NodeOutcome \<Rightarrow> 'w \<Rightarrow> NodeOutcome \<times> 'w" where
  "validate_outcome h node out w =
     (if o_status out = Pass
      then (case ho_validators h (n_id node) w of
          (Inr _, w1) \<Rightarrow> (out, w1)
        | (Inl reason, w1) \<Rightarrow> (out\<lparr>o_status := Error, o_content := ''Pipeline node validator rejected '' @ [CHR 0x27]
              @ n_id node @ [CHR 0x27] @ '': '' @ reason\<rparr>, w1))
      else (out, w))"

definition mark_task :: "'w host \<Rightarrow> PipelineNode \<Rightarrow> NodeOutcome \<Rightarrow> string option \<Rightarrow> 'w \<Rightarrow> 'w" where
  "mark_task h node out task w = (case task of
       None \<Rightarrow> w
     | Some t \<Rightarrow> (case o_status out of
           Pass \<Rightarrow> ho_mark_completed h t (o_files_modified out) w
         | Skipped \<Rightarrow> ho_mark_completed h t [] w
         | _ \<Rightarrow> ho_mark_failed h t (''node '' @ n_id node @ '' failed'') w))"

definition node_output :: "'w host \<Rightarrow> PipelineNode \<Rightarrow> PipelineNode \<Rightarrow> f64 option \<Rightarrow> int \<Rightarrow> NodeOutcome \<Rightarrow> DagNodeOutput" where
  "node_output h node prepared reservation duration_ns out =
     (let reserved = (case reservation of Some usd \<Rightarrow> usd | None \<Rightarrow> Fin 0);
          usage = o_token_usage out;
          actual = (case ho_project_cost_usd h (case n_model prepared of Some m \<Rightarrow> m | None \<Rightarrow> ''pipeline-node'')
              (input_tokens usage) (output_tokens usage) of Some usd \<Rightarrow> usd | None \<Rightarrow> reserved)
      in \<lparr>dn_outcome = out,
          dn_summary = \<lparr>ns_node_id = n_id node, ns_label = (case n_label node of Some l \<Rightarrow> l | None \<Rightarrow> n_id node),
            ns_model = n_model prepared, ns_token_usage = usage,
            ns_duration_ms = word_of_int (duration_ns div 1000000), ns_success = (o_status out = Pass)\<rparr>,
          dn_cost = \<lparr>nc_node_id = n_id node, nc_model = n_model prepared, nc_reserved_usd = reserved, nc_actual_usd = actual,
            nc_tokens_in = input_tokens usage, nc_tokens_out = output_tokens usage, nc_committed = (reservation \<noteq> None)\<rparr>\<rparr>)"

definition dispatched :: "'w host \<Rightarrow> 'w handler \<Rightarrow> PipelineNode \<Rightarrow> PipelineNode \<Rightarrow> HandlerContext \<Rightarrow> string option \<Rightarrow> f64 option \<Rightarrow> 'w
    \<Rightarrow> (exec_error, DagStep) sum \<times> 'w" where
  "dispatched h handler node prepared ctx task reservation w =
     (let started = ho_clock_ns h w in
      case dispatch_node (ho_runtime h) handler prepared ctx (n_max_retries node) w of
        (Inl e, w1) \<Rightarrow> (Inl e, ho_release h reservation w1)
      | (Inr d, w1) \<Rightarrow>
          (let first = (case d of DispatchCompleted out \<Rightarrow> out | DispatchSkipped _ \<Rightarrow> skipped_outcome node);
               (recovered, w2) = try_recovery h handler node prepared ctx started first w1;
               (final, w3) = validate_outcome h node recovered w2;
               w4 = mark_task h node final task (ho_release h reservation w3)
           in (Inr (Ran (node_output h node prepared reservation (ho_clock_ns h w3 - started) final)), w4)))"

definition dag_execute_node :: "'w host \<Rightarrow> run_ctx \<Rightarrow> string \<Rightarrow> string list \<Rightarrow> outcomes \<Rightarrow> u32 option \<Rightarrow> NodeOutcome option \<Rightarrow> 'w
    \<Rightarrow> (exec_error, DagStep) sum \<times> 'w" where
  "dag_execute_node h rc i fired completed remaining feedback w =
     (case hm_get (g_nodes (rc_graph rc)) i of
        None \<Rightarrow> (Inl (UnknownNode i), w)
      | Some node \<Rightarrow> (case ho_handler h (n_handler node) of
          None \<Rightarrow> (Inl (NoHandler (n_handler node)), w)
        | Some handler \<Rightarrow>
            let preds = predecessor_outcomes fired completed feedback;
                prepared = prepare_node rc remaining node;
                ctx = \<lparr>hc_input = node_input (rc_user_input rc) preds, hc_completed = completed,
                       hc_predecessor_outcomes = preds, hc_working_dir = ho_working_dir h\<rparr>
            in (case ho_register h (n_id node) w of
                (Inl reason, w1) \<Rightarrow> (Inr (Aborted reason), w1)
              | (Inr task, w1) \<Rightarrow>
                  let w2 = (case task of Some t \<Rightarrow> ho_mark_running h t w1 | None \<Rightarrow> w1)
                  in (case ho_reserve h (g_id (rc_graph rc)) prepared w2 of
                      (Inl e, w3) \<Rightarrow> (Inl (BudgetBreach e), w3)
                    | (Inr reservation, w3) \<Rightarrow> dispatched h handler node prepared ctx task reservation w3))))"

subsection \<open>Results\<close>

record PipelineResult =
  pr_output :: string
  pr_success :: bool
  pr_token_usage :: TokenUsage
  pr_node_summaries :: "NodeSummary list"
  pr_files_modified :: "string set"
  pr_node_costs :: "NodeCost list"

record dag_state =
  ds_completed :: outcomes
  ds_pruned :: prunes
  ds_summaries :: "NodeSummary list"
  ds_node_costs :: "NodeCost list"
  ds_total_tokens :: TokenUsage
  ds_feedback :: outcomes
  ds_any_failure_prune :: bool
  ds_retry_count :: "(string, u32) hashmap"

definition dag_build_result :: "bool option \<Rightarrow> string option \<Rightarrow> dag_state \<Rightarrow> PipelineGraph \<Rightarrow> bool \<Rightarrow> PipelineResult" where
  "dag_build_result success override_output st g had_failure_prune =
     (let completed = ds_completed st;
          terminals = dag_terminal_nodes g completed;
          terminal_outcomes = List.map_filter (hm_get completed) terminals;
          verdict = (case success of Some s \<Rightarrow> s
            | None \<Rightarrow> terminals \<noteq> [] \<and> list_all (\<lambda>out. o_status out = Pass) terminal_outcomes) \<and> \<not> had_failure_prune;
          output = (case override_output of Some t \<Rightarrow> t | None \<Rightarrow> join section_break (map o_content terminal_outcomes));
          all_files = set (concat (map o_files_modified (hm_values completed)))
      in \<lparr>pr_output = output, pr_success = verdict, pr_token_usage = ds_total_tokens st, pr_node_summaries = ds_summaries st,
          pr_files_modified = (if verdict \<or> success = None then all_files else {}), pr_node_costs = ds_node_costs st\<rparr>)"

definition early_exit :: "bool \<Rightarrow> string \<Rightarrow> dag_state \<Rightarrow> PipelineGraph \<Rightarrow> PipelineResult" where
  "early_exit success msg st g = dag_build_result (Some success) (Some msg) st g False"

subsection \<open>Scheduling\<close>

definition MAX_NODE_RUNS :: u32 where "MAX_NODE_RUNS = 10"

definition settled :: "dag_state \<Rightarrow> string \<Rightarrow> bool" where
  "settled st i \<longleftrightarrow> hm_contains (ds_completed st) i \<or> hm_contains (ds_pruned st) i"

definition verdict_of :: "PipelineGraph \<Rightarrow> dag_state \<Rightarrow> string \<Rightarrow> (cond_error, NodeReadiness) sum" where
  "verdict_of g st i = dag_node_readiness g i (ds_completed st) (ds_pruned st)"

definition next_runnable :: "PipelineGraph \<Rightarrow> dag_state \<Rightarrow> string option" where
  "next_runnable g st = min_text (filter (\<lambda>i. \<not> settled st i \<and> verdict_of g st i = Inr Runnable) (hm_keys (g_nodes g)))"

definition prune_verdict :: "PipelineGraph \<Rightarrow> dag_state \<Rightarrow> string \<Rightarrow> PruneReason option" where
  "prune_verdict g st i = (case verdict_of g st i of Inr (Prune reason) \<Rightarrow> Some reason | _ \<Rightarrow> None)"

definition next_prunable :: "PipelineGraph \<Rightarrow> dag_state \<Rightarrow> (string \<times> PruneReason) option" where
  "next_prunable g st =
     (case min_text (filter (\<lambda>i. \<not> settled st i \<and> prune_verdict g st i \<noteq> None) (hm_keys (g_nodes g))) of
        None \<Rightarrow> None
      | Some i \<Rightarrow> map_option (\<lambda>reason. (i, reason)) (prune_verdict g st i))"

definition prune_node :: "string \<Rightarrow> PruneReason \<Rightarrow> dag_state \<Rightarrow> dag_state" where
  "prune_node i reason st = st\<lparr>ds_any_failure_prune := ds_any_failure_prune st \<or> reason = Failure,
     ds_pruned := hm_insert i reason (ds_pruned st)\<rparr>"

definition retries :: "dag_state \<Rightarrow> string \<Rightarrow> u32" where
  "retries st target = (case hm_get (ds_retry_count st) target of Some n \<Rightarrow> n | None \<Rightarrow> 0)"

definition drop_region :: "string set \<Rightarrow> (string, 'v) hashmap \<Rightarrow> (string, 'v) hashmap" where
  "drop_region region m = filter (\<lambda>(k, _). k \<notin> region) m"

definition retry_target :: "PipelineGraph \<Rightarrow> string \<Rightarrow> NodeOutcome \<Rightarrow> dag_state \<Rightarrow> dag_state" where
  "retry_target g target src st =
     (let region = forward_reachable g target
      in st\<lparr>ds_retry_count := hm_insert target (retries st target + 1) (ds_retry_count st),
            ds_feedback := hm_insert target src (ds_feedback st),
            ds_completed := drop_region region (ds_completed st),
            ds_pruned := drop_region region (ds_pruned st)\<rparr>)"

definition back_edge_ready :: "PipelineGraph \<Rightarrow> dag_state \<Rightarrow> PipelineEdge \<Rightarrow> bool" where
  "back_edge_ready g st e \<longleftrightarrow> edge_is_back g e
     \<and> (case hm_get (ds_completed st) (e_source e) of Some src \<Rightarrow> unwrap_false (dag_back_edge_fires e src) | None \<Rightarrow> False)
     \<and> retries st (e_target e) < MAX_NODE_RUNS"

definition retry_first :: "PipelineGraph \<Rightarrow> PipelineEdge list \<Rightarrow> dag_state \<Rightarrow> dag_state option" where
  "retry_first g es st = (case List.find (back_edge_ready g st) es of
       None \<Rightarrow> None
     | Some e \<Rightarrow> map_option (\<lambda>src. retry_target g (e_target e) src st) (hm_get (ds_completed st) (e_source e)))"

datatype step_result = Advance dag_state | Quiescent | Finish PipelineResult | Fault exec_error

definition quote :: "string \<Rightarrow> string" where
  "quote s = [CHR 0x27] @ s @ [CHR 0x27]"

definition record_run :: "string \<Rightarrow> DagNodeOutput \<Rightarrow> dag_state \<Rightarrow> dag_state" where
  "record_run i out st =
     (let usage = o_token_usage (dn_outcome out) in
      st\<lparr>ds_feedback := hm_remove i (ds_feedback st),
         ds_total_tokens := (ds_total_tokens st)\<lparr>input_tokens := input_tokens (ds_total_tokens st) + input_tokens usage,
           output_tokens := output_tokens (ds_total_tokens st) + output_tokens usage\<rparr>,
         ds_summaries := ds_summaries st @ [dn_summary out],
         ds_node_costs := ds_node_costs st @ [dn_cost out],
         ds_completed := hm_insert i (dn_outcome out) (ds_completed st)\<rparr>)"

definition after_run :: "PipelineGraph \<Rightarrow> string \<Rightarrow> DagNodeOutput \<Rightarrow> dag_state \<Rightarrow> step_result" where
  "after_run g i out st0 =
     (let st = record_run i out st0;
          status = o_status (dn_outcome out);
          content = o_content (dn_outcome out);
          goal_gate = (case hm_get (g_nodes g) i of Some n \<Rightarrow> n_goal_gate n | None \<Rightarrow> False)
      in if status = Error \<and> \<not> continues_on_error g i
         then Finish (early_exit False (''Pipeline failed at node '' @ quote i @ '': '' @ content) st g)
         else if goal_gate \<and> status = Pass then Finish (early_exit True content st g)
         else (case g_max_total_tokens g of
             Some max_total \<Rightarrow>
               let spent = total_pipeline_tokens (ds_total_tokens st) in
               if max_total \<le> spent
               then Finish (early_exit False (''Pipeline token budget exhausted after node '' @ quote i @ '': spent ''
                      @ nat_text (unat spent) @ ''/'' @ nat_text (unat max_total) @ '' tokens'') st g)
               else Advance (case retry_first g (filter (\<lambda>e. e_source e = i) (g_edges g)) st of Some st1 \<Rightarrow> st1 | None \<Rightarrow> st)
           | None \<Rightarrow> Advance (case retry_first g (filter (\<lambda>e. e_source e = i) (g_edges g)) st of Some st1 \<Rightarrow> st1 | None \<Rightarrow> st)))"

definition run_node :: "'w host \<Rightarrow> run_ctx \<Rightarrow> dag_state \<Rightarrow> string \<Rightarrow> 'w \<Rightarrow> step_result \<times> 'w" where
  "run_node h rc st i w =
     (let g = rc_graph rc; remaining = remaining_pipeline_tokens (g_max_total_tokens g) (ds_total_tokens st) in
      if remaining = Some 0
      then (Finish (early_exit False (''Pipeline token budget exhausted before node '' @ quote i @ '': spent ''
              @ nat_text (unat (total_pipeline_tokens (ds_total_tokens st))) @ '' tokens'') st g), w)
      else (case fired_forward_into g i (ds_completed st) of
          Inl e \<Rightarrow> (Fault (BadCondition e), w)
        | Inr fired \<Rightarrow> (case dag_execute_node h rc i fired (ds_completed st) remaining (hm_get (ds_feedback st) i) w of
            (Inl e, w1) \<Rightarrow> (Fault e, w1)
          | (Inr (Aborted reason), w1) \<Rightarrow>
              (Finish (early_exit False (''Pipeline aborted before node '' @ quote i @ '': '' @ reason) st g), w1)
          | (Inr (Ran out), w1) \<Rightarrow> (after_run g i out st, w1))))"

definition forward_step :: "'w host \<Rightarrow> run_ctx \<Rightarrow> dag_state \<Rightarrow> 'w \<Rightarrow> step_result \<times> 'w" where
  "forward_step h rc st w = (case next_runnable (rc_graph rc) st of
       Some i \<Rightarrow> run_node h rc st i w
     | None \<Rightarrow> (case next_prunable (rc_graph rc) st of
         Some (p, reason) \<Rightarrow> (Advance (prune_node p reason st), w)
       | None \<Rightarrow> (Quiescent, w)))"

subsection \<open>Termination\<close>

text \<open>What is left to do: retries that may still happen, then nodes that are not settled.\<close>

definition retry_targets :: "PipelineGraph \<Rightarrow> string set" where
  "retry_targets g = e_target ` {e \<in> set (g_edges g). edge_is_back g e}"

definition retries_left :: "PipelineGraph \<Rightarrow> dag_state \<Rightarrow> nat" where
  "retries_left g st = (\<Sum>t \<in> retry_targets g. 10 - unat (retries st t))"

definition unsettled :: "PipelineGraph \<Rightarrow> dag_state \<Rightarrow> nat" where
  "unsettled g st = card {i \<in> node_ids g. \<not> settled st i}"

lemma finite_targets [simp]: "finite (retry_targets g)"
  by (simp add: retry_targets_def)

lemma finite_node_ids [simp]: "finite (node_ids g)"
  by (simp add: node_ids_def)

lemma min_text_in: "min_text xs = Some x \<Longrightarrow> x \<in> set xs"
  using Min_in[of "set xs"] by (cases xs) (auto simp: fold_min_Min)

lemma next_runnable_Some:
  assumes "next_runnable g st = Some i"
  shows "i \<in> node_ids g" "\<not> settled st i" "verdict_of g st i = Inr Runnable"
  using min_text_in[OF assms[unfolded next_runnable_def]] by (auto simp: node_ids_def)

lemma next_prunable_Some:
  assumes "next_prunable g st = Some (i, reason)"
  shows "i \<in> node_ids g" "\<not> settled st i" "verdict_of g st i = Inr (Prune reason)"
proof -
  obtain m where m: "min_text (filter (\<lambda>i. \<not> settled st i \<and> prune_verdict g st i \<noteq> None) (hm_keys (g_nodes g))) = Some m"
    and r: "prune_verdict g st m = Some reason" "m = i"
    using assms by (auto simp: next_prunable_def split: option.splits)
  from min_text_in[OF m] r show "i \<in> node_ids g" "\<not> settled st i" by (auto simp: node_ids_def)
  from r show "verdict_of g st i = Inr (Prune reason)"
    by (auto simp: prune_verdict_def split: sum.splits NodeReadiness.splits)
qed

lemma retry_first_Some:
  assumes "retry_first g es st = Some st1"
  obtains e src where "e \<in> set es" "back_edge_ready g st e" "hm_get (ds_completed st) (e_source e) = Some src"
    "st1 = retry_target g (e_target e) src st"
  using assms by (auto simp: retry_first_def split: option.splits dest!: find_Some_in)

lemma retries_retry: "retries (retry_target g t src st) u = (if u = t then retries st t + 1 else retries st u)"
  by (simp add: retries_def retry_target_def Let_def update_conv)

lemma retries_left_retry:
  assumes "t \<in> retry_targets g" "retries st t < MAX_NODE_RUNS"
  shows "retries_left g (retry_target g t src st) < retries_left g st"
proof -
  have lt: "unat (retries st t) < 10" using assms(2) by (simp add: MAX_NODE_RUNS_def word_less_nat_alt)
  then have step: "unat (retries st t + 1) = unat (retries st t) + 1" by (subst unat_add_lem[THEN iffD1]) simp_all
  show ?thesis unfolding retries_left_def
  proof (rule sum_strict_mono_ex1)
    show "\<forall>u \<in> retry_targets g. 10 - unat (retries (retry_target g t src st) u) \<le> 10 - unat (retries st u)"
      using lt by (auto simp: retries_retry step)
    show "\<exists>u \<in> retry_targets g. 10 - unat (retries (retry_target g t src st) u) < 10 - unat (retries st u)"
      using assms(1) lt by (intro bexI[of _ t]) (simp_all add: retries_retry step)
  qed simp
qed

lemma retry_first_left:
  assumes "retry_first g es st = Some st1" "set es \<subseteq> set (g_edges g)"
  shows "retries_left g st1 < retries_left g st"
proof -
  obtain e src where e: "e \<in> set es" "back_edge_ready g st e" "st1 = retry_target g (e_target e) src st"
    using retry_first_Some[OF assms(1)] by metis
  with assms(2) have "e_target e \<in> retry_targets g" by (auto simp: retry_targets_def back_edge_ready_def)
  with e retries_left_retry show ?thesis by (simp add: back_edge_ready_def)
qed

lemma unsettled_less:
  assumes "i \<in> node_ids g" "\<not> settled st i" "\<And>j. settled st1 j \<longleftrightarrow> j = i \<or> settled st j"
  shows "unsettled g st1 < unsettled g st"
  unfolding unsettled_def using assms by (intro psubset_card_mono) auto

lemma settled_record: "settled (record_run i out st) j \<longleftrightarrow> j = i \<or> settled st j"
  by (auto simp: settled_def record_run_def Let_def hm_contains_iff dom_update)

lemma settled_prune: "settled (prune_node i r st) j \<longleftrightarrow> j = i \<or> settled st j"
  by (auto simp: settled_def prune_node_def hm_contains_iff dom_update)

definition progress :: "PipelineGraph \<Rightarrow> dag_state \<Rightarrow> dag_state \<Rightarrow> bool" where
  "progress g st st1 \<longleftrightarrow> retries_left g st1 < retries_left g st
     \<or> retries_left g st1 = retries_left g st \<and> unsettled g st1 < unsettled g st"

lemma after_run_progress:
  assumes "after_run g i out st = Advance st1" "i \<in> node_ids g" "\<not> settled st i"
  shows "progress g st st1"
proof -
  let ?st = "record_run i out st"
  have left: "retries_left g ?st = retries_left g st"
    by (simp add: retries_left_def retries_def record_run_def Let_def)
  have uns: "unsettled g ?st < unsettled g st" by (rule unsettled_less[OF assms(2,3) settled_record])
  have "st1 = (case retry_first g (filter (\<lambda>e. e_source e = i) (g_edges g)) ?st of Some s \<Rightarrow> s | None \<Rightarrow> ?st)"
    using assms(1) by (auto simp: after_run_def Let_def split: if_splits option.splits)
  then consider "st1 = ?st" | "retry_first g (filter (\<lambda>e. e_source e = i) (g_edges g)) ?st = Some st1"
    by (auto split: option.splits)
  then show ?thesis
  proof cases
    case 2
    then have "retries_left g st1 < retries_left g ?st" by (rule retry_first_left) auto
    then show ?thesis by (simp add: progress_def left)
  qed (simp add: progress_def left uns)
qed

lemma forward_step_progress:
  assumes "forward_step h rc st w = (Advance st1, w1)"
  shows "progress (rc_graph rc) st st1"
proof (cases "next_runnable (rc_graph rc) st")
  case (Some i)
  then obtain out where "after_run (rc_graph rc) i out st = Advance st1"
    using assms by (auto simp: forward_step_def run_node_def Let_def split: if_splits sum.splits prod.splits DagStep.splits)
  with next_runnable_Some[OF Some] after_run_progress show ?thesis by blast
next
  case None
  then obtain p reason where p: "next_prunable (rc_graph rc) st = Some (p, reason)" "st1 = prune_node p reason st"
    using assms by (auto simp: forward_step_def split: option.splits)
  from p(2) have "retries_left (rc_graph rc) st1 = retries_left (rc_graph rc) st"
    by (simp add: retries_left_def retries_def prune_node_def)
  moreover have "unsettled (rc_graph rc) st1 < unsettled (rc_graph rc) st"
    unfolding p(2) by (rule unsettled_less[OF next_prunable_Some(1,2)[OF p(1)] settled_prune])
  ultimately show ?thesis by (simp add: progress_def)
qed

subsection \<open>The loops\<close>

datatype pass_result = Settled dag_state | Ended PipelineResult | Broke exec_error

function forward_pass :: "'w host \<Rightarrow> run_ctx \<Rightarrow> dag_state \<Rightarrow> 'w \<Rightarrow> pass_result \<times> 'w" where
  "forward_pass h rc st w = (case forward_step h rc st w of
       (Advance st1, w1) \<Rightarrow> forward_pass h rc st1 w1
     | (Quiescent, w1) \<Rightarrow> (Settled st, w1)
     | (Finish r, w1) \<Rightarrow> (Ended r, w1)
     | (Fault e, w1) \<Rightarrow> (Broke e, w1))"
  by pat_completeness auto
termination
  by (relation "(\<lambda>(h, rc, st, w). retries_left (rc_graph rc) st) <*mlex*> measure (\<lambda>(h, rc, st, w). unsettled (rc_graph rc) st)")
     (auto simp: mlex_iff wf_mlex progress_def dest!: sym[of _ "forward_step _ _ _ _"] forward_step_progress)

declare forward_pass.simps [simp del]

lemma forward_pass_left:
  "forward_pass h rc st w = (Settled st1, w1) \<Longrightarrow> retries_left (rc_graph rc) st1 \<le> retries_left (rc_graph rc) st"
proof (induction h rc st w rule: forward_pass.induct)
  case (1 h rc st w)
  obtain r w2 where step: "forward_step h rc st w = (r, w2)" by fastforce
  show ?case
  proof (cases r)
    case (Advance st2)
    then have "retries_left (rc_graph rc) st1 \<le> retries_left (rc_graph rc) st2"
      using 1 step by (simp add: forward_pass.simps[of h rc st w])
    moreover have "retries_left (rc_graph rc) st2 \<le> retries_left (rc_graph rc) st"
      using forward_step_progress[of h rc st w st2 w2] step Advance by (auto simp: progress_def)
    ultimately show ?thesis by simp
  qed (use 1 step in \<open>auto simp: forward_pass.simps[of h rc st w]\<close>)
qed

function dag_loop :: "'w host \<Rightarrow> run_ctx \<Rightarrow> dag_state \<Rightarrow> 'w \<Rightarrow> (exec_error, PipelineResult) sum \<times> 'w" where
  "dag_loop h rc st w = (case forward_pass h rc st w of
       (Ended r, w1) \<Rightarrow> (Inr r, w1)
     | (Broke e, w1) \<Rightarrow> (Inl e, w1)
     | (Settled st1, w1) \<Rightarrow> (case retry_first (rc_graph rc) (g_edges (rc_graph rc)) st1 of
         Some st2 \<Rightarrow> dag_loop h rc st2 w1
       | None \<Rightarrow> (Inr (dag_build_result None None st1 (rc_graph rc) (ds_any_failure_prune st1)), w1)))"
  by pat_completeness auto
termination
proof (relation "measure (\<lambda>(h, rc, st, w). retries_left (rc_graph rc) st)", rule wf_measure)
  fix h rc st w x w1 st1 st2
  assume "(x, w1) = forward_pass h rc st w" "x = Settled st1"
    and "retry_first (rc_graph rc) (g_edges (rc_graph rc)) st1 = Some st2"
  then show "((h, rc, st2, w1), h, rc, st, w) \<in> measure (\<lambda>(h, rc, st, w). retries_left (rc_graph rc) st)"
    using forward_pass_left[of h rc st w st1 w1] retry_first_left[of "rc_graph rc" "g_edges (rc_graph rc)" st1 st2] by simp
qed

declare dag_loop.simps [simp del]

definition init_state :: dag_state where
  "init_state = \<lparr>ds_completed = [], ds_pruned = [], ds_summaries = [], ds_node_costs = [], ds_total_tokens = no_tokens,
     ds_feedback = [], ds_any_failure_prune = False, ds_retry_count = []\<rparr>"

definition execute_graph_dag :: "'w host \<Rightarrow> run_ctx \<Rightarrow> 'w \<Rightarrow> (exec_error, PipelineResult) sum \<times> 'w" where
  "execute_graph_dag h rc w = dag_loop h rc init_state w"

end
