(* ===== verification/Fan_Out.thy ===== *)
theory Fan_Out
  imports Dag_Executor
begin

text \<open>
  Model of the fan-out of the single-path walk in \<^verbatim>\<open>crates/octos-pipeline/src/executor.rs\<close>: the deadline of a worker, one
  worker's run, the workers of a node, the merging of their results, and the planning of dynamic tasks. The workers
  of a node run concurrently on one task of the async runtime; here each worker acts on the world in one turn, the
  turns are taken in an order the host chooses, and the results are collected in the order of the workers, as
  \<^verbatim>\<open>join_all\<close> does. What the planner model answers, how JSON is decoded, which non-ASCII characters are alphanumeric, their
  lower case, the text of an error report, and the reading of result files (\<^verbatim>\<open>resolve_search_result_files\<close>) are
  fields of the record \<open>fan_host\<close>.
\<close>

subsection \<open>Tasks\<close>

record DynamicTask =
  dt_task :: string
  dt_label :: "string option"

record ChatResponse =
  cr_content :: "string option"
  cr_reasoning_content :: "string option"
  cr_input_tokens :: u32
  cr_output_tokens :: u32

record 'w fan_host =
  fh_host :: "'w host"
  fh_chat :: "string option \<Rightarrow> string \<Rightarrow> 'w \<Rightarrow> (exec_error, ChatResponse) sum \<times> 'w"
  fh_decode_tasks :: "string \<Rightarrow> DynamicTask list option"
  fh_decode_objects :: "string \<Rightarrow> string list list option"
  fh_alphanumeric :: "string \<Rightarrow> bool"
  fh_lowercase :: "string \<Rightarrow> string"
  fh_error_text :: "exec_error \<Rightarrow> string"
  fh_inline_results :: "'w \<Rightarrow> string \<Rightarrow> string"
  fh_turns :: "nat \<Rightarrow> 'w \<Rightarrow> nat list"
  fh_fanout_cap :: "nat option"

definition MAX_PIPELINE_FANOUT_TOTAL :: nat where "MAX_PIPELINE_FANOUT_TOTAL = 500"

definition fanout_cap :: "'w fan_host \<Rightarrow> nat" where
  "fanout_cap f = (case fh_fanout_cap f of Some c \<Rightarrow> c | None \<Rightarrow> MAX_PIPELINE_FANOUT_TOTAL)"

text \<open>\<^verbatim>\<open>find\<close> and \<^verbatim>\<open>rfind\<close>, and the text between the first \<^verbatim>\<open>[{\<close> and the last \<^verbatim>\<open>]\<close>.\<close>

definition rfind_char :: "char \<Rightarrow> string \<Rightarrow> nat option" where
  "rfind_char c s = map_option (\<lambda>k. length s - Suc k) (find_char c (rev s))"

definition extract_json_array :: "string \<Rightarrow> string option" where
  "extract_json_array text =
     (let t = trim text in
      if starts_with t ''['' then Some t
      else (case (find_text [CHR ''['', CHR 0x7B] t, rfind_char (CHR '']'') t) of
          (Some start, Some stop) \<Rightarrow> if start < stop then Some (take (Suc stop - start) (drop start t)) else None
        | _ \<Rightarrow> None))"

definition fallback_tasks :: "string \<Rightarrow> DynamicTask list" where
  "fallback_tasks user_input =
     [\<lparr>dt_task = ''Search for: '' @ user_input, dt_label = Some ''Primary search''\<rparr>,
      \<lparr>dt_task = ''Search in English for: '' @ user_input, dt_label = Some ''English search''\<rparr>,
      \<lparr>dt_task = ''Search for recent trends and developments: '' @ user_input, dt_label = Some ''Trends''\<rparr>]"

definition object_task :: "string list \<Rightarrow> DynamicTask option" where
  "object_task strings = (case strings of
       [] \<Rightarrow> None
     | [t] \<Rightarrow> Some \<lparr>dt_task = t, dt_label = None\<rparr>
     | t # l # _ \<Rightarrow> Some \<lparr>dt_task = t, dt_label = Some l\<rparr>)"

definition planner_prompt :: "string \<Rightarrow> string \<Rightarrow> u32 \<Rightarrow> string" where
  "planner_prompt planning_prompt user_input max_tasks =
     planning_prompt @ line_break @ line_break @ ''User query: '' @ user_input @ line_break @ line_break
     @ ''IMPORTANT: Respond with ONLY a JSON array of tasks. No explanation, no markdown, no code fences. Example format:''
     @ line_break @ ''['' @ [CHR 0x7B] @ [CHR 0x22] @ ''task'' @ [CHR 0x22] @ '': '' @ [CHR 0x22] @ ''search for X'' @ [CHR 0x22]
     @ '', '' @ [CHR 0x22] @ ''label'' @ [CHR 0x22] @ '': '' @ [CHR 0x22] @ ''Label'' @ [CHR 0x22] @ [CHR 0x7D] @ '', ''
     @ [CHR 0x7B] @ [CHR 0x22] @ ''task'' @ [CHR 0x22] @ '': '' @ [CHR 0x22] @ ''search for Y'' @ [CHR 0x22]
     @ '', '' @ [CHR 0x22] @ ''label'' @ [CHR 0x22] @ '': '' @ [CHR 0x22] @ ''Label'' @ [CHR 0x22] @ [CHR 0x7D] @ '']''
     @ line_break @ ''Generate up to '' @ nat_text (unat max_tasks) @ '' tasks.''"

definition response_text :: "ChatResponse \<Rightarrow> string" where
  "response_text r =
     (let content = (case cr_content r of Some c \<Rightarrow> c | None \<Rightarrow> []) in
      if trim content = [] then (case cr_reasoning_content r of Some c \<Rightarrow> c | None \<Rightarrow> []) else content)"

definition response_usage :: "ChatResponse \<Rightarrow> TokenUsage" where
  "response_usage r = no_tokens\<lparr>input_tokens := cr_input_tokens r, output_tokens := cr_output_tokens r\<rparr>"

definition decode_plan :: "'w fan_host \<Rightarrow> string \<Rightarrow> DynamicTask list option" where
  "decode_plan f json = (case fh_decode_tasks f json of
       Some tasks \<Rightarrow> Some tasks
     | None \<Rightarrow> map_option (List.map_filter object_task) (fh_decode_objects f json))"

text \<open>\<open>None\<close> stands for each of the errors of the planner: the call, a reply without an array, and one that does
  not decode; the walk uses the fallback tasks on all of them.\<close>

definition plan_dynamic_tasks :: "'w fan_host \<Rightarrow> string option \<Rightarrow> string \<Rightarrow> string \<Rightarrow> u32 \<Rightarrow> 'w
    \<Rightarrow> (DynamicTask list \<times> TokenUsage) option \<times> 'w" where
  "plan_dynamic_tasks f model_key planning_prompt user_input max_tasks w =
     (case fh_chat f model_key (planner_prompt planning_prompt user_input max_tasks) w of
        (Inl _, w1) \<Rightarrow> (None, w1)
      | (Inr r, w1) \<Rightarrow> (case extract_json_array (response_text r) of
          None \<Rightarrow> (None, w1)
        | Some json \<Rightarrow> (case decode_plan f json of
            None \<Rightarrow> (None, w1)
          | Some tasks \<Rightarrow> (Some (take (unat max_tasks) tasks, response_usage r), w1))))"

definition planned_tasks :: "'w fan_host \<Rightarrow> string option \<Rightarrow> string \<Rightarrow> string \<Rightarrow> u32 \<Rightarrow> 'w
    \<Rightarrow> (DynamicTask list \<times> TokenUsage) \<times> 'w" where
  "planned_tasks f model_key planning_prompt user_input max_tasks w =
     (case plan_dynamic_tasks f model_key planning_prompt user_input max_tasks w of
        (Some (tasks, usage), w1) \<Rightarrow> ((if 2 \<le> length tasks then tasks else fallback_tasks user_input, usage), w1)
      | (None, w1) \<Rightarrow> ((fallback_tasks user_input, no_tokens), w1))"

subsection \<open>Synthetic nodes\<close>

fun trim_underscores :: "string \<Rightarrow> string" where
  "trim_underscores [] = []"
| "trim_underscores (c # cs) = (if c = CHR ''_'' then trim_underscores cs else c # cs)"

definition scalar_alphanumeric :: "(string \<Rightarrow> bool) \<Rightarrow> string \<Rightarrow> bool" where
  "scalar_alphanumeric wide c = (case c of [b] \<Rightarrow> is_ascii_alphanumeric b | _ \<Rightarrow> wide c)"

definition scalar_lowercase :: "(string \<Rightarrow> string) \<Rightarrow> string \<Rightarrow> string" where
  "scalar_lowercase wide c = (case c of [b] \<Rightarrow> [ascii_lower b] | _ \<Rightarrow> wide c)"

fun sanitize_loop :: "(string \<Rightarrow> bool) \<Rightarrow> (string \<Rightarrow> string) \<Rightarrow> bool \<Rightarrow> string list \<Rightarrow> string" where
  "sanitize_loop alnum lower prev [] = []"
| "sanitize_loop alnum lower prev (c # cs) =
     (if alnum c then lower c @ sanitize_loop alnum lower False cs
      else if prev then sanitize_loop alnum lower True cs
      else CHR ''_'' # sanitize_loop alnum lower True cs)"

definition sanitize_label_for_filename :: "(string \<Rightarrow> bool) \<Rightarrow> (string \<Rightarrow> string) \<Rightarrow> string \<Rightarrow> string" where
  "sanitize_label_for_filename alnum lower label =
     (let out = sanitize_loop (scalar_alphanumeric alnum) (scalar_lowercase lower) False (scalars (trim label));
          trimmed = rev (trim_underscores (rev (trim_underscores out)))
      in if trimmed = [] then ''task'' else concat (take 48 (scalars trimmed)))"

definition default_worker_prompt :: string where
  "default_worker_prompt = ''You are a research specialist.'' @ line_break @ line_break @ [CHR 0x7B] @ ''task'' @ [CHR 0x7D] @ line_break
     @ line_break @ ''Use the available tools to find relevant information. Include ALL URLs and source references.''"

definition default_planning_prompt :: string where
  "default_planning_prompt = ''Generate 4-6 research search angles for this query. Each angle should cover a different aspect.''
     @ line_break @ ''Respond with ONLY a JSON array of objects with '' @ [CHR 0x22] @ ''task'' @ [CHR 0x22] @ '' and '' @ [CHR 0x22]
     @ ''label'' @ [CHR 0x22] @ '' fields.''"

definition model_pool :: "PipelineGraph \<Rightarrow> PipelineNode \<Rightarrow> string list" where
  "model_pool g node =
     (let model = (case n_model node of Some m \<Rightarrow> m | None \<Rightarrow> (case g_default_model g of Some m \<Rightarrow> m | None \<Rightarrow> []))
      in if List.member model (CHR '','') then filter (\<lambda>m. m \<noteq> []) (map trim (split_char (CHR '','') model)) else [model])"

definition synthetic_node :: "'w fan_host \<Rightarrow> PipelineNode \<Rightarrow> string list \<Rightarrow> nat \<Rightarrow> DynamicTask \<Rightarrow> PipelineNode" where
  "synthetic_node f node pool i task =
     (let label = (case dt_label task of Some l \<Rightarrow> l | None \<Rightarrow> ''Task '' @ nat_text (Suc i));
          template = (case n_worker_prompt node of Some p \<Rightarrow> p | None \<Rightarrow> default_worker_prompt);
          prompt = str_replace ([CHR 0x7B] @ ''label'' @ [CHR 0x7D])
            (sanitize_label_for_filename (fh_alphanumeric f) (fh_lowercase f) label @ ''-'' @ nat_text i)
            (str_replace ([CHR 0x7B] @ ''task'' @ [CHR 0x7D]) (dt_task task) template)
      in default_node\<lparr>n_id := n_id node @ ''_task_'' @ nat_text i, n_handler := Codergen, n_prompt := Some prompt,
           n_label := Some label, n_model := Some (pool ! (i mod length pool)), n_tools := n_tools node,
           n_timeout_secs := n_timeout_secs node, n_max_retries := n_max_retries node,
           n_deadline_secs := n_deadline_secs node, n_deadline_action := n_deadline_action node\<rparr>)"

subsection \<open>One worker\<close>

definition MAX_FANOUT_WORKER_SECS :: int where "MAX_FANOUT_WORKER_SECS = 3600"

definition fanout_worker_deadline :: "PipelineNode \<Rightarrow> f64" where
  "fanout_worker_deadline node =
     (let ceiling = Fin (of_int MAX_FANOUT_WORKER_SECS);
          by_timeout = (case n_timeout_secs node of
              Some secs \<Rightarrow> if 0 < secs then Fin (of_int (min (uint secs) MAX_FANOUT_WORKER_SECS)) else ceiling
            | None \<Rightarrow> ceiling)
      in case n_deadline_secs node of
           Some secs \<Rightarrow> if is_finite secs \<and> f64_lt (Fin 0) secs then f64_min secs ceiling else by_timeout
         | None \<Rightarrow> by_timeout)"

text \<open>\<^verbatim>\<open>as_secs\<close> of a duration, for the messages.\<close>

fun whole_secs :: "f64 \<Rightarrow> nat" where
  "whole_secs (Fin q) = nat \<lfloor>q\<rfloor>"
| "whole_secs _ = 0"

definition worker_message :: "PipelineNode \<Rightarrow> string \<Rightarrow> string" where
  "worker_message node rest = ''fan-out worker '' @ quote (n_id node) @ '' exceeded deadline '' @ rest"

fun worker_loop :: "'w fan_host \<Rightarrow> 'w handler \<Rightarrow> PipelineNode \<Rightarrow> HandlerContext \<Rightarrow> u32 \<Rightarrow> f64 \<Rightarrow> DeadlineAction
    \<Rightarrow> string option \<Rightarrow> nat \<Rightarrow> 'w \<Rightarrow> (string, NodeOutcome) sum \<times> 'w" where
  "worker_loop f handler node ctx max_retries deadline action last_err 0 w =
     (Inl (case last_err of Some e \<Rightarrow> e
        | None \<Rightarrow> ''fan-out worker '' @ quote (n_id node) @ '' failed all retry attempts''), w)"
| "worker_loop f handler node ctx max_retries deadline action last_err (Suc left) w =
     (let rt = ho_runtime (fh_host f); secs = nat_text (whole_secs deadline) in
      if rt_expires rt deadline w
      then let w1 = rt_cancel rt deadline w in
        (case action of
           Abort \<Rightarrow> (Inl (worker_message node (''of '' @ secs @ ''s (action=abort)'')), w1)
         | Skip \<Rightarrow> (Inr (skipped_outcome node), w1)
         | Retry n \<Rightarrow>
             if left = 0
             then (Inl (worker_message node (''on all '' @ nat_text (unat (max n 1)) @ '' retry attempt(s)'')), w1)
             else worker_loop f handler node ctx max_retries deadline action
                    (Some (worker_message node (''of '' @ secs @ ''s''))) left w1
         | Escalate \<Rightarrow> (Inl (worker_message node (''of '' @ secs @ ''s (action=escalate)'')), rt_spawn_failure_hook rt node deadline w1))
      else (case execute_with_retries rt handler node ctx max_retries w of
          (Inr out, w1) \<Rightarrow> (Inr out, w1)
        | (Inl e, w1) \<Rightarrow> (Inl (fh_error_text f e), w1)))"

definition run_fanout_worker :: "'w fan_host \<Rightarrow> 'w handler \<Rightarrow> PipelineNode \<Rightarrow> HandlerContext \<Rightarrow> u32 \<Rightarrow> 'w
    \<Rightarrow> (string, NodeOutcome) sum \<times> 'w" where
  "run_fanout_worker f handler node ctx max_retries w =
     (let action = (case n_deadline_action node of Some a \<Rightarrow> a | None \<Rightarrow> Abort)
      in worker_loop f handler node ctx max_retries (fanout_worker_deadline node) action None (deadline_attempts action) w)"

subsection \<open>All workers of a node\<close>

record 'w worker =
  wo_id :: string
  wo_node :: PipelineNode
  wo_handler :: "'w handler"
  wo_ctx :: HandlerContext

record worker_result =
  wr_id :: string
  wr_node :: PipelineNode
  wr_elapsed_ns :: int
  wr_result :: "(string, NodeOutcome) sum"

definition run_worker :: "'w fan_host \<Rightarrow> 'w worker \<Rightarrow> 'w \<Rightarrow> worker_result \<times> 'w" where
  "run_worker f wk w =
     (let started = ho_clock_ns (fh_host f) w;
          (r, w1) = run_fanout_worker f (wo_handler wk) (wo_node wk) (wo_ctx wk) (n_max_retries (wo_node wk)) w
      in (\<lparr>wr_id = wo_id wk, wr_node = wo_node wk, wr_elapsed_ns = ho_clock_ns (fh_host f) w1 - started, wr_result = r\<rparr>, w1))"

text \<open>Every worker takes one turn: the host's order, made a permutation of the workers.\<close>

definition turn_order :: "nat \<Rightarrow> nat list \<Rightarrow> nat list" where
  "turn_order n order = remdups (filter (\<lambda>i. i < n) order) @ filter (\<lambda>i. i \<notin> set order) [0..<n]"

fun take_turns :: "'w fan_host \<Rightarrow> 'w worker list \<Rightarrow> nat list \<Rightarrow> 'w \<Rightarrow> (nat \<times> worker_result) list \<times> 'w" where
  "take_turns f ws [] w = ([], w)"
| "take_turns f ws (i # is) w =
     (let (r, w1) = run_worker f (ws ! i) w; (rest, w2) = take_turns f ws is w1 in ((i, r) # rest, w2))"

definition join_all :: "'w fan_host \<Rightarrow> 'w worker list \<Rightarrow> 'w \<Rightarrow> worker_result list \<times> 'w" where
  "join_all f ws w =
     (let (answers, w1) = take_turns f ws (turn_order (length ws) (fh_turns f (length ws) w)) w
      in (List.map_filter (map_of answers) [0..<length ws], w1))"

record WorkerResults =
  wrs_merged_content :: string
  wrs_any_error :: bool
  wrs_any_pass :: bool
  wrs_summaries :: "NodeSummary list"
  wrs_tokens :: TokenUsage
  wrs_outcomes :: "(string \<times> NodeOutcome) list"

definition worker_outcome :: "worker_result \<Rightarrow> NodeOutcome" where
  "worker_outcome r = (case wr_result r of
       Inr out \<Rightarrow> out
     | Inl e \<Rightarrow> \<lparr>o_node_id = wr_id r, o_status = Error, o_content = ''Error: '' @ e, o_token_usage = no_tokens,
         o_files_modified = []\<rparr>)"

definition worker_label :: "worker_result \<Rightarrow> string" where
  "worker_label r = (case n_label (wr_node r) of Some l \<Rightarrow> l | None \<Rightarrow> wr_id r)"

definition worker_summary :: "worker_result \<Rightarrow> NodeSummary" where
  "worker_summary r = \<lparr>ns_node_id = wr_id r, ns_label = worker_label r, ns_model = n_model (wr_node r),
     ns_token_usage = o_token_usage (worker_outcome r), ns_duration_ms = word_of_int (wr_elapsed_ns r div 1000000),
     ns_success = (o_status (worker_outcome r) = Pass)\<rparr>"

definition add_usage :: "TokenUsage \<Rightarrow> TokenUsage \<Rightarrow> TokenUsage" where
  "add_usage acc usage = acc\<lparr>input_tokens := input_tokens acc + input_tokens usage,
     output_tokens := output_tokens acc + output_tokens usage\<rparr>"

definition process_worker_results :: "'w fan_host \<Rightarrow> worker_result list \<Rightarrow> 'w \<Rightarrow> WorkerResults" where
  "process_worker_results f results w =
     \<lparr>wrs_merged_content = fh_inline_results f w (join section_break
        (map (\<lambda>r. ''## '' @ worker_label r @ line_break @ line_break @ o_content (worker_outcome r)) results)),
      wrs_any_error = list_ex (\<lambda>r. o_status (worker_outcome r) = Error) results,
      wrs_any_pass = list_ex (\<lambda>r. o_status (worker_outcome r) = Pass) results,
      wrs_summaries = map worker_summary results,
      wrs_tokens = fold (\<lambda>r acc. add_usage acc (o_token_usage (worker_outcome r))) results no_tokens,
      wrs_outcomes = map (\<lambda>r. (wr_id r, worker_outcome r)) results\<rparr>"

definition fan_status :: "WorkerResults \<Rightarrow> OutcomeStatus" where
  "fan_status r = (if wrs_any_error r \<and> \<not> wrs_any_pass r then Error
     else if wrs_any_pass r \<and> \<not> wrs_any_error r then Pass else Fail)"

end
