(* ===== verification/Handlers.thy ===== *)
theory Handlers
  imports Fan_Out
begin

text \<open>
  Model of the node handlers, \<^verbatim>\<open>crates/octos-pipeline/src/handler.rs\<close>, and of the registry that \<^verbatim>\<open>build_handlers\<close> of
  \<^verbatim>\<open>executor.rs\<close> fills. Gates, noops, waits and notifications are modelled as they are. Of the shell handlers the process they
  start, and of the code agent the agent loop, are fields of the record \<open>handler_host\<close>: what the handlers decide about them (the command,
  the timeout, the tools, the prompt, the instruction and the outcome) is modelled. The provider of a model key, its context
  window and its output limit are fields too. The code agent's wiring of session resources is left out.
\<close>

subsection \<open>What the handlers call\<close>

datatype ReasoningEffort = ReasonDisabled | ReasonLow | ReasonMedium | ReasonHigh | ReasonMax

record WorkerSpec =
  ws_model :: "string option"
  ws_writable :: bool
  ws_policy :: ToolPolicy
  ws_system_prompt :: string
  ws_max_iterations :: u32
  ws_max_timeout :: "u64 option"
  ws_max_tokens :: u32
  ws_reasoning_effort :: "ReasoningEffort option"
  ws_instruction :: string

record TaskResult =
  tr_success :: bool
  tr_output :: string
  tr_token_usage :: TokenUsage
  tr_files_modified :: "string list"

record ProcessOutput =
  po_success :: bool
  po_stdout :: string
  po_stderr :: string

record 'w handler_host =
  hh_expires :: "u64 \<Rightarrow> 'w \<Rightarrow> bool"
  hh_cancel :: "u64 \<Rightarrow> 'w \<Rightarrow> 'w"
  hh_sleep_secs :: "u64 \<Rightarrow> 'w \<Rightarrow> 'w"
  hh_clock_ns :: "'w \<Rightarrow> int"
  hh_exists :: "string \<Rightarrow> 'w \<Rightarrow> bool"
  hh_sh :: "string \<Rightarrow> string \<Rightarrow> 'w \<Rightarrow> (string, ProcessOutput) sum \<times> 'w"
  hh_router :: "(string \<Rightarrow> string \<Rightarrow> string \<Rightarrow> 'w \<Rightarrow> 'w) option"
  hh_mark_terminal :: "string \<Rightarrow> 'w \<Rightarrow> 'w"
  hh_session_key :: "string option"
  hh_workspace_write :: bool
  hh_context_window :: "string option \<Rightarrow> 'w \<Rightarrow> u32"
  hh_max_output_tokens :: "string option \<Rightarrow> u32"
  hh_worker_number :: "'w \<Rightarrow> u32 \<times> 'w"
  hh_run_task :: "WorkerSpec \<Rightarrow> 'w \<Rightarrow> (string, TaskResult) sum \<times> 'w"

definition handled :: "PipelineNode \<Rightarrow> OutcomeStatus \<Rightarrow> string \<Rightarrow> NodeOutcome" where
  "handled node status content = \<lparr>o_node_id = n_id node, o_status = status, o_content = content,
     o_token_usage = no_tokens, o_files_modified = []\<rparr>"

text \<open>\<^verbatim>\<open>Path::join\<close>: an absolute path replaces the directory.\<close>

definition path_join :: "string \<Rightarrow> string \<Rightarrow> string" where
  "path_join dir p = (if starts_with p ''/'' \<or> dir = [] then p else if last dir = CHR ''/'' then dir @ p else dir @ ''/'' @ p)"

subsection \<open>Token estimates\<close>

text \<open>Conversion to \<^verbatim>\<open>f32\<close> and division there: the nearest value with a significand of 24 bits.\<close>

definition round_f32 :: "rat \<Rightarrow> rat" where
  "round_f32 q = (if q = 0 then 0
     else let u = pow2 (max (binary_exponent q) (- 126) - 23) in of_int (round_half_even (q / u)) * u)"

definition estimate_tokens :: "string \<Rightarrow> u32" where
  "estimate_tokens t =
     (let ascii_chars = of_nat (length (filter (\<lambda>c. byte c < 128) t)) :: u32;
          non_ascii_chars = of_nat (length (scalars t)) - ascii_chars;
          wide = word_of_int \<lfloor>round_f32 (round_f32 (of_int (uint non_ascii_chars)) / (3 / 2))\<rfloor>
      in max (ascii_chars div 4 + wide) 1)"

definition DEFAULT_PIPELINE_MAX_OUTPUT_TOKENS :: u32 where "DEFAULT_PIPELINE_MAX_OUTPUT_TOKENS = 4096"

definition PIPELINE_INPUT_COMPACTION_RESERVE_TOKENS :: u32 where "PIPELINE_INPUT_COMPACTION_RESERVE_TOKENS = 1024"

definition instruction_budget :: "u32 \<Rightarrow> u32 option \<Rightarrow> u32" where
  "instruction_budget context_window max_output_tokens =
     (let reserved = saturating_add (case max_output_tokens of Some m \<Rightarrow> m | None \<Rightarrow> DEFAULT_PIPELINE_MAX_OUTPUT_TOKENS)
            PIPELINE_INPUT_COMPACTION_RESERVE_TOKENS
      in max (min (context_window div 2) (saturating_sub context_window reserved)) 512)"

definition compaction_notice :: "u32 \<Rightarrow> string" where
  "compaction_notice omitted = line_break @ line_break @ ''[... pipeline input compacted: omitted approximately '' @ nat_text (unat omitted)
     @ '' tokens ...]'' @ line_break @ line_break"

definition instruction_chars :: "u32 \<Rightarrow> nat" where
  "instruction_chars budget = max (unat budget * 4) 256"

definition compact_pipeline_instruction :: "string \<Rightarrow> u32 option \<Rightarrow> u32 option \<Rightarrow> string" where
  "compact_pipeline_instruction input context_window max_output_tokens = (case context_window of
       None \<Rightarrow> input
     | Some window \<Rightarrow>
         let budget = instruction_budget window max_output_tokens in
         if estimate_tokens input \<le> budget then input
         else let max_chars = instruction_chars budget; chars = scalars input in
           if length chars \<le> max_chars then input
           else let head_chars = max_chars * 7 div 10; tail_chars = max_chars - head_chars in
             concat (take head_chars chars) @ compaction_notice (saturating_sub (estimate_tokens input) budget)
             @ concat (drop (length chars - tail_chars) chars))"

subsection \<open>The code agent\<close>

definition parse_reasoning_effort :: "string \<Rightarrow> ReasoningEffort option" where
  "parse_reasoning_effort raw =
     (let s = to_ascii_lowercase (trim raw) in
      if s = ''none'' \<or> s = ''off'' \<or> s = ''disabled'' then Some ReasonDisabled
      else if s = ''low'' then Some ReasonLow
      else if s = ''medium'' then Some ReasonMedium
      else if s = ''high'' then Some ReasonHigh
      else if s = ''max'' then Some ReasonMax else None)"

definition em_dash :: string where "em_dash = [CHR 0xE2, CHR 0x80, CHR 0x94]"

definition report_guidance :: string where
  "report_guidance = line_break @ line_break @ ''IMPORTANT: You MUST do two things:'' @ line_break
     @ ''1. Save your COMPLETE report in ONE SINGLE write_file call (choose a descriptive filename). Do NOT split the report across multiple write_file calls ''
     @ em_dash @ '' put the ENTIRE content in one call, even if it is very long.'' @ line_break
     @ ''2. After saving, return a concise executive summary (key findings, conclusions, recommendations) as your final text response ''
     @ em_dash @ '' around 1000 words. The full report file will be delivered to the user separately.''"

definition analysis_guidance :: string where
  "analysis_guidance = line_break @ line_break @ ''OUTPUT STRUCTURE '' @ em_dash
     @ '' you MUST organise your analysis using these sections:'' @ line_break
     @ ''## Key Findings'' @ line_break
     @ ''Numbered list of the most important facts, data points, and conclusions drawn from the input sources. Each finding must cite its source.''
     @ line_break @ line_break
     @ ''## Contradictions & Conflicts'' @ line_break
     @ ''List any claims that contradict each other across sources. For each, state the conflicting positions and which source supports each side.''
     @ line_break @ line_break
     @ ''## Gaps & Open Questions'' @ line_break
     @ ''Identify topics or questions that the sources do NOT adequately address. If you used deep_crawl to fill a gap, note what you found.''
     @ line_break @ line_break
     @ ''## Sourced Claims'' @ line_break
     @ ''A reference-style list mapping each major claim to its originating URL or document. Format: '' @ [CHR 0x60]
     @ ''[claim summary] '' @ em_dash @ '' source: <URL or filename>'' @ [CHR 0x60] @ line_break @ line_break
     @ ''Keep your language precise and factual. Do NOT pad with filler. The next stage will use this structured output to write the final report.''"

definition worker_system_prompt :: "PipelineNode \<Rightarrow> string" where
  "worker_system_prompt node =
     (let has = (\<lambda>t. List.member (n_tools node) t) in
      (case n_prompt node of Some p \<Rightarrow> p | None \<Rightarrow> ''Complete the task given to you.'')
      @ (if has ''write_file'' \<and> \<not> str_contains (n_id node) ''_task_'' then report_guidance else [])
      @ (if (has ''deep_crawl'' \<or> has ''read_file'') \<and> \<not> has ''write_file'' then analysis_guidance else []))"

definition worker_spec :: "'w handler_host \<Rightarrow> PipelineNode \<Rightarrow> HandlerContext \<Rightarrow> 'w \<Rightarrow> WorkerSpec" where
  "worker_spec hh node ctx w =
     (let max_tokens = (case n_max_output_tokens node of Some m \<Rightarrow> m | None \<Rightarrow> hh_max_output_tokens hh (n_model node));
          window = (case n_context_window node of Some cw \<Rightarrow> cw | None \<Rightarrow> hh_context_window hh (n_model node) w)
      in \<lparr>ws_model = n_model node, ws_writable = hh_workspace_write hh, ws_policy = worker_policy node,
          ws_system_prompt = worker_system_prompt node,
          ws_max_iterations = (case n_max_iterations node of Some m \<Rightarrow> m | None \<Rightarrow> 30),
          ws_max_timeout = n_timeout_secs node, ws_max_tokens = max_tokens,
          ws_reasoning_effort = (case n_reasoning_effort node of Some r \<Rightarrow> parse_reasoning_effort r | None \<Rightarrow> None),
          ws_instruction = compact_pipeline_instruction (hc_input ctx) (Some window) (Some max_tokens)\<rparr>)"

definition task_outcome :: "PipelineNode \<Rightarrow> (string, TaskResult) sum \<Rightarrow> NodeOutcome" where
  "task_outcome node result = (case result of
       Inr r \<Rightarrow> \<lparr>o_node_id = n_id node, o_status = (if tr_success r then Pass else Fail), o_content = tr_output r,
         o_token_usage = tr_token_usage r, o_files_modified = tr_files_modified r\<rparr>
     | Inl e \<Rightarrow> handled node Error (''Agent error: '' @ e))"

definition codergen_handler :: "'w handler_host \<Rightarrow> 'w handler" where
  "codergen_handler hh node ctx w =
     (let (worker_num, w1) = hh_worker_number hh w;
          worker_id = ''pipeline-'' @ n_id node @ ''-'' @ nat_text (unat worker_num)
      in case n_timeout_secs node of
           Some secs \<Rightarrow>
             if 0 < secs \<and> hh_expires hh secs w1
             then (Inr (handled node Error (''Node '' @ quote (n_id node) @ '' timed out after '' @ nat_text (unat secs)
                     @ ''s while waiting for worker '' @ quote worker_id)), hh_cancel hh secs w1)
             else (case hh_run_task hh (worker_spec hh node ctx w1) w1 of (r, w2) \<Rightarrow> (Inr (task_outcome node r), w2))
         | None \<Rightarrow> (case hh_run_task hh (worker_spec hh node ctx w1) w1 of (r, w2) \<Rightarrow> (Inr (task_outcome node r), w2)))"

subsection \<open>Gates and noops\<close>

definition gate_status :: "NodeOutcome list \<Rightarrow> OutcomeStatus" where
  "gate_status outs =
     (if list_ex (\<lambda>out. o_status out = Error) outs then Error
      else if list_ex (\<lambda>out. o_status out = Fail) outs then Fail
      else if list_ex (\<lambda>out. o_status out = Skipped) outs then Skipped else Pass)"

definition synthesize_predecessor_outcome :: "string \<Rightarrow> HandlerContext \<Rightarrow> NodeOutcome" where
  "synthesize_predecessor_outcome gate_id ctx = (case hc_predecessor_outcomes ctx of
       [] \<Rightarrow> \<lparr>o_node_id = gate_id @ ''__no_predecessor'', o_status = Pass, o_content = hc_input ctx, o_token_usage = no_tokens,
         o_files_modified = []\<rparr>
     | [out] \<Rightarrow> out
     | outs \<Rightarrow> \<lparr>o_node_id = gate_id @ ''__fan_in'', o_status = gate_status outs, o_content = hc_input ctx, o_token_usage = no_tokens,
         o_files_modified = []\<rparr>)"

definition gate_handler :: "'w handler" where
  "gate_handler node ctx w =
     (let cond_str = (case n_prompt node of Some p \<Rightarrow> p | None \<Rightarrow> ''true'');
          pred = synthesize_predecessor_outcome (n_id node) ctx
      in if cond_str = ''true'' then (Inr (handled node Pass (o_content pred)), w)
         else (case parse_condition cond_str of
             Inl e \<Rightarrow> (Inl (BadCondition e), w)
           | Inr expr \<Rightarrow> (Inr (handled node (if evaluate expr pred then Pass else Fail) (o_content pred)), w)))"

definition noop_handler :: "'w handler" where
  "noop_handler node ctx w = (Inr (handled node Pass (hc_input ctx)), w)"

subsection \<open>Processes\<close>

definition with_stderr :: "ProcessOutput \<Rightarrow> string" where
  "with_stderr out = (if po_stderr out = [] then po_stdout out
     else po_stdout out @ line_break @ ''--- stderr ---'' @ line_break @ po_stderr out)"

definition shell_handler :: "'w handler_host \<Rightarrow> 'w handler" where
  "shell_handler hh node ctx w =
     (let command = (case n_prompt node of Some p \<Rightarrow> p | None \<Rightarrow> hc_input ctx);
          timeout = (case n_timeout_secs node of Some s \<Rightarrow> s | None \<Rightarrow> 300)
      in if hh_expires hh timeout w
         then (Inr (handled node Error (''Shell timed out after '' @ nat_text (unat timeout) @ ''s'')), hh_cancel hh timeout w)
         else (case hh_sh hh command (hc_working_dir ctx) w of
             (Inr out, w1) \<Rightarrow> (Inr (handled node (if po_success out then Pass else Fail) (with_stderr out)), w1)
           | (Inl e, w1) \<Rightarrow> (Inr (handled node Error (''Shell error: '' @ e)), w1)))"

definition shell_check_handler :: "'w handler_host \<Rightarrow> 'w handler" where
  "shell_check_handler hh node ctx w = (case n_prompt node of
       None \<Rightarrow> (Inl (HandlerError (''shell_check node '' @ quote (n_id node) @ '' has no command'')), w)
     | Some command \<Rightarrow>
         let timeout = (case n_timeout_secs node of Some s \<Rightarrow> s | None \<Rightarrow> 60) in
         if hh_expires hh timeout w
         then (Inl (HandlerError (''shell_check '' @ quote (n_id node) @ '' timed out after '' @ nat_text (unat timeout) @ ''s'')),
               hh_cancel hh timeout w)
         else (case hh_sh hh command (hc_working_dir ctx) w of
             (Inl e, w1) \<Rightarrow> (Inl (HandlerError (''shell_check '' @ quote (n_id node) @ '' failed to spawn: '' @ e)), w1)
           | (Inr out, w1) \<Rightarrow>
               (Inr (handled node (if po_success out then Pass else Fail) (''$ '' @ command @ line_break @ with_stderr out)), w1)))"

subsection \<open>Notifications and waits\<close>

definition notify_handler :: "'w handler_host \<Rightarrow> 'w handler" where
  "notify_handler hh node ctx w =
     (let message = (case n_prompt node of Some p \<Rightarrow> p | None \<Rightarrow> ''pipeline notification'');
          task_id = ''notify-'' @ n_id node;
          w1 = (case hh_router hh of
              Some append_output \<Rightarrow> hh_mark_terminal hh task_id
                (append_output (case hh_session_key hh of Some k \<Rightarrow> k | None \<Rightarrow> ''pipeline'') task_id message w)
            | None \<Rightarrow> w)
      in (Inr (handled node Pass message), w1))"

text \<open>The polling loop: whether the file appeared before the deadline. \<open>None\<close> means that it polls forever, which needs a
  clock that stands still.\<close>

partial_function (option) wait_poll :: "'w handler_host \<Rightarrow> string \<Rightarrow> int \<Rightarrow> 'w \<Rightarrow> (bool \<times> 'w) option" where
  "wait_poll hh file deadline w =
     (if hh_exists hh file w then Some (True, w)
      else if deadline \<le> hh_clock_ns hh w then Some (False, w)
      else wait_poll hh file deadline (hh_sleep_secs hh 1 w))"

definition wait_secs :: "string \<Rightarrow> u64 option" where
  "wait_secs prompt = (case strip_prefix ''wait '' prompt of
       Some s \<Rightarrow> (case strip_suffix ''s'' s of Some d \<Rightarrow> parse_u64 d | None \<Rightarrow> None) | None \<Rightarrow> None)"

definition wait_path :: "string \<Rightarrow> string option" where
  "wait_path prompt = (case strip_prefix ''wait until '' prompt of Some c \<Rightarrow> strip_prefix ''file_exists:'' c | None \<Rightarrow> None)"

definition wait_run :: "'w handler_host \<Rightarrow> PipelineNode \<Rightarrow> HandlerContext \<Rightarrow> 'w \<Rightarrow> ((exec_error, NodeOutcome) sum \<times> 'w) option" where
  "wait_run hh node ctx w =
     (let timeout = (case n_timeout_secs node of Some s \<Rightarrow> s | None \<Rightarrow> 300);
          prompt = (case n_prompt node of Some p \<Rightarrow> p | None \<Rightarrow> [])
      in case wait_secs prompt of
           Some secs \<Rightarrow> Some (Inr (handled node Pass (''waited '' @ nat_text (unat secs) @ ''s'')), hh_sleep_secs hh secs w)
         | None \<Rightarrow> (case wait_path prompt of
             Some p \<Rightarrow>
               let file = path_join (hc_working_dir ctx) (trim p) in
               if 2 ^ 63 \<le> hh_clock_ns hh w div 1000000000 + uint timeout then Some (Inl (DurationPanic (Fin (of_int (uint timeout)))), w)
               else (case wait_poll hh file (hh_clock_ns hh w + uint timeout * 1000000000) w of
                   None \<Rightarrow> None
                 | Some (True, w1) \<Rightarrow> Some (Inr (handled node Pass (''condition met: '' @ file @ '' exists'')), w1)
                 | Some (False, w1) \<Rightarrow>
                     Some (Inr (handled node Fail (''timed out after '' @ nat_text (unat timeout) @ ''s waiting for '' @ file)), w1))
           | None \<Rightarrow> Some (Inr (handled node Pass (''unrecognized wait spec: '' @ prompt)), w)))"

text \<open>As a handler, a wait that polls forever is an error; \<open>wait_returns\<close> shows that this does not happen.\<close>

definition wait_handler :: "'w handler_host \<Rightarrow> 'w handler" where
  "wait_handler hh node ctx w = (case wait_run hh node ctx w of Some r \<Rightarrow> r | None \<Rightarrow> (Inl (HandlerError ''endless wait''), w))"

subsection \<open>The registry\<close>

type_synonym 'w handler_registry = "(HandlerKind, 'w handler) hashmap"

definition build_handlers :: "'w handler_host \<Rightarrow> 'w handler_registry" where
  "build_handlers hh = fold (\<lambda>(kind, handler). hm_insert kind handler)
     [(Codergen, codergen_handler hh), (Gate, gate_handler), (Noop, noop_handler), (DynamicParallel, noop_handler),
      (ShellCheck, shell_check_handler hh), (Notify, notify_handler hh), (Wait, wait_handler hh)] []"

lemma build_handlers_get: "hm_get (build_handlers hh) kind = (case kind of
    Codergen \<Rightarrow> Some (codergen_handler hh) | Shell \<Rightarrow> None | Gate \<Rightarrow> Some gate_handler | Noop \<Rightarrow> Some noop_handler | Parallel \<Rightarrow> None
  | DynamicParallel \<Rightarrow> Some noop_handler | ShellCheck \<Rightarrow> Some (shell_check_handler hh) | Notify \<Rightarrow> Some (notify_handler hh)
  | Wait \<Rightarrow> Some (wait_handler hh))"
  by (cases kind) (simp_all add: build_handlers_def)

end
