(* ===== verification/Guard.thy ===== *)
theory Guard
  imports Node_Dispatch
begin

text \<open>
  Model of \<^verbatim>\<open>crates/octos-pipeline/src/guard.rs\<close>, the hooks evaluated before a node is dispatched, and of
  \<^verbatim>\<open>evaluate_before_node_guards\<close> in \<^verbatim>\<open>executor.rs\<close>. A guard is a function of the context; a guard of the host may also
  fail. Durations are counted in nanoseconds; how a duration is printed is a parameter of the timeout guard.
\<close>

record GuardContext =
  gc_graph :: PipelineGraph
  gc_node :: PipelineNode
  gc_cumulative_tokens :: u32
  gc_elapsed_ns :: int
  gc_completed_count :: nat
  gc_visit_counts :: "(string, nat) hashmap"

datatype GuardDecision = AllowNode | SkipNode string | AbortRun string

type_synonym guard = "GuardContext \<Rightarrow> (string, GuardDecision) sum"

definition token_budget_guard :: "u32 \<Rightarrow> guard" where
  "token_budget_guard max_tokens ctx = Inr
     (if max_tokens \<le> gc_cumulative_tokens ctx
      then AbortRun (''token budget exhausted before node '' @ [CHR 0x27] @ n_id (gc_node ctx) @ [CHR 0x27] @ '': spent ''
             @ nat_text (unat (gc_cumulative_tokens ctx)) @ ''/'' @ nat_text (unat max_tokens) @ '' tokens'')
      else AllowNode)"

definition timeout_guard :: "(int \<Rightarrow> string) \<Rightarrow> int \<Rightarrow> guard" where
  "timeout_guard duration_text timeout_ns ctx = Inr
     (if timeout_ns \<le> gc_elapsed_ns ctx
      then AbortRun (''pipeline timeout before node '' @ [CHR 0x27] @ n_id (gc_node ctx) @ [CHR 0x27] @ '': elapsed ''
             @ duration_text (gc_elapsed_ns ctx) @ '' >= '' @ duration_text timeout_ns)
      else AllowNode)"

text \<open>The guards are asked in order; the first that does not allow decides, and an error is passed on.\<close>

fun evaluate_before_node_guards :: "guard list \<Rightarrow> GuardContext \<Rightarrow> (string, GuardDecision) sum" where
  "evaluate_before_node_guards [] ctx = Inr AllowNode"
| "evaluate_before_node_guards (gd # gds) ctx = (case gd ctx of
       Inr AllowNode \<Rightarrow> evaluate_before_node_guards gds ctx
     | decision \<Rightarrow> decision)"

lemma guards_allow_iff:
  "evaluate_before_node_guards gds ctx = Inr AllowNode \<longleftrightarrow> (\<forall>gd \<in> set gds. gd ctx = Inr AllowNode)"
  by (induction gds) (auto split: sum.splits GuardDecision.splits)

end
