(* ===== verification/Edge_Selection.thy ===== *)
theory Edge_Selection
  imports Dag_Routing
begin

text \<open>
  Model of how the single-path walk leaves a node: \<^verbatim>\<open>select_next_edge\<close> and \<^verbatim>\<open>pick_by_weight\<close> of
  \<^verbatim>\<open>crates/octos-pipeline/src/executor.rs\<close>. The five steps are tried in order: conditions, the node's suggested
  successor, labels found in the output, unconditional edges, and the smallest target. Weights are compared
  as the code compares them, by a rounded difference below \<^verbatim>\<open>f64::EPSILON\<close>; when no edge is that close to the
  maximum, the code unwraps nothing and panics, which is an error value here.
\<close>

datatype select_error = SelectCondition cond_error | NoHeaviestEdge

subsection \<open>Weights\<close>

definition max_weight :: "PipelineEdge list \<Rightarrow> f64" where
  "max_weight es = fold (\<lambda>e acc. f64_max acc (e_weight e)) es (Inf True)"

definition weight_ties :: "PipelineEdge list \<Rightarrow> PipelineEdge list" where
  "weight_ties es = filter (\<lambda>e. f64_lt (f64_abs (f64_sub (e_weight e) (max_weight es))) EPSILON) es"

definition pick_by_weight :: "PipelineEdge list \<Rightarrow> string option" where
  "pick_by_weight es = min_text (map e_target (weight_ties es))"

definition heaviest :: "PipelineEdge list \<Rightarrow> (select_error, string option) sum" where
  "heaviest es = (case pick_by_weight es of Some t \<Rightarrow> Inr (Some t) | None \<Rightarrow> Inl NoHeaviestEdge)"

subsection \<open>The five steps\<close>

fun condition_matches :: "PipelineEdge list \<Rightarrow> NodeOutcome \<Rightarrow> (cond_error, PipelineEdge list) sum" where
  "condition_matches [] out = Inr []"
| "condition_matches (e # es) out = (case e_condition e of
       None \<Rightarrow> condition_matches es out
     | Some cond \<Rightarrow> and_then (matches cond out) (\<lambda>m.
         and_then (condition_matches es out) (\<lambda>rest. Inr (if m then e # rest else rest))))"

definition suggested_target :: "PipelineGraph \<Rightarrow> string \<Rightarrow> PipelineEdge list \<Rightarrow> string option" where
  "suggested_target g current outgoing = (case hm_get (g_nodes g) current of
       None \<Rightarrow> None
     | Some n \<Rightarrow> (case n_suggested_next n of
         None \<Rightarrow> None
       | Some t \<Rightarrow> if list_ex (\<lambda>e. e_target e = t) outgoing then Some t else None))"

definition labelled_target :: "PipelineEdge list \<Rightarrow> NodeOutcome \<Rightarrow> string option" where
  "labelled_target outgoing out =
     map_option e_target (List.find (\<lambda>e. case e_label e of Some l \<Rightarrow> str_contains (o_content out) l | None \<Rightarrow> False) outgoing)"

definition select_next_edge :: "PipelineGraph \<Rightarrow> string \<Rightarrow> NodeOutcome \<Rightarrow> (select_error, string option) sum" where
  "select_next_edge g current out =
     (let outgoing = filter (\<lambda>e. e_source e = current) (g_edges g) in
      if outgoing = [] then Inr None
      else (case condition_matches outgoing out of
          Inl e \<Rightarrow> Inl (SelectCondition e)
        | Inr matched \<Rightarrow>
            if matched \<noteq> [] then heaviest matched
            else (case suggested_target g current outgoing of
                Some t \<Rightarrow> Inr (Some t)
              | None \<Rightarrow> (case labelled_target outgoing out of
                  Some t \<Rightarrow> Inr (Some t)
                | None \<Rightarrow>
                    let unconditional = filter (\<lambda>e. e_condition e = None) outgoing in
                    if unconditional \<noteq> [] then heaviest unconditional
                    else Inr (min_text (map e_target outgoing))))))"

end
