(* ===== verification/Checkpoint.thy ===== *)
theory Checkpoint
  imports Dag_Routing "HOL-Library.Multiset"
begin

text \<open>
  Model of \<^verbatim>\<open>crates/octos-pipeline/src/checkpoint.rs\<close> and of \<^verbatim>\<open>build_resume_skip_set\<close> in \<^verbatim>\<open>executor.rs\<close>. The store of
  mission checkpoints is one JSON file; \<open>mission_file\<close> tells apart what the code tells apart: no file, a blank file, a
  file that does not decode, and the encoding of a list of snapshots. Writes are atomic, as the code's rename makes
  them. The interface \<^verbatim>\<open>CheckpointStore\<close> is the locale \<open>checkpoint_store\<close>, with the promises its comments make; the
  file store is its instance. Times are plain numbers: no operation computes with them.
\<close>

subsection \<open>Run-level checkpoints\<close>

record Checkpoint =
  cp_graph_id :: string
  cp_completed :: outcomes
  cp_resume_from :: "string option"

definition checkpoint_new :: "string \<Rightarrow> Checkpoint" where
  "checkpoint_new gid = \<lparr>cp_graph_id = gid, cp_completed = [], cp_resume_from = None\<rparr>"

definition checkpoint_record :: "NodeOutcome \<Rightarrow> Checkpoint \<Rightarrow> Checkpoint" where
  "checkpoint_record out c = c\<lparr>cp_completed := hm_insert (o_node_id out) out (cp_completed c)\<rparr>"

definition is_completed :: "Checkpoint \<Rightarrow> string \<Rightarrow> bool" where
  "is_completed c i = hm_contains (cp_completed c) i"

definition get_outcome :: "Checkpoint \<Rightarrow> string \<Rightarrow> NodeOutcome option" where
  "get_outcome c i = hm_get (cp_completed c) i"

definition set_resume_from :: "string \<Rightarrow> Checkpoint \<Rightarrow> Checkpoint" where
  "set_resume_from i c = c\<lparr>cp_resume_from := Some i\<rparr>"

definition count_by_status :: "Checkpoint \<Rightarrow> OutcomeStatus \<Rightarrow> nat" where
  "count_by_status c s = length (filter (\<lambda>out. o_status out = s) (hm_values (cp_completed c)))"

subsection \<open>Mission checkpoints\<close>

record PersistedCheckpoint =
  pc_graph_id :: string
  pc_node_id :: string
  pc_name :: string
  pc_resumable :: bool
  pc_sequence :: u64
  pc_timestamp_ms :: nat

definition from_declaration :: "string \<Rightarrow> string \<Rightarrow> MissionCheckpoint \<Rightarrow> u64 \<Rightarrow> nat \<Rightarrow> PersistedCheckpoint" where
  "from_declaration gid i decl seq now = \<lparr>pc_graph_id = gid, pc_node_id = i, pc_name = mc_name decl,
     pc_resumable = mc_resumable decl, pc_sequence = seq, pc_timestamp_ms = now\<rparr>"

datatype mission_file = Missing | Blank | Garbled | Snapshots "PersistedCheckpoint list"

datatype store_error = DecodeFailed

fun file_list :: "mission_file \<Rightarrow> (store_error, PersistedCheckpoint list) sum" where
  "file_list Missing = Inr []"
| "file_list Blank = Inr []"
| "file_list Garbled = Inl DecodeFailed"
| "file_list (Snapshots cs) = Inr (sort_key pc_sequence cs)"

definition file_persist :: "PersistedCheckpoint \<Rightarrow> mission_file \<Rightarrow> (store_error, mission_file) sum" where
  "file_persist c file = and_then (file_list file) (\<lambda>cs. Inr (Snapshots (cs @ [c])))"

definition file_clear_all :: "mission_file \<Rightarrow> mission_file" where
  "file_clear_all file = Missing"

text \<open>\<^verbatim>\<open>latest\<close>, the default method of the interface, pops the list.\<close>

definition latest :: "('s \<Rightarrow> ('e, PersistedCheckpoint list) sum) \<Rightarrow> 's \<Rightarrow> ('e, PersistedCheckpoint option) sum" where
  "latest listed s = and_then (listed s) (\<lambda>cs. Inr (if cs = [] then None else Some (last cs)))"

subsection \<open>Resuming\<close>

definition build_resume_skip_set :: "('e, PersistedCheckpoint list) sum option \<Rightarrow> string set" where
  "build_resume_skip_set listing = (case listing of
       Some (Inr cs) \<Rightarrow> set (map pc_node_id cs) | _ \<Rightarrow> {})"

subsection \<open>The store interface\<close>

locale checkpoint_store =
  fixes listed :: "'s \<Rightarrow> ('e, PersistedCheckpoint list) sum"
    and persist :: "PersistedCheckpoint \<Rightarrow> 's \<Rightarrow> ('e, 's) sum"
    and clear_all :: "'s \<Rightarrow> 's"
  assumes listed_sorted: "listed s = Inr cs \<Longrightarrow> sorted (map pc_sequence cs)"
    and persist_adds: "listed s = Inr cs \<Longrightarrow>
      \<exists>s1 cs1. persist c s = Inr s1 \<and> listed s1 = Inr cs1 \<and> mset cs1 = add_mset c (mset cs)"
    and cleared: "listed (clear_all s) = Inr []"
begin

text \<open>A snapshot never gets lost: after persisting, the store lists the old snapshots and the new one.\<close>

lemma persist_set:
  assumes "listed s = Inr cs" "persist c s = Inr s1" "listed s1 = Inr cs1"
  shows "set cs1 = insert c (set cs)"
proof -
  have "mset cs1 = add_mset c (mset cs)" using persist_adds[OF assms(1), of c] assms(2,3) by auto
  then show ?thesis by (metis set_mset_add_mset_insert set_mset_mset)
qed

text \<open>A persisted node is skipped by a run that resumes from the store.\<close>

lemma persist_resumes:
  assumes "listed s = Inr cs" "persist c s = Inr s1"
  shows "build_resume_skip_set (Some (listed s1)) = insert (pc_node_id c) (build_resume_skip_set (Some (listed s)))"
proof -
  obtain cs1 where cs1: "listed s1 = Inr cs1" using persist_adds[OF assms(1), of c] assms(2) by auto
  with persist_set[OF assms cs1] assms(1) show ?thesis by (simp add: build_resume_skip_set_def)
qed

text \<open>The latest snapshot is one with the largest sequence number.\<close>

lemma latest_largest:
  assumes "latest listed s = Inr (Some c)"
  shows "\<exists>cs. listed s = Inr cs \<and> c \<in> set cs \<and> (\<forall>d \<in> set cs. pc_sequence d \<le> pc_sequence c)"
proof -
  obtain cs where cs: "listed s = Inr cs" "cs \<noteq> []" "c = last cs"
    using assms by (cases "listed s") (auto simp: latest_def split: if_splits)
  have "sorted (map pc_sequence (butlast cs @ [last cs]))" using listed_sorted[OF cs(1)] cs(2) by simp
  then have "\<forall>d \<in> set (butlast cs @ [last cs]). pc_sequence d \<le> pc_sequence (last cs)"
    by (auto simp: sorted_append)
  with cs show ?thesis by (simp add: append_butlast_last_id)
qed

lemma clear_resumes_nothing: "build_resume_skip_set (Some (listed (clear_all s))) = {}"
  by (simp add: cleared build_resume_skip_set_def)

end

interpretation file_store: checkpoint_store file_list file_persist file_clear_all
proof
  fix s cs and c :: PersistedCheckpoint
  show "file_list s = Inr cs \<Longrightarrow> sorted (map pc_sequence cs)" by (cases s) auto
  show "file_list s = Inr cs \<Longrightarrow>
    \<exists>s1 cs1. file_persist c s = Inr s1 \<and> file_list s1 = Inr cs1 \<and> mset cs1 = add_mset c (mset cs)"
    by (auto simp: file_persist_def)
qed (simp add: file_clear_all_def)

subsection \<open>Properties\<close>

text \<open>A mission checkpoint survives and is resumed from: when the store can be read, persisting a snapshot succeeds, the
  store then lists exactly the earlier snapshots and the new one in order of their sequence numbers, a run that
  resumes skips the snapshot's node and what was skipped before, and the latest snapshot has the largest number; clearing the
  store makes the next run start fresh.\<close>

theorem checkpoint_store_roundtrip:
  assumes "file_list file = Inr cs"
  shows "(\<exists>file1 cs1. file_persist c file = Inr file1 \<and> file_list file1 = Inr cs1 \<and> set cs1 = insert c (set cs)
      \<and> sorted (map pc_sequence cs1)
      \<and> build_resume_skip_set (Some (file_list file1)) = insert (pc_node_id c) (build_resume_skip_set (Some (file_list file)))
      \<and> (\<exists>d \<in> set cs1. latest file_list file1 = Inr (Some d) \<and> (\<forall>x \<in> set cs1. pc_sequence x \<le> pc_sequence d)))
    \<and> build_resume_skip_set (Some (file_list (file_clear_all file))) = {}"
proof -
  obtain file1 cs1 where f: "file_persist c file = Inr file1" "file_list file1 = Inr cs1"
    using file_store.persist_adds[OF assms, of c] by blast
  note added = file_store.persist_set[OF assms f]
  then have "latest file_list file1 = Inr (Some (last cs1))" using f(2) by (auto simp: latest_def)
  with file_store.latest_largest[OF this] f have "\<exists>d \<in> set cs1. latest file_list file1 = Inr (Some d)
      \<and> (\<forall>x \<in> set cs1. pc_sequence x \<le> pc_sequence d)" by auto
  with f added file_store.listed_sorted[OF f(2)] file_store.persist_resumes[OF assms f(1)] show ?thesis
    by (auto simp: file_store.clear_resumes_nothing)
qed

definition snapshot :: "string \<Rightarrow> bool \<Rightarrow> u64 \<Rightarrow> PersistedCheckpoint" where
  "snapshot i resumable seq = from_declaration ''g'' i \<lparr>mc_name = ''m'', mc_resumable = resumable\<rparr> seq 0"

theorem checkpoint_store_roundtrip_witness:
  "\<exists>file1. file_persist (snapshot ''b'' True 1) (Snapshots [snapshot ''a'' True 0]) = Inr file1
     \<and> build_resume_skip_set (Some (file_list file1)) = {''a'', ''b''}"
  using checkpoint_store_roundtrip[of "Snapshots [snapshot ''a'' True 0]" "[snapshot ''a'' True 0]" "snapshot ''b'' True 1"]
  by (auto simp: build_resume_skip_set_def snapshot_def from_declaration_def)

text \<open>Two things the comments promise do not hold. A snapshot declared as not resumable is resumed from all the same: its
  node is skipped. And since the sequence number is a counter of the process and not of the run, the first snapshot
  of a restarted process has number 0 and is not the latest: the store answers with an older one.\<close>

theorem checkpoint_promises_broken:
  "build_resume_skip_set (Some (file_list (Snapshots [snapshot ''a'' False 0]))) = {''a''}
   \<and> (case file_persist (snapshot ''b'' True 0) (Snapshots [snapshot ''a'' True 5]) of
        Inr file1 \<Rightarrow> latest file_list file1 = Inr (Some (snapshot ''a'' True 5)) | Inl _ \<Rightarrow> False)"
  by (simp add: build_resume_skip_set_def file_persist_def latest_def snapshot_def from_declaration_def)

end
