(* ===== verification/Walk_Executor.thy ===== *)
theory Walk_Executor
  imports Fan_Out Guard Edge_Selection Checkpoint
begin

text \<open>
  Model of the single-path walk, \<^verbatim>\<open>execute_graph\<close> of \<^verbatim>\<open>crates/octos-pipeline/src/executor.rs\<close>, the executor's default: it
  visits one node at a time, fans out at parallel and dynamic nodes, and leaves each node by the edge that
  \<open>select_next_edge\<close> picks. Its local variables are the record \<open>walk_state\<close>; one pass through the loop body is \<open>walk_step\<close>. The
  loop itself need not end, so it is a partial function, whose value \<open>None\<close> means that it runs forever. Visit
  counters and the worker counter are natural numbers: they saturate in the code, at a value that no run reaches.
\<close>

subsection \<open>State\<close>

datatype walk_error = WalkExec exec_error | WalkSelect select_error | NodeNotFound string | ConvergeMissing string
  | TargetNotFound string | FanoutExceeded nat nat | NoCodergenHandler | EmptyModelPool string | LostOutcome string

record 'w walk_host =
  wh_fan :: "'w fan_host"
  wh_guards :: "guard list"
  wh_checkpoints :: "('w \<Rightarrow> (store_error, PersistedCheckpoint list) sum) option"
  wh_persist :: "PersistedCheckpoint \<Rightarrow> 'w \<Rightarrow> bool \<times> 'w"
  wh_sequence :: "'w \<Rightarrow> u64"
  wh_count_persisted :: "'w \<Rightarrow> 'w"
  wh_now_ms :: "'w \<Rightarrow> nat"

abbreviation wh_host :: "'w walk_host \<Rightarrow> 'w host" where
  "wh_host h \<equiv> fh_host (wh_fan h)"

record walk_state =
  wk_current :: string
  wk_completed :: outcomes
  wk_summaries :: "NodeSummary list"
  wk_total_tokens :: TokenUsage
  wk_node_costs :: "NodeCost list"
  wk_task_ids :: "(string, string) hashmap"
  wk_parallel_executed :: "string set"
  wk_visit_counts :: "(string, nat) hashmap"
  wk_fanout :: nat
  wk_started_ns :: int

datatype walk_verdict = Goto walk_state | Return PipelineResult | Raise walk_error

definition walk_files :: "walk_state \<Rightarrow> string set" where
  "walk_files st = set (concat (map o_files_modified (hm_values (wk_completed st))))"

definition finish :: "bool \<Rightarrow> string \<Rightarrow> string set \<Rightarrow> walk_state \<Rightarrow> PipelineResult" where
  "finish success output files st = \<lparr>pr_output = output, pr_success = success, pr_token_usage = wk_total_tokens st,
     pr_node_summaries = wk_summaries st, pr_files_modified = files, pr_node_costs = wk_node_costs st\<rparr>"

definition follow :: "PipelineGraph \<Rightarrow> NodeOutcome \<Rightarrow> bool \<Rightarrow> string set \<Rightarrow> walk_state \<Rightarrow> walk_verdict" where
  "follow g out success files st = (case select_next_edge g (wk_current st) out of
       Inl e \<Rightarrow> Raise (WalkSelect e)
     | Inr (Some i) \<Rightarrow> Goto (st\<lparr>wk_current := i\<rparr>)
     | Inr None \<Rightarrow> Return (finish success (o_content out) files st))"

definition node_label :: "PipelineNode \<Rightarrow> string" where
  "node_label node = (case n_label node of Some l \<Rightarrow> l | None \<Rightarrow> n_id node)"

definition settle :: "NodeOutcome \<Rightarrow> NodeSummary \<Rightarrow> walk_state \<Rightarrow> walk_state" where
  "settle out summary st = st\<lparr>wk_completed := hm_insert (wk_current st) out (wk_completed st),
     wk_summaries := wk_summaries st @ [summary]\<rparr>"

definition bare_summary :: "string \<Rightarrow> string \<Rightarrow> string option \<Rightarrow> TokenUsage \<Rightarrow> int \<Rightarrow> bool \<Rightarrow> NodeSummary" where
  "bare_summary i label model usage duration_ns success = \<lparr>ns_node_id = i, ns_label = label, ns_model = model,
     ns_token_usage = usage, ns_duration_ms = word_of_int (duration_ns div 1000000), ns_success = success\<rparr>"

definition bare_outcome :: "string \<Rightarrow> OutcomeStatus \<Rightarrow> string \<Rightarrow> TokenUsage \<Rightarrow> NodeOutcome" where
  "bare_outcome i status content usage = \<lparr>o_node_id = i, o_status = status, o_content = content, o_token_usage = usage,
     o_files_modified = []\<rparr>"

subsection \<open>Nodes that are not dispatched\<close>

text \<open>A node already run by a fan-out is passed through.\<close>

definition pass_through :: "PipelineGraph \<Rightarrow> walk_state \<Rightarrow> walk_verdict" where
  "pass_through g st = (case hm_get (wk_completed st) (wk_current st) of
       None \<Rightarrow> Raise (LostOutcome (wk_current st))
     | Some out \<Rightarrow> follow g out (o_status out = Pass) {} st)"

text \<open>A node recorded in a checkpoint passes with empty content.\<close>

definition resume_node :: "PipelineGraph \<Rightarrow> PipelineNode \<Rightarrow> walk_state \<Rightarrow> walk_verdict" where
  "resume_node g node st =
     (let synth = bare_outcome (wk_current st) Pass [] no_tokens
      in follow g synth True {} (settle synth (bare_summary (wk_current st) (node_label node) (n_model node) no_tokens 0 True) st))"

definition guard_skip :: "PipelineGraph \<Rightarrow> PipelineNode \<Rightarrow> string \<Rightarrow> walk_state \<Rightarrow> walk_verdict" where
  "guard_skip g node reason st =
     (let skipped = bare_outcome (n_id node) Fail (''Node '' @ quote (n_id node) @ '' skipped by pipeline guard: '' @ reason) no_tokens;
          st1 = settle skipped (bare_summary (n_id node) (node_label node) (n_model node) no_tokens 0 False) st
      in follow g skipped False (walk_files st1) st1)"

definition guard_aborted_result :: "PipelineNode \<Rightarrow> string \<Rightarrow> walk_state \<Rightarrow> PipelineResult" where
  "guard_aborted_result node reason st =
     finish False (''Pipeline aborted by guard before node '' @ quote (n_id node) @ '': '' @ reason) (walk_files st) st"

subsection \<open>Inputs\<close>

definition predecessors :: "PipelineGraph \<Rightarrow> string \<Rightarrow> string list" where
  "predecessors g i = map e_source (filter (\<lambda>e. e_target e = i) (g_edges g))"

definition walk_ctx :: "'w walk_host \<Rightarrow> run_ctx \<Rightarrow> walk_state \<Rightarrow> HandlerContext" where
  "walk_ctx h rc st =
     (let preds = predecessors (rc_graph rc) (wk_current st);
          outs = List.map_filter (hm_get (wk_completed st)) preds
      in \<lparr>hc_input = (if preds = [] then rc_user_input rc else join section_break (map o_content outs)),
          hc_completed = wk_completed st, hc_predecessor_outcomes = outs, hc_working_dir = ho_working_dir (wh_host h)\<rparr>)"

definition prepare_peer :: "run_ctx \<Rightarrow> u32 option \<Rightarrow> nat \<Rightarrow> PipelineNode \<Rightarrow> PipelineNode" where
  "prepare_peer rc remaining peers node = (case remaining of
       Some rem \<Rightarrow> cap_node_output_tokens_for_remaining_budget rem peers (prepare_node rc None node)
     | None \<Rightarrow> prepare_node rc None node)"

definition spent_text :: "walk_state \<Rightarrow> string" where
  "spent_text st = '': spent '' @ nat_text (unat (total_pipeline_tokens (wk_total_tokens st))) @ '' tokens''"

definition walk_remaining :: "run_ctx \<Rightarrow> walk_state \<Rightarrow> u32 option" where
  "walk_remaining rc st = remaining_pipeline_tokens (g_max_total_tokens (rc_graph rc)) (wk_total_tokens st)"

subsection \<open>Fan-out\<close>

definition release_all :: "'w walk_host \<Rightarrow> f64 option list \<Rightarrow> 'w \<Rightarrow> 'w" where
  "release_all h reservations w = fold (ho_release (wh_host h)) reservations w"

text \<open>The loop that prepares the workers. When one cannot be prepared, the reservations made before it are dropped.\<close>

fun prepare_workers :: "'w walk_host \<Rightarrow> run_ctx \<Rightarrow> HandlerContext \<Rightarrow> (string \<times> (walk_error, PipelineNode \<times> 'w handler) sum) list \<Rightarrow> 'w
    \<Rightarrow> (walk_error, ('w worker \<times> f64 option) list) sum \<times> 'w" where
  "prepare_workers h rc ctx [] w = (Inr [], w)"
| "prepare_workers h rc ctx ((i, candidate) # rest) w = (case candidate of
       Inl e \<Rightarrow> (Inl e, w)
     | Inr (node, handler) \<Rightarrow> (case ho_reserve (wh_host h) (g_id (rc_graph rc)) node w of
         (Inl e, w1) \<Rightarrow> (Inl (WalkExec (BudgetBreach e)), w1)
       | (Inr res, w1) \<Rightarrow> (case prepare_workers h rc ctx rest w1 of
           (Inl e, w2) \<Rightarrow> (Inl e, ho_release (wh_host h) res w2)
         | (Inr ws, w2) \<Rightarrow> (Inr ((\<lparr>wo_id = i, wo_node = node, wo_handler = handler, wo_ctx = ctx\<rparr>, res) # ws), w2))))"

definition target_candidate :: "'w walk_host \<Rightarrow> run_ctx \<Rightarrow> u32 option \<Rightarrow> nat \<Rightarrow> string
    \<Rightarrow> string \<times> (walk_error, PipelineNode \<times> 'w handler) sum" where
  "target_candidate h rc remaining peers i = (i, (case hm_get (g_nodes (rc_graph rc)) i of
       None \<Rightarrow> Inl (TargetNotFound i)
     | Some node \<Rightarrow> (case ho_handler (wh_host h) (n_handler node) of
         None \<Rightarrow> Inl (WalkExec (NoHandler (n_handler node)))
       | Some handler \<Rightarrow> Inr (prepare_peer rc remaining peers node, handler))))"

definition codergen_targets :: "PipelineGraph \<Rightarrow> string list \<Rightarrow> nat" where
  "codergen_targets g targets =
     max (length (filter (\<lambda>n. n_handler n = Codergen) (List.map_filter (hm_get (g_nodes g)) targets))) 1"

text \<open>What a fan-out leaves behind once its workers have answered; \<open>mark\<close> tells whether the workers are nodes of the
  graph that the walk must not run again, \<open>usage\<close> is what planning cost.\<close>

definition merge_fan :: "PipelineNode \<Rightarrow> bool \<Rightarrow> TokenUsage \<Rightarrow> WorkerResults \<Rightarrow> int \<Rightarrow> walk_state \<Rightarrow> walk_state" where
  "merge_fan node mark usage rs duration_ns st =
     (let st1 = st\<lparr>wk_total_tokens := add_usage (wk_total_tokens st) (wrs_tokens rs),
            wk_summaries := wk_summaries st @ wrs_summaries rs,
            wk_completed := fold (\<lambda>(i, out). hm_insert i out) (wrs_outcomes rs) (wk_completed st),
            wk_parallel_executed := (if mark then wk_parallel_executed st \<union> set (map fst (wrs_outcomes rs))
              else wk_parallel_executed st)\<rparr>
      in settle (bare_outcome (n_id node) (fan_status rs) (wrs_merged_content rs) usage)
           (bare_summary (n_id node) (node_label node) None usage duration_ns (fan_status rs = Pass)) st1)"

definition converge :: "PipelineNode \<Rightarrow> string \<Rightarrow> string \<Rightarrow> nat \<Rightarrow> WorkerResults \<Rightarrow> walk_state \<Rightarrow> walk_verdict" where
  "converge node kind target workers rs st =
     (if fan_status rs = Error \<and> \<not> n_continue_on_error node
      then Return (finish False (''Pipeline failed at '' @ kind @ '' node '' @ quote (n_id node) @ '': all '' @ nat_text workers
             @ '' workers failed'') {} st)
      else Goto (st\<lparr>wk_current := target\<rparr>))"

definition run_fan :: "'w walk_host \<Rightarrow> PipelineNode \<Rightarrow> string \<Rightarrow> string \<Rightarrow> bool \<Rightarrow> TokenUsage \<Rightarrow> int
    \<Rightarrow> ('w worker \<times> f64 option) list \<Rightarrow> walk_state \<Rightarrow> 'w \<Rightarrow> walk_verdict \<times> 'w" where
  "run_fan h node kind target mark usage started workers st w =
     (let (results, w1) = join_all (wh_fan h) (map fst workers) w;
          w2 = release_all h (map snd workers) w1;
          rs = process_worker_results (wh_fan h) results w2;
          st1 = merge_fan node mark usage rs (ho_clock_ns (wh_host h) w2 - started)
            (st\<lparr>wk_fanout := wk_fanout st + length workers\<rparr>)
      in (converge node kind target (length workers) rs st1, w2))"

definition parallel_node :: "'w walk_host \<Rightarrow> run_ctx \<Rightarrow> PipelineNode \<Rightarrow> walk_state \<Rightarrow> 'w \<Rightarrow> walk_verdict \<times> 'w" where
  "parallel_node h rc node st w = (case n_converge node of
       None \<Rightarrow> (Raise (ConvergeMissing (n_id node)), w)
     | Some target \<Rightarrow>
         let g = rc_graph rc;
             targets = map e_target (filter (\<lambda>e. e_source e = wk_current st) (g_edges g));
             remaining = walk_remaining rc st
         in if fanout_cap (wh_fan h) < wk_fanout st + length targets
            then (Raise (FanoutExceeded (wk_fanout st) (fanout_cap (wh_fan h))), w)
            else if remaining = Some 0
            then (Return (finish False (''Pipeline token budget exhausted before parallel node '' @ quote (n_id node) @ spent_text st)
                    {} st), w)
            else (case prepare_workers h rc (walk_ctx h rc st)
                    (map (target_candidate h rc remaining (codergen_targets g targets)) targets) w of
                (Inl e, w1) \<Rightarrow> (Raise e, w1)
              | (Inr workers, w1) \<Rightarrow>
                  run_fan h node ''fan-out'' target True no_tokens (ho_clock_ns (wh_host h) w) workers st w1))"

definition planning_prompt :: "run_ctx \<Rightarrow> PipelineNode \<Rightarrow> string" where
  "planning_prompt rc node =
     fold (\<lambda>(k, v) acc. str_replace ([CHR 0x7B] @ k @ [CHR 0x7D]) (case v of Some s \<Rightarrow> s | None \<Rightarrow> []) acc) (rc_variables rc)
       (case n_prompt node of Some p \<Rightarrow> p | None \<Rightarrow> default_planning_prompt)"

definition planner_key :: "PipelineGraph \<Rightarrow> PipelineNode \<Rightarrow> string option" where
  "planner_key g node = (case n_planner_model node of
       Some m \<Rightarrow> Some m | None \<Rightarrow> (case n_model node of Some m \<Rightarrow> Some m | None \<Rightarrow> g_default_model g))"

definition synthetic_candidate :: "'w walk_host \<Rightarrow> run_ctx \<Rightarrow> PipelineNode \<Rightarrow> 'w handler \<Rightarrow> u32 option \<Rightarrow> nat \<Rightarrow> nat \<times> DynamicTask
    \<Rightarrow> string \<times> (walk_error, PipelineNode \<times> 'w handler) sum" where
  "synthetic_candidate h rc node handler remaining workers it =
     (let synth = synthetic_node (wh_fan h) node (model_pool (rc_graph rc) node) (fst it) (snd it);
          resolved = synth\<lparr>n_prompt := map_option (resolve_prompt (rc_variables rc)) (n_prompt synth)\<rparr>
      in (n_id synth, Inr (case remaining of
            Some rem \<Rightarrow> cap_node_output_tokens_for_remaining_budget rem workers resolved | None \<Rightarrow> resolved, handler)))"

definition dynamic_node :: "'w walk_host \<Rightarrow> run_ctx \<Rightarrow> PipelineNode \<Rightarrow> walk_state \<Rightarrow> 'w \<Rightarrow> walk_verdict \<times> 'w" where
  "dynamic_node h rc node st w = (case n_converge node of
       None \<Rightarrow> (Raise (ConvergeMissing (n_id node)), w)
     | Some target \<Rightarrow>
         let g = rc_graph rc;
             ctx = walk_ctx h rc st;
             max_tasks = (case n_max_tasks node of Some m \<Rightarrow> m | None \<Rightarrow> 8);
             ((tasks, usage), w1) = planned_tasks (wh_fan h) (planner_key g node) (planning_prompt rc node) (hc_input ctx) max_tasks w;
             st1 = st\<lparr>wk_total_tokens := add_usage (wk_total_tokens st) usage\<rparr>;
             remaining = walk_remaining rc st1
         in if remaining = Some 0
            then (Return (finish False (''Pipeline token budget exhausted after dynamic_parallel planner '' @ quote (n_id node)
                    @ spent_text st1) {} st1), w1)
            else if model_pool g node = [] then (Raise (EmptyModelPool (n_id node)), w1)
            else if fanout_cap (wh_fan h) < wk_fanout st1 + length tasks
            then (Raise (FanoutExceeded (wk_fanout st1) (fanout_cap (wh_fan h))), w1)
            else (case ho_handler (wh_host h) Codergen of
                None \<Rightarrow> (Raise NoCodergenHandler, w1)
              | Some handler \<Rightarrow> (case prepare_workers h rc ctx
                    (map (synthetic_candidate h rc node handler remaining (length tasks)) (enumerate 0 tasks)) w1 of
                  (Inl e, w2) \<Rightarrow> (Raise e, w2)
                | (Inr workers, w2) \<Rightarrow>
                    run_fan h node ''dynamic_parallel'' target False usage (ho_clock_ns (wh_host h) w) workers st1 w2)))"

subsection \<open>Sequential nodes\<close>

fun persist_checkpoints :: "'w walk_host \<Rightarrow> string \<Rightarrow> string \<Rightarrow> MissionCheckpoint list \<Rightarrow> 'w \<Rightarrow> 'w" where
  "persist_checkpoints h gid i [] w = w"
| "persist_checkpoints h gid i (decl # decls) w =
     (let (ok, w1) = wh_persist h (from_declaration gid i decl (wh_sequence h w) (wh_now_ms h w)) w
      in persist_checkpoints h gid i decls (if ok then wh_count_persisted h w1 else w1))"

definition after_visit :: "PipelineGraph \<Rightarrow> PipelineNode \<Rightarrow> NodeOutcome \<Rightarrow> walk_state \<Rightarrow> walk_verdict" where
  "after_visit g node out st =
     (if n_goal_gate node \<and> o_status out = Pass then Return (finish True (o_content out) (walk_files st) st)
      else if o_status out = Error \<and> \<not> n_continue_on_error node
      then Return (finish False (''Pipeline failed at node '' @ quote (n_id node) @ '': '' @ o_content out) {} st)
      else (case g_max_total_tokens g of
          Some max_total \<Rightarrow>
            let spent = total_pipeline_tokens (wk_total_tokens st) in
            if max_total \<le> spent
            then Return (finish False (''Pipeline token budget exhausted after node '' @ quote (n_id node) @ '': spent ''
                   @ nat_text (unat spent) @ ''/'' @ nat_text (unat max_total) @ '' tokens'') {} st)
            else follow g out (o_status out = Pass) (walk_files st) st
        | None \<Rightarrow> follow g out (o_status out = Pass) (walk_files st) st))"

definition skipped_visit :: "PipelineGraph \<Rightarrow> PipelineNode \<Rightarrow> PipelineNode \<Rightarrow> string \<Rightarrow> int \<Rightarrow> walk_state \<Rightarrow> walk_verdict" where
  "skipped_visit g node prepared label duration_ns st =
     (let st1 = settle (skipped_outcome node) (bare_summary (n_id node) label (n_model prepared) no_tokens duration_ns False) st
      in follow g (skipped_outcome node) False (walk_files st1) st1)"

definition completed_visit :: "'w walk_host \<Rightarrow> run_ctx \<Rightarrow> 'w handler \<Rightarrow> PipelineNode \<Rightarrow> PipelineNode \<Rightarrow> HandlerContext \<Rightarrow> f64 option \<Rightarrow> int
    \<Rightarrow> NodeOutcome \<Rightarrow> walk_state \<Rightarrow> 'w \<Rightarrow> walk_verdict \<times> 'w" where
  "completed_visit h rc handler node prepared ctx reservation started first st w =
     (let (recovered, w1) = try_recovery (wh_host h) handler node prepared ctx started first w;
          (final, w2) = validate_outcome (wh_host h) node recovered w1;
          row = node_output (wh_host h) node prepared reservation (ho_clock_ns (wh_host h) w1 - started) final;
          w3 = mark_task (wh_host h) node final (hm_get (wk_task_ids st) (n_id node)) (ho_release (wh_host h) reservation w2);
          st1 = settle final (dn_summary row) (st\<lparr>wk_total_tokens := add_usage (wk_total_tokens st) (o_token_usage final),
            wk_node_costs := wk_node_costs st @ [dn_cost row]\<rparr>);
          w4 = (if o_status final = Pass \<and> wh_checkpoints h \<noteq> None
            then persist_checkpoints h (g_id (rc_graph rc)) (n_id node) (n_checkpoints node) w3 else w3)
      in (after_visit (rc_graph rc) node final st1, w4))"

definition sequential_node :: "'w walk_host \<Rightarrow> run_ctx \<Rightarrow> PipelineNode \<Rightarrow> walk_state \<Rightarrow> 'w \<Rightarrow> walk_verdict \<times> 'w" where
  "sequential_node h rc node st w = (case ho_handler (wh_host h) (n_handler node) of
       None \<Rightarrow> (Raise (WalkExec (NoHandler (n_handler node))), w)
     | Some handler \<Rightarrow>
         let remaining = walk_remaining rc st in
         if remaining = Some 0
         then (Return (finish False (''Pipeline token budget exhausted before node '' @ quote (n_id node) @ spent_text st) {} st), w)
         else
           let prepared = prepare_node rc remaining node; ctx = walk_ctx h rc st; started = ho_clock_ns (wh_host h) w in
           (case ho_register (wh_host h) (n_id node) w of
              (Inl reason, w1) \<Rightarrow>
                (Return (finish False (''Pipeline aborted before node '' @ quote (n_id node) @ '': '' @ reason) {} st), w1)
            | (Inr task, w1) \<Rightarrow>
                let (st1, w2) = (case task of
                      Some t \<Rightarrow> (st\<lparr>wk_task_ids := hm_insert (n_id node) t (wk_task_ids st)\<rparr>, ho_mark_running (wh_host h) t w1)
                    | None \<Rightarrow> (st, w1))
                in (case ho_reserve (wh_host h) (g_id (rc_graph rc)) prepared w2 of
                    (Inl e, w3) \<Rightarrow> (Raise (WalkExec (BudgetBreach e)), w3)
                  | (Inr reservation, w3) \<Rightarrow>
                      (case dispatch_node (ho_runtime (wh_host h)) handler prepared ctx (n_max_retries node) w3 of
                         (Inl e, w4) \<Rightarrow> (Raise (WalkExec e), ho_release (wh_host h) reservation w4)
                       | (Inr (DispatchSkipped label), w4) \<Rightarrow>
                           (skipped_visit (rc_graph rc) node prepared label (ho_clock_ns (wh_host h) w4 - started) st1,
                            ho_release (wh_host h) reservation w4)
                       | (Inr (DispatchCompleted out), w4) \<Rightarrow>
                           completed_visit h rc handler node prepared ctx reservation started out st1 w4))))"

subsection \<open>The walk\<close>

definition count_visit :: "walk_state \<Rightarrow> walk_state" where
  "count_visit st = st\<lparr>wk_visit_counts := hm_insert (wk_current st)
     (Suc (case hm_get (wk_visit_counts st) (wk_current st) of Some n \<Rightarrow> n | None \<Rightarrow> 0)) (wk_visit_counts st)\<rparr>"

definition guard_context :: "'w walk_host \<Rightarrow> run_ctx \<Rightarrow> PipelineNode \<Rightarrow> walk_state \<Rightarrow> 'w \<Rightarrow> GuardContext" where
  "guard_context h rc node st w = \<lparr>gc_graph = rc_graph rc, gc_node = node,
     gc_cumulative_tokens = total_pipeline_tokens (wk_total_tokens st),
     gc_elapsed_ns = ho_clock_ns (wh_host h) w - wk_started_ns st, gc_completed_count = length (wk_completed st),
     gc_visit_counts = wk_visit_counts st\<rparr>"

definition dispatch_visit :: "'w walk_host \<Rightarrow> run_ctx \<Rightarrow> PipelineNode \<Rightarrow> walk_state \<Rightarrow> 'w \<Rightarrow> walk_verdict \<times> 'w" where
  "dispatch_visit h rc node st w =
     (case evaluate_before_node_guards (wh_guards h) (guard_context h rc node st w) of
        Inl e \<Rightarrow> (Return (guard_aborted_result node (''guard error: '' @ e) st), w)
      | Inr (AbortRun reason) \<Rightarrow> (Return (guard_aborted_result node reason st), w)
      | Inr (SkipNode reason) \<Rightarrow> (guard_skip (rc_graph rc) node reason st, w)
      | Inr AllowNode \<Rightarrow>
          if n_handler node = Parallel then parallel_node h rc node st w
          else if n_handler node = DynamicParallel then dynamic_node h rc node st w
          else sequential_node h rc node st w)"

definition walk_step :: "'w walk_host \<Rightarrow> run_ctx \<Rightarrow> string set \<Rightarrow> walk_state \<Rightarrow> 'w \<Rightarrow> walk_verdict \<times> 'w" where
  "walk_step h rc skip st w = (case hm_get (g_nodes (rc_graph rc)) (wk_current st) of
       None \<Rightarrow> (Raise (NodeNotFound (wk_current st)), w)
     | Some node \<Rightarrow>
         if wk_current st \<in> wk_parallel_executed st then (pass_through (rc_graph rc) st, w)
         else if wk_current st \<in> skip then (resume_node (rc_graph rc) node st, w)
         else dispatch_visit h rc node (count_visit st) w)"

partial_function (option) walk_loop :: "'w walk_host \<Rightarrow> run_ctx \<Rightarrow> string set \<Rightarrow> walk_state \<Rightarrow> 'w
    \<Rightarrow> ((walk_error, PipelineResult) sum \<times> 'w) option" where
  "walk_loop h rc skip st w = (case walk_step h rc skip st w of
       (Goto st1, w1) \<Rightarrow> walk_loop h rc skip st1 w1
     | (Return r, w1) \<Rightarrow> Some (Inr r, w1)
     | (Raise e, w1) \<Rightarrow> Some (Inl e, w1))"

definition walk_init :: "string \<Rightarrow> int \<Rightarrow> walk_state" where
  "walk_init start started = \<lparr>wk_current = start, wk_completed = [], wk_summaries = [], wk_total_tokens = no_tokens,
     wk_node_costs = [], wk_task_ids = [], wk_parallel_executed = {}, wk_visit_counts = [], wk_fanout = 0,
     wk_started_ns = started\<rparr>"

definition execute_graph :: "'w walk_host \<Rightarrow> run_ctx \<Rightarrow> string \<Rightarrow> 'w \<Rightarrow> ((walk_error, PipelineResult) sum \<times> 'w) option" where
  "execute_graph h rc start w =
     walk_loop h rc (build_resume_skip_set (map_option (\<lambda>listed. listed w) (wh_checkpoints h)))
       (walk_init start (ho_clock_ns (wh_host h) w)) w"

end
