(* ===== verification/Dag_Abstract.thy ===== *)
theory Dag_Abstract
  imports Dag_Executor
begin

text \<open>
  The scheduler as a transition system. An abstract state forgets tokens, costs, messages and the order of
  the maps: outcomes, prune reasons and retry counts as functions, the number of node runs, and whether a
  node was ever pruned for a failure. Three kinds of step: a ready node runs with any outcome, a node that
  cannot run is pruned, and a back edge whose condition holds erases the region it retries. Invariants are
  proved by rule induction over the reachable states; \<open>forward_step\<close> and the retry of the outer loop are
  shown to be steps of this system.
\<close>

subsection \<open>The transition system\<close>

record sched =
  s_done :: "string \<rightharpoonup> NodeOutcome"
  s_pruned :: "string \<rightharpoonup> PruneReason"
  s_count :: "string \<Rightarrow> nat"
  s_runs :: nat
  s_failed :: bool

abbreviation settled_in :: "sched \<Rightarrow> string set" where
  "settled_in s \<equiv> dom (s_done s) \<union> dom (s_pruned s)"

abbreviation verdict :: "PipelineGraph \<Rightarrow> sched \<Rightarrow> string \<Rightarrow> NodeReadiness" where
  "verdict g s i \<equiv> readiness g i (s_done s) (s_pruned s)"

definition erase :: "string set \<Rightarrow> sched \<Rightarrow> sched" where
  "erase R s = s\<lparr>s_done := s_done s |` (- R), s_pruned := s_pruned s |` (- R)\<rparr>"

definition sched_init :: sched where
  "sched_init = \<lparr>s_done = Map.empty, s_pruned = Map.empty, s_count = (\<lambda>_. 0), s_runs = 0, s_failed = False\<rparr>"

inductive sched_step :: "PipelineGraph \<Rightarrow> sched \<Rightarrow> sched \<Rightarrow> bool" for g where
  run: "i \<in> node_ids g \<Longrightarrow> i \<notin> settled_in s \<Longrightarrow> verdict g s i = Runnable \<Longrightarrow>
    sched_step g s (s\<lparr>s_done := (s_done s)(i \<mapsto> out), s_runs := Suc (s_runs s)\<rparr>)"
| prune: "i \<in> node_ids g \<Longrightarrow> i \<notin> settled_in s \<Longrightarrow> verdict g s i = Prune r \<Longrightarrow>
    sched_step g s (s\<lparr>s_pruned := (s_pruned s)(i \<mapsto> r), s_failed := s_failed s \<or> r = Failure\<rparr>)"
| retry: "e \<in> set (g_edges g) \<Longrightarrow> edge_is_back g e \<Longrightarrow> s_done s (e_source e) = Some src \<Longrightarrow> cond_holds e src \<Longrightarrow>
    s_count s (e_target e) < 10 \<Longrightarrow>
    sched_step g s (erase ((fwd g)\<^sup>* `` {e_target e})
      (s\<lparr>s_count := (s_count s)(e_target e := Suc (s_count s (e_target e)))\<rparr>))"

inductive sched_reach :: "PipelineGraph \<Rightarrow> sched \<Rightarrow> bool" for g where
  start: "sched_reach g sched_init"
| step: "sched_reach g s \<Longrightarrow> sched_step g s t \<Longrightarrow> sched_reach g t"

lemma erase_sel [simp]:
  "s_done (erase R s) = s_done s |` (- R)" "s_pruned (erase R s) = s_pruned s |` (- R)"
  "s_count (erase R s) = s_count s" "s_runs (erase R s) = s_runs s" "s_failed (erase R s) = s_failed s"
  by (simp_all add: erase_def)

lemma sched_reach_steps: "(sched_step g)\<^sup>*\<^sup>* s t \<Longrightarrow> sched_reach g s \<Longrightarrow> sched_reach g t"
  by (induction rule: rtranclp_induct) (auto intro: sched_reach.step)

subsection \<open>A verdict depends on the predecessors only\<close>

lemma readiness_cong:
  assumes "\<And>p. (p, i) \<in> fwd g \<Longrightarrow> C p = C' p" "\<And>p. (p, i) \<in> fwd g \<Longrightarrow> P p = P' p"
  shows "readiness g i C P = readiness g i C' P'"
proof -
  have mem: "(p, i) \<in> fwd g" if "e \<in> set (g_edges g)" "e_source e = p" "e_target e = i" "\<not> edge_is_back g e" for e p
    using that by (force simp: fwd_def)
  have fired: "fired_sources g i C = fired_sources g i C'"
    using assms(1) mem by (force simp: fired_sources_def)
  have "settled_preds g i C P \<longleftrightarrow> settled_preds g i C' P'"
    using assms by (auto simp: settled_preds_def dom_def)
  moreover have "(p, i) \<in> fwd g \<and> lost_input g i C P p \<longleftrightarrow> (p, i) \<in> fwd g \<and> lost_input g i C' P' p" for p
    using assms by (auto simp: lost_input_def fired)
  ultimately show ?thesis using fired by (simp add: readiness_def cong: if_cong)
qed

subsection \<open>The invariant\<close>

definition justified :: "PipelineGraph \<Rightarrow> sched \<Rightarrow> bool" where
  "justified g s \<longleftrightarrow> settled_in s \<subseteq> node_ids g \<and> dom (s_done s) \<inter> dom (s_pruned s) = {}
     \<and> (\<forall>i \<in> dom (s_done s). verdict g s i = Runnable) \<and> (\<forall>i r. s_pruned s i = Some r \<longrightarrow> verdict g s i = Prune r)"

lemma justified_preds: "justified g s \<Longrightarrow> i \<in> settled_in s \<Longrightarrow> (p, i) \<in> fwd g \<Longrightarrow> p \<in> settled_in s"
proof (rule ccontr)
  assume j: "justified g s" "i \<in> settled_in s" "(p, i) \<in> fwd g" "p \<notin> settled_in s"
  then have "verdict g s i = NotReady" by (auto simp: readiness_def settled_preds_def)
  moreover from j(2) have "i \<in> dom (s_done s) \<or> (\<exists>r. s_pruned s i = Some r)" by auto
  ultimately show False using j(1) unfolding justified_def by (metis NodeReadiness.distinct(1,3))
qed

text \<open>Settling one more node changes no verdict of a settled node, and erasing a forward-closed region changes
  none outside it.\<close>

lemma verdict_settle:
  assumes "justified g s" "j \<in> settled_in s" "i \<notin> settled_in s"
    "\<And>p. p \<noteq> i \<Longrightarrow> s_done t p = s_done s p" "\<And>p. p \<noteq> i \<Longrightarrow> s_pruned t p = s_pruned s p"
  shows "verdict g t j = verdict g s j"
proof (rule readiness_cong)
  fix p assume "(p, j) \<in> fwd g"
  then have "p \<noteq> i" using justified_preds[OF assms(1,2)] assms(3) by auto
  then show "s_done t p = s_done s p" "s_pruned t p = s_pruned s p" using assms(4,5) by blast+
qed

lemma verdict_erase:
  assumes "j \<notin> R" "fwd g `` R \<subseteq> R"
  shows "verdict g (erase R s) j = verdict g s j"
proof (rule readiness_cong)
  fix p assume "(p, j) \<in> fwd g"
  then have "p \<notin> R" using assms by auto
  then show "s_done (erase R s) p = s_done s p" "s_pruned (erase R s) p = s_pruned s p" by auto
qed

lemma verdict_self:
  assumes "acyclic (fwd g)" "\<And>p. p \<noteq> i \<Longrightarrow> s_done t p = s_done s p" "\<And>p. p \<noteq> i \<Longrightarrow> s_pruned t p = s_pruned s p"
  shows "verdict g t i = verdict g s i"
proof (rule readiness_cong)
  fix p assume "(p, i) \<in> fwd g"
  then have "p \<noteq> i" using assms(1) by (auto simp: acyclic_def)
  then show "s_done t p = s_done s p" "s_pruned t p = s_pruned s p" using assms(2,3) by blast+
qed

lemma justified_step:
  assumes "sched_step g s t" "justified g s" "acyclic (fwd g)"
  shows "justified g t"
  using assms
proof (induction rule: sched_step.induct)
  case (run i s out)
  let ?t = "s\<lparr>s_done := (s_done s)(i \<mapsto> out), s_runs := Suc (s_runs s)\<rparr>"
  have old: "verdict g ?t j = verdict g s j" if "j \<in> settled_in s" for j
    by (rule verdict_settle[OF run.prems(1) that run.hyps(2)]) simp_all
  have self: "verdict g ?t i = verdict g s i" by (rule verdict_self[OF run.prems(2)]) simp_all
  have "verdict g ?t j = Runnable" if "j \<in> dom (s_done ?t)" for j
    using that old[of j] self run.hyps(3) run.prems(1) by (cases "j = i") (auto simp: justified_def)
  moreover have "verdict g ?t j = Prune r" if "s_pruned ?t j = Some r" for j r
    using that old[of j] run.prems(1) by (auto simp: justified_def)
  ultimately show ?case using run by (auto simp: justified_def)
next
  case (prune i s r)
  let ?t = "s\<lparr>s_pruned := (s_pruned s)(i \<mapsto> r), s_failed := s_failed s \<or> r = Failure\<rparr>"
  have old: "verdict g ?t j = verdict g s j" if "j \<in> settled_in s" for j
    by (rule verdict_settle[OF prune.prems(1) that prune.hyps(2)]) simp_all
  have self: "verdict g ?t i = verdict g s i" by (rule verdict_self[OF prune.prems(2)]) simp_all
  have "verdict g ?t j = Prune q" if "s_pruned ?t j = Some q" for j q
    using that old[of j] self prune.hyps(3) prune.prems(1) by (cases "j = i") (auto simp: justified_def)
  moreover have "verdict g ?t j = Runnable" if "j \<in> dom (s_done ?t)" for j
    using that old[of j] prune.prems(1) by (auto simp: justified_def)
  ultimately show ?case using prune by (auto simp: justified_def)
next
  case (retry e s src)
  let ?R = "(fwd g)\<^sup>* `` {e_target e}"
  let ?s = "s\<lparr>s_count := (s_count s)(e_target e := Suc (s_count s (e_target e)))\<rparr>"
  have closed: "fwd g `` ?R \<subseteq> ?R" by (auto intro: rtrancl_into_rtrancl)
  have keep: "verdict g (erase ?R ?s) j = verdict g s j" if "j \<notin> ?R" for j
    using verdict_erase[OF that closed, of ?s] by simp
  have "verdict g (erase ?R ?s) j = Runnable" if "j \<in> dom (s_done (erase ?R ?s))" for j
    using that keep[of j] retry.prems(1) by (auto simp: justified_def)
  moreover have "verdict g (erase ?R ?s) j = Prune r" if "s_pruned (erase ?R ?s) j = Some r" for j r
    using that keep[of j] retry.prems(1) by (auto simp: justified_def restrict_map_def split: if_splits)
  ultimately show ?case using retry.prems(1) by (auto simp: justified_def)
qed

lemma reach_justified:
  assumes "sched_reach g s" "acyclic (fwd g)"
  shows "justified g s"
  using assms(1)
proof induction
  case start
  show ?case by (simp add: justified_def sched_init_def)
next
  case (step s t)
  then show ?case using justified_step assms(2) by blast
qed

subsection \<open>Bounds\<close>

definition open_count :: "PipelineGraph \<Rightarrow> sched \<Rightarrow> nat" where
  "open_count g s = card (node_ids g - settled_in s)"

definition rounds :: "PipelineGraph \<Rightarrow> (string \<Rightarrow> nat) \<Rightarrow> nat" where
  "rounds g c = 1 + (\<Sum>t \<in> retry_targets g. c t)"

definition bounded :: "PipelineGraph \<Rightarrow> sched \<Rightarrow> bool" where
  "bounded g s \<longleftrightarrow> (\<forall>t. s_count s t \<le> 10) \<and> s_runs s + open_count g s \<le> card (node_ids g) * rounds g (s_count s)"

lemma open_count_le: "open_count g s \<le> card (node_ids g)"
  unfolding open_count_def by (intro card_mono) auto

lemma open_count_settle:
  assumes "i \<in> node_ids g" "i \<notin> settled_in s" "settled_in t = insert i (settled_in s)"
  shows "open_count g s = Suc (open_count g t)"
proof -
  have "node_ids g - settled_in s = insert i (node_ids g - settled_in t)" using assms by auto
  moreover have "i \<notin> node_ids g - settled_in t" using assms(3) by auto
  ultimately show ?thesis by (simp add: open_count_def card_insert_disjoint)
qed

lemma rounds_retry: "t \<in> retry_targets g \<Longrightarrow> rounds g (c(t := Suc (c t))) = Suc (rounds g c)"
  by (simp add: rounds_def sum.remove[of "retry_targets g" t])

lemma bounded_step:
  assumes "sched_step g s t" "bounded g s"
  shows "bounded g t"
  using assms
proof (induction rule: sched_step.induct)
  case (run i s out)
  let ?t = "s\<lparr>s_done := (s_done s)(i \<mapsto> out), s_runs := Suc (s_runs s)\<rparr>"
  have "open_count g s = Suc (open_count g ?t)" by (rule open_count_settle[OF run.hyps(1,2)]) simp
  with run.prems show ?case by (simp add: bounded_def)
next
  case (prune i s r)
  let ?t = "s\<lparr>s_pruned := (s_pruned s)(i \<mapsto> r), s_failed := s_failed s \<or> r = Failure\<rparr>"
  have "open_count g s = Suc (open_count g ?t)" by (rule open_count_settle[OF prune.hyps(1,2)]) simp
  with prune.prems show ?case by (simp add: bounded_def)
next
  case (retry e s src)
  let ?c = "(s_count s)(e_target e := Suc (s_count s (e_target e)))"
  let ?t = "erase ((fwd g)\<^sup>* `` {e_target e}) (s\<lparr>s_count := ?c\<rparr>)"
  have "e_target e \<in> retry_targets g" using retry.hyps by (auto simp: retry_targets_def)
  then have r: "rounds g ?c = Suc (rounds g (s_count s))" by (rule rounds_retry)
  have "s_runs s + open_count g ?t \<le> card (node_ids g) * rounds g (s_count s) + card (node_ids g)"
    using retry.prems open_count_le[of g ?t] by (simp add: bounded_def)
  then show ?case using retry.prems retry.hyps(5) r by (simp add: bounded_def)
qed

lemma reach_bounded: "sched_reach g s \<Longrightarrow> bounded g s"
proof (induction rule: sched_reach.induct)
  case start
  show ?case by (simp add: bounded_def sched_init_def open_count_def rounds_def)
next
  case (step s t)
  then show ?case using bounded_step by blast
qed

lemma reach_runs:
  assumes "sched_reach g s"
  shows "s_runs s \<le> card (node_ids g) * (1 + 10 * card (retry_targets g))"
proof -
  have b: "bounded g s" by (rule reach_bounded[OF assms])
  then have "rounds g (s_count s) \<le> 1 + 10 * card (retry_targets g)"
    using sum_bounded_above[of "retry_targets g" "s_count s" 10] by (simp add: bounded_def rounds_def)
  then have "card (node_ids g) * rounds g (s_count s) \<le> card (node_ids g) * (1 + 10 * card (retry_targets g))"
    by (rule mult_le_mono2)
  moreover have "s_runs s \<le> card (node_ids g) * rounds g (s_count s)" using b by (simp add: bounded_def)
  ultimately show ?thesis by (rule order_trans[rotated])
qed

subsection \<open>Progress\<close>

text \<open>While a node is unsettled, some node can run or be pruned.\<close>

lemma not_stuck:
  assumes "acyclic (fwd g)" "fwd g \<subseteq> node_ids g \<times> UNIV" "i \<in> node_ids g" "i \<notin> settled_in s"
  shows "\<exists>j \<in> node_ids g - settled_in s. verdict g s j \<noteq> NotReady"
proof -
  have "finite (fwd g)" by (simp add: fwd_def)
  then have "wf (fwd g)" using assms(1) by (rule finite_acyclic_wf)
  then obtain j where j: "j \<in> node_ids g - settled_in s" "\<And>p. (p, j) \<in> fwd g \<Longrightarrow> p \<notin> node_ids g - settled_in s"
    using assms(3,4) wfE_min[of "fwd g" i "node_ids g - settled_in s"] by blast
  then have "settled_preds g j (s_done s) (s_pruned s)" using assms(2) unfolding settled_preds_def by blast
  then have "verdict g s j \<noteq> NotReady" by (simp add: readiness_def)
  with j(1) show ?thesis by blast
qed

end
