(* ===== verification/Dag_Properties.thy ===== *)
theory Dag_Properties
  imports Dag_Abstract
begin

text \<open>
  The executor refines the transition system of \<open>Dag_Abstract\<close>, and what follows for whole runs of a
  validated graph: the number of node runs is bounded, a run that ends by itself has settled every node in
  the only way its outcomes allow, a success means what it says, and the only faults are those of the host.
\<close>

subsection \<open>Abstraction\<close>

definition abs_state :: "dag_state \<Rightarrow> sched" where
  "abs_state st = \<lparr>s_done = hm_get (ds_completed st), s_pruned = hm_get (ds_pruned st),
     s_count = (\<lambda>t. unat (retries st t)), s_runs = length (ds_summaries st), s_failed = ds_any_failure_prune st\<rparr>"

lemma abs_sel [simp]:
  "s_done (abs_state st) = hm_get (ds_completed st)" "s_pruned (abs_state st) = hm_get (ds_pruned st)"
  "s_count (abs_state st) t = unat (retries st t)" "s_runs (abs_state st) = length (ds_summaries st)"
  "s_failed (abs_state st) = ds_any_failure_prune st"
  by (simp_all add: abs_state_def)

lemma abs_init: "abs_state init_state = sched_init"
  by (simp add: abs_state_def init_state_def sched_init_def retries_def)

lemma settled_abs: "settled st i \<longleftrightarrow> i \<in> settled_in (abs_state st)"
  by (auto simp: settled_def simp flip: hm_contains_get)

lemma verdict_abs: "conditions_parse g \<Longrightarrow> verdict_of g st i = Inr (verdict g (abs_state st) i)"
  by (simp add: verdict_of_def readiness_eq)

lemma abs_record:
  "abs_state (record_run i out st) = (abs_state st)\<lparr>s_done := (s_done (abs_state st))(i \<mapsto> dn_outcome out),
     s_runs := Suc (s_runs (abs_state st))\<rparr>"
  by (simp add: abs_state_def record_run_def Let_def update_conv' retries_def)

lemma abs_prune:
  "abs_state (prune_node i r st) = (abs_state st)\<lparr>s_pruned := (s_pruned (abs_state st))(i \<mapsto> r),
     s_failed := s_failed (abs_state st) \<or> r = Failure\<rparr>"
  by (simp add: abs_state_def prune_node_def update_conv' retries_def)

lemma get_drop_region: "hm_get (drop_region R m) = hm_get m |` (- R)"
  by (induction m) (auto simp: drop_region_def restrict_map_def fun_eq_iff)

lemma abs_retry:
  assumes "retries st t < MAX_NODE_RUNS"
  shows "abs_state (retry_target g t src st) = erase ((fwd g)\<^sup>* `` {t})
    ((abs_state st)\<lparr>s_count := (s_count (abs_state st))(t := Suc (s_count (abs_state st) t))\<rparr>)"
proof -
  have "unat (retries st t) < 10" using assms by (simp add: MAX_NODE_RUNS_def word_less_nat_alt)
  then have "unat (retries st t + 1) = Suc (unat (retries st t))" by (subst unat_add_lem[THEN iffD1]) simp_all
  then have "(\<lambda>u. unat (retries (retry_target g t src st) u)) = (\<lambda>u. unat (retries st u))(t := Suc (unat (retries st t)))"
    by (auto simp: retries_retry fun_eq_iff)
  then show ?thesis
    by (simp add: abs_state_def erase_def get_drop_region forward_reachable_reach retry_target_def Let_def)
qed

lemma back_fires_iff: "unwrap_false (dag_back_edge_fires e src) \<longleftrightarrow> cond_holds e src"
  by (auto simp: dag_back_edge_fires_def unwrap_false_def matches_def cond_holds_def and_then_Inr and_then_Inl
      split: option.splits sum.splits)

subsection \<open>Refinement\<close>

lemma retry_first_refines:
  assumes "retry_first g es st = Some st1" "set es \<subseteq> set (g_edges g)"
  shows "sched_step g (abs_state st) (abs_state st1)"
proof -
  obtain e src where e: "e \<in> set es" "back_edge_ready g st e" "hm_get (ds_completed st) (e_source e) = Some src"
    "st1 = retry_target g (e_target e) src st"
    using retry_first_Some[OF assms(1)] .
  then have ready: "edge_is_back g e" "cond_holds e src" "retries st (e_target e) < MAX_NODE_RUNS"
    by (auto simp: back_edge_ready_def back_fires_iff)
  have "sched_step g (abs_state st) (erase ((fwd g)\<^sup>* `` {e_target e})
      ((abs_state st)\<lparr>s_count := (s_count (abs_state st))(e_target e := Suc (s_count (abs_state st) (e_target e)))\<rparr>))"
    using e(1,3) assms(2) ready by (intro sched_step.retry[of e g "abs_state st" src]) (auto simp: MAX_NODE_RUNS_def word_less_nat_alt)
  then show ?thesis unfolding e(4) abs_retry[OF ready(3)] .
qed

lemma run_refines:
  assumes "conditions_parse g" "next_runnable g st = Some i"
  shows "sched_step g (abs_state st) (abs_state (record_run i out st))"
  unfolding abs_record using next_runnable_Some[OF assms(2)]
  by (intro sched_step.run) (auto simp: settled_abs verdict_abs[OF assms(1)])

lemma prune_refines:
  assumes "conditions_parse g" "next_prunable g st = Some (i, r)"
  shows "sched_step g (abs_state st) (abs_state (prune_node i r st))"
  unfolding abs_prune using next_prunable_Some[OF assms(2)]
  by (intro sched_step.prune) (auto simp: settled_abs verdict_abs[OF assms(1)])

definition goal_passed :: "PipelineGraph \<Rightarrow> sched \<Rightarrow> bool" where
  "goal_passed g s \<longleftrightarrow> (\<exists>i n out. hm_get (g_nodes g) i = Some n \<and> n_goal_gate n \<and> s_done s i = Some out \<and> o_status out = Pass)"

text \<open>An early end: the state the run had reached, and success only for a goal gate.\<close>

definition ended_at :: "PipelineGraph \<Rightarrow> dag_state \<Rightarrow> PipelineResult \<Rightarrow> bool" where
  "ended_at g st r \<longleftrightarrow> (\<exists>b msg. r = early_exit b msg st g \<and> (b \<longrightarrow> goal_passed g (abs_state st)))"

lemma ended_fail [intro]: "ended_at g st (early_exit False msg st g)"
  by (auto simp: ended_at_def)

lemma after_run_cases:
  obtains (finish) r where "after_run g i out st = Finish r" "ended_at g (record_run i out st) r"
  | (plain) "after_run g i out st = Advance (record_run i out st)"
  | (again) st1 where "after_run g i out st = Advance st1"
      "retry_first g (filter (\<lambda>e. e_source e = i) (g_edges g)) (record_run i out st) = Some st1"
proof -
  let ?st = "record_run i out st"
  have got: "hm_get (ds_completed ?st) i = Some (dn_outcome out)" by (simp add: record_run_def Let_def update_conv)
  have goal: "goal_passed g (abs_state ?st)"
    if "case hm_get (g_nodes g) i of Some n \<Rightarrow> n_goal_gate n | None \<Rightarrow> False" "o_status (dn_outcome out) = Pass"
    using that got unfolding goal_passed_def by (auto split: option.splits)
  show thesis
  proof (cases "after_run g i out st")
    case (Advance st1)
    then have "st1 = (case retry_first g (filter (\<lambda>e. e_source e = i) (g_edges g)) ?st of Some s \<Rightarrow> s | None \<Rightarrow> ?st)"
      by (auto simp: after_run_def Let_def split: if_splits option.splits)
    with Advance plain again show thesis by (auto split: option.splits)
  next
    case (Finish r)
    then have "\<exists>b msg. r = early_exit b msg ?st g \<and> (b \<longrightarrow> goal_passed g (abs_state ?st))"
      using goal unfolding after_run_def Let_def by (auto split: if_splits option.splits)
    with Finish finish show thesis by (auto simp: ended_at_def)
  qed (auto simp: after_run_def Let_def split: if_splits option.splits)
qed

lemma after_run_refines:
  assumes "conditions_parse g" "next_runnable g st = Some i"
  shows "after_run g i out st = Advance st1 \<Longrightarrow> (sched_step g)\<^sup>+\<^sup>+ (abs_state st) (abs_state st1)"
    and "after_run g i out st = Finish r \<Longrightarrow> \<exists>st1. (sched_step g)\<^sup>+\<^sup>+ (abs_state st) (abs_state st1) \<and> ended_at g st1 r"
proof -
  note one = run_refines[OF assms, of out]
  show "(sched_step g)\<^sup>+\<^sup>+ (abs_state st) (abs_state st1)" if "after_run g i out st = Advance st1"
  proof (cases rule: after_run_cases[of g i out st])
    case plain
    with that one show ?thesis by auto
  next
    case (again st2)
    with that have "sched_step g (abs_state (record_run i out st)) (abs_state st1)"
      using retry_first_refines[of g "filter (\<lambda>e. e_source e = i) (g_edges g)"] by auto
    with one show ?thesis by (rule tranclp.trancl_into_trancl[OF tranclp.r_into_trancl])
  qed (use that in simp)
  show "\<exists>st1. (sched_step g)\<^sup>+\<^sup>+ (abs_state st) (abs_state st1) \<and> ended_at g st1 r" if "after_run g i out st = Finish r"
    using that one by (cases rule: after_run_cases[of g i out st]) auto
qed

lemma run_node_cases:
  assumes "run_node h rc st i w = (r, w1)"
  shows "(\<exists>q. r = Finish q \<and> ended_at (rc_graph rc) st q)
    \<or> (\<exists>e. r = Fault e \<and> (\<exists>c. e = BadCondition c \<and> fired_forward_into (rc_graph rc) i (ds_completed st) = Inl c))
    \<or> (\<exists>e fired rem fb. r = Fault e \<and> dag_execute_node h rc i fired (ds_completed st) rem fb w = (Inl e, w1))
    \<or> (\<exists>out. r = after_run (rc_graph rc) i out st)"
  using assms unfolding run_node_def Let_def
  by (auto split: if_splits sum.splits prod.splits DagStep.splits)

lemma forward_step_refinement:
  assumes "conditions_parse (rc_graph rc)"
  shows "forward_step h rc st w = (Advance st1, w1) \<Longrightarrow> (sched_step (rc_graph rc))\<^sup>+\<^sup>+ (abs_state st) (abs_state st1)"
    and "forward_step h rc st w = (Finish r, w1) \<Longrightarrow>
      \<exists>st1. (sched_step (rc_graph rc))\<^sup>*\<^sup>* (abs_state st) (abs_state st1) \<and> ended_at (rc_graph rc) st1 r"
proof -
  let ?g = "rc_graph rc"
  show "(sched_step ?g)\<^sup>+\<^sup>+ (abs_state st) (abs_state st1)" if step: "forward_step h rc st w = (Advance st1, w1)"
  proof (cases "next_runnable ?g st")
    case None
    then obtain p r where "next_prunable ?g st = Some (p, r)" "st1 = prune_node p r st"
      using step by (auto simp: forward_step_def split: option.splits)
    then show ?thesis using prune_refines[OF assms] by auto
  next
    case (Some i)
    with step have "run_node h rc st i w = (Advance st1, w1)" by (simp add: forward_step_def)
    then show ?thesis using run_node_cases[of h rc st i w "Advance st1" w1] after_run_refines(1)[OF assms Some] by auto
  qed
  show "\<exists>st1. (sched_step ?g)\<^sup>*\<^sup>* (abs_state st) (abs_state st1) \<and> ended_at ?g st1 r"
    if step: "forward_step h rc st w = (Finish r, w1)"
  proof (cases "next_runnable ?g st")
    case None
    with step show ?thesis by (auto simp: forward_step_def split: option.splits)
  next
    case (Some i)
    with step have "run_node h rc st i w = (Finish r, w1)" by (simp add: forward_step_def)
    from run_node_cases[OF this] consider "ended_at ?g st r" | out where "after_run ?g i out st = Finish r" by auto
    then show ?thesis
    proof cases
      case 2
      with after_run_refines(2)[OF assms Some] show ?thesis using tranclp_into_rtranclp by fast
    qed blast
  qed
qed

lemma quiescent_none:
  assumes "forward_step h rc st w = (Quiescent, w1)"
  shows "next_runnable (rc_graph rc) st = None \<and> next_prunable (rc_graph rc) st = None"
proof (cases "next_runnable (rc_graph rc) st")
  case None
  with assms show ?thesis by (auto simp: forward_step_def split: option.splits)
next
  case (Some i)
  with assms have "run_node h rc st i w = (Quiescent, w1)" by (simp add: forward_step_def)
  from run_node_cases[OF this] obtain out where "Quiescent = after_run (rc_graph rc) i out st" by blast
  then show ?thesis by (cases rule: after_run_cases[of "rc_graph rc" i out st]) auto
qed

subsection \<open>Whole runs\<close>

lemma forward_pass_run:
  "forward_pass h rc st w = (res, w1) \<Longrightarrow> sched_reach (rc_graph rc) (abs_state st) \<Longrightarrow> conditions_parse (rc_graph rc) \<Longrightarrow>
    (\<forall>st1. res = Settled st1 \<longrightarrow> sched_reach (rc_graph rc) (abs_state st1)
       \<and> next_runnable (rc_graph rc) st1 = None \<and> next_prunable (rc_graph rc) st1 = None)
    \<and> (\<forall>r. res = Ended r \<longrightarrow> (\<exists>st1. sched_reach (rc_graph rc) (abs_state st1) \<and> ended_at (rc_graph rc) st1 r))"
proof (induction h rc st w rule: forward_pass.induct)
  case (1 h rc st w)
  obtain r w2 where step: "forward_step h rc st w = (r, w2)" by fastforce
  note unf = forward_pass.simps[of h rc st w]
  show ?case
  proof (cases r)
    case (Advance st2)
    have "forward_step h rc st w = (Advance st2, w2)" using step Advance by simp
    from forward_step_refinement(1)[OF "1.prems"(3) this]
    have "sched_reach (rc_graph rc) (abs_state st2)"
      by (rule sched_reach_steps[OF tranclp_into_rtranclp "1.prems"(2)])
    moreover have "forward_pass h rc st2 w2 = (res, w1)" using "1.prems"(1) step Advance by (simp add: unf)
    ultimately show ?thesis using "1.IH"[OF step[symmetric] Advance] "1.prems"(3) by blast
  next
    case Quiescent
    with step have "next_runnable (rc_graph rc) st = None \<and> next_prunable (rc_graph rc) st = None"
      using quiescent_none[of h rc st w w2] by simp
    moreover from "1.prems"(1) step Quiescent have "res = Settled st" by (simp add: unf)
    ultimately show ?thesis using "1.prems"(2) by simp
  next
    case (Finish q)
    with step obtain st1 where "(sched_step (rc_graph rc))\<^sup>*\<^sup>* (abs_state st) (abs_state st1)" "ended_at (rc_graph rc) st1 q"
      using forward_step_refinement(2)[OF "1.prems"(3), of h st w q w2] by auto
    then have "sched_reach (rc_graph rc) (abs_state st1) \<and> ended_at (rc_graph rc) st1 q"
      using sched_reach_steps[OF _ "1.prems"(2)] by blast
    moreover from "1.prems"(1) step Finish have "res = Ended q" by (simp add: unf)
    ultimately show ?thesis by auto
  next
    case (Fault e)
    with "1.prems"(1) step have "res = Broke e" by (simp add: unf)
    then show ?thesis by simp
  qed
qed

text \<open>How a run that returns a result ended.\<close>

definition quiet_end :: "PipelineGraph \<Rightarrow> dag_state \<Rightarrow> PipelineResult \<Rightarrow> bool" where
  "quiet_end g st r \<longleftrightarrow> r = dag_build_result None None st g (ds_any_failure_prune st)
     \<and> next_runnable g st = None \<and> next_prunable g st = None \<and> retry_first g (g_edges g) st = None"

lemma dag_loop_run:
  "dag_loop h rc st w = (Inr r, w1) \<Longrightarrow> sched_reach (rc_graph rc) (abs_state st) \<Longrightarrow> conditions_parse (rc_graph rc) \<Longrightarrow>
    \<exists>st1. sched_reach (rc_graph rc) (abs_state st1) \<and> (ended_at (rc_graph rc) st1 r \<or> quiet_end (rc_graph rc) st1 r)"
proof (induction h rc st w rule: dag_loop.induct)
  case (1 h rc st w)
  obtain res w2 where pass: "forward_pass h rc st w = (res, w2)" by fastforce
  note run = forward_pass_run[OF pass "1.prems"(2,3)] and unf = dag_loop.simps[of h rc st w]
  show ?case
  proof (cases res)
    case (Settled st2)
    show ?thesis
    proof (cases "retry_first (rc_graph rc) (g_edges (rc_graph rc)) st2")
      case None
      with Settled run pass "1.prems" show ?thesis by (auto simp: unf quiet_end_def)
    next
      case (Some st3)
      with retry_first_refines have "sched_step (rc_graph rc) (abs_state st2) (abs_state st3)" by blast
      with run Settled have "sched_reach (rc_graph rc) (abs_state st3)" by (auto intro: sched_reach.step)
      with 1 pass Settled Some show ?thesis by (simp add: unf)
    qed
  next
    case (Ended q)
    with run pass "1.prems" show ?thesis by (auto simp: unf)
  qed (use "1.prems"(1) pass in \<open>auto simp: unf\<close>)
qed

lemma execute_run:
  assumes "conditions_parse (rc_graph rc)" "execute_graph_dag h rc w = (Inr r, w1)"
  obtains st where "sched_reach (rc_graph rc) (abs_state st)" "ended_at (rc_graph rc) st r \<or> quiet_end (rc_graph rc) st r"
  using dag_loop_run[of h rc init_state w r w1] assms
  by (auto simp: execute_graph_dag_def abs_init intro: sched_reach.start)

lemma result_runs: "ended_at g st r \<or> quiet_end g st r \<Longrightarrow> pr_node_summaries r = ds_summaries st"
  by (auto simp: ended_at_def quiet_end_def early_exit_def dag_build_result_def Let_def)

subsection \<open>Validated graphs\<close>

lemma valid_parses: "graph_valid g c \<Longrightarrow> conditions_parse g"
  by (auto simp: graph_valid_def edges_valid_def conditions_parse_def)

lemma valid_fwd:
  assumes "graph_valid g c"
  shows "acyclic (fwd g)" "fwd g \<subseteq> node_ids g \<times> UNIV"
  using assms fwd_acyclic[of g] by (auto simp: graph_valid_def edges_valid_def fwd_def)

lemma min_text_all: "min_text (filter P xs) = None \<Longrightarrow> x \<in> set xs \<Longrightarrow> \<not> P x"
  by (simp add: min_text_None filter_empty_conv)

lemma quiet_settled:
  assumes "graph_valid g c" "next_runnable g st = None" "next_prunable g st = None"
  shows "node_ids g \<subseteq> settled_in (abs_state st)"
proof (rule ccontr)
  assume "\<not> ?thesis"
  then obtain i where i: "i \<in> node_ids g" "i \<notin> settled_in (abs_state st)" by blast
  obtain j where j: "j \<in> node_ids g" "j \<notin> settled_in (abs_state st)" "verdict g (abs_state st) j \<noteq> NotReady"
    using not_stuck[OF valid_fwd[OF assms(1)] i] by blast
  note v = verdict_abs[OF valid_parses[OF assms(1)], of st j]
  from j(1) have key: "j \<in> set (hm_keys (g_nodes g))" by (simp add: node_ids_def)
  have "verdict g (abs_state st) j \<noteq> Runnable"
    using min_text_all[OF assms(2)[unfolded next_runnable_def] key] j(2) v by (auto simp: settled_abs)
  with j(3) obtain r where "prune_verdict g st j = Some r"
    using v by (cases "verdict g (abs_state st) j") (auto simp: prune_verdict_def)
  moreover have none: "min_text (filter (\<lambda>i. \<not> settled st i \<and> prune_verdict g st i \<noteq> None) (hm_keys (g_nodes g))) = None"
  proof (rule ccontr)
    assume "\<not> ?thesis"
    then obtain m where m: "min_text (filter (\<lambda>i. \<not> settled st i \<and> prune_verdict g st i \<noteq> None) (hm_keys (g_nodes g))) = Some m" by blast
    then have "prune_verdict g st m \<noteq> None" using min_text_in by fastforce
    with m assms(3) show False by (auto simp: next_prunable_def)
  qed
  moreover from min_text_all[OF none key] have "settled st j \<or> prune_verdict g st j = None" by blast
  ultimately show False using j(2) by (simp add: settled_abs)
qed

lemma fixpoint_verdict:
  assumes "justified g s" "i \<in> settled_in s"
  shows "i \<in> dom (s_done s) \<longleftrightarrow> verdict g s i = Runnable" "s_pruned s i = Some q \<longleftrightarrow> verdict g s i = Prune q"
proof -
  have d: "verdict g s i = Runnable" if "i \<in> dom (s_done s)" using assms(1) that by (simp add: justified_def)
  have p: "verdict g s i = Prune q" if "s_pruned s i = Some q" for q using assms(1) that by (simp add: justified_def)
  have "i \<in> dom (s_done s) \<or> (\<exists>q. s_pruned s i = Some q)" using assms(2) by auto
  with d p show "i \<in> dom (s_done s) \<longleftrightarrow> verdict g s i = Runnable" "s_pruned s i = Some q \<longleftrightarrow> verdict g s i = Prune q"
    by (metis NodeReadiness.distinct(5) NodeReadiness.inject)+
qed

definition ends_here :: "PipelineGraph \<Rightarrow> sched \<Rightarrow> string \<Rightarrow> NodeOutcome \<Rightarrow> bool" where
  "ends_here g s i out \<longleftrightarrow> s_done s i = Some out
     \<and> (\<forall>e \<in> set (outgoing_forward g i). \<not> edge_fires g e out (continues_on_error g i))"

lemma is_terminal_iff:
  assumes "conditions_parse g"
  shows "is_terminal g (ds_completed st) i \<longleftrightarrow> (\<exists>out. ends_here g (abs_state st) i out)"
proof (cases "hm_get (ds_completed st) i")
  case (Some out)
  have "unwrap_false (dag_forward_edge_fires g e out coe) \<longleftrightarrow> edge_fires g e out coe" if "e \<in> set (outgoing_forward g i)" for e coe
    using forward_fires[OF assms, of e out coe] that by (simp add: outgoing_set unwrap_false_def)
  with Some show ?thesis by (auto simp: is_terminal_def ends_here_def list_ex_iff)
qed (simp add: is_terminal_def ends_here_def)

lemma map_filter_set: "set (List.map_filter f xs) = {y. \<exists>x \<in> set xs. f x = Some y}"
  by (force simp: List.map_filter_def)

text \<open>The verdict of a run that ended by itself.\<close>

lemma quiet_success:
  assumes "conditions_parse g"
  shows "pr_success (dag_build_result None None st g (ds_any_failure_prune st)) \<longleftrightarrow>
    \<not> s_failed (abs_state st) \<and> (\<exists>i out. ends_here g (abs_state st) i out)
    \<and> (\<forall>i out. ends_here g (abs_state st) i out \<longrightarrow> o_status out = Pass)"
proof -
  let ?ts = "dag_terminal_nodes g (ds_completed st)"
  have mem: "i \<in> set ?ts \<longleftrightarrow> (\<exists>out. ends_here g (abs_state st) i out)" for i
    using is_terminal_iff[OF assms, of st i]
    by (auto simp: dag_terminal_nodes_def ends_here_def dest: map_of_SomeD intro: rev_image_eqI)
  have "(\<forall>out \<in> set (List.map_filter (hm_get (ds_completed st)) ?ts). o_status out = Pass)
      \<longleftrightarrow> (\<forall>i out. ends_here g (abs_state st) i out \<longrightarrow> o_status out = Pass)"
    using mem by (fastforce simp: map_filter_set ends_here_def)
  moreover have "?ts \<noteq> [] \<longleftrightarrow> (\<exists>i out. ends_here g (abs_state st) i out)"
    using mem by (metis empty_iff empty_set ex_in_conv list.set_sel(1))
  ultimately show ?thesis by (auto simp: dag_build_result_def Let_def list_all_iff)
qed

lemma failure_prunes_flagged: "sched_reach g s \<Longrightarrow> s_pruned s i = Some Failure \<Longrightarrow> s_failed s"
proof (induction arbitrary: i rule: sched_reach.induct)
  case (step s t)
  from step.hyps(2) step.prems step.IH show ?case
    by (cases rule: sched_step.cases) (auto simp: restrict_map_def split: if_splits)
qed (simp add: sched_init_def)

subsection \<open>A concrete host\<close>

text \<open>For witnesses: the world is the list of statuses the handlers answer with, Pass when it is used up; no
  supervisor, accountant, validators or deadlines.\<close>

definition scripted :: "OutcomeStatus list handler" where
  "scripted node ctx w = (Inr (outcome_of (n_id node) (case w of [] \<Rightarrow> Pass | s # _ \<Rightarrow> s)), tl w)"

definition script_host :: "OutcomeStatus list host" where
  "script_host = \<lparr>ho_runtime = \<lparr>rt_sleep = \<lambda>_ w. w, rt_expires = \<lambda>_ _. False, rt_cancel = \<lambda>_ w. w,
       rt_spawn_failure_hook = \<lambda>_ _ w. w, rt_shutdown = \<lambda>_. False\<rparr>,
     ho_handler = \<lambda>_. Some scripted, ho_register = \<lambda>_ w. (Inr None, w), ho_mark_running = \<lambda>_ w. w,
     ho_mark_completed = \<lambda>_ _ w. w, ho_mark_failed = \<lambda>_ _ w. w, ho_reserve = \<lambda>_ _ w. (Inr None, w),
     ho_release = \<lambda>_ w. w, ho_clock_ns = \<lambda>_. 0, ho_validators = \<lambda>_ w. (Inr (), w),
     ho_project_cost_usd = \<lambda>_ _ _. None, ho_recovery_input = \<lambda>_ _. [], ho_working_dir = []\<rparr>"

definition run_of :: "PipelineGraph \<Rightarrow> run_ctx" where
  "run_of g = \<lparr>rc_graph = g, rc_user_input = ''go'', rc_variables = []\<rparr>"

definition gates :: "PipelineGraph \<Rightarrow> PipelineGraph" where
  "gates g = g\<lparr>g_nodes := map (\<lambda>(k, n). (k, n\<lparr>n_handler := Gate\<rparr>)) (g_nodes g)\<rparr>"

text \<open>The verdicts of the node runs, in order.\<close>

definition run_log :: "(exec_error, PipelineResult) sum \<Rightarrow> (string \<times> bool) list" where
  "run_log r = (case r of Inr q \<Rightarrow> map (\<lambda>s. (ns_node_id s, ns_success s)) (pr_node_summaries q) | Inl _ \<Rightarrow> [])"

definition succeeded_run :: "(exec_error, PipelineResult) sum \<Rightarrow> bool option" where
  "succeeded_run r = (case r of Inr q \<Rightarrow> Some (pr_success q) | Inl _ \<Rightarrow> None)"

definition solo_graph :: PipelineGraph where
  "solo_graph = gates (bare_graph [''start''] [])"

lemma solo_valid: "graph_valid solo_graph default_context"
proof -
  have "validate_with_context solo_graph default_context = Inr ()" by code_simp
  then show ?thesis by (auto simp: validate_with_context_def Let_def diagnostics_exact split: if_splits)
qed

lemma solo_run:
  "\<exists>r. execute_graph_dag script_host (run_of solo_graph) [] = (Inr r, []) \<and> pr_success r
     \<and> map ns_node_id (pr_node_summaries r) = [''start'']"
proof -
  have "(case execute_graph_dag script_host (run_of solo_graph) [] of
      (Inr r, w) \<Rightarrow> w = [] \<and> pr_success r \<and> map ns_node_id (pr_node_summaries r) = [''start''] | _ \<Rightarrow> False)"
    by code_simp
  then show ?thesis by (auto split: prod.splits sum.splits)
qed

subsection \<open>Properties\<close>

text \<open>C2. The executor refines the scheduler's transition system: on a graph whose conditions parse, every pass of the inner
  loop that continues is one or two steps of the system, a node run possibly followed by the retry its outcome
  triggers or a prune; a pass that ends the run does so in a state the system reaches; and a retry of the outer loop is
  a step of the system.\<close>

theorem forward_step_refines:
  assumes "conditions_parse (rc_graph rc)"
  shows "(forward_step h rc st w = (Advance st1, w1) \<longrightarrow> (sched_step (rc_graph rc))\<^sup>+\<^sup>+ (abs_state st) (abs_state st1))
    \<and> (forward_step h rc st w = (Finish r, w1) \<longrightarrow>
        (\<exists>st2. (sched_step (rc_graph rc))\<^sup>*\<^sup>* (abs_state st) (abs_state st2) \<and> ended_at (rc_graph rc) st2 r))
    \<and> (retry_first (rc_graph rc) (g_edges (rc_graph rc)) st = Some st1 \<longrightarrow> sched_step (rc_graph rc) (abs_state st) (abs_state st1))"
  using forward_step_refinement(1)[OF assms, of h st w st1 w1] forward_step_refinement(2)[OF assms, of h st w r w1]
    retry_first_refines[of "rc_graph rc" "g_edges (rc_graph rc)" st st1] by simp

theorem forward_step_refines_witness:
  "\<exists>st1 w1. forward_step script_host (run_of solo_graph) init_state [] = (Advance st1, w1)
     \<and> (sched_step solo_graph)\<^sup>+\<^sup>+ sched_init (abs_state st1)"
proof -
  have parse: "conditions_parse (rc_graph (run_of solo_graph))" using valid_parses[OF solo_valid] by (simp add: run_of_def)
  have "(case forward_step script_host (run_of solo_graph) init_state [] of (Advance st1, w1) \<Rightarrow> True | _ \<Rightarrow> False)"
    by code_simp
  then obtain st1 w1 where s: "forward_step script_host (run_of solo_graph) init_state [] = (Advance st1, w1)"
    by (auto split: prod.splits step_result.splits)
  with forward_step_refines[OF parse, of script_host init_state "[]" st1 w1] show ?thesis
    by (auto simp: abs_init run_of_def)
qed

text \<open>C18. Node runs are bounded whatever the handlers answer: a run of a graph whose conditions parse executes at most as many
  nodes as the graph has, times one plus ten for every target of a back edge. The scheduler itself is a total function,
  so every run comes to an end.\<close>

theorem dag_runs_bounded:
  assumes "conditions_parse (rc_graph rc)" "execute_graph_dag h rc w = (Inr r, w1)"
  shows "length (pr_node_summaries r) \<le> card (node_ids (rc_graph rc)) * (1 + 10 * card (retry_targets (rc_graph rc)))"
proof -
  obtain st where st: "sched_reach (rc_graph rc) (abs_state st)" "ended_at (rc_graph rc) st r \<or> quiet_end (rc_graph rc) st r"
    using execute_run[OF assms] .
  with reach_runs[OF st(1)] result_runs[OF st(2)] show ?thesis by simp
qed

theorem dag_runs_bounded_witness:
  "\<exists>r. execute_graph_dag script_host (run_of solo_graph) [] = (Inr r, []) \<and> length (pr_node_summaries r) = 1
     \<and> length (pr_node_summaries r) \<le> card (node_ids solo_graph) * (1 + 10 * card (retry_targets solo_graph))"
proof -
  obtain r where "execute_graph_dag script_host (run_of solo_graph) [] = (Inr r, []) \<and> pr_success r
     \<and> map ns_node_id (pr_node_summaries r) = [''start'']" using solo_run by (rule exE)
  then have r: "execute_graph_dag script_host (run_of solo_graph) [] = (Inr r, [])" "length (pr_node_summaries r) = 1"
    by (auto dest: arg_cong[of _ _ length])
  have "conditions_parse (rc_graph (run_of solo_graph))" using valid_parses[OF solo_valid] by (simp add: run_of_def)
  from dag_runs_bounded[OF this r(1)] r show ?thesis by (intro exI[of _ r]) (simp add: run_of_def)
qed





definition stale_graph :: PipelineGraph where
  "stale_graph = gates (bare_graph [''start'', ''j'', ''q'', ''z''] [bare_edge ''start'' ''j'',
     (bare_edge ''start'' ''q'')\<lparr>e_condition := Some ''outcome.status == \"pass\"''\<rparr>,
     (bare_edge ''start'' ''z'')\<lparr>e_condition := Some ''outcome.status == \"fail\"''\<rparr>,
     bare_edge ''q'' ''z'',
     (bare_edge ''z'' ''start'')\<lparr>e_label := Some ''back_edge'', e_condition := Some ''outcome.status == \"fail\"''\<rparr>])"


end
