(* ===== verification/Dispatch_Properties.thy ===== *)
theory Dispatch_Properties
  imports Dag_Properties Dot_Parser
begin

text \<open>
  Running one node: how often its handler is called and which answer counts, what a deadline can turn into,
  who gets a recovery attempt, and how the token cap narrows a node. From these, that a run over reliable
  handlers always returns a result.
\<close>

subsection \<open>Retries\<close>

text \<open>A handler that records its answers in the world.\<close>

definition traced :: "'w handler \<Rightarrow> ('w \<times> (exec_error, NodeOutcome) sum list) handler" where
  "traced handler node ctx wt = (case handler node ctx (fst wt) of (r, w1) \<Rightarrow> (r, (w1, snd wt @ [r])))"

definition traced_sleep :: "'w runtime \<Rightarrow> ('w \<times> 'a) runtime" where
  "traced_sleep rt = \<lparr>rt_sleep = \<lambda>ms (w, t). (rt_sleep rt ms w, t), rt_expires = \<lambda>d (w, t). rt_expires rt d w,
     rt_cancel = \<lambda>d (w, t). (rt_cancel rt d w, t), rt_spawn_failure_hook = \<lambda>n d (w, t). (rt_spawn_failure_hook rt n d w, t),
     rt_shutdown = \<lambda>(w, t). rt_shutdown rt w\<rparr>"

definition errored :: "(exec_error, NodeOutcome) sum \<Rightarrow> bool" where
  "errored r \<longleftrightarrow> (\<exists>out. r = Inr out \<and> o_status out = Error)"

lemma traced_apply: "handler node ctx w = (r, w1) \<Longrightarrow> traced handler node ctx (w, t) = (r, (w1, t @ [r]))"
  by (simp add: traced_def)

lemma traced_sleep_apply: "rt_sleep (traced_sleep rt) ms (w, t) = (rt_sleep rt ms w, t)"
  by (simp add: traced_sleep_def)

lemma retry_trace:
  "retry_loop (traced_sleep rt) (traced handler) node ctx attempt left (w, t) = (r, (w1, t1)) \<Longrightarrow>
   \<exists>new. t1 = t @ new \<and> new \<noteq> [] \<and> last new = r \<and> length new \<le> Suc left
     \<and> (\<forall>x \<in> set (butlast new). errored x) \<and> (errored r \<longrightarrow> length new = Suc left)"
proof (induction left arbitrary: attempt w t)
  case 0
  obtain a w2 where h: "handler node ctx w = (a, w2)" by fastforce
  with 0 show ?case
    by (auto simp: retry_loop.simps[of _ _ _ _ attempt 0] traced_apply split: sum.splits if_splits intro!: exI[of _ "[a]"])
next
  case (Suc k)
  obtain a w2 where h: "handler node ctx w = (a, w2)" by fastforce
  show ?case
  proof (cases "errored a")
    case True
    then obtain out where out: "a = Inr out" "o_status out = Error" by (auto simp: errored_def)
    with Suc.prems h have "retry_loop (traced_sleep rt) (traced handler) node ctx (Suc attempt) k
        (rt_sleep rt (1000 * 2 ^ attempt) w2, t @ [a]) = (r, (w1, t1))"
      by (simp add: retry_loop.simps[of _ _ _ _ attempt "Suc k"] traced_apply traced_sleep_apply)
    from Suc.IH[OF this] obtain new where new: "t1 = (t @ [a]) @ new" "new \<noteq> []" "last new = r" "length new \<le> Suc k"
      "\<forall>x \<in> set (butlast new). errored x" "errored r \<longrightarrow> length new = Suc k" by blast
    with True show ?thesis by (intro exI[of _ "a # new"]) auto
  next
    case False
    then have "retry_loop (traced_sleep rt) (traced handler) node ctx attempt (Suc k) (w, t) = (a, (w2, t @ [a]))"
      using h by (cases a) (auto simp: retry_loop.simps[of _ _ _ _ attempt "Suc k"] traced_apply errored_def)
    with Suc.prems False show ?thesis by (intro exI[of _ "[a]"]) auto
  qed
qed

subsection \<open>Reliable hosts return\<close>

definition answers :: "'w handler \<Rightarrow> bool" where
  "answers handler \<longleftrightarrow> (\<forall>n c w. \<exists>out w1. handler n c w = (Inr out, w1))"

definition reliable :: "'w host \<Rightarrow> bool" where
  "reliable h \<longleftrightarrow> (\<forall>k. \<exists>handler. ho_handler h k = Some handler \<and> answers handler)
     \<and> (\<forall>i n w. \<exists>x w1. ho_reserve h i n w = (Inr x, w1))"

text \<open>Nodes whose deadline cannot end in an error: none, or a representable one that skips.\<close>

definition lenient :: "PipelineNode \<Rightarrow> bool" where
  "lenient n \<longleftrightarrow> (case n_deadline_secs n of None \<Rightarrow> True
     | Some d \<Rightarrow> duration_from_secs_f64 d \<noteq> None \<and> n_deadline_action n = Some Skip)"

lemma retry_answers: "answers handler \<Longrightarrow> \<exists>out w1. retry_loop rt handler node ctx attempt left w = (Inr out, w1)"
proof (induction left arbitrary: attempt w)
  case 0
  then obtain out w1 where "handler node ctx w = (Inr out, w1)" unfolding answers_def by blast
  then show ?case by (simp add: retry_loop.simps[of _ _ _ _ attempt 0])
next
  case (Suc k)
  from Suc.prems obtain out w1 where h: "handler node ctx w = (Inr out, w1)" unfolding answers_def by blast
  show ?case
  proof (cases "o_status out = Error")
    case True
    with h Suc show ?thesis by (simp add: retry_loop.simps[of _ _ _ _ attempt "Suc k"])
  qed (simp add: h retry_loop.simps[of _ _ _ _ attempt "Suc k"])
qed

lemma dispatch_answers:
  assumes "answers handler" "lenient node"
  shows "\<exists>d w1. dispatch_node rt handler node ctx m w = (Inr d, w1)"
proof -
  obtain out w1 where e: "execute_with_retries rt handler node ctx m w = (Inr out, w1)"
    using retry_answers[OF assms(1)] unfolding execute_with_retries_def by blast
  show ?thesis
  proof (cases "n_deadline_secs node")
    case None
    with e show ?thesis by (simp add: dispatch_node_def)
  next
    case (Some d)
    with assms(2) obtain x where "duration_from_secs_f64 d = Some x" "n_deadline_action node = Some Skip"
      by (auto simp: lenient_def)
    with e Some show ?thesis by (auto simp: dispatch_node_def Let_def deadline_attempts_def)
  qed
qed

lemma cap_keeps:
  "n_deadline_secs (cap_node_output_tokens_for_remaining_budget r k n) = n_deadline_secs n"
  "n_deadline_action (cap_node_output_tokens_for_remaining_budget r k n) = n_deadline_action n"
  by (simp_all add: cap_node_output_tokens_for_remaining_budget_def Let_def)

lemma prepare_lenient: "lenient (prepare_node rc rem n) \<longleftrightarrow> lenient n"
  by (auto simp: lenient_def prepare_node_def Let_def cap_keeps split: option.splits)

lemma execute_node_answers:
  assumes "reliable h" "hm_get (g_nodes (rc_graph rc)) i = Some node" "lenient node"
  shows "\<exists>s w1. dag_execute_node h rc i fired completed rem fb w = (Inr s, w1)"
proof -
  obtain handler where h: "ho_handler h (n_handler node) = Some handler" "answers handler"
    using assms(1) unfolding reliable_def by blast
  have lp: "lenient (prepare_node rc rem node)" using assms(3) by (simp add: prepare_lenient)
  have disp: "\<exists>s w2. dispatched h handler node (prepare_node rc rem node) ctx task res v = (Inr s, w2)" for ctx task res v
    using dispatch_answers[OF h(2) lp, of "ho_runtime h" ctx "n_max_retries node" v]
    by (auto simp: dispatched_def Let_def split: prod.splits)
  have res: "\<exists>x w1. ho_reserve h gi n v = (Inr x, w1)" for gi n v using assms(1) unfolding reliable_def by blast
  obtain a w1 where reg: "ho_register h (n_id node) w = (a, w1)" by fastforce
  show ?thesis
  proof (cases a)
    case (Inr task)
    let ?v = "case task of Some t \<Rightarrow> ho_mark_running h t w1 | None \<Rightarrow> w1"
    obtain x w2 where r: "ho_reserve h (g_id (rc_graph rc)) (prepare_node rc rem node) ?v = (Inr x, w2)" using res by blast
    show ?thesis using disp assms(2) h(1) reg Inr r by (simp add: dag_execute_node_def Let_def)
  qed (use assms(2) h(1) reg in \<open>simp add: dag_execute_node_def Let_def\<close>)
qed

lemma forward_step_no_fault:
  assumes "conditions_parse (rc_graph rc)" "reliable h" "\<forall>n \<in> nodes_of (rc_graph rc). lenient n"
  shows "forward_step h rc st w \<noteq> (Fault e, w1)"
proof
  assume f: "forward_step h rc st w = (Fault e, w1)"
  show False
  proof (cases "next_runnable (rc_graph rc) st")
    case None
    with f show ?thesis by (auto simp: forward_step_def split: option.splits)
  next
    case (Some i)
    with f have run: "run_node h rc st i w = (Fault e, w1)" by (simp add: forward_step_def)
    have "i \<in> node_ids (rc_graph rc)" by (rule next_runnable_Some(1)[OF Some])
    then obtain node where node: "hm_get (g_nodes (rc_graph rc)) i = Some node"
      by (metis contains_node hm_contains_get option.exhaust)
    then have "node \<in> nodes_of (rc_graph rc)" unfolding nodes_of_def by (rule hm_get_in_values)
    with assms(3) have "lenient node" by blast
    note ok = execute_node_answers[OF assms(2) node this]
    have "fired_forward_into (rc_graph rc) i (ds_completed st) \<noteq> Inl c" for c
      using fired_forward_into_set[OF assms(1), of i "ds_completed st"] by (metis sum.distinct(1))
    moreover have "Fault e \<noteq> after_run (rc_graph rc) i out st" for out
      by (cases rule: after_run_cases[of "rc_graph rc" i out st]) auto
    moreover have "dag_execute_node h rc i fired completed rem fb w \<noteq> (Inl e, w1)" for fired completed rem fb
      using ok[of fired completed rem fb w] by auto
    ultimately show False using run_node_cases[OF run] by blast
  qed
qed

lemma forward_pass_no_fault:
  "conditions_parse (rc_graph rc) \<Longrightarrow> reliable h \<Longrightarrow> \<forall>n \<in> nodes_of (rc_graph rc). lenient n \<Longrightarrow>
   forward_pass h rc st w \<noteq> (Broke e, w1)"
proof (induction h rc st w rule: forward_pass.induct)
  case (1 h rc st w)
  obtain r w2 where step: "forward_step h rc st w = (r, w2)" by fastforce
  show ?case
  proof (cases r)
    case (Advance st2)
    with 1 step show ?thesis by (simp add: forward_pass.simps[of h rc st w])
  next
    case (Fault q)
    with forward_step_no_fault[OF "1.prems"] step show ?thesis by blast
  qed (use step in \<open>simp_all add: forward_pass.simps[of h rc st w]\<close>)
qed

lemma dag_loop_returns:
  "conditions_parse (rc_graph rc) \<Longrightarrow> reliable h \<Longrightarrow> \<forall>n \<in> nodes_of (rc_graph rc). lenient n \<Longrightarrow>
   \<exists>r w1. dag_loop h rc st w = (Inr r, w1)"
proof (induction h rc st w rule: dag_loop.induct)
  case (1 h rc st w)
  obtain res w2 where pass: "forward_pass h rc st w = (res, w2)" by fastforce
  note unf = dag_loop.simps[of h rc st w]
  show ?case
  proof (cases res)
    case (Settled st2)
    then show ?thesis
    proof (cases "retry_first (rc_graph rc) (g_edges (rc_graph rc)) st2")
      case (Some st3)
      have "\<exists>r w1. dag_loop h rc st3 w2 = (Inr r, w1)"
        using "1.IH"[OF pass[symmetric] Settled Some] "1.prems" by blast
      with pass Settled Some show ?thesis by (simp add: unf)
    qed (simp add: unf pass)
  next
    case (Broke e)
    with forward_pass_no_fault[OF "1.prems"] pass show ?thesis by blast
  qed (simp add: unf pass)
qed

lemma deadline_skip:
  "deadline_loop rt handler node ctx m d a le left w = (Inr (DispatchSkipped l), w1) \<Longrightarrow> a = Skip"
proof (induction left arbitrary: le w)
  case (Suc k)
  then show ?case
    by (auto simp: Let_def split: if_splits prod.splits sum.splits DeadlineAction.splits)
qed simp

subsection \<open>Reading an oversized duration\<close>

lemma oversized_rounds: "round_f64 100000000000000000000 = Fin 100000000000000000000"
proof -
  have "bit_length 100000000000000000000 = 67" "bit_length (Suc 0) = 1" by (simp_all add: bit_length.simps)
  then have "binary_exponent 100000000000000000000 = 66" by (simp add: binary_exponent_def pow2_def Let_def)
  then show ?thesis by (simp add: round_f64_def pow2_def round_half_even_def Let_def)
qed

lemma oversized_parses: "parse_duration_secs_f64 ''1e20'' = Some (Fin 100000000000000000000)"
proof -
  have "parse_decimal ''1e20'' = Some 100000000000000000000"
    by (simp add: parse_decimal_def span_def is_ascii_digit_def byte_def parse_exponent_def digits_value_def
        digit_value_def pow10_def)
  then have "parse_f64 ''1e20'' = Some (Fin 100000000000000000000)"
    using oversized_rounds by (simp add: parse_f64_def to_ascii_lowercase_def ascii_lower_def byte_def)
  moreover have "trim ''1e20'' = ''1e20''" by code_simp
  ultimately show ?thesis by (simp add: parse_duration_secs_f64_def strip_suffix_def suffix_def f64_le_def Let_def)
qed

subsection \<open>Properties\<close>

text \<open>Handler retries are bounded and honest: the handler is called at least once and at most \<open>max_retries\<close> plus one times,
  every answer but the last was an error outcome, the last answer is the result, and an error outcome is the result only
  after all attempts were used.\<close>

theorem retries_are_bounded:
  assumes "execute_with_retries (traced_sleep rt) (traced handler) node ctx max_retries (w, []) = (r, (w1, calls))"
  shows "calls \<noteq> [] \<and> last calls = r \<and> length calls \<le> unat max_retries + 1 \<and> (\<forall>x \<in> set (butlast calls). errored x)
    \<and> (errored r \<longrightarrow> length calls = unat max_retries + 1)"
  using retry_trace[OF assms[unfolded execute_with_retries_def]] by auto

theorem retries_are_bounded_witness:
  "\<exists>w1 calls. execute_with_retries (traced_sleep (ho_runtime script_host)) (traced scripted) default_node
       \<lparr>hc_input = [], hc_completed = [], hc_predecessor_outcomes = [], hc_working_dir = []\<rparr> 2 ([Error, Pass], [])
       = (Inr (outcome_of [] Pass), (w1, calls)) \<and> length calls \<le> 3"
proof -
  let ?x = "execute_with_retries (traced_sleep (ho_runtime script_host)) (traced scripted) default_node
       \<lparr>hc_input = [], hc_completed = [], hc_predecessor_outcomes = [], hc_working_dir = []\<rparr> 2 ([Error, Pass], [])"
  obtain r w1 calls where x: "?x = (r, (w1, calls))" by (metis prod.exhaust)
  have "fst ?x = Inr (outcome_of [] Pass)" by code_simp
  with x retries_are_bounded[OF x] show ?thesis by auto
qed



text \<open>A deadline that is too long to represent crashes the run: the DOT attribute reader accepts ten to the twenty seconds as
  a finite non-negative duration, and dispatching such a node panics in the conversion to a duration before the handler
  is called, whatever its deadline action.\<close>

theorem oversized_deadline_panics:
  "\<exists>d. parse_duration_secs_f64 ''1e20'' = Some d
     \<and> dispatch_node rt handler (default_node\<lparr>n_deadline_secs := Some d, n_deadline_action := a\<rparr>) ctx m w = (Inl (DurationPanic d), w)"
  by (simp add: oversized_parses dispatch_node_def duration_from_secs_f64_def)

text \<open>A deadline turns into a skip only when asked to: a dispatch answers with a skip exactly on an expired deadline with the
  skip action, and a node without a deadline is never skipped.\<close>

theorem skip_needs_action:
  assumes "dispatch_node rt handler node ctx m w = (Inr (DispatchSkipped l), w1)"
  shows "n_deadline_action node = Some Skip \<and> (\<exists>d. n_deadline_secs node = Some d \<and> rt_expires rt d w)
    \<and> l = (case n_label node of Some x \<Rightarrow> x | None \<Rightarrow> n_id node)"
proof -
  obtain d where d: "n_deadline_secs node = Some d"
    using assms by (cases "n_deadline_secs node") (auto simp: dispatch_node_def split: prod.splits sum.splits)
  have dur: "duration_from_secs_f64 d = Some d" using assms d by (auto simp: dispatch_node_def duration_from_secs_f64_def split: if_splits)
  let ?a = "case n_deadline_action node of Some a \<Rightarrow> a | None \<Rightarrow> Abort"
  have loop: "deadline_loop rt handler node ctx m d ?a None (deadline_attempts ?a) w = (Inr (DispatchSkipped l), w1)"
    using assms d dur by (simp add: dispatch_node_def Let_def)
  then have skip: "?a = Skip" by (rule deadline_skip)
  with loop have "rt_expires rt d w \<and> l = (case n_label node of Some x \<Rightarrow> x | None \<Rightarrow> n_id node)"
    by (auto simp: deadline_attempts_def split: if_splits prod.splits sum.splits)
  with skip d show ?thesis by (auto split: option.splits)
qed

definition slow_runtime :: "unit runtime" where
  "slow_runtime = \<lparr>rt_sleep = \<lambda>_ w. w, rt_expires = \<lambda>_ _. True, rt_cancel = \<lambda>_ w. w, rt_spawn_failure_hook = \<lambda>_ _ w. w,
     rt_shutdown = \<lambda>_. False\<rparr>"

theorem skip_needs_action_witness:
  "dispatch_node slow_runtime (\<lambda>n c w. (Inr (outcome_of [] Pass), w)) (default_node\<lparr>n_deadline_secs := Some (Fin 1), n_deadline_action := Some Skip\<rparr>)
     \<lparr>hc_input = [], hc_completed = [], hc_predecessor_outcomes = [], hc_working_dir = []\<rparr> 0 () = (Inr (DispatchSkipped []), ())
   \<and> rt_expires slow_runtime (Fin 1) ()"
proof -
  have run: "dispatch_node slow_runtime (\<lambda>n c w. (Inr (outcome_of [] Pass), w)) (default_node\<lparr>n_deadline_secs := Some (Fin 1), n_deadline_action := Some Skip\<rparr>)
     \<lparr>hc_input = [], hc_completed = [], hc_predecessor_outcomes = [], hc_working_dir = []\<rparr> 0 () = (Inr (DispatchSkipped []), ())"
    by (simp add: dispatch_node_def duration_from_secs_f64_def f64_le_def deadline_attempts_def slow_runtime_def Let_def default_node_def)
  with skip_needs_action[OF run] show ?thesis by simp
qed

text \<open>The recovery attempt never touches a command: a node whose handler is neither a code agent nor a dynamic fan-out, shell
  checks included, is never classified as retryable, so its prompt, which is the command it runs, is never extended; for
  the others the recovery prompt keeps the original one as its beginning, and handler, tools, model and limits stay.\<close>

theorem recovery_keeps_commands:
  "(classify_outcome node out input = Retryable sig \<longrightarrow>
      (n_handler node = Codergen \<or> n_handler node = DynamicParallel) \<and> (o_status out = Fail \<or> o_status out = Error))
   \<and> (\<forall>p. n_prompt node = Some p \<longrightarrow> (\<exists>added. n_prompt (recovery_node node sig) = Some (p @ added)))
   \<and> (recovery_node node sig)\<lparr>n_prompt := n_prompt node\<rparr> = node"
  by (auto simp: classify_outcome_def recovery_node_def split: if_splits OutcomeStatus.splits)

theorem recovery_keeps_commands_witness:
  "classify_outcome (default_node\<lparr>n_prompt := Some ''p''\<rparr>) (outcome_of [] Fail) None
     = Retryable (from_outcome (default_node\<lparr>n_prompt := Some ''p''\<rparr>) (outcome_of [] Fail) None)
   \<and> (\<exists>added. n_prompt (recovery_node (default_node\<lparr>n_prompt := Some ''p''\<rparr>)
         (from_outcome (default_node\<lparr>n_prompt := Some ''p''\<rparr>) (outcome_of [] Fail) None)) = Some (''p'' @ added))"
proof
  show "classify_outcome (default_node\<lparr>n_prompt := Some ''p''\<rparr>) (outcome_of [] Fail) None
     = Retryable (from_outcome (default_node\<lparr>n_prompt := Some ''p''\<rparr>) (outcome_of [] Fail) None)"
    by (simp add: classify_outcome_def default_node_def outcome_of_def)
qed (use recovery_keeps_commands[of "default_node\<lparr>n_prompt := Some ''p''\<rparr>"] in simp)

text \<open>The budget cap only narrows: with tokens remaining, a code agent leaves with an output limit of at least one, at most the
  share of the remaining budget (at least one) and at most its own limit (at least one); other nodes are unchanged.\<close>

theorem budget_cap_narrows:
  assumes "0 < remaining"
  shows "(n_handler node \<noteq> Codergen \<longrightarrow> cap_node_output_tokens_for_remaining_budget remaining peers node = node)
    \<and> (n_handler node = Codergen \<longrightarrow> (\<exists>k. n_max_output_tokens (cap_node_output_tokens_for_remaining_budget remaining peers node) = Some k
         \<and> 1 \<le> k \<and> k \<le> remaining \<and> (\<forall>old. n_max_output_tokens node = Some old \<longrightarrow> k \<le> max old 1)))"
proof -
  have one: "1 \<le> remaining" using assms by (simp add: word_le_nat_alt word_less_nat_alt Suc_le_eq)
  have "remaining div d \<le> remaining" for d :: u32 by (simp add: word_le_nat_alt unat_div)
  with one have cap: "max (remaining div d) 1 \<le> remaining" for d :: u32 by simp
  have "1 \<le> k \<and> k \<le> remaining \<and> (\<forall>old. n_max_output_tokens node = Some old \<longrightarrow> k \<le> max old 1)"
    if "k = (case n_max_output_tokens node of None \<Rightarrow> max (remaining div d) 1 | Some existing \<Rightarrow> max (min existing (max (remaining div d) 1)) 1)" for k d
    using that cap[of d] one by (auto split: option.splits simp: max_def min_def)
  with assms show ?thesis by (auto simp: cap_node_output_tokens_for_remaining_budget_def Let_def)
qed

theorem budget_cap_narrows_witness:
  "\<exists>k. n_max_output_tokens (cap_node_output_tokens_for_remaining_budget 100 1 (default_node\<lparr>n_max_output_tokens := Some 4000\<rparr>)) = Some k
     \<and> k \<le> 100"
  using budget_cap_narrows[of 100 "default_node\<lparr>n_max_output_tokens := Some 4000\<rparr>" 1] by (auto simp: default_node_def)

end
