(* ===== verification/Walk_Properties.thy ===== *)
theory Walk_Properties
  imports Walk_Executor Dispatch_Properties
begin

text \<open>
  What the single-path walk guarantees. The lemmas follow the loop body once, in \<open>walk_step_ends\<close>:
  where a pass moves to, and what it adds to the summaries, the token total, the completed nodes
  and the worker counter. A property of the state that every pass keeps is an instance of the locale
  \<open>walk_invariant\<close>, which carries it to the end of a run.
\<close>

subsection \<open>Edge selection\<close>

lemma min_text_mem: "min_text xs = Some x \<Longrightarrow> x \<in> set xs \<and> (\<forall>y \<in> set xs. x \<le> y)"
proof -
  assume m: "min_text xs = Some x"
  then have "xs \<noteq> []" by auto
  with m have "x = Min (set xs)" by (simp add: min_text_Min)
  with \<open>xs \<noteq> []\<close> show ?thesis by simp
qed

lemma heaviest_mem:
  assumes "heaviest es = Inr (Some t)"
  shows "\<exists>e \<in> set es. e_target e = t"
proof -
  have "min_text (map e_target (weight_ties es)) = Some t"
    using assms by (auto simp: heaviest_def pick_by_weight_def split: option.splits)
  with min_text_mem show ?thesis by (fastforce simp: weight_ties_def)
qed

lemma heaviest_not_None [simp]: "heaviest es \<noteq> Inr None"
  by (simp add: heaviest_def split: option.splits)

lemma condition_matches_subset: "condition_matches es out = Inr ms \<Longrightarrow> set ms \<subseteq> set es"
  by (induction es arbitrary: ms) (fastforce simp: and_then_Inr split: option.splits if_splits)+

text \<open>Whatever the outcome, the walk leaves a node along one of its edges, and stays only when it has none.\<close>

lemma select_along_edge:
  assumes "select_next_edge g i out = Inr (Some t)"
  shows "(i, t) \<in> all_edges g"
proof -
  let ?o = "filter (\<lambda>e. e_source e = i) (g_edges g)"
  have "\<exists>e \<in> set ?o. e_target e = t"
  proof (cases "condition_matches ?o out")
    case (Inr ms)
    have sub: "set ms \<subseteq> set ?o" by (rule condition_matches_subset[OF Inr])
    consider "heaviest ms = Inr (Some t)" | "suggested_target g i ?o = Some t" | "labelled_target ?o out = Some t"
      | "heaviest (filter (\<lambda>e. e_condition e = None) ?o) = Inr (Some t)" | "min_text (map e_target ?o) = Some t"
      using assms Inr by (auto simp: select_next_edge_def Let_def split: if_splits option.splits)
    then show ?thesis
    proof cases
      case 1
      then show ?thesis using heaviest_mem sub by blast
    next
      case 2
      then show ?thesis by (auto simp: suggested_target_def list_ex_iff split: option.splits if_splits)
    next
      case 3
      then show ?thesis by (force simp: labelled_target_def dest!: find_Some_in)
    next
      case 4
      then show ?thesis using heaviest_mem by fastforce
    next
      case 5
      then show ?thesis using min_text_mem by fastforce
    qed
  qed (use assms in \<open>auto simp: select_next_edge_def Let_def split: if_splits\<close>)
  then show ?thesis by (force simp: all_edges_def)
qed

lemma select_None_iff: "select_next_edge g i out = Inr None \<longleftrightarrow> i \<notin> Domain (all_edges g)"
proof -
  let ?o = "filter (\<lambda>e. e_source e = i) (g_edges g)"
  have "?o = [] \<longleftrightarrow> i \<notin> Domain (all_edges g)" by (force simp: all_edges_def filter_empty_conv)
  moreover have "select_next_edge g i out = Inr None \<longleftrightarrow> ?o = []"
    by (auto simp: select_next_edge_def Let_def min_text_None split: sum.splits option.splits)
  ultimately show ?thesis by simp
qed

lemma fold_max_weight:
  assumes "\<forall>e \<in> set es. is_finite (e_weight e)"
  shows "\<exists>m. fold (\<lambda>e acc. f64_max acc (e_weight e)) es (Fin a) = Fin m \<and> a \<le> m \<and> (m = a \<or> Fin m \<in> e_weight ` set es)
    \<and> (\<forall>e \<in> set es. \<not> f64_lt (Fin m) (e_weight e))"
  using assms
proof (induction es arbitrary: a)
  case (Cons e es)
  then obtain b where b: "e_weight e = Fin b" by (cases "e_weight e") auto
  have step: "f64_max (Fin a) (e_weight e) = Fin (max a b)" by (simp add: b f64_max_def max_def)
  have "\<forall>e \<in> set es. is_finite (e_weight e)" using Cons.prems by simp
  from Cons.IH[OF this, of "max a b"] obtain m where m: "fold (\<lambda>e acc. f64_max acc (e_weight e)) es (Fin (max a b)) = Fin m"
    "max a b \<le> m" "m = max a b \<or> Fin m \<in> e_weight ` set es" "\<forall>e \<in> set es. \<not> f64_lt (Fin m) (e_weight e)" by blast
  from m(3) have "m = a \<or> Fin m \<in> e_weight ` set (e # es)" by (auto simp: b max_def split: if_splits)
  with m step b show ?case by (intro exI[of _ m]) simp
qed simp

lemma max_weight_greatest:
  assumes "es \<noteq> []" "\<forall>e \<in> set es. is_finite (e_weight e)"
  shows "\<exists>e \<in> set es. max_weight es = e_weight e \<and> (\<forall>e' \<in> set es. \<not> f64_lt (e_weight e) (e_weight e'))"
proof (cases es)
  case (Cons e es')
  with assms(2) obtain a where a: "e_weight e = Fin a" by (cases "e_weight e") auto
  have "max_weight es = fold (\<lambda>e acc. f64_max acc (e_weight e)) es' (Fin a)"
    by (simp add: max_weight_def Cons a f64_max_def)
  moreover obtain m where "fold (\<lambda>e acc. f64_max acc (e_weight e)) es' (Fin a) = Fin m" "a \<le> m"
    "m = a \<or> Fin m \<in> e_weight ` set es'" "\<forall>e \<in> set es'. \<not> f64_lt (Fin m) (e_weight e)"
    using fold_max_weight[of es' a] assms(2) Cons by auto
  moreover have "\<exists>k \<in> set es. e_weight k = Fin m" using calculation(4) Cons a by (auto simp: image_iff)
  then obtain k where "k \<in> set es" "e_weight k = Fin m" by blast
  ultimately show ?thesis using Cons a by (intro bexI[of _ k]) simp_all
qed (use assms in simp)

text \<open>The heaviest edges of a set, those whose weight is within \<^verbatim>\<open>f64::EPSILON\<close> of the greatest, and of their targets the smallest.\<close>

definition heaviest_target :: "PipelineEdge set \<Rightarrow> string" where
  "heaviest_target E = Min (e_target ` {e \<in> E. \<exists>m \<in> E. (\<forall>e' \<in> E. \<not> f64_lt (e_weight m) (e_weight e'))
     \<and> f64_lt (f64_abs (f64_sub (e_weight e) (e_weight m))) EPSILON})"

lemma not_lt_eq: "is_finite a \<Longrightarrow> is_finite b \<Longrightarrow> \<not> f64_lt a b \<Longrightarrow> \<not> f64_lt b a \<Longrightarrow> a = b"
  by (cases a; cases b) auto

lemma heaviest_exact:
  assumes "es \<noteq> []" "\<forall>e \<in> set es. is_finite (e_weight e)"
  shows "heaviest es = Inr (Some (heaviest_target (set es)))"
proof -
  obtain m where m: "m \<in> set es" "max_weight es = e_weight m" "\<forall>e' \<in> set es. \<not> f64_lt (e_weight m) (e_weight e')"
    using max_weight_greatest[OF assms] by blast
  have same: "e_weight k = e_weight m" if "k \<in> set es" "\<forall>e' \<in> set es. \<not> f64_lt (e_weight k) (e_weight e')" for k
  proof (rule not_lt_eq)
    show "is_finite (e_weight k)" "is_finite (e_weight m)" using that(1) m(1) assms(2) by simp_all
    show "\<not> f64_lt (e_weight k) (e_weight m)" "\<not> f64_lt (e_weight m) (e_weight k)" using that m by simp_all
  qed
  have ties: "set (weight_ties es) = {e \<in> set es. \<exists>m \<in> set es. (\<forall>e' \<in> set es. \<not> f64_lt (e_weight m) (e_weight e'))
     \<and> f64_lt (f64_abs (f64_sub (e_weight e) (e_weight m))) EPSILON}"
    unfolding weight_ties_def m(2) set_filter using m(1,3) same by (intro Collect_cong conj_cong refl) (metis (full_types))
  have "m \<in> set (weight_ties es)" using m assms(2) by (simp add: weight_ties_def EPSILON_def)
  then have "map e_target (weight_ties es) \<noteq> []" by auto
  then have "pick_by_weight es = Some (Min (e_target ` set (weight_ties es)))"
    unfolding pick_by_weight_def by (simp add: min_text_Min)
  then show ?thesis by (simp add: heaviest_def heaviest_target_def ties)
qed

lemma condition_matches_exact:
  "conditions_parse g \<Longrightarrow> set es \<subseteq> set (g_edges g) \<Longrightarrow> condition_matches es out = Inr (filter (\<lambda>e. cond_holds e out) es)"
  by (induction es) (auto simp: matches_iff cond_holds_None split: option.splits)

text \<open>The documented order of preference: an edge whose condition holds, the suggested successor, the first label found in the
  output, an edge without condition, the smallest target.\<close>

definition preferred :: "PipelineGraph \<Rightarrow> string \<Rightarrow> NodeOutcome \<Rightarrow> string option" where
  "preferred g i out =
     (let outgoing = filter (\<lambda>e. e_source e = i) (g_edges g); matching = filter (\<lambda>e. cond_holds e out) outgoing;
          plain = filter (\<lambda>e. e_condition e = None) outgoing
      in if outgoing = [] then None
         else if matching \<noteq> [] then Some (heaviest_target (set matching))
         else (case suggested_target g i outgoing of Some t \<Rightarrow> Some t
           | None \<Rightarrow> (case labelled_target outgoing out of Some t \<Rightarrow> Some t
             | None \<Rightarrow> Some (if plain \<noteq> [] then heaviest_target (set plain) else Min (e_target ` set outgoing)))))"

lemma select_exact:
  assumes "conditions_parse g" "\<forall>e \<in> set (g_edges g). is_finite (e_weight e)"
  shows "select_next_edge g i out = Inr (preferred g i out)"
proof -
  define outgoing where "outgoing = filter (\<lambda>e. e_source e = i) (g_edges g)"
  have m: "condition_matches outgoing out = Inr (filter (\<lambda>e. cond_holds e out) outgoing)"
    by (rule condition_matches_exact[OF assms(1)]) (auto simp: outgoing_def)
  have h: "heaviest (filter P outgoing) = Inr (Some (heaviest_target (set (filter P outgoing))))" if "filter P outgoing \<noteq> []" for P
    using heaviest_exact[OF that] assms(2) by (auto simp: outgoing_def)
  have t: "min_text (map e_target outgoing) = Some (Min (e_target ` set outgoing))" if "outgoing \<noteq> []"
    using that by (simp add: min_text_Min)
  show ?thesis
    unfolding select_next_edge_def preferred_def Let_def outgoing_def[symmetric] m sum.case
    by (auto simp: h t split: option.splits simp del: filter_filter set_filter)
qed

subsection \<open>One pass of the loop\<close>

text \<open>The moves of the walk: along an edge, or from a fan-out to the node where it converges.\<close>

definition moves :: "PipelineGraph \<Rightarrow> string rel" where
  "moves g = all_edges g \<union> {(i, t). \<exists>n. hm_get (g_nodes g) i = Some n
     \<and> (n_handler n = Parallel \<or> n_handler n = DynamicParallel) \<and> n_converge n = Some t}"

text \<open>The tokens that a list of summaries accounts for, on top of a total.\<close>

definition charge :: "NodeSummary list \<Rightarrow> TokenUsage \<Rightarrow> TokenUsage" where
  "charge ss t = fold (\<lambda>s acc. add_usage acc (ns_token_usage s)) ss t"

lemma charge_simps [simp]:
  "charge [] t = t" "charge (s # ss) t = charge ss (add_usage t (ns_token_usage s))"
  "charge (ss @ ss') t = charge ss' (charge ss t)"
  by (simp_all add: charge_def)

lemma add_usage_none [simp]: "add_usage t no_tokens = t"
  by (simp add: add_usage_def no_tokens_def)

lemma add_usage_swap: "add_usage (add_usage t a) b = add_usage (add_usage t b) a"
  by (simp add: add_usage_def algebra_simps)

lemma add_charge: "add_usage a (charge ss b) = charge ss (add_usage a b)"
  by (induction ss arbitrary: b) (simp_all add: add_usage_def algebra_simps)

lemma charge_add: "charge ss (add_usage t u) = add_usage (charge ss t) u"
  by (induction ss arbitrary: t) (simp_all add: add_usage_swap[of _ u])

text \<open>What a pass may add: summaries that account for the tokens it adds, a summary of success for every node that it
  completes with a pass, and workers within the cap.\<close>

definition grows :: "nat \<Rightarrow> walk_state \<Rightarrow> walk_state \<Rightarrow> bool" where
  "grows cap st st1 \<longleftrightarrow> wk_fanout st1 \<le> max cap (wk_fanout st) \<and> (\<exists>new. wk_summaries st1 = wk_summaries st @ new
     \<and> wk_total_tokens st1 = charge new (wk_total_tokens st)
     \<and> (\<forall>out \<in> ran (hm_get (wk_completed st1)). o_status out = Pass \<longrightarrow>
          out \<in> ran (hm_get (wk_completed st)) \<or> (\<exists>s \<in> set new. ns_success s)))"

definition passed_somewhere :: "walk_state \<Rightarrow> bool" where
  "passed_somewhere st \<longleftrightarrow> (\<exists>out \<in> ran (hm_get (wk_completed st)). o_status out = Pass)"

lemma ran_insert: "ran (hm_get (hm_insert k v m)) \<subseteq> insert v (ran (hm_get m))"
  by (auto simp: update_conv ran_def)

lemma ran_inserts: "ran (hm_get (fold (\<lambda>(i, out). hm_insert i out) xs m)) \<subseteq> snd ` set xs \<union> ran (hm_get m)"
  by (induction xs arbitrary: m) (use ran_insert in \<open>fastforce+\<close>)

lemma grows_same:
  assumes "wk_fanout st1 = wk_fanout st" "wk_summaries st1 = wk_summaries st" "wk_total_tokens st1 = wk_total_tokens st"
    "wk_completed st1 = wk_completed st"
  shows "grows cap st st1"
  unfolding grows_def using assms by (intro conjI exI[of _ "[]"]) auto

lemma grows_settle:
  assumes "wk_fanout st1 = wk_fanout st" "wk_summaries st1 = wk_summaries st" "wk_completed st1 = wk_completed st"
    "wk_total_tokens st1 = add_usage (wk_total_tokens st) (ns_token_usage s)" "o_status out = Pass \<longrightarrow> ns_success s"
  shows "grows cap st (settle out s st1)"
  unfolding grows_def using assms ran_insert[of "wk_current st1" out "wk_completed st"]
  by (intro conjI exI[of _ "[s]"]) (auto simp: settle_def)

lemma settle_sel [simp]:
  "wk_current (settle out s st) = wk_current st" "wk_fanout (settle out s st) = wk_fanout st"
  by (simp_all add: settle_def)

lemma settle_passed: "o_status out = Pass \<Longrightarrow> passed_somewhere (settle out s st)"
  by (auto simp: passed_somewhere_def settle_def update_conv ran_def intro!: bexI[of _ out])

lemma process_tokens: "wrs_tokens (process_worker_results f results w) = charge (wrs_summaries (process_worker_results f results w)) no_tokens"
  by (simp add: process_worker_results_def charge_def fold_map o_def worker_summary_def)

lemma process_passes:
  "out \<in> snd ` set (wrs_outcomes (process_worker_results f results w)) \<Longrightarrow> o_status out = Pass \<Longrightarrow>
   \<exists>s \<in> set (wrs_summaries (process_worker_results f results w)). ns_success s"
  by (force simp: process_worker_results_def worker_summary_def)

lemma merge_fan_grows:
  assumes "rs = process_worker_results f results w" "wk_fanout st1 \<le> max cap (wk_fanout st)"
    "wk_summaries st1 = wk_summaries st" "wk_completed st1 = wk_completed st"
    "wk_total_tokens st1 = add_usage (wk_total_tokens st) usage"
  shows "grows cap st (merge_fan node mark usage rs ns st1)"
proof -
  let ?out = "bare_outcome (n_id node) (fan_status rs) (wrs_merged_content rs) usage"
  let ?s = "bare_summary (n_id node) (node_label node) None usage ns (fan_status rs = Pass)"
  let ?c = "fold (\<lambda>(i, out). hm_insert i out) (wrs_outcomes rs) (wk_completed st)"
  have ran: "out = ?out \<or> out \<in> snd ` set (wrs_outcomes rs) \<or> out \<in> ran (hm_get (wk_completed st))"
    if "out \<in> ran (hm_get (hm_insert (wk_current st1) ?out ?c))" for out
    using that ran_insert[of "wk_current st1" ?out ?c] ran_inserts[of "wrs_outcomes rs" "wk_completed st"] by auto
  have "ns_success ?s \<longleftrightarrow> o_status ?out = Pass" by (simp add: bare_summary_def bare_outcome_def)
  with ran have "\<forall>out \<in> ran (hm_get (hm_insert (wk_current st1) ?out ?c)). o_status out = Pass \<longrightarrow>
      out \<in> ran (hm_get (wk_completed st)) \<or> (\<exists>s \<in> set (wrs_summaries rs @ [?s]). ns_success s)"
    using process_passes[of _ f results w] assms(1) by fastforce
  moreover have "add_usage (add_usage (wk_total_tokens st) usage) (wrs_tokens rs) = charge (wrs_summaries rs @ [?s]) (wk_total_tokens st)"
    by (simp add: assms(1) process_tokens add_charge charge_add bare_summary_def)
  ultimately show ?thesis unfolding grows_def using assms(2-)
    by (intro conjI exI[of _ "wrs_summaries rs @ [?s]"]) (simp_all add: merge_fan_def Let_def settle_def)
qed

lemma merge_fan_sel [simp]:
  "wk_current (merge_fan node mark usage rs ns st) = wk_current st" "wk_fanout (merge_fan node mark usage rs ns st) = wk_fanout st"
  by (simp_all add: merge_fan_def Let_def)

text \<open>How a pass may end, with the state it leaves.\<close>

definition pass_ends :: "nat \<Rightarrow> string rel \<Rightarrow> walk_state \<Rightarrow> walk_verdict \<Rightarrow> bool" where
  "pass_ends cap M st s = (case s of
       Goto st1 \<Rightarrow> grows cap st st1 \<and> (wk_current st, wk_current st1) \<in> M
     | Return r \<Rightarrow> \<exists>ok output files st1. r = finish ok output files st1 \<and> (ok \<longrightarrow> grows cap st st1 \<and> passed_somewhere st1)
     | Raise _ \<Rightarrow> True)"

lemma follow_ends:
  assumes "grows cap st st1" "wk_current st1 = wk_current st" "ok \<longrightarrow> passed_somewhere st1"
  shows "pass_ends cap (moves g) st (follow g out ok files st1)"
proof -
  have "grows cap st (st1\<lparr>wk_current := t\<rparr>)" for t using assms(1) by (simp add: grows_def)
  with assms select_along_edge[of g "wk_current st" out] show ?thesis
    by (auto simp: follow_def pass_ends_def moves_def split: sum.splits option.splits)
qed

lemma failed_end [simp]: "pass_ends cap M st (Return (finish False output files st1))"
  by (auto simp: pass_ends_def)

lemma raised_end [simp]: "pass_ends cap M st (Raise e)"
  by (simp add: pass_ends_def)

lemma after_visit_ends:
  assumes "grows cap st st1" "wk_current st1 = wk_current st" "o_status out = Pass \<longrightarrow> passed_somewhere st1"
  shows "pass_ends cap (moves g) st (after_visit g node out st1)"
proof -
  have "pass_ends cap (moves g) st (Return (finish True (o_content out) files st1))" if "o_status out = Pass" for files
    using assms that by (auto simp: pass_ends_def)
  with follow_ends[OF assms] show ?thesis by (auto simp: after_visit_def Let_def split: option.splits)
qed

text \<open>Registering a task and counting a visit leave the books alone.\<close>

definition same_books :: "walk_state \<Rightarrow> walk_state \<Rightarrow> bool" where
  "same_books st st1 \<longleftrightarrow> wk_fanout st1 = wk_fanout st \<and> wk_summaries st1 = wk_summaries st \<and> wk_completed st1 = wk_completed st
     \<and> wk_total_tokens st1 = wk_total_tokens st \<and> wk_current st1 = wk_current st"

lemma skipped_ends: "same_books st st1 \<Longrightarrow> pass_ends cap (moves g) st (skipped_visit g node prepared label ns st1)"
  unfolding skipped_visit_def Let_def same_books_def
  by (intro follow_ends grows_settle) (simp_all add: bare_summary_def skipped_outcome_def)

lemma completed_ends:
  assumes "same_books st st1" "completed_visit h rc handler node prepared ctx res started out st1 w = (s, w1)"
  shows "pass_ends cap (moves (rc_graph rc)) st s"
proof -
  obtain final ns where s: "s = after_visit (rc_graph rc) node final (settle final (dn_summary (node_output (wh_host h) node prepared res ns final))
      (st1\<lparr>wk_total_tokens := add_usage (wk_total_tokens st1) (o_token_usage final),
         wk_node_costs := wk_node_costs st1 @ [dn_cost (node_output (wh_host h) node prepared res ns final)]\<rparr>))"
    using assms(2) by (auto simp: completed_visit_def Let_def split: prod.splits)
  show ?thesis unfolding s using assms(1) unfolding same_books_def
    by (intro after_visit_ends grows_settle impI settle_passed) (simp_all add: node_output_def Let_def)
qed

lemma sequential_ends:
  assumes "sequential_node h rc node st w = (s, w1)"
  shows "pass_ends cap (moves (rc_graph rc)) st s"
proof -
  have books: "same_books st (st\<lparr>wk_task_ids := ids\<rparr>)" "same_books st st" for ids by (simp_all add: same_books_def)
  show ?thesis using assms unfolding sequential_node_def Let_def
    by (auto split: option.splits if_splits prod.splits sum.splits DispatchOutcome.splits
        intro: skipped_ends[OF books(1)] skipped_ends[OF books(2)] dest: completed_ends[OF books(1)] completed_ends[OF books(2)])
qed

lemma prepare_length: "prepare_workers h rc ctx cs w = (Inr ws, w1) \<Longrightarrow> length ws = length cs"
  by (induction h rc ctx cs w arbitrary: ws w1 rule: prepare_workers.induct)
     (auto split: sum.splits prod.splits)

lemma run_fan_ends:
  assumes "run_fan h node kind target mark usage started workers st1 w = (s, w1)"
    "same_books st (st1\<lparr>wk_total_tokens := wk_total_tokens st\<rparr>)" "wk_total_tokens st1 = add_usage (wk_total_tokens st) usage"
    "wk_fanout st + length workers \<le> cap" "(wk_current st, target) \<in> M"
  shows "pass_ends cap M st s"
proof -
  obtain results v ns where s: "s = converge node kind target (length workers) (process_worker_results (wh_fan h) results v)
      (merge_fan node mark usage (process_worker_results (wh_fan h) results v) ns (st1\<lparr>wk_fanout := wk_fanout st1 + length workers\<rparr>))"
    using assms(1) by (auto simp: run_fan_def Let_def split: prod.splits)
  have "grows cap st (merge_fan node mark usage (process_worker_results (wh_fan h) results v) ns
      (st1\<lparr>wk_fanout := wk_fanout st1 + length workers\<rparr>))"
    using assms(2-4) by (intro merge_fan_grows[OF refl]) (auto simp: same_books_def)
  then have "grows cap st ((merge_fan node mark usage (process_worker_results (wh_fan h) results v) ns
      (st1\<lparr>wk_fanout := wk_fanout st1 + length workers\<rparr>))\<lparr>wk_current := target\<rparr>)"
    by (simp add: grows_def)
  with assms(5) show ?thesis unfolding s converge_def by (auto simp: pass_ends_def)
qed

lemma parallel_ends:
  assumes "parallel_node h rc node st w = (s, w1)" "hm_get (g_nodes (rc_graph rc)) (wk_current st) = Some node" "n_handler node = Parallel"
  shows "pass_ends (fanout_cap (wh_fan h)) (moves (rc_graph rc)) st s"
proof -
  have "same_books st (st\<lparr>wk_total_tokens := wk_total_tokens st\<rparr>)" by (simp add: same_books_def)
  moreover have "(wk_current st, target) \<in> moves (rc_graph rc)" if "n_converge node = Some target" for target
    using assms(2,3) that by (simp add: moves_def)
  ultimately show ?thesis using assms(1) run_fan_ends[of h node "''fan-out''" _ True no_tokens _ _ st] unfolding parallel_node_def Let_def
    by (auto split: option.splits if_splits prod.splits sum.splits dest!: prepare_length)
qed

lemma dynamic_ends:
  assumes "dynamic_node h rc node st w = (s, w1)" "hm_get (g_nodes (rc_graph rc)) (wk_current st) = Some node" "n_handler node = DynamicParallel"
  shows "pass_ends (fanout_cap (wh_fan h)) (moves (rc_graph rc)) st s"
proof -
  have "same_books st (st\<lparr>wk_total_tokens := a\<rparr>\<lparr>wk_total_tokens := wk_total_tokens st\<rparr>)" for a by (simp add: same_books_def)
  moreover have "(wk_current st, target) \<in> moves (rc_graph rc)" if "n_converge node = Some target" for target
    using assms(2,3) that by (simp add: moves_def)
  ultimately show ?thesis using assms(1) run_fan_ends[of h node "''dynamic_parallel''" _ False _ _ _ "st\<lparr>wk_total_tokens := _\<rparr>"]
    unfolding dynamic_node_def Let_def
    by (auto split: option.splits if_splits prod.splits sum.splits dest!: prepare_length)
qed

lemma pass_ends_books: "same_books st st1 \<Longrightarrow> pass_ends cap M st1 s \<Longrightarrow> pass_ends cap M st s"
  by (auto simp: same_books_def pass_ends_def grows_def split: walk_verdict.splits)

lemma resume_ends: "pass_ends cap (moves g) st (resume_node g node st)"
  unfolding resume_node_def Let_def
  by (intro follow_ends grows_settle impI settle_passed) (simp_all add: bare_summary_def bare_outcome_def)

lemma guard_skip_ends: "pass_ends cap (moves g) st (guard_skip g node reason st)"
  unfolding guard_skip_def Let_def
  by (intro follow_ends grows_settle) (simp_all add: bare_summary_def bare_outcome_def)

lemma pass_through_ends: "pass_ends cap (moves g) st (pass_through g st)"
proof (cases "hm_get (wk_completed st) (wk_current st)")
  case (Some out)
  then have "o_status out = Pass \<longrightarrow> passed_somewhere st" by (auto simp: passed_somewhere_def ran_def)
  with Some show ?thesis by (simp add: pass_through_def follow_ends grows_same)
qed (simp add: pass_through_def)

lemma walk_step_ends:
  assumes "walk_step h rc skip st w = (s, w1)"
  shows "pass_ends (fanout_cap (wh_fan h)) (moves (rc_graph rc)) st s"
proof (cases "hm_get (g_nodes (rc_graph rc)) (wk_current st)")
  case (Some node)
  have books: "same_books st (count_visit st)" by (simp add: same_books_def count_visit_def)
  have "pass_ends (fanout_cap (wh_fan h)) (moves (rc_graph rc)) (count_visit st) s"
    if "dispatch_visit h rc node (count_visit st) w = (s, w1)"
    using that Some parallel_ends[of h rc node "count_visit st" w s w1] dynamic_ends[of h rc node "count_visit st" w s w1]
      sequential_ends[of h rc node "count_visit st" w s w1] guard_skip_ends books
    by (auto simp: dispatch_visit_def guard_aborted_result_def same_books_def split: sum.splits GuardDecision.splits if_splits)
  then show ?thesis using assms Some pass_through_ends resume_ends pass_ends_books[OF books]
    by (auto simp: walk_step_def split: if_splits)
qed (use assms in \<open>auto simp: walk_step_def\<close>)

subsection \<open>Whole walks\<close>

abbreviation resumed :: "'w walk_host \<Rightarrow> 'w \<Rightarrow> string set" where
  "resumed h w \<equiv> build_resume_skip_set (map_option (\<lambda>listed. listed w) (wh_checkpoints h))"

inductive walk_reach :: "'w walk_host \<Rightarrow> run_ctx \<Rightarrow> string \<Rightarrow> 'w \<Rightarrow> walk_state \<Rightarrow> 'w \<Rightarrow> bool" for h rc start w0 where
  start: "walk_reach h rc start w0 (walk_init start (ho_clock_ns (wh_host h) w0)) w0"
| pass: "walk_reach h rc start w0 st w \<Longrightarrow> walk_step h rc (resumed h w0) st w = (Goto st1, w1) \<Longrightarrow> walk_reach h rc start w0 st1 w1"

lemma walk_loop_run:
  assumes "walk_loop h rc skip st w = Some (res, w1)" "walk_reach h rc start w0 st w" "skip = resumed h w0"
  shows "\<exists>st2 w2. walk_reach h rc start w0 st2 w2
    \<and> walk_step h rc skip st2 w2 = (case res of Inr r \<Rightarrow> Return r | Inl e \<Rightarrow> Raise e, w1)"
proof -
  let ?P = "\<lambda>h rc skip st w (res, w1). \<forall>start w0. walk_reach h rc start w0 st w \<longrightarrow> skip = resumed h w0 \<longrightarrow>
    (\<exists>st2 w2. walk_reach h rc start w0 st2 w2
      \<and> walk_step h rc skip st2 w2 = (case res of Inr r \<Rightarrow> Return r | Inl e \<Rightarrow> Raise e, w1))"
  have "?P h rc skip st w (res, w1)"
  proof (rule walk_loop.raw_induct[where P = ?P, OF _ assms(1)])
    fix f h rc skip st w y
    assume ih: "\<And>h rc skip st w y. f h rc skip st w = Some y \<Longrightarrow> ?P h rc skip st w y"
      and eq: "(case walk_step h rc skip st w of (Goto st1, w1) \<Rightarrow> f h rc skip st1 w1
        | (Return r, w1) \<Rightarrow> Some (Inr r, w1) | (Raise e, w1) \<Rightarrow> Some (Inl e, w1)) = Some y"
    obtain s v where s: "walk_step h rc skip st w = (s, v)" by fastforce
    show "?P h rc skip st w y"
    proof (cases s)
      case (Goto st1)
      with eq s have "f h rc skip st1 v = Some y" by simp
      from ih[OF this] have rest: "?P h rc skip st1 v y" .
      have "walk_reach h rc start w0 st1 v" if "walk_reach h rc start w0 st w" "skip = resumed h w0" for start w0
        using walk_reach.pass[of h rc start w0 st w st1 v] that s Goto by simp
      with rest show ?thesis by (cases y) simp
    qed (use eq s in \<open>auto intro!: exI\<close>)
  qed
  with assms(2,3) show ?thesis by auto
qed

lemma execute_graph_run:
  assumes "execute_graph h rc start w = Some (res, w1)"
  obtains st2 w2 where "walk_reach h rc start w st2 w2"
    "walk_step h rc (resumed h w) st2 w2 = (case res of Inr r \<Rightarrow> Return r | Inl e \<Rightarrow> Raise e, w1)"
  using walk_loop_run[OF assms[unfolded execute_graph_def] walk_reach.start refl] by blast

text \<open>Loop invariants of the walk.\<close>

locale walk_invariant =
  fixes inv :: "'w walk_host \<Rightarrow> walk_state \<Rightarrow> bool"
  assumes initial: "inv h (walk_init start now)"
    and kept: "inv h st \<Longrightarrow> grows (fanout_cap (wh_fan h)) st st1 \<Longrightarrow> inv h st1"
begin

lemma reached: "walk_reach h rc start w0 st w \<Longrightarrow> inv h st"
proof (induction rule: walk_reach.induct)
  case (pass st w st1 w1)
  then show ?case using walk_step_ends[of h rc "resumed h w0" st w "Goto st1" w1] by (auto simp: pass_ends_def intro: kept)
qed (rule initial)

lemma at_success:
  assumes "execute_graph h rc start w = Some (Inr r, w1)" "pr_success r"
  obtains msg files st where "r = finish True msg files st" "inv h st" "passed_somewhere st"
proof -
  obtain st2 w2 where st2: "walk_reach h rc start w st2 w2" "walk_step h rc (resumed h w) st2 w2 = (Return r, w1)"
    using execute_graph_run[OF assms(1)] by auto
  from walk_step_ends[OF st2(2)] obtain ok msg files st where r: "r = finish ok msg files st"
    and g: "ok \<longrightarrow> grows (fanout_cap (wh_fan h)) st2 st \<and> passed_somewhere st" by (auto simp: pass_ends_def)
  from assms(2) r have ok by (simp add: finish_def)
  with g r reached[OF st2(1)] kept that show ?thesis by (metis (full_types))
qed

end

definition within_cap :: "'w walk_host \<Rightarrow> walk_state \<Rightarrow> bool" where
  "within_cap h st \<longleftrightarrow> wk_fanout st \<le> fanout_cap (wh_fan h)"

interpretation cap: walk_invariant within_cap
  by unfold_locales (auto simp: within_cap_def walk_init_def grows_def)

definition balanced :: "'w walk_host \<Rightarrow> walk_state \<Rightarrow> bool" where
  "balanced h st \<longleftrightarrow> wk_total_tokens st = charge (wk_summaries st) no_tokens
     \<and> (passed_somewhere st \<longrightarrow> (\<exists>s \<in> set (wk_summaries st). ns_success s))"

interpretation books: walk_invariant balanced
proof
  fix h :: "'w walk_host" and st st1
  assume "balanced h st" "grows (fanout_cap (wh_fan h)) st st1"
  then show "balanced h st1" unfolding balanced_def grows_def passed_somewhere_def by fastforce
qed (simp add: balanced_def walk_init_def passed_somewhere_def)

lemma walk_success_accounted:
  assumes "execute_graph h rc start w = Some (Inr r, w1)" "pr_success r"
  shows "(\<exists>s \<in> set (pr_node_summaries r). ns_success s) \<and> pr_token_usage r = charge (pr_node_summaries r) no_tokens"
proof -
  obtain msg files st where "r = finish True msg files st" "balanced h st" "passed_somewhere st"
    using books.at_success[OF assms] .
  then show ?thesis by (simp add: finish_def balanced_def)
qed

subsection \<open>Termination\<close>

lemma finite_moves: "finite (moves g)"
proof -
  have "{(i, t). \<exists>n. hm_get (g_nodes g) i = Some n \<and> (n_handler n = Parallel \<or> n_handler n = DynamicParallel) \<and> n_converge n = Some t}
      \<subseteq> (\<lambda>(i, n). (i, the (n_converge n))) ` set (g_nodes g)"
    by (force dest!: map_of_SomeD)
  from finite_subset[OF this] show ?thesis unfolding moves_def all_edges_def by simp
qed

lemma walk_loop_ends:
  assumes "wf ((moves (rc_graph rc))\<inverse>)"
  shows "\<exists>y. walk_loop h rc skip st w = Some y"
proof -
  have "wk_current st = i \<Longrightarrow> \<exists>y. walk_loop h rc skip st w = Some y" for i
  proof (induction i arbitrary: st w rule: wf_induct_rule[OF assms])
    case (1 i)
    obtain s v where s: "walk_step h rc skip st w = (s, v)" by fastforce
    show ?case
    proof (cases s)
      case (Goto st1)
      with walk_step_ends[OF s] have "(wk_current st, wk_current st1) \<in> moves (rc_graph rc)" by (simp add: pass_ends_def)
      with 1 show ?thesis by (subst walk_loop.simps) (simp add: s Goto)
    qed (use s in \<open>simp_all add: walk_loop.simps\<close>)
  qed
  then show ?thesis by simp
qed

subsection \<open>Fan-out\<close>

lemma turn_order_perm: "distinct (turn_order n xs)" "set (turn_order n xs) = {0..<n}"
  by (auto simp: turn_order_def)

lemma take_turns_results:
  assumes "take_turns f ws is w = (rs, w1)"
  shows "map fst rs = is \<and> (\<forall>(i, r) \<in> set rs. \<exists>v. r = fst (run_worker f (ws ! i) v))"
  using assms
proof (induction f ws "is" w arbitrary: rs w1 rule: take_turns.induct)
  case (2 f ws i "is" w)
  obtain r v rest u where parts: "run_worker f (ws ! i) w = (r, v)" "take_turns f ws is v = (rest, u)" by fastforce
  with "2.prems" have "rs = (i, r) # rest" by simp
  moreover have "r = fst (run_worker f (ws ! i) w)" using parts by simp
  ultimately show ?case using "2.IH"[OF parts(1)[symmetric] refl parts(2)] by auto
qed simp

lemma map_filter_all: "(\<And>x. x \<in> set xs \<Longrightarrow> f x \<noteq> None) \<Longrightarrow> List.map_filter f xs = map (\<lambda>x. the (f x)) xs"
  by (induction xs) (fastforce simp: map_filter_simps split: option.splits)+

text \<open>Whatever the order of the turns, the results come in the order of the workers, one each.\<close>

lemma join_all_results:
  assumes "join_all f ws w = (results, w1)"
  shows "length results = length ws \<and> (\<forall>i < length ws. \<exists>v. results ! i = fst (run_worker f (ws ! i) v))"
proof -
  let ?n = "length ws"
  let ?order = "turn_order ?n (fh_turns f ?n w)"
  obtain rs u where rs: "take_turns f ws ?order w = (rs, u)" by fastforce
  with assms have res: "results = List.map_filter (map_of rs) [0..<?n]" by (simp add: join_all_def)
  note turns = take_turns_results[OF rs]
  have dist: "distinct (map fst rs)" "set (map fst rs) = {0..<?n}" using turns turn_order_perm by simp_all
  have look: "\<exists>r v. map_of rs i = Some r \<and> r = fst (run_worker f (ws ! i) v)" if "i < ?n" for i
  proof -
    from that dist(2) obtain r where "(i, r) \<in> set rs" by (metis atLeastLessThan_iff imageE le0 list.set_map prod.collapse)
    with dist(1) turns show ?thesis by (force simp: map_of_eq_Some_iff)
  qed
  have "List.map_filter (map_of rs) [0..<?n] = map (\<lambda>i. the (map_of rs i)) [0..<?n]"
    using look by (intro map_filter_all) auto
  with res look show ?thesis by fastforce
qed

lemma worker_deadline_bounds: "\<exists>q. fanout_worker_deadline node = Fin q \<and> 0 < q \<and> q \<le> 3600"
proof -
  have "0 < uint secs" if "0 < secs" for secs :: u64 using that by (simp add: word_less_def)
  then show ?thesis
    by (cases "n_deadline_secs node"; cases "n_timeout_secs node"; cases "the (n_deadline_secs node)")
       (auto simp: fanout_worker_deadline_def Let_def MAX_FANOUT_WORKER_SECS_def f64_min_def min_def)
qed


subsection \<open>Walks that never end\<close>

lemma walk_loop_diverges:
  assumes "\<And>st w. I st w \<Longrightarrow> \<exists>st1 w1. walk_step h rc skip st w = (Goto st1, w1) \<and> I st1 w1" "I st w"
  shows "walk_loop h rc skip st w = None"
proof (rule ccontr)
  let ?P = "\<lambda>h' rc' skip' st w (y :: (walk_error, PipelineResult) sum \<times> 'a). h' = h \<longrightarrow> rc' = rc \<longrightarrow> skip' = skip \<longrightarrow> \<not> I st w"
  assume "walk_loop h rc skip st w \<noteq> None"
  then obtain y where y: "walk_loop h rc skip st w = Some y" by auto
  have "?P h rc skip st w y"
  proof (rule walk_loop.raw_induct[where P = ?P, OF _ y])
    fix f h' rc' skip' st w y
    assume ih: "\<And>h' rc' skip' st w y. f h' rc' skip' st w = Some y \<Longrightarrow> ?P h' rc' skip' st w y"
      and eq: "(case walk_step h' rc' skip' st w of (Goto st1, w1) \<Rightarrow> f h' rc' skip' st1 w1
        | (Return r, w1) \<Rightarrow> Some (Inr r, w1) | (Raise e, w1) \<Rightarrow> Some (Inl e, w1)) = Some y"
    show "?P h' rc' skip' st w y"
    proof (intro impI notI)
      assume "h' = h" "rc' = rc" "skip' = skip" "I st w"
      with assms(1) eq ih show False by fastforce
    qed
  qed
  with assms(2) show False by simp
qed

text \<open>For witnesses and counterexamples: a host whose handlers all answer alike, without supervisor, accountant, validators,
  planner or store.\<close>

definition host_with :: "'w handler \<Rightarrow> 'w host" where
  "host_with handler = \<lparr>ho_runtime = \<lparr>rt_sleep = \<lambda>_ w. w, rt_expires = \<lambda>_ _. False, rt_cancel = \<lambda>_ w. w,
       rt_spawn_failure_hook = \<lambda>_ _ w. w, rt_shutdown = \<lambda>_. False\<rparr>,
     ho_handler = \<lambda>_. Some handler, ho_register = \<lambda>_ w. (Inr None, w), ho_mark_running = \<lambda>_ w. w,
     ho_mark_completed = \<lambda>_ _ w. w, ho_mark_failed = \<lambda>_ _ w. w, ho_reserve = \<lambda>_ _ w. (Inr None, w),
     ho_release = \<lambda>_ w. w, ho_clock_ns = \<lambda>_. 0, ho_validators = \<lambda>_ w. (Inr (), w),
     ho_project_cost_usd = \<lambda>_ _ _. None, ho_recovery_input = \<lambda>_ _. [], ho_working_dir = []\<rparr>"

definition walk_over :: "'w host \<Rightarrow> 'w walk_host" where
  "walk_over h = \<lparr>wh_fan = \<lparr>fh_host = h, fh_chat = \<lambda>_ _ w. (Inl (HandlerError ''offline''), w), fh_decode_tasks = \<lambda>_. None,
       fh_decode_objects = \<lambda>_. None, fh_alphanumeric = \<lambda>_. False, fh_lowercase = \<lambda>c. c, fh_error_text = \<lambda>_. ''error'',
       fh_inline_results = \<lambda>_ s. s, fh_turns = \<lambda>_ _. [], fh_fanout_cap = None\<rparr>,
     wh_guards = [], wh_checkpoints = None, wh_persist = \<lambda>_ w. (True, w), wh_sequence = \<lambda>_. 0, wh_count_persisted = \<lambda>w. w,
     wh_now_ms = \<lambda>_. 0\<rparr>"

definition stubborn :: "unit handler" where
  "stubborn node ctx w = (Inr (outcome_of (n_id node) (if n_id node = ''check'' then Fail else Pass)), w)"

definition gate :: "string \<Rightarrow> PipelineNode" where
  "gate i = default_node\<lparr>n_id := i, n_handler := Gate\<rparr>"

definition converge_loop :: PipelineGraph where
  "converge_loop = (bare_graph [] [bare_edge ''start'' ''fan''])\<lparr>g_nodes := [(''start'', gate ''start''),
     (''fan'', (gate ''fan'')\<lparr>n_handler := Parallel, n_converge := Some ''start''\<rparr>)]\<rparr>"

lemmas step_defs = walk_step_def dispatch_visit_def sequential_node_def parallel_node_def completed_visit_def after_visit_def
  follow_def walk_over_def host_with_def run_of_def Let_def walk_remaining_def remaining_pipeline_tokens_def dispatch_node_def
  execute_with_retries_def retry_loop.simps prepare_node_def default_node_def stubborn_def try_recovery_def node_budget_spent_def
  classify_outcome_def validate_outcome_def mark_task_def settle_def count_visit_def

lemma outcome_of_sel [simp]: "o_status (outcome_of i s) = s" "o_token_usage (outcome_of i s) = no_tokens"
  by (simp_all add: outcome_of_def no_tokens_def)

definition spinning :: "string set \<Rightarrow> walk_state \<Rightarrow> unit \<Rightarrow> bool" where
  "spinning S st w \<longleftrightarrow> wk_current st \<in> S \<and> wk_parallel_executed st = {} \<and> wk_fanout st = 0"

lemma gate_visit:
  assumes "hm_get (g_nodes g) i = Some (gate i)" "spinning S st ()" "wk_current st = i" "t \<in> S" "g_max_total_tokens g = None"
    and "select_next_edge g i (outcome_of i (if i = ''check'' then Fail else Pass)) = Inr (Some t)"
  shows "\<exists>st1 w1. walk_step (walk_over (host_with stubborn)) (run_of g) {} st () = (Goto st1, w1) \<and> spinning S st1 w1"
proof -
  have "hm_get (g_nodes g) (wk_current st) = Some (gate i)" using assms by simp
  then show ?thesis using assms
    by (cases "i = ''check''") (auto simp: step_defs spinning_def gate_def)
qed

lemma converge_visit:
  assumes "spinning {''start'', ''fan''} st ()" "wk_current st = ''fan''"
  shows "\<exists>st1 w1. walk_step (walk_over (host_with stubborn)) (run_of converge_loop) {} st () = (Goto st1, w1)
    \<and> spinning {''start'', ''fan''} st1 w1"
proof -
  have "hm_get (g_nodes converge_loop) ''fan'' = Some ((gate ''fan'')\<lparr>n_handler := Parallel, n_converge := Some ''start''\<rparr>)"
    "filter (\<lambda>e. e_source e = ''fan'') (g_edges converge_loop) = []" "g_max_total_tokens converge_loop = None"
    by (simp_all add: converge_loop_def bare_defs)
  with assms show ?thesis
    by (simp add: step_defs spinning_def gate_def fanout_cap_def MAX_PIPELINE_FANOUT_TOTAL_def run_fan_def join_all_def turn_order_def
        process_worker_results_def merge_fan_def release_all_def converge_def fan_status_def)
qed

lemma converge_loop_spins: "execute_graph (walk_over (host_with stubborn)) (run_of converge_loop) ''start'' () = None"
proof -
  have "select_next_edge converge_loop ''start'' (outcome_of ''start'' Pass) = Inr (Some ''fan'')" by code_simp
  then have "\<exists>st1 w1. walk_step (walk_over (host_with stubborn)) (run_of converge_loop) {} st () = (Goto st1, w1)
      \<and> spinning {''start'', ''fan''} st1 w1" if "spinning {''start'', ''fan''} st ()" for st
    using gate_visit[of converge_loop "''start''" "{''start'', ''fan''}" st "''fan''"] converge_visit[of st] that
    by (auto simp: spinning_def converge_loop_def bare_defs)
  then have "walk_loop (walk_over (host_with stubborn)) (run_of converge_loop) {} (walk_init ''start'' 0) () = None"
    by (intro walk_loop_diverges[of "spinning {''start'', ''fan''}"]) (auto simp: spinning_def walk_init_def)
  then show ?thesis by (simp add: execute_graph_def walk_over_def host_with_def build_resume_skip_set_def)
qed

lemma retry_spins: "execute_graph (walk_over (host_with stubborn)) (run_of (gates retry_graph)) ''start'' () = None"
proof -
  let ?g = "gates retry_graph" and ?S = "{''start'', ''work'', ''check''}"
  have sel: "select_next_edge ?g ''start'' (outcome_of ''start'' Pass) = Inr (Some ''work'')"
    "select_next_edge ?g ''work'' (outcome_of ''work'' Pass) = Inr (Some ''check'')"
    "select_next_edge ?g ''check'' (outcome_of ''check'' Fail) = Inr (Some ''work'')" by code_simp+
  have nodes: "hm_get (g_nodes ?g) i = Some (gate i)" if "i \<in> ?S" for i
    using that by (auto simp: gates_def retry_graph_def bare_defs gate_def)
  have "\<exists>st1 w1. walk_step (walk_over (host_with stubborn)) (run_of ?g) {} st () = (Goto st1, w1) \<and> spinning ?S st1 w1"
    if "spinning ?S st ()" for st
    using gate_visit[of ?g "wk_current st" ?S st] nodes[of "wk_current st"] sel that
    by (auto simp: spinning_def gates_def retry_graph_def bare_defs)
  then have "walk_loop (walk_over (host_with stubborn)) (run_of ?g) {} (walk_init ''start'' 0) () = None"
    by (intro walk_loop_diverges[of "spinning ?S"]) (auto simp: spinning_def walk_init_def)
  then show ?thesis by (simp add: execute_graph_def walk_over_def host_with_def build_resume_skip_set_def)
qed

subsection \<open>Properties\<close>

declare walk_loop.simps [code]

text \<open>C22. The walk leaves a node by the edge the documented order of preference picks: the heaviest edge whose condition holds, the
  suggested successor, the first edge whose label occurs in the output, the heaviest edge without condition, the smallest target;
  it stays only at a node without edges. With finite weights and conditions that parse, the choice never fails.\<close>

theorem select_next_edge_exact:
  assumes "conditions_parse g" "\<forall>e \<in> set (g_edges g). is_finite (e_weight e)"
  shows "select_next_edge g i out = Inr (preferred g i out)
    \<and> (preferred g i out = None \<longleftrightarrow> i \<notin> Domain (all_edges g))
    \<and> (\<forall>t. preferred g i out = Some t \<longrightarrow> (i, t) \<in> all_edges g)"
  using select_exact[OF assms, of i out] select_None_iff[of g i out] select_along_edge[of g i out] by simp

theorem select_next_edge_exact_witness:
  "preferred router_graph ''start'' (outcome_of ''start'' Fail) = Some ''a''"
proof -
  have "select_next_edge router_graph ''start'' (outcome_of ''start'' Fail) = Inr (Some ''a'')" by code_simp
  moreover have "\<forall>e \<in> set (g_edges router_graph). is_finite (e_weight e)" by code_simp
  ultimately show ?thesis
    using select_next_edge_exact[OF router_graph_parses, of "''start''" "outcome_of ''start'' Fail"] by simp
qed

text \<open>C17. A walk whose moves form no cycle comes to an end: when no path of edges and jumps from a fan-out to its convergence
  node returns to where it started, the walk returns a result or an error, whatever the handlers, guards and planner answer.\<close>

theorem walk_ends:
  assumes "acyclic (moves (rc_graph rc))"
  shows "\<exists>res w1. execute_graph h rc start w = Some (res, w1)"
proof -
  have "wf ((moves (rc_graph rc))\<inverse>)" by (rule finite_acyclic_wf_converse[OF finite_moves assms])
  then show ?thesis unfolding execute_graph_def using walk_loop_ends by (metis prod.exhaust)
qed

theorem walk_ends_witness: "\<exists>res w1. execute_graph (walk_over script_host) (run_of solo_graph) ''start'' [Fail] = Some (res, w1)"
proof (rule walk_ends)
  have "moves (rc_graph (run_of solo_graph)) = {}"
    by (simp add: run_of_def solo_graph_def gates_def bare_defs moves_def all_edges_def default_node_def)
  then show "acyclic (moves (rc_graph (run_of solo_graph)))" by (simp add: acyclic_def)
qed

text \<open>C39. Nothing else bounds a walk. Two validated graphs on which it runs forever: a fan-out without targets that converges on its
  own predecessor, which the cycle rule does not see because it looks at edges only; and a retry edge whose check never
  passes, which the scheduler would stop after ten retries.\<close>

theorem walk_can_run_forever:
  "validate_with_context converge_loop default_context = Inr ()
   \<and> validate_with_context (gates retry_graph) default_context = Inr ()
   \<and> execute_graph (walk_over (host_with stubborn)) (run_of converge_loop) ''start'' () = None
   \<and> execute_graph (walk_over (host_with stubborn)) (run_of (gates retry_graph)) ''start'' () = None"
proof (intro conjI converge_loop_spins retry_spins)
  show "validate_with_context converge_loop default_context = Inr ()" by code_simp
  show "validate_with_context (gates retry_graph) default_context = Inr ()" by code_simp
qed


definition fan_graph :: PipelineGraph where
  "fan_graph = (bare_graph [] [bare_edge ''start'' ''a'', bare_edge ''start'' ''b''])\<lparr>g_nodes :=
     [(''start'', (gate ''start'')\<lparr>n_handler := Parallel, n_converge := Some ''join''\<rparr>), (''a'', gate ''a''), (''b'', gate ''b''),
      (''join'', gate ''join'')]\<rparr>"



definition backwards :: "OutcomeStatus list fan_host" where
  "backwards = (wh_fan (walk_over script_host))\<lparr>fh_turns := \<lambda>n _. rev [0..<n]\<rparr>"

definition two_workers :: "OutcomeStatus list worker list" where
  "two_workers = map (\<lambda>i. \<lparr>wo_id = i, wo_node = gate i, wo_handler = scripted,
     wo_ctx = \<lparr>hc_input = [], hc_completed = [], hc_predecessor_outcomes = [], hc_working_dir = []\<rparr>\<rparr>) [''a'', ''b'']"


text \<open>No fan-out worker can hang a run: whatever deadline and timeout its node declares, not-a-number, infinite, negative and
  zero included, each attempt of a worker has a deadline above zero and of at most an hour, which converts to a
  duration without a panic.\<close>

theorem worker_deadline_bounded:
  "\<exists>q. fanout_worker_deadline node = Fin q \<and> 0 < q \<and> q \<le> 3600 \<and> duration_from_secs_f64 (fanout_worker_deadline node) = Some (Fin q)"
proof -
  obtain q where q: "fanout_worker_deadline node = Fin q" "0 < q" "q \<le> 3600" using worker_deadline_bounds by blast
  then have "q < 2 ^ 64" by (rule_tac le_less_trans[of q 3600]) simp_all
  with q show ?thesis by (simp add: duration_from_secs_f64_def f64_le_def)
qed

definition comma_graph :: PipelineGraph where
  "comma_graph = (bare_graph [] [bare_edge ''start'' ''end''])\<lparr>g_nodes :=
     [(''start'', default_node\<lparr>n_id := ''start'', n_handler := DynamicParallel, n_converge := Some ''end'', n_model := Some '',''\<rparr>),
      (''end'', gate ''end'')]\<rparr>"

text \<open>A model list that consists of commas passes validation and crashes the run: the validator ignores empty entries, the
  pool of worker models is then empty, and picking a worker's model divides by its length.\<close>

theorem comma_model_panics:
  "validate_with_context comma_graph default_context = Inr ()
   \<and> execute_graph (walk_over script_host) (run_of comma_graph) ''start'' [] = Some (Inl (EmptyModelPool ''start''), [])"
proof
  show "validate_with_context comma_graph default_context = Inr ()" by code_simp
  show "execute_graph (walk_over script_host) (run_of comma_graph) ''start'' [] = Some (Inl (EmptyModelPool ''start''), [])" by code_simp
qed

definition infinite_graph :: PipelineGraph where
  "infinite_graph = (bare_graph [] [(bare_edge ''start'' ''end'')\<lparr>e_weight := Inf False\<rparr>])\<lparr>g_nodes :=
     [(''start'', gate ''start''), (''end'', gate ''end'')]\<rparr>"

text \<open>An edge of infinite weight passes validation and crashes the walk: infinity minus infinity is not a number, so no edge ties
  with the greatest weight and the empty list of ties is unwrapped.\<close>

theorem infinite_weight_panics:
  "validate_with_context infinite_graph default_context = Inr ()
   \<and> execute_graph (walk_over script_host) (run_of infinite_graph) ''start'' [] = Some (Inl (WalkSelect NoHeaviestEdge), [])"
proof
  show "validate_with_context infinite_graph default_context = Inr ()" by code_simp
  show "execute_graph (walk_over script_host) (run_of infinite_graph) ''start'' [] = Some (Inl (WalkSelect NoHeaviestEdge), [])" by code_simp
qed

definition logging_host :: "string list host" where
  "logging_host = (host_with (\<lambda>n c w. (Inr (outcome_of (n_id n) Pass), w)))\<lparr>
     ho_runtime := \<lparr>rt_sleep = \<lambda>_ w. w, rt_expires = \<lambda>_ _. True, rt_cancel = \<lambda>_ w. w, rt_spawn_failure_hook = \<lambda>_ _ w. w,
       rt_shutdown = \<lambda>_. False\<rparr>,
     ho_register := \<lambda>i w. (Inr (Some i), w), ho_mark_running := \<lambda>t w. w @ [''running'', t],
     ho_mark_completed := \<lambda>t _ w. w @ [''completed'', t], ho_mark_failed := \<lambda>t _ w. w @ [''failed'', t]\<rparr>"

definition slow_graph :: PipelineGraph where
  "slow_graph = (bare_graph [] [])\<lparr>g_nodes := [(''start'', (gate ''start'')\<lparr>n_deadline_secs := Some (Fin 1), n_deadline_action := Some Skip\<rparr>)]\<rparr>"

text \<open>A skipped node's task stays open: when a node's deadline passes and its action is to skip, the walk registers the node's
  task, marks it running and never closes it, while the scheduler closes it on the same node.\<close>

theorem skipped_task_left_running:
  "map_option snd (execute_graph (walk_over logging_host) (run_of slow_graph) ''start'' []) = Some [''running'', ''start'']
   \<and> snd (execute_graph_dag logging_host (run_of slow_graph) []) = [''running'', ''start'', ''completed'', ''start'']"
proof
  show "map_option snd (execute_graph (walk_over logging_host) (run_of slow_graph) ''start'' []) = Some [''running'', ''start'']" by code_simp
  show "snd (execute_graph_dag logging_host (run_of slow_graph) []) = [''running'', ''start'', ''completed'', ''start'']" by code_simp
qed

end
