(* ===== verification/Handler_Properties.thy ===== *)
theory Handler_Properties
  imports Handlers Walk_Properties
begin

text \<open>
  What the node handlers guarantee: when a gate passes, what is left of an instruction that is too long for its model, and that
  a wait comes to an end. Two consequences of the registry close the theory: what a fan-out does with a target that is
  itself a fan-out.
\<close>

subsection \<open>Gates\<close>

primrec severity :: "OutcomeStatus \<Rightarrow> nat" where
  "severity Pass = 0"
| "severity Skipped = 1"
| "severity Fail = 2"
| "severity Error = 3"

lemma severity_le: "severity s \<le> 3"
  by (cases s) auto

lemma severity_inj: "severity s = severity t \<longleftrightarrow> s = t"
  by (cases s; cases t) auto

lemma gate_status_worst:
  assumes "outs \<noteq> []"
  shows "severity (gate_status outs) = Max (severity ` o_status ` set outs)"
proof (rule Max_eqI[symmetric])
  have "severity (o_status out) \<le> severity (gate_status outs)" if "out \<in> set outs" for out
    using that severity_le by (cases "o_status out") (auto simp: gate_status_def list_ex_iff)
  then show "\<And>y. y \<in> severity ` o_status ` set outs \<Longrightarrow> y \<le> severity (gate_status outs)" by auto
  obtain out where "out \<in> set outs" using assms by (cases outs) auto
  moreover have "o_status out = Pass \<or> o_status out = Skipped \<or> o_status out = Fail \<or> o_status out = Error" for out
    by (cases "o_status out") auto
  ultimately have "gate_status outs \<in> o_status ` set outs" unfolding gate_status_def list_ex_iff image_iff by (smt (verit))
  then show "severity (gate_status outs) \<in> severity ` o_status ` set outs" by auto
qed simp

subsection \<open>Instructions\<close>

lemma concat_take_drop_scalars: "concat (take n (scalars s)) @ concat (drop n (scalars s)) = s"
  by (metis append_take_drop_id concat_append concat_scalars)

definition cjk :: "nat \<Rightarrow> string" where
  "cjk n = concat (replicate n [CHR 0xE4, CHR 0xBD, CHR 0xA0])"

lemma scalars_cjk: "scalars (cjk n) = replicate n [CHR 0xE4, CHR 0xBD, CHR 0xA0]"
  by (induction n) (simp_all add: cjk_def scalars.simps next_scalar_def scalar_len_def byte_def)

lemma cjk_not_ascii: "filter (\<lambda>c. byte c < 128) (cjk n) = []"
  by (auto simp: cjk_def filter_empty_conv byte_def)

lemma round_f32_16384: "round_f32 16384 = 16384"
proof -
  have "bit_length 16384 = 15" "bit_length (Suc 0) = 1" by (simp_all add: bit_length.simps)
  then have "binary_exponent 16384 = 14" by (simp add: binary_exponent_def pow2_def Let_def)
  then show ?thesis by (simp add: round_f32_def pow2_def round_half_even_def Let_def)
qed

lemma round_f32_third: "\<lfloor>round_f32 (32768 / 3)\<rfloor> = 10922"
proof -
  have q: "quotient_of (32768 / 3) = (32768, 3)" by code_simp
  have "bit_length 32768 = 16" "bit_length 3 = 2" by (simp_all add: bit_length.simps)
  then have "binary_exponent (32768 / 3) = 13" by (simp add: binary_exponent_def pow2_def Let_def q)
  moreover have "\<lfloor>33554432 / 3 :: rat\<rfloor> = 11184810" "\<lfloor>11184811 / 1024 :: rat\<rfloor> = 10922" by (simp_all add: floor_eq_iff)
  ultimately show ?thesis by (simp add: round_f32_def pow2_def round_half_even_def Let_def)
qed

lemma estimate_cjk: "estimate_tokens (cjk 16384) = 10922"
  using round_f32_16384 round_f32_third by (simp add: estimate_tokens_def scalars_cjk cjk_not_ascii)

subsection \<open>Waits\<close>

lemma wait_poll_returns:
  assumes "\<And>w. hh_clock_ns hh w + 1000000000 \<le> hh_clock_ns hh (hh_sleep_secs hh 1 w)"
  shows "\<exists>w1. wait_poll hh file deadline w = Some (hh_exists hh file w1, w1) \<and> (hh_exists hh file w1 \<or> deadline \<le> hh_clock_ns hh w1)"
proof (induction "nat (deadline - hh_clock_ns hh w)" arbitrary: w rule: less_induct)
  case less
  show ?case
  proof (cases "hh_exists hh file w \<or> deadline \<le> hh_clock_ns hh w")
    case True
    then show ?thesis by (subst wait_poll.simps) auto
  next
    case False
    have "nat (deadline - hh_clock_ns hh (hh_sleep_secs hh 1 w)) < nat (deadline - hh_clock_ns hh w)"
      using False assms[of w] by simp
    from less[OF this] False show ?thesis by (subst wait_poll.simps) simp
  qed
qed

subsection \<open>Properties\<close>

text \<open>A gate passes exactly when its condition holds of what came before it: of the single predecessor as it is, or of the
  concatenated input with the worst status among several, where an error is worse than a failure, a failure worse than a
  skip and a skip worse than a pass. It changes nothing and never answers anything but pass or fail.\<close>

theorem gate_decides_exactly:
  assumes "n_prompt node = Some cond" "cond \<noteq> ''true''" "parse_condition cond = Inr expr"
  shows "let pred = synthesize_predecessor_outcome (n_id node) ctx in
    gate_handler node ctx w = (Inr (handled node (if evaluate expr pred then Pass else Fail) (o_content pred)), w)
    \<and> (hc_predecessor_outcomes ctx \<noteq> [] \<longrightarrow>
        severity (o_status pred) = Max (severity ` o_status ` set (hc_predecessor_outcomes ctx)))"
proof -
  have "severity (o_status (synthesize_predecessor_outcome (n_id node) ctx)) = Max (severity ` o_status ` set (hc_predecessor_outcomes ctx))"
    if "hc_predecessor_outcomes ctx \<noteq> []"
    using gate_status_worst[OF that] that unfolding synthesize_predecessor_outcome_def
    by (auto split: list.splits)
  with assms show ?thesis by (simp add: gate_handler_def Let_def)
qed

theorem gate_decides_exactly_witness:
  "gate_handler (default_node\<lparr>n_id := ''g'', n_prompt := Some ''outcome.status == \"fail\"''\<rparr>)
     \<lparr>hc_input = ''in'', hc_completed = [], hc_predecessor_outcomes = [outcome_of ''a'' Pass, outcome_of ''b'' Fail], hc_working_dir = []\<rparr> ()
   = (Inr (handled (default_node\<lparr>n_id := ''g'', n_prompt := Some ''outcome.status == \"fail\"''\<rparr>) Pass ''in''), ())"
proof -
  let ?n = "default_node\<lparr>n_id := ''g'', n_prompt := Some ''outcome.status == \"fail\"''\<rparr>"
  let ?c = "\<lparr>hc_input = ''in'', hc_completed = [], hc_predecessor_outcomes = [outcome_of ''a'' Pass, outcome_of ''b'' Fail], hc_working_dir = []\<rparr>"
  have "parse_condition ''outcome.status == \"fail\"'' = Inr (StatusEq ''fail'')" by code_simp
  from gate_decides_exactly[of ?n _ "StatusEq ''fail''" ?c "()", OF _ _ this]
  show ?thesis by (simp add: Let_def synthesize_predecessor_outcome_def gate_status_def evaluate_def)
qed

text \<open>An instruction reaches its model whole when it is estimated to fit, and otherwise whole or as its beginning and its end around a
  notice: at most four characters per token of the budget, the first seven tenths from the beginning, cut between characters, and the
  budget is never below 512 tokens.\<close>

theorem instruction_compacted:
  "let budget = instruction_budget window max_out; result = compact_pipeline_instruction input (Some window) max_out in
   512 \<le> budget \<and> (estimate_tokens input \<le> budget \<longrightarrow> result = input)
    \<and> (result = input \<or> (\<exists>h m t. scalars input = h @ m @ t \<and> m \<noteq> [] \<and> length h + length t = 4 * unat budget
        \<and> length h = 28 * unat budget div 10
        \<and> result = concat h @ compaction_notice (saturating_sub (estimate_tokens input) budget) @ concat t))"
proof -
  define budget where "budget = instruction_budget window max_out"
  define result where "result = compact_pipeline_instruction input (Some window) max_out"
  define n where "n = 4 * unat budget"
  define hd_len where "hd_len = n * 7 div 10"
  let ?cs = "scalars input"
  let ?k = "length ?cs - (n - hd_len)"
  let ?notice = "compaction_notice (saturating_sub (estimate_tokens input) budget)"
  have low: "512 \<le> budget" by (simp add: budget_def instruction_budget_def Let_def)
  then have "unat (512 :: u32) \<le> unat budget" by (simp only: word_le_nat_alt)
  then have chars: "instruction_chars budget = n" by (simp add: instruction_chars_def n_def)
  have split: "result = (if estimate_tokens input \<le> budget then input else if length ?cs \<le> n then input
      else concat (take hd_len ?cs) @ ?notice @ concat (drop ?k ?cs))"
    unfolding result_def compact_pipeline_instruction_def budget_def[symmetric] Let_def chars option.case hd_len_def ..
  have "\<exists>h m t. ?cs = h @ m @ t \<and> m \<noteq> [] \<and> length h + length t = n \<and> length h = hd_len \<and> result = concat h @ ?notice @ concat t"
    if "result \<noteq> input"
  proof -
    from that split have long: "n < length ?cs" and r: "result = concat (take hd_len ?cs) @ ?notice @ concat (drop ?k ?cs)"
      by (metis linorder_not_le)+
    have "hd_len \<le> n" by (simp add: hd_len_def)
    with long have k: "hd_len < ?k" "?k \<le> length ?cs" "length ?cs - ?k = n - hd_len" by linarith+
    then have "take hd_len (take ?k ?cs) = take hd_len ?cs" by (simp add: min_def)
    then have "?cs = take hd_len ?cs @ drop hd_len (take ?k ?cs) @ drop ?k ?cs" by (metis append.assoc append_take_drop_id)
    moreover have "drop hd_len (take ?k ?cs) \<noteq> []" using k by simp
    moreover have "length (take hd_len ?cs) = hd_len" "length (take hd_len ?cs) + length (drop ?k ?cs) = n"
      using k long \<open>hd_len \<le> n\<close> by simp_all
    ultimately show ?thesis using r by blast
  qed
  moreover have "result = input" if "estimate_tokens input \<le> budget" using that split by simp
  moreover have "28 * unat budget div 10 = hd_len" by (simp add: hd_len_def n_def)
  ultimately show ?thesis using low unfolding budget_def[symmetric] result_def[symmetric] Let_def n_def[symmetric] by auto
qed

theorem instruction_compacted_witness:
  "compact_pipeline_instruction ''hello'' (Some 8192) (Some 1024) = ''hello''"
proof -
  have "estimate_tokens ''hello'' \<le> instruction_budget 8192 (Some 1024)" by code_simp
  then show ?thesis using instruction_compacted[of 8192 "Some 1024" "''hello''"] by (simp add: Let_def)
qed

text \<open>The cut counts four characters to a token, while the estimate counts two tokens to three wide characters. A text of 16384 Chinese
  characters is estimated at 10922 tokens, over the budget of 4096 and over the window of 8192, and is passed on whole.\<close>

theorem wide_instruction_overflows:
  "estimate_tokens (cjk 16384) = 10922 \<and> instruction_budget 8192 (Some 1024) = 4096
   \<and> compact_pipeline_instruction (cjk 16384) (Some 8192) (Some 1024) = cjk 16384"
proof -
  have b: "instruction_budget 8192 (Some 1024) = 4096" by code_simp
  then show ?thesis using estimate_cjk
    by (simp add: compact_pipeline_instruction_def scalars_cjk instruction_chars_def)
qed

text \<open>A wait comes to an end: when each pause of a second lets at least a second pass, the wait handler returns; it passes only if the file is
  there and fails only after the timeout with the file still missing.\<close>

theorem wait_returns:
  assumes "\<forall>w. hh_clock_ns hh w + 1000000000 \<le> hh_clock_ns hh (hh_sleep_secs hh 1 w)"
    "n_prompt node = Some (''wait until file_exists:'' @ p)" "wait_secs (''wait until file_exists:'' @ p) = None"
    "n_timeout_secs node = Some timeout" "hh_clock_ns hh w div 1000000000 + uint timeout < 2 ^ 63"
  shows "\<exists>out w1. wait_run hh node ctx w = Some (Inr out, w1)
    \<and> (let file = path_join (hc_working_dir ctx) (trim p) in
        o_status out = Pass \<and> hh_exists hh file w1
        \<or> o_status out = Fail \<and> \<not> hh_exists hh file w1 \<and> hh_clock_ns hh w + uint timeout * 1000000000 \<le> hh_clock_ns hh w1)"
proof -
  let ?file = "path_join (hc_working_dir ctx) (trim p)" and ?deadline = "hh_clock_ns hh w + uint timeout * 1000000000"
  obtain w1 where w1: "wait_poll hh ?file ?deadline w = Some (hh_exists hh ?file w1, w1)"
    "hh_exists hh ?file w1 \<or> ?deadline \<le> hh_clock_ns hh w1"
    using wait_poll_returns[of hh ?file ?deadline w] assms(1) by auto
  have "wait_path (''wait until file_exists:'' @ p) = Some p" by (simp add: wait_path_def strip_prefix_def)
  with assms w1 show ?thesis by (cases "hh_exists hh ?file w1") (auto simp: wait_run_def Let_def handled_def)
qed

text \<open>For witnesses: handlers over a clock, with no files, processes or providers.\<close>

definition clockwork :: "int handler_host" where
  "clockwork = \<lparr>hh_expires = \<lambda>_ _. False, hh_cancel = \<lambda>_ w. w, hh_sleep_secs = \<lambda>s w. w + uint s * 1000000000, hh_clock_ns = \<lambda>w. w,
     hh_exists = \<lambda>_ _. False, hh_sh = \<lambda>_ _ w. (Inl ''no shell'', w), hh_router = None, hh_mark_terminal = \<lambda>_ w. w, hh_session_key = None,
     hh_workspace_write = False, hh_context_window = \<lambda>_ _. 8192, hh_max_output_tokens = \<lambda>_. 1024, hh_worker_number = \<lambda>w. (0, w),
     hh_run_task = \<lambda>_ w. (Inl ''no agent'', w)\<rparr>"

theorem wait_returns_witness:
  "\<exists>out w1. wait_run clockwork (default_node\<lparr>n_prompt := Some ''wait until file_exists:done'', n_timeout_secs := Some 5\<rparr>)
     \<lparr>hc_input = [], hc_completed = [], hc_predecessor_outcomes = [], hc_working_dir = ''/w''\<rparr> 0 = Some (Inr out, w1) \<and> o_status out = Fail"
proof -
  let ?n = "default_node\<lparr>n_prompt := Some ''wait until file_exists:done'', n_timeout_secs := Some 5\<rparr>"
  have "wait_secs (''wait until file_exists:'' @ ''done'') = None" by code_simp
  moreover have "hh_clock_ns clockwork w = w" "hh_sleep_secs clockwork s w = w + uint s * 1000000000" "\<not> hh_exists clockwork f w" for s w f
    by (simp_all add: clockwork_def)
  ultimately show ?thesis
    using wait_returns[of clockwork ?n "''done''" 5 0 "\<lparr>hc_input = [], hc_completed = [], hc_predecessor_outcomes = [], hc_working_dir = ''/w''\<rparr>"]
    by (simp add: Let_def) blast
qed

subsection \<open>Fan-outs inside a fan-out\<close>

definition handler_walk :: "int walk_host" where
  "handler_walk = walk_over ((host_with gate_handler)\<lparr>ho_handler := hm_get (build_handlers clockwork)\<rparr>)"

definition nested_graph :: "HandlerKind \<Rightarrow> PipelineGraph" where
  "nested_graph kind = (bare_graph [] [bare_edge ''start'' ''inner'', bare_edge ''inner'' ''end''])\<lparr>g_nodes :=
     [(''start'', (gate ''start'')\<lparr>n_handler := Parallel, n_converge := Some ''end''\<rparr>),
      (''inner'', (gate ''inner'')\<lparr>n_handler := kind, n_converge := Some ''end''\<rparr>), (''end'', gate ''end'')]\<rparr>"

text \<open>A fan-out cannot be the target of a fan-out, and the validator does not say so. When a target is a static fan-out the run ends
  in an error, since the registry has no handler for it; when it is a dynamic fan-out, a noop runs in its place: no task is
  planned, no worker starts, and the run reports that the node passed.\<close>

theorem nested_fanout_dropped:
  "validate_with_context (nested_graph Parallel) default_context = Inr ()
   \<and> validate_with_context (nested_graph DynamicParallel) default_context = Inr ()
   \<and> execute_graph handler_walk (run_of (nested_graph Parallel)) ''start'' 0 = Some (Inl (WalkExec (NoHandler Parallel)), 0)
   \<and> map_option (\<lambda>(r, _). case r of Inr q \<Rightarrow> (pr_success q, map (\<lambda>s. (ns_node_id s, ns_success s)) (pr_node_summaries q)) | Inl _ \<Rightarrow> (False, []))
       (execute_graph handler_walk (run_of (nested_graph DynamicParallel)) ''start'' 0)
     = Some (True, [(''inner'', True), (''start'', True), (''end'', True)])"
proof (intro conjI)
  show "validate_with_context (nested_graph Parallel) default_context = Inr ()" by code_simp
  show "validate_with_context (nested_graph DynamicParallel) default_context = Inr ()" by code_simp
  show "execute_graph handler_walk (run_of (nested_graph Parallel)) ''start'' 0 = Some (Inl (WalkExec (NoHandler Parallel)), 0)" by code_simp
  show "map_option (\<lambda>(r, _). case r of Inr q \<Rightarrow> (pr_success q, map (\<lambda>s. (ns_node_id s, ns_success s)) (pr_node_summaries q)) | Inl _ \<Rightarrow> (False, []))
       (execute_graph handler_walk (run_of (nested_graph DynamicParallel)) ''start'' 0)
     = Some (True, [(''inner'', True), (''start'', True), (''end'', True)])" by code_simp
qed

end
