(* ===== verification/Metered.thy ===== *)
theory Metered
  imports Walk_Properties "HOL-Library.Multiset"
begin

text \<open>
  The engines and the budget. A reservation that an engine makes for a node is given back on every path: when the node
  answers, when its handler fails, when it is skipped, when another worker of its fan-out cannot be prepared. The books are any
  predicate on the open reservations and the world that reserving and releasing change in the obvious way and that everything else leaves
  alone; the locale \<open>metered\<close> says so of the host, \<open>metered_walk\<close> also of what only the walk calls. \<^verbatim>\<open>Pipeline_Run\<close> interprets both for the host that a
  run is given.
\<close>

locale metered =
  fixes h :: "'w host" and rc :: run_ctx and books :: "f64 option multiset \<Rightarrow> 'w \<Rightarrow> bool"
  assumes reserve_opens: "books M w \<Longrightarrow> ho_reserve h (g_id (rc_graph rc)) n w = (Inr res, w1) \<Longrightarrow> books (add_mset res M) w1"
    and reserve_refuses: "books M w \<Longrightarrow> ho_reserve h (g_id (rc_graph rc)) n w = (Inl e, w1) \<Longrightarrow> books M w1"
    and release_closes: "books (add_mset res M) w \<Longrightarrow> books M (ho_release h res w)"
    and handler_keeps: "ho_handler h k = Some f \<Longrightarrow> books M w \<Longrightarrow> books M (snd (f n c w))"
    and register_keeps: "books M w \<Longrightarrow> books M (snd (ho_register h i w))"
    and mark_keeps: "books M w \<Longrightarrow> books M (ho_mark_running h t w)" "books M w \<Longrightarrow> books M (ho_mark_completed h t fs w)"
      "books M w \<Longrightarrow> books M (ho_mark_failed h t msg w)"
    and validators_keep: "books M w \<Longrightarrow> books M (snd (ho_validators h i w))"
    and runtime_keeps: "books M w \<Longrightarrow> books M (rt_sleep (ho_runtime h) ms w)" "books M w \<Longrightarrow> books M (rt_cancel (ho_runtime h) d w)"
      "books M w \<Longrightarrow> books M (rt_spawn_failure_hook (ho_runtime h) n d w)"
begin

definition honest :: "'w handler \<Rightarrow> bool" where
  "honest f \<longleftrightarrow> (\<forall>M n c w. books M w \<longrightarrow> books M (snd (f n c w)))"

lemma handler_honest: "ho_handler h k = Some f \<Longrightarrow> honest f"
  by (simp add: honest_def handler_keeps)

lemma honestD: "honest f \<Longrightarrow> books M w \<Longrightarrow> f n c w = (r, w1) \<Longrightarrow> books M w1"
  unfolding honest_def by (metis snd_conv)

subsection \<open>One node\<close>

lemma retry_loop_keeps:
  assumes "honest f"
  shows "books M w \<Longrightarrow> books M (snd (retry_loop (ho_runtime h) f node ctx attempt left w))"
proof (induction left arbitrary: attempt w)
  case (Suc left)
  then show ?case using honestD[OF assms]
    by (subst retry_loop.simps) (auto split: prod.splits sum.splits intro!: Suc.IH runtime_keeps)
next
  case 0
  then show ?case using honestD[OF assms] by (subst retry_loop.simps) (auto split: prod.splits sum.splits)
qed

lemma retries_keep: "honest f \<Longrightarrow> books M w \<Longrightarrow> execute_with_retries (ho_runtime h) f node ctx mr w = (r, w1) \<Longrightarrow> books M w1"
  using retry_loop_keeps[of f M w node ctx 0 "unat mr"] by (simp add: execute_with_retries_def)

lemma deadline_loop_keeps:
  assumes "honest f"
  shows "books M w \<Longrightarrow> books M (snd (deadline_loop (ho_runtime h) f node ctx mr deadline action last_err left w))"
proof (induction left arbitrary: last_err w)
  case (Suc left)
  then show ?case using retries_keep[OF assms]
    by (auto simp: Let_def split: prod.splits sum.splits DeadlineAction.splits intro!: Suc.IH runtime_keeps)
qed simp

lemma dispatch_keeps: "honest f \<Longrightarrow> books M w \<Longrightarrow> dispatch_node (ho_runtime h) f node ctx mr w = (r, w1) \<Longrightarrow> books M w1"
  using deadline_loop_keeps[of f M w node ctx mr] retries_keep[of f M w node ctx mr]
  by (auto simp: dispatch_node_def Let_def split: option.splits prod.splits sum.splits) (metis snd_conv)+

lemma recovery_keeps: "honest f \<Longrightarrow> books M w \<Longrightarrow> try_recovery h f node prepared ctx started out w = (r, w1) \<Longrightarrow> books M w1"
  unfolding try_recovery_def recover_node_def
  by (auto split: if_splits option.splits prod.splits sum.splits RecoveryDecision.splits dest: honestD)

lemma validation_keeps: "books M w \<Longrightarrow> validate_outcome h node out w = (r, w1) \<Longrightarrow> books M w1"
  using validators_keep[of M w "n_id node"] by (auto simp: validate_outcome_def split: if_splits prod.splits sum.splits)

lemma marking_keeps: "books M w \<Longrightarrow> books M (mark_task h node out task w)"
  by (auto simp: mark_task_def mark_keeps split: option.splits OutcomeStatus.splits)

subsection \<open>The scheduler\<close>

lemma dispatched_closes:
  assumes "honest f" "books (add_mset res M) w"
  shows "books M (snd (dispatched h f node prepared ctx task res w))"
proof -
  obtain d w1 where d: "dispatch_node (ho_runtime h) f prepared ctx (n_max_retries node) w = (d, w1)" by fastforce
  have w1: "books (add_mset res M) w1" by (rule dispatch_keeps[OF assms d])
  show ?thesis
  proof (cases d)
    case (Inr o1)
    let ?first = "case o1 of DispatchCompleted out \<Rightarrow> out | DispatchSkipped _ \<Rightarrow> skipped_outcome node"
    obtain rec w2 where r: "try_recovery h f node prepared ctx (ho_clock_ns h w) ?first w1 = (rec, w2)" by fastforce
    obtain final w3 where v: "validate_outcome h node rec w2 = (final, w3)" by fastforce
    have "books (add_mset res M) w3" by (rule validation_keeps[OF recovery_keeps[OF assms(1) w1 r] v])
    then show ?thesis by (simp add: dispatched_def Let_def d Inr r v marking_keeps release_closes)
  qed (simp add: dispatched_def Let_def d release_closes w1)
qed

lemma dag_execute_node_keeps:
  assumes "books M w"
  shows "books M (snd (dag_execute_node h rc i fired completed remaining feedback w))"
proof (cases "hm_get (g_nodes (rc_graph rc)) i")
  case (Some node)
  note found = this
  show ?thesis
  proof (cases "ho_handler h (n_handler node)")
    case (Some f)
    let ?n = "prepare_node rc remaining node"
    obtain r w1 where r: "ho_register h (n_id node) w = (r, w1)" by fastforce
    have w1: "books M w1" using register_keeps[OF assms, of "n_id node"] r by simp
    let ?v = "\<lambda>task. case task of Some t \<Rightarrow> ho_mark_running h t w1 | None \<Rightarrow> w1"
    have v: "books M (?v task)" for task using w1 mark_keeps(1) by (cases task) simp_all
    have "books M (snd (case ho_reserve h (g_id (rc_graph rc)) ?n (?v task) of (Inl e, w3) \<Rightarrow> (Inl (BudgetBreach e), w3)
        | (Inr res, w3) \<Rightarrow> dispatched h f node ?n ctx task res w3))" for task ctx
      using reserve_refuses[OF v] reserve_opens[OF v] dispatched_closes[OF handler_honest[OF Some]]
      by (auto split: prod.splits sum.splits)
    then show ?thesis using w1 by (cases r) (simp_all add: dag_execute_node_def found Some Let_def r)
  qed (simp add: dag_execute_node_def found assms)
qed (simp add: dag_execute_node_def assms)

lemma forward_step_keeps: "books M w \<Longrightarrow> books M (snd (forward_step h rc st w))"
  using dag_execute_node_keeps[of M w]
  by (auto simp: forward_step_def run_node_def Let_def split: option.splits prod.splits sum.splits DagStep.splits) (metis snd_conv)+

lemma forward_pass_keeps: "h0 = h \<Longrightarrow> rc0 = rc \<Longrightarrow> books M w \<Longrightarrow> books M (snd (forward_pass h0 rc0 st w))"
proof (induction h0 rc0 st w rule: forward_pass.induct)
  case (1 h0 rc0 st w)
  obtain r v where r: "forward_step h rc st w = (r, v)" by fastforce
  then have "books M v" using forward_step_keeps[OF 1(4), of st] by simp
  then show ?case using 1(1)[of r v] 1(2,3) r by (subst forward_pass.simps) (auto split: step_result.splits)
qed

lemma dag_loop_keeps: "h0 = h \<Longrightarrow> rc0 = rc \<Longrightarrow> books M w \<Longrightarrow> books M (snd (dag_loop h0 rc0 st w))"
proof (induction h0 rc0 st w rule: dag_loop.induct)
  case (1 h0 rc0 st w)
  obtain r v where r: "forward_pass h rc st w = (r, v)" by fastforce
  then have "books M v" using forward_pass_keeps[OF refl refl 1(4), of st] by simp
  then show ?case using 1(1)[of r v] 1(2,3) r by (subst dag_loop.simps) (auto split: pass_result.splits option.splits)
qed

lemma scheduler_keeps: "books M w \<Longrightarrow> execute_graph_dag h rc w = (r, w1) \<Longrightarrow> books M w1"
  using dag_loop_keeps[of h rc M w init_state] by (simp add: execute_graph_dag_def)

end

subsection \<open>The walk\<close>

locale metered_walk = metered "wh_host wh" rc books for wh :: "'w walk_host" and rc books +
  assumes chat_keeps: "books M w \<Longrightarrow> books M (snd (fh_chat (wh_fan wh) m msg w))"
    and persist_keeps: "books M w \<Longrightarrow> books M (snd (wh_persist wh c w))"
    and count_keeps: "books M w \<Longrightarrow> books M (wh_count_persisted wh w)"
begin

lemma worker_loop_keeps:
  assumes "honest f"
  shows "books M w \<Longrightarrow> books M (snd (worker_loop (wh_fan wh) f node ctx mr deadline action last_err left w))"
proof (induction left arbitrary: last_err w)
  case (Suc left)
  then show ?case using retries_keep[OF assms]
    by (auto simp: Let_def split: prod.splits sum.splits DeadlineAction.splits intro!: Suc.IH runtime_keeps)
qed simp

lemma run_worker_keeps: "honest (wo_handler wk) \<Longrightarrow> books M w \<Longrightarrow> run_worker (wh_fan wh) wk w = (r, w1) \<Longrightarrow> books M w1"
  using worker_loop_keeps[of "wo_handler wk" M w]
  by (auto simp: run_worker_def run_fanout_worker_def Let_def split: prod.splits) (metis snd_conv)

lemma take_turns_keeps:
  assumes "\<forall>wk\<in>set ws. honest (wo_handler wk)"
  shows "\<forall>i\<in>set is. i < length ws \<Longrightarrow> books M w \<Longrightarrow> books M (snd (take_turns (wh_fan wh) ws is w))"
proof (induction "is" arbitrary: w)
  case (Cons i "is")
  obtain r v where r: "run_worker (wh_fan wh) (ws ! i) w = (r, v)" by fastforce
  have "books M v" using run_worker_keeps[OF _ Cons.prems(2) r] assms Cons.prems(1) by simp
  with Cons.IH Cons.prems(1) r show ?case by (simp add: Let_def case_prod_unfold)
qed simp

lemma join_all_keeps:
  assumes "\<forall>wk\<in>set ws. honest (wo_handler wk)" "books M w" "join_all (wh_fan wh) ws w = (rs, w1)"
  shows "books M w1"
proof -
  have "\<forall>i\<in>set (turn_order (length ws) order). i < length ws" for order by (auto simp: turn_order_def)
  from take_turns_keeps[OF assms(1) this assms(2)] assms(3) show ?thesis
    by (auto simp: join_all_def Let_def split: prod.splits) (metis snd_conv)
qed

lemma release_all_closes: "books (mset rs + M) w \<Longrightarrow> books M (release_all wh rs w)"
  by (induction rs arbitrary: w) (auto simp: release_all_def intro: release_closes)

definition honest_candidates :: "(string \<times> (walk_error, PipelineNode \<times> 'w handler) sum) list \<Rightarrow> bool" where
  "honest_candidates cs \<longleftrightarrow> (\<forall>i n f. (i, Inr (n, f)) \<in> set cs \<longrightarrow> honest f)"

lemma prepare_workers_opens:
  assumes "honest_candidates cs" "books M w" "prepare_workers wh rc ctx cs w = (r, w1)"
  shows "case r of Inl _ \<Rightarrow> books M w1 | Inr ws \<Rightarrow> books (mset (map snd ws) + M) w1 \<and> (\<forall>wk\<in>set (map fst ws). honest (wo_handler wk))"
  using assms
proof (induction cs arbitrary: M w r w1)
  case (Cons x cs)
  obtain i c where x: "x = (i, c)" by fastforce
  show ?case
  proof (cases c)
    case (Inr nf)
    obtain n f where nf: "nf = (n, f)" by fastforce
    have f: "honest f" "honest_candidates cs" using Cons.prems(1) by (auto simp: honest_candidates_def x Inr nf)
    obtain q v where q: "ho_reserve (wh_host wh) (g_id (rc_graph rc)) n w = (q, v)" by fastforce
    show ?thesis
    proof (cases q)
      case (Inl e)
      then show ?thesis using Cons.prems(3) reserve_refuses[OF Cons.prems(2)] q by (auto simp: x \<open>c = Inr nf\<close> nf)
    next
      case (Inr res)
      obtain r2 w2 where rest: "prepare_workers wh rc ctx cs v = (r2, w2)" by fastforce
      from Cons.IH[OF f(2) reserve_opens[OF Cons.prems(2) q[unfolded Inr]] rest] Cons.prems(3) q Inr rest f(1) release_closes
      show ?thesis by (cases r2) (auto simp: x \<open>c = Inr nf\<close> nf)
    qed
  qed (use Cons.prems(2,3) x in auto)
qed auto

lemma run_fan_closes:
  assumes "\<forall>wk\<in>set (map fst ws). honest (wo_handler wk)" "books (mset (map snd ws) + M) w"
  shows "books M (snd (run_fan wh node kind target mark usage started ws st w))"
  using join_all_keeps[OF assms] release_all_closes by (auto simp: run_fan_def Let_def split: prod.splits)

lemma fan_keeps:
  assumes "books M w" "honest_candidates cs"
  shows "books M (snd (case prepare_workers wh rc ctx cs w of (Inl e, w1) \<Rightarrow> (Raise e, w1)
    | (Inr ws, w1) \<Rightarrow> run_fan wh node kind target mark usage started ws st w1))"
proof -
  obtain r w1 where r: "prepare_workers wh rc ctx cs w = (r, w1)" by fastforce
  from prepare_workers_opens[OF assms(2,1) r] show ?thesis
    using run_fan_closes by (cases r) (auto simp: r simp del: mset_map set_map list.set_map)
qed

lemma parallel_keeps:
  assumes "books M w"
  shows "books M (snd (parallel_node wh rc node st w))"
proof (cases "n_converge node")
  case (Some target)
  have "honest_candidates (map (target_candidate wh rc rem peers) ts)" for rem peers ts
    by (auto simp: honest_candidates_def target_candidate_def handler_honest split: option.splits)
  note fan_keeps[OF assms this]
  then show ?thesis using assms by (simp add: parallel_node_def Some Let_def del: map_map)
qed (simp add: parallel_node_def assms)

lemma planning_keeps: "books M w \<Longrightarrow> planned_tasks (wh_fan wh) key prompt input mt w = (r, w1) \<Longrightarrow> books M w1"
  using chat_keeps[of M w key "planner_prompt prompt input mt"]
  by (auto simp: planned_tasks_def plan_dynamic_tasks_def split: prod.splits sum.splits option.splits)

lemma dynamic_keeps:
  assumes "books M w"
  shows "books M (snd (dynamic_node wh rc node st w))"
proof (cases "n_converge node")
  case (Some target)
  let ?max = "case n_max_tasks node of Some m \<Rightarrow> m | None \<Rightarrow> 8"
  obtain p v where p: "planned_tasks (wh_fan wh) (planner_key (rc_graph rc) node) (planning_prompt rc node)
    (hc_input (walk_ctx wh rc st)) ?max w = (p, v)" by fastforce
  obtain tasks usage where tu: "p = (tasks, usage)" by fastforce
  have v: "books M v" by (rule planning_keeps[OF assms p])
  have "honest_candidates (map (synthetic_candidate wh rc node f rem n) ts)" if "ho_handler (wh_host wh) Codergen = Some f" for f rem n ts
    using that by (auto simp: honest_candidates_def synthetic_candidate_def Let_def handler_honest)
  note fan_keeps[OF v this]
  then show ?thesis using v unfolding dynamic_node_def Some Let_def option.case p tu prod.case
    by (cases "ho_handler (wh_host wh) Codergen") simp_all
qed (simp add: dynamic_node_def assms)

lemma checkpoints_keep: "books M w \<Longrightarrow> books M (persist_checkpoints wh gid i decls w)"
proof (induction decls arbitrary: w)
  case (Cons d decls)
  then show ?case using persist_keeps[OF Cons.prems] by (auto simp: Let_def count_keeps split: prod.splits) (metis snd_conv count_keeps)+
qed simp

lemma completed_closes:
  assumes "honest f" "books (add_mset res M) w"
  shows "books M (snd (completed_visit wh rc f node prepared ctx res started first st w))"
proof -
  obtain rec w1 where r: "try_recovery (wh_host wh) f node prepared ctx started first w = (rec, w1)" by fastforce
  obtain final w2 where v: "validate_outcome (wh_host wh) node rec w1 = (final, w2)" by fastforce
  have "books (add_mset res M) w2" by (rule validation_keeps[OF recovery_keeps[OF assms r] v])
  then have "books M (mark_task (wh_host wh) node final task (ho_release (wh_host wh) res w2))" for task
    by (intro marking_keeps release_closes)
  then show ?thesis by (simp add: completed_visit_def Let_def r v checkpoints_keep)
qed

lemma sequential_keeps:
  assumes "books M w"
  shows "books M (snd (sequential_node wh rc node st w))"
proof (cases "ho_handler (wh_host wh) (n_handler node)")
  case (Some f)
  let ?h = "wh_host wh" and ?n = "prepare_node rc (walk_remaining rc st) node"
  obtain r w1 where r: "ho_register ?h (n_id node) w = (r, w1)" by fastforce
  have w1: "books M w1" using register_keeps[OF assms, of "n_id node"] r by simp
  have reserved: "books M (snd (case dispatch_node (ho_runtime ?h) f ?n ctx (n_max_retries node) v of
      (Inl e, w4) \<Rightarrow> (Raise (WalkExec e), ho_release ?h res w4)
    | (Inr (DispatchSkipped label), w4) \<Rightarrow> (skipped_visit (rc_graph rc) node ?n label (ho_clock_ns ?h w4 - started) st1, ho_release ?h res w4)
    | (Inr (DispatchCompleted out), w4) \<Rightarrow> completed_visit wh rc f node ?n ctx res started out st1 w4))"
    if "books (add_mset res M) v" for v res ctx started st1
  proof -
    obtain d v1 where d: "dispatch_node (ho_runtime ?h) f ?n ctx (n_max_retries node) v = (d, v1)" by fastforce
    have "books (add_mset res M) v1" by (rule dispatch_keeps[OF handler_honest[OF Some] that d])
    then show ?thesis using completed_closes[OF handler_honest[OF Some]] release_closes
      by (auto simp: d split: sum.splits DispatchOutcome.splits)
  qed
  have dispatch: "books M (snd (case ho_reserve ?h (g_id (rc_graph rc)) ?n v of (Inl e, w3) \<Rightarrow> (Raise (WalkExec (BudgetBreach e)), w3)
    | (Inr res, w3) \<Rightarrow> (case dispatch_node (ho_runtime ?h) f ?n ctx (n_max_retries node) w3 of
        (Inl e, w4) \<Rightarrow> (Raise (WalkExec e), ho_release ?h res w4)
      | (Inr (DispatchSkipped label), w4) \<Rightarrow> (skipped_visit (rc_graph rc) node ?n label (ho_clock_ns ?h w4 - started) st1, ho_release ?h res w4)
      | (Inr (DispatchCompleted out), w4) \<Rightarrow> completed_visit wh rc f node ?n ctx res started out st1 w4)))"
    if "books M v" for v ctx started st1
  proof -
    obtain q v1 where q: "ho_reserve ?h (g_id (rc_graph rc)) ?n v = (q, v1)" by fastforce
    show ?thesis
    proof (cases q)
      case (Inl e)
      then show ?thesis using reserve_refuses[OF that] q by simp
    next
      case (Inr res)
      then show ?thesis using reserved[OF reserve_opens[OF that q[unfolded Inr]]] by (simp only: q Inr sum.case prod.case)
    qed
  qed
  show ?thesis
  proof (cases r)
    case (Inr task)
    show ?thesis
    proof (cases task)
      case None
      then show ?thesis using dispatch[OF w1] assms
        by (simp only: sequential_node_def Some Let_def r Inr option.case sum.case prod.case snd_conv split: if_split) simp
    next
      case (Some t)
      then show ?thesis using dispatch[OF mark_keeps(1)[OF w1]] assms \<open>ho_handler ?h (n_handler node) = Some f\<close>
        by (simp only: sequential_node_def Let_def r Inr option.case sum.case prod.case snd_conv split: if_split) simp
    qed
  qed (simp add: sequential_node_def Some Let_def r w1 assms)
qed (simp add: sequential_node_def assms)

lemma walk_step_keeps: "books M w \<Longrightarrow> walk_step wh rc skip st w = (r, w1) \<Longrightarrow> books M w1"
  using parallel_keeps[of M w] dynamic_keeps[of M w] sequential_keeps[of M w]
  by (auto simp: walk_step_def dispatch_visit_def split: option.splits if_splits sum.splits GuardDecision.splits) (metis snd_conv)+

lemma walk_keeps:
  assumes "books M w" "execute_graph wh rc start w = Some (r, w1)"
  shows "books M w1"
proof -
  obtain st2 w2 res where run: "walk_reach wh rc start w st2 w2" "walk_step wh rc (resumed wh w) st2 w2 = (res, w1)"
    using execute_graph_run[OF assms(2)] by metis
  from run(1) have "books M w2" by induction (use assms(1) walk_step_keeps in auto)
  with run(2) walk_step_keeps show ?thesis by blast
qed

end

end
