(* ===== verification/Model_Assignment.thy ===== *)
theory Model_Assignment
  imports Fan_Out Validate_Properties
begin

text \<open>
  Model of \<^verbatim>\<open>crates/octos-pipeline/src/model_assignment.rs\<close>: the pass over a parsed graph that fills in the models a node
  leaves unset, before validation. The contents of the two catalog files, their JSON decoding, the process id, the clock and
  the lower case of non-ASCII characters are fields of the record \<open>catalog_host\<close>. A decoded catalog holds finite
  numbers only (JSON has no others), for which the comparison below is a total preorder and Rust's stable sort is insertion sort.
\<close>

unbundle bit_operations_syntax

subsection \<open>The catalog\<close>

record CatalogEntry =
  ce_provider :: string
  ce_model_type :: string
  ce_stability :: f64
  ce_score :: f64
  ce_cost_out :: f64

record catalog_host =
  ch_pipeline_models :: "string option"
  ch_model_catalog :: "string option"
  ch_decode :: "string \<Rightarrow> CatalogEntry list option"
  ch_pid :: u32
  ch_nanos :: u32
  ch_lowercase :: "string \<Rightarrow> string"

record ModelPools =
  mp_strong :: "string list"
  mp_fast :: "string list"
  mp_strong_start :: nat
  mp_fast_start :: nat

definition model_key :: "CatalogEntry \<Rightarrow> string" where
  "model_key e = (case split_once (CHR ''/'') (ce_provider e) of Some (_, rest) \<Rightarrow> rest | None \<Rightarrow> ce_provider e)"

definition nth_strong :: "ModelPools \<Rightarrow> nat \<Rightarrow> string option" where
  "nth_strong p k = (if mp_strong p = [] then None else Some (mp_strong p ! ((mp_strong_start p + k) mod length (mp_strong p))))"

definition nth_fast :: "ModelPools \<Rightarrow> nat \<Rightarrow> string option" where
  "nth_fast p k = (if mp_fast p = [] then None else Some (mp_fast p ! ((mp_fast_start p + k) mod length (mp_fast p))))"

definition usable_catalog :: "catalog_host \<Rightarrow> string option \<Rightarrow> CatalogEntry list option" where
  "usable_catalog c content = (case content of
       Some s \<Rightarrow> (case ch_decode c s of Some models \<Rightarrow> if models \<noteq> [] then Some models else None | None \<Rightarrow> None)
     | None \<Rightarrow> None)"

definition load_catalog :: "catalog_host \<Rightarrow> CatalogEntry list option" where
  "load_catalog c = (case usable_catalog c (ch_pipeline_models c) of
       Some models \<Rightarrow> Some models
     | None \<Rightarrow> usable_catalog c (ch_model_catalog c))"

definition entry_keys :: "CatalogEntry \<Rightarrow> string list" where
  "entry_keys e = [ce_provider e, model_key e]
     @ (case split_once (CHR ''/'') (ce_provider e) of Some (provider, _) \<Rightarrow> [provider] | None \<Rightarrow> [])"

definition known_model_keys_from_catalog_dir :: "catalog_host \<Rightarrow> string list" where
  "known_model_keys_from_catalog_dir c = (case load_catalog c of
       None \<Rightarrow> []
     | Some models \<Rightarrow> sort (remdups (concat (map entry_keys models))))"

subsection \<open>The pools\<close>

text \<open>The order of the lanes: by score, then by price. \<open>entry_before\<close> is \<^verbatim>\<open>order(a, b) == Less\<close>.\<close>

definition entry_before :: "CatalogEntry \<Rightarrow> CatalogEntry \<Rightarrow> bool" where
  "entry_before a b \<longleftrightarrow> f64_lt (ce_score a) (ce_score b)
     \<or> (\<not> f64_lt (ce_score b) (ce_score a) \<and> f64_lt (ce_cost_out a) (ce_cost_out b))"

fun insert_entry :: "CatalogEntry \<Rightarrow> CatalogEntry list \<Rightarrow> CatalogEntry list" where
  "insert_entry e [] = [e]"
| "insert_entry e (x # xs) = (if entry_before x e then x # insert_entry e xs else e # x # xs)"

definition sort_entries :: "CatalogEntry list \<Rightarrow> CatalogEntry list" where
  "sort_entries es = foldr insert_entry es []"

definition pool_keys :: "string \<Rightarrow> CatalogEntry list \<Rightarrow> string list" where
  "pool_keys kind models =
     map model_key (sort_entries (filter (\<lambda>m. ce_model_type m = kind) (filter (\<lambda>m. f64_lt (Fin (1 / 2)) (ce_stability m)) models)))"

definition pool_seed :: "catalog_host \<Rightarrow> u64" where
  "pool_seed c = (ucast (ch_pid c) * 7) XOR ucast (ch_nanos c)"

definition build_pools :: "catalog_host \<Rightarrow> CatalogEntry list \<Rightarrow> ModelPools option" where
  "build_pools c models =
     (let strong0 = pool_keys ''strong'' models; fast0 = pool_keys ''fast'' models in
      if strong0 = [] \<and> fast0 = [] then None
      else let strong = (if strong0 = [] then fast0 else strong0); fast = (if fast0 = [] then strong else fast0); seed = pool_seed c in
        Some \<lparr>mp_strong = strong, mp_fast = fast, mp_strong_start = nat (uint seed mod int (length strong)),
          mp_fast_start = nat (uint (seed * 13) mod int (length fast))\<rparr>)"

subsection \<open>Assignment\<close>

definition FAST_HEURISTIC_SUBSTRINGS :: "string list" where
  "FAST_HEURISTIC_SUBSTRINGS = [''search'', ''retrieve'', ''gather'', ''collect'', ''crawl'', ''fetch'', ''survey'', ''investigate'',
     ''scan'', ''lookup'', ''browse'']"

definition is_retrieval :: "(string \<Rightarrow> string) \<Rightarrow> string \<Rightarrow> bool" where
  "is_retrieval lower i = list_ex (str_contains (concat (map (scalar_lowercase lower) (scalars i)))) FAST_HEURISTIC_SUBSTRINGS"

text \<open>The body of the loop for one node: the node and the two offsets after it.\<close>

definition assign_planner :: "ModelPools \<Rightarrow> PipelineNode \<Rightarrow> nat \<times> nat \<Rightarrow> PipelineNode \<times> nat \<times> nat" where
  "assign_planner p node offsets = (case offsets of (strong_offset, fast_offset) \<Rightarrow>
     (case (n_planner_model node, nth_strong p strong_offset) of
        (None, Some m) \<Rightarrow> (node\<lparr>n_planner_model := Some m\<rparr>, Suc strong_offset, fast_offset)
      | _ \<Rightarrow> (node, offsets)))"

definition assign_node :: "(string \<Rightarrow> string) \<Rightarrow> ModelPools \<Rightarrow> string \<Rightarrow> PipelineNode \<Rightarrow> nat \<times> nat \<Rightarrow> PipelineNode \<times> nat \<times> nat" where
  "assign_node lower p i node offsets = (case offsets of (strong_offset, fast_offset) \<Rightarrow>
     if n_handler node = Shell \<or> n_handler node = Gate \<or> n_handler node = Noop then (node, offsets)
     else if n_model node \<noteq> None then (if n_handler node = DynamicParallel then assign_planner p node offsets else (node, offsets))
     else if n_handler node = DynamicParallel
     then assign_planner p (if mp_fast p \<noteq> [] then node\<lparr>n_model := Some (join '','' (mp_fast p))\<rparr> else node) offsets
     else if is_retrieval lower i
     then (case nth_fast p fast_offset of
         Some m \<Rightarrow> (node\<lparr>n_model := Some m\<rparr>, strong_offset, Suc fast_offset)
       | None \<Rightarrow> (node, offsets))
     else (case nth_strong p strong_offset of
         Some m \<Rightarrow> (node\<lparr>n_model := Some m\<rparr>, Suc strong_offset, fast_offset)
       | None \<Rightarrow> (node, offsets)))"

fun assign_loop :: "(string \<Rightarrow> string) \<Rightarrow> ModelPools \<Rightarrow> string list \<Rightarrow> (string, PipelineNode) hashmap \<Rightarrow> nat \<times> nat
    \<Rightarrow> (string, PipelineNode) hashmap \<times> nat \<times> nat" where
  "assign_loop lower p [] nodes offsets = (nodes, offsets)"
| "assign_loop lower p (i # is) nodes offsets = (case hm_get nodes i of
       None \<Rightarrow> assign_loop lower p is nodes offsets
     | Some node \<Rightarrow> (case assign_node lower p i node offsets of
         (node1, offsets1) \<Rightarrow> assign_loop lower p is (hm_insert i node1 nodes) offsets1))"

definition assign_to_graph :: "(string \<Rightarrow> string) \<Rightarrow> ModelPools \<Rightarrow> PipelineGraph \<Rightarrow> PipelineGraph" where
  "assign_to_graph lower p g = g\<lparr>g_nodes := fst (assign_loop lower p (sort (hm_keys (g_nodes g))) (g_nodes g) (0, 0))\<rparr>"

definition assign_from_catalog_dir :: "catalog_host \<Rightarrow> PipelineGraph \<Rightarrow> PipelineGraph" where
  "assign_from_catalog_dir c g = (case load_catalog c of
       None \<Rightarrow> g
     | Some models \<Rightarrow> (case build_pools c models of
         None \<Rightarrow> g
       | Some p \<Rightarrow> assign_to_graph (ch_lowercase c) p g))"

subsection \<open>What the pass does, node by node\<close>

definition takes_model :: "PipelineNode \<Rightarrow> bool" where
  "takes_model n \<longleftrightarrow> n_handler n \<notin> {Shell, Gate, Noop} \<and> n_model n = None"

definition draws_strong :: "(string \<Rightarrow> string) \<Rightarrow> string \<times> PipelineNode \<Rightarrow> bool" where
  "draws_strong lower x \<longleftrightarrow> (case x of (i, n) \<Rightarrow>
     if n_handler n = DynamicParallel then n_planner_model n = None else takes_model n \<and> \<not> is_retrieval lower i)"

definition draws_fast :: "(string \<Rightarrow> string) \<Rightarrow> string \<times> PipelineNode \<Rightarrow> bool" where
  "draws_fast lower x \<longleftrightarrow> (case x of (i, n) \<Rightarrow> n_handler n \<noteq> DynamicParallel \<and> takes_model n \<and> is_retrieval lower i)"

text \<open>How many nodes with a smaller id draw from the same pool.\<close>

definition turn :: "(string \<times> PipelineNode \<Rightarrow> bool) \<Rightarrow> PipelineGraph \<Rightarrow> string \<Rightarrow> nat" where
  "turn draws g i = card {j. j < i \<and> (\<exists>n. hm_get (g_nodes g) j = Some n \<and> draws (j, n))}"

definition round_robin :: "string list \<Rightarrow> nat \<Rightarrow> nat \<Rightarrow> string" where
  "round_robin pool start k = pool ! ((start + k) mod length pool)"

definition assigned :: "(string \<Rightarrow> string) \<Rightarrow> ModelPools \<Rightarrow> PipelineGraph \<Rightarrow> string \<Rightarrow> PipelineNode \<Rightarrow> PipelineNode" where
  "assigned lower p g i n = n\<lparr>
     n_model := (if \<not> takes_model n then n_model n
       else Some (if n_handler n = DynamicParallel then join '','' (mp_fast p)
         else if is_retrieval lower i then round_robin (mp_fast p) (mp_fast_start p) (turn (draws_fast lower) g i)
         else round_robin (mp_strong p) (mp_strong_start p) (turn (draws_strong lower) g i))),
     n_planner_model := (if n_handler n = DynamicParallel \<and> n_planner_model n = None
       then Some (round_robin (mp_strong p) (mp_strong_start p) (turn (draws_strong lower) g i)) else n_planner_model n)\<rparr>"

lemma node_unchanged [simp]: "n\<lparr>n_model := n_model n, n_planner_model := n_planner_model n\<rparr> = (n :: PipelineNode)"
  by simp

definition draws_in :: "(string \<times> PipelineNode \<Rightarrow> bool) \<Rightarrow> PipelineGraph \<Rightarrow> string list \<Rightarrow> nat" where
  "draws_in draws g is = length (filter (\<lambda>j. draws (j, the (hm_get (g_nodes g) j))) is)"

lemma turn_prefix:
  assumes "xs @ i # ys = sort (hm_keys (g_nodes g))" "hm_wf (g_nodes g)"
  shows "turn draws g i = draws_in draws g xs"
proof -
  have s: "sorted_wrt (<) (xs @ i # ys)" unfolding assms(1) by (simp add: strict_sorted_iff assms(2))
  have keys: "(\<exists>n. hm_get (g_nodes g) k = Some n) \<longleftrightarrow> k \<in> set (xs @ i # ys)" for k
    unfolding assms(1) by (simp add: map_of_eq_None_iff flip: not_None_eq)
  have below: "k < i \<and> (\<exists>n. hm_get (g_nodes g) k = Some n) \<longleftrightarrow> k \<in> set xs" for k
    unfolding keys using s by (force simp: sorted_wrt_append)
  have "j < i \<and> (\<exists>n. hm_get (g_nodes g) j = Some n \<and> draws (j, n))
      \<longleftrightarrow> (j < i \<and> (\<exists>n. hm_get (g_nodes g) j = Some n)) \<and> draws (j, the (hm_get (g_nodes g) j))" for j by auto
  then have "{j. j < i \<and> (\<exists>n. hm_get (g_nodes g) j = Some n \<and> draws (j, n))}
      = set (filter (\<lambda>j. draws (j, the (hm_get (g_nodes g) j))) xs)" unfolding below by auto
  moreover have "distinct xs" using assms by (metis distinct_append distinct_sort)
  ultimately show ?thesis by (simp add: turn_def draws_in_def distinct_card del: set_filter)
qed

lemma assign_node_exact:
  assumes "mp_strong p \<noteq> []" "mp_fast p \<noteq> []"
  shows "assign_node lower p i n (turn (draws_strong lower) g i, turn (draws_fast lower) g i) =
    (assigned lower p g i n, turn (draws_strong lower) g i + of_bool (draws_strong lower (i, n)),
     turn (draws_fast lower) g i + of_bool (draws_fast lower (i, n)))"
  using assms
  by (cases "n_planner_model n"; cases "n_model n"; cases "n_handler n")
     (simp_all add: assign_node_def assign_planner_def assigned_def nth_strong_def nth_fast_def draws_strong_def draws_fast_def
       takes_model_def round_robin_def)

lemma update_as_map: "hm_wf m \<Longrightarrow> k \<in> set (hm_keys m) \<Longrightarrow> hm_insert k v m = map (\<lambda>(j, x). (j, if j = k then v else x)) m"
  by (induction m) (force intro!: map_idI[symmetric])+

lemma assign_loop_exact:
  assumes "xs @ ys = sort (hm_keys (g_nodes g))" "hm_wf (g_nodes g)" "mp_strong p \<noteq> []" "mp_fast p \<noteq> []"
  shows "fst (assign_loop lower p ys (map (\<lambda>(i, n). (i, if i \<in> set ys then n else assigned lower p g i n)) (g_nodes g))
      (draws_in (draws_strong lower) g xs, draws_in (draws_fast lower) g xs))
    = map (\<lambda>(i, n). (i, assigned lower p g i n)) (g_nodes g)"
  using assms(1)
proof (induction ys arbitrary: xs)
  case (Cons i ys)
  let ?m = "\<lambda>S. map (\<lambda>(j, n). (j, if j \<in> S then n else assigned lower p g j n)) (g_nodes g)"
  have "i \<in> set (hm_keys (g_nodes g))" by (metis Cons.prems in_set_conv_decomp set_sort)
  then obtain n where n: "hm_get (g_nodes g) i = Some n" by (metis map_of_eq_None_iff not_None_eq set_map)
  have look: "hm_get (?m (set (i # ys))) i = Some n"
    using map_of_map_restrict n assms(2) by (force simp: map_of_eq_Some_iff o_def split_def)
  have fresh: "i \<notin> set ys" using Cons.prems assms(2) by (metis distinct.simps(2) distinct_append distinct_sort)
  have step: "hm_insert i (assigned lower p g i n) (?m (set (i # ys))) = ?m (set ys)"
  proof -
    have keys: "hm_keys (?m (set (i # ys))) = hm_keys (g_nodes g)" by (simp add: o_def split_def)
    have "hm_insert i (assigned lower p g i n) (?m (set (i # ys)))
        = map (\<lambda>(j, x). (j, if j = i then assigned lower p g i n else x)) (?m (set (i # ys)))"
      by (rule update_as_map) (use assms(2) \<open>i \<in> set (hm_keys (g_nodes g))\<close> in \<open>simp_all only: keys\<close>)
    also have "\<dots> = ?m (set ys)" using n assms(2) fresh by (auto simp: map_of_eq_Some_iff dest: eq_key_imp_eq_value)
    finally show ?thesis .
  qed
  have "draws_in d g (xs @ [i]) = turn d g i + of_bool (d (i, n))" for d
    using turn_prefix[OF Cons.prems assms(2), of d] n by (simp add: draws_in_def)
  with Cons.IH[of "xs @ [i]"] Cons.prems look assign_node_exact[OF assms(3,4), of lower i n g] step show ?case
    by (simp add: turn_prefix[OF Cons.prems assms(2)])
qed (simp add: assms(1))

lemma assign_to_graph_exact:
  assumes "hm_wf (g_nodes g)" "mp_strong p \<noteq> []" "mp_fast p \<noteq> []"
  shows "assign_to_graph lower p g = g\<lparr>g_nodes := map (\<lambda>(i, n). (i, assigned lower p g i n)) (g_nodes g)\<rparr>"
proof -
  have "map (\<lambda>(i, n). (i, if i \<in> set (sort (hm_keys (g_nodes g))) then n else assigned lower p g i n)) (g_nodes g) = g_nodes g"
    by (rule map_idI) force
  then show ?thesis
    using assign_loop_exact[of "[]" "sort (hm_keys (g_nodes g))" g p lower] assms by (simp add: assign_to_graph_def draws_in_def)
qed

subsection \<open>The keys of the pools\<close>

lemma set_insert_entry: "set (insert_entry e es) = insert e (set es)"
  by (induction es) auto

lemma set_sort_entries [simp]: "set (sort_entries es) = set es"
  by (induction es) (simp_all add: sort_entries_def set_insert_entry)

lemma pool_keys_known: "set (pool_keys kind models) \<subseteq> model_key ` set models"
  by (auto simp: pool_keys_def)

lemma build_pools_keys:
  assumes "build_pools c models = Some p"
  shows "mp_strong p \<noteq> []" "mp_fast p \<noteq> []" "set (mp_strong p) \<union> set (mp_fast p) \<subseteq> model_key ` set models"
  using assms pool_keys_known[of "''strong''" models] pool_keys_known[of "''fast''" models]
  by (auto simp: build_pools_def Let_def split: if_splits)

lemma round_robin_mem: "pool \<noteq> [] \<Longrightarrow> round_robin pool start k \<in> set pool"
  by (simp add: round_robin_def)

text \<open>A routing key that survives the validator's reading of a model list: it has no comma and no white space at its ends.\<close>

definition plain_key :: "string \<Rightarrow> bool" where
  "plain_key k \<longleftrightarrow> CHR '','' \<notin> set k \<and> trim k = k"

lemma split_char_sep: "d \<notin> set x \<Longrightarrow> split_char d (x @ d # ys) = x # split_char d ys"
  by (induction x) (auto split: list.splits)

lemma split_char_single: "d \<notin> set x \<Longrightarrow> split_char d x = [x]"
  by (induction x) auto

lemma split_char_join: "ks \<noteq> [] \<Longrightarrow> \<forall>k \<in> set ks. d \<notin> set k \<Longrightarrow> split_char d (join [d] ks) = ks"
  by (induction "[d]" ks rule: join.induct) (simp_all add: split_char_sep split_char_single)

text \<open>The names that the validator reads from a model list.\<close>

definition listed_models :: "string option \<Rightarrow> string set" where
  "listed_models m = {trim k | k. \<exists>s. m = Some s \<and> k \<in> set (split_char (CHR '','') s)} - {[]}"

lemma node_models_listed: "set (node_models n) = listed_models (n_model n) \<union> listed_models (n_planner_model n)"
  by (auto simp: node_models_def listed_models_def split: option.splits)

lemma listed_plain: "plain_key k \<Longrightarrow> listed_models (Some k) \<subseteq> {k}"
  by (auto simp: listed_models_def plain_key_def split_char_single)

lemma listed_pool: "\<forall>k \<in> set ks. plain_key k \<Longrightarrow> ks \<noteq> [] \<Longrightarrow> listed_models (Some (join '','' ks)) \<subseteq> set ks"
  by (auto simp: listed_models_def plain_key_def split_char_join)

lemma assigned_cases:
  obtains (same) "n_model (assigned lower p g i n) = n_model n"
    | (pool) "n_model n = None" "n_model (assigned lower p g i n) = Some (join '','' (mp_fast p))"
    | (fast) k where "n_model n = None" "n_model (assigned lower p g i n) = Some (round_robin (mp_fast p) (mp_fast_start p) k)"
    | (strong) k where "n_model n = None" "n_model (assigned lower p g i n) = Some (round_robin (mp_strong p) (mp_strong_start p) k)"
proof (cases "takes_model n")
  case True
  then have "n_model n = None" by (simp add: takes_model_def)
  with True show ?thesis using pool fast strong
    by (cases "n_handler n = DynamicParallel"; cases "is_retrieval lower i") (simp_all add: assigned_def)
qed (use same in \<open>simp add: assigned_def\<close>)

lemma planner_cases:
  obtains (same) "n_planner_model (assigned lower p g i n) = n_planner_model n"
    | (strong) k where "n_planner_model n = None"
        "n_planner_model (assigned lower p g i n) = Some (round_robin (mp_strong p) (mp_strong_start p) k)"
  by (cases "n_handler n = DynamicParallel \<and> n_planner_model n = None") (use same strong in \<open>auto simp: assigned_def\<close>)

lemma assigned_models:
  assumes "mp_strong p \<noteq> []" "mp_fast p \<noteq> []" "\<forall>k \<in> set (mp_strong p) \<union> set (mp_fast p). plain_key k"
  shows "set (node_models n) \<subseteq> set (node_models (assigned lower p g i n))"
    "set (node_models (assigned lower p g i n)) \<subseteq> set (node_models n) \<union> set (mp_strong p) \<union> set (mp_fast p)"
proof -
  have none: "listed_models None = {}" by (simp add: listed_models_def)
  have rr: "listed_models (Some (round_robin pool start k)) \<subseteq> set pool" if "pool \<noteq> []" "\<forall>k \<in> set pool. plain_key k" for pool start k
    using round_robin_mem[OF that(1), of start k] listed_plain[of "round_robin pool start k"] that(2) by auto
  have lists: "listed_models (Some (round_robin (mp_strong p) s k)) \<subseteq> set (mp_strong p)" for s k using rr assms by simp
  have listf: "listed_models (Some (round_robin (mp_fast p) s k)) \<subseteq> set (mp_fast p)"
    "listed_models (Some (join '','' (mp_fast p))) \<subseteq> set (mp_fast p)" for s k using rr listed_pool assms by simp_all
  have m: "listed_models (n_model n) \<subseteq> listed_models (n_model (assigned lower p g i n))
      \<and> listed_models (n_model (assigned lower p g i n)) \<subseteq> listed_models (n_model n) \<union> set (mp_strong p) \<union> set (mp_fast p)"
  proof (cases rule: assigned_cases[of lower p g i n])
    case pool
    then show ?thesis using none listf(2) by auto
  next
    case (fast k)
    then show ?thesis using none listf(1)[of "mp_fast_start p" k] by auto
  next
    case (strong k)
    then show ?thesis using none lists[of "mp_strong_start p" k] by auto
  qed auto
  have "listed_models (n_planner_model n) \<subseteq> listed_models (n_planner_model (assigned lower p g i n))
      \<and> listed_models (n_planner_model (assigned lower p g i n)) \<subseteq> listed_models (n_planner_model n) \<union> set (mp_strong p) \<union> set (mp_fast p)"
  proof (cases rule: planner_cases[of lower p g i n])
    case (strong k)
    then show ?thesis using none lists[of "mp_strong_start p" k] by auto
  qed auto
  with m show "set (node_models n) \<subseteq> set (node_models (assigned lower p g i n))"
    "set (node_models (assigned lower p g i n)) \<subseteq> set (node_models n) \<union> set (mp_strong p) \<union> set (mp_fast p)"
    unfolding node_models_listed by blast+
qed

subsection \<open>Validation does not see the pass\<close>

text \<open>Two graphs that differ only in the models of their nodes, over the same keys.\<close>

definition remodels :: "(string \<Rightarrow> PipelineNode \<Rightarrow> PipelineNode) \<Rightarrow> bool" where
  "remodels f \<longleftrightarrow> (\<forall>i n. \<exists>m pm. f i n = n\<lparr>n_model := m, n_planner_model := pm\<rparr>)"

abbreviation with_nodes :: "(string \<Rightarrow> PipelineNode \<Rightarrow> PipelineNode) \<Rightarrow> PipelineGraph \<Rightarrow> PipelineGraph" where
  "with_nodes f g \<equiv> g\<lparr>g_nodes := map (\<lambda>(i, n). (i, f i n)) (g_nodes g)\<rparr>"

lemma remodels_sel:
  assumes "remodels f"
  shows "n_id (f i n) = n_id n" "n_handler (f i n) = n_handler n" "n_converge (f i n) = n_converge n"
    "template_refs_for_node (f i n) = template_refs_for_node n" "n_tools (f i n) = n_tools n" "n_artifact_refs (f i n) = n_artifact_refs n"
    "n_checkpoint_refs (f i n) = n_checkpoint_refs n" "n_max_tasks (f i n) = n_max_tasks n" "n_human_gate (f i n) = n_human_gate n"
    "n_resolver (f i n) = n_resolver n" "n_checkpoints (f i n) = n_checkpoints n"
proof -
  obtain m pm where "f i n = n\<lparr>n_model := m, n_planner_model := pm\<rparr>" using assms unfolding remodels_def by blast
  then show "n_id (f i n) = n_id n" "n_handler (f i n) = n_handler n" "n_converge (f i n) = n_converge n"
    "template_refs_for_node (f i n) = template_refs_for_node n" "n_tools (f i n) = n_tools n" "n_artifact_refs (f i n) = n_artifact_refs n"
    "n_checkpoint_refs (f i n) = n_checkpoint_refs n" "n_max_tasks (f i n) = n_max_tasks n" "n_human_gate (f i n) = n_human_gate n"
    "n_resolver (f i n) = n_resolver n" "n_checkpoints (f i n) = n_checkpoints n"
    by (simp_all add: template_refs_for_node_def)
qed

lemma ball_nodes:
  assumes "\<And>i n. (i, n) \<in> set (g_nodes g) \<Longrightarrow> P (f i n) \<longleftrightarrow> Q n"
  shows "(\<forall>n \<in> nodes_of (with_nodes f g). P n) \<longleftrightarrow> (\<forall>n \<in> nodes_of g. Q n)"
  unfolding nodes_of_def using assms by auto

lemma with_nodes_same:
  assumes "remodels f"
  shows "node_ids (with_nodes f g) = node_ids g" "all_edges (with_nodes f g) = all_edges g" "forward_edges (with_nodes f g) = forward_edges g"
    "find_start_node (with_nodes f g) = find_start_node g" "artifact_ref_resolves a c (with_nodes f g) = artifact_ref_resolves a c g"
    "graph_checkpoint_names (with_nodes f g) c = graph_checkpoint_names g c"
    "upstream_of (with_nodes f g) (f i n) = upstream_of g n"
    "reference_resolves_in_template r u c (with_nodes f g) = reference_resolves_in_template r u c g"
proof -
  have keys: "hm_keys (g_nodes (with_nodes f g)) = hm_keys (g_nodes g)" by (simp add: o_def split_def)
  have has: "hm_contains (g_nodes (with_nodes f g)) j = hm_contains (g_nodes g) j" for j unfolding hm_contains_def keys by simp
  show ids: "node_ids (with_nodes f g) = node_ids g" unfolding node_ids_def keys by simp
  show "all_edges (with_nodes f g) = all_edges g" "forward_edges (with_nodes f g) = forward_edges g"
    by (simp_all add: all_edges_def forward_edges_def)
  then show "upstream_of (with_nodes f g) (f i n) = upstream_of g n" by (simp add: upstream_of_def remodels_sel[OF assms])
  have "source_nodes (with_nodes f g) = source_nodes g" unfolding source_nodes_def keys by simp
  then show "find_start_node (with_nodes f g) = find_start_node g" unfolding find_start_node_def has by simp
  show art: "artifact_ref_resolves a c (with_nodes f g) = artifact_ref_resolves a c g" for a unfolding artifact_ref_resolves_def has by simp
  show names: "graph_checkpoint_names (with_nodes f g) c = graph_checkpoint_names g c"
    by (simp add: graph_checkpoint_names_def o_def split_def remodels_sel[OF assms])
  show "reference_resolves_in_template r u c (with_nodes f g) = reference_resolves_in_template r u c g"
    unfolding reference_resolves_in_template_def art names by simp
qed

lemma remodel_valid:
  assumes "remodels f"
    and "\<And>i n. (i, n) \<in> set (g_nodes g) \<Longrightarrow>
      (\<forall>m \<in> set (node_models (f i n)). model_known m (c_known_models c)) \<longleftrightarrow> (\<forall>m \<in> set (node_models n). model_known m (c_known_models c))"
  shows "graph_valid (with_nodes f g) c \<longleftrightarrow> graph_valid g c"
proof -
  note same = with_nodes_same[OF assms(1)] remodels_sel[OF assms(1)]
  have "starts_somewhere (with_nodes f g) = starts_somewhere g" unfolding starts_somewhere_def same ..
  moreover have "edges_valid (with_nodes f g) = edges_valid g" unfolding edges_valid_def same by simp
  moreover have "converges (with_nodes f g) = converges g" unfolding converges_def by (rule ball_nodes) (simp add: same)
  moreover have "names_resolve (with_nodes f g) c = names_resolve g c"
    unfolding names_resolve_def by (rule arg_cong2[of _ _ _ _ "(\<and>)"], simp, rule ball_nodes) (simp add: same assms(2))
  moreover have "fanout_bounded (with_nodes f g) c = fanout_bounded g c"
    unfolding fanout_bounded_def by (rule arg_cong2[of _ _ _ _ "(\<and>)"], simp, rule ball_nodes) (simp add: same)
  moreover have "gates_resolved (with_nodes f g) c = gates_resolved g c" unfolding gates_resolved_def by (rule ball_nodes) (simp add: same)
  moreover have "shell_free (with_nodes f g) = shell_free g" unfolding shell_free_def by (rule ball_nodes) (simp add: same)
  ultimately show ?thesis unfolding graph_valid_def same by simp
qed

lemma remodels_assigned: "remodels (assigned lower p g)"
  unfolding remodels_def assigned_def by blast

subsection \<open>The order of the lanes\<close>

lemma entry_before_trans:
  assumes "\<forall>e \<in> {a, b, d}. is_finite (ce_score e) \<and> is_finite (ce_cost_out e)" "\<not> entry_before b a" "\<not> entry_before d b"
  shows "\<not> entry_before d a"
proof -
  have fin: "\<exists>x. y = Fin x" if "is_finite y" for y using that by (cases y) auto
  obtain s1 c1 s2 c2 s3 c3 where "ce_score a = Fin s1" "ce_cost_out a = Fin c1" "ce_score b = Fin s2" "ce_cost_out b = Fin c2"
    "ce_score d = Fin s3" "ce_cost_out d = Fin c3" using assms(1) fin by (metis insertCI)
  then show ?thesis using assms(2,3) by (auto simp: entry_before_def)
qed

lemma entry_before_asym: "entry_before a b \<Longrightarrow> \<not> entry_before b a"
  by (auto simp: entry_before_def dest: f64_lt_trans)

lemma insert_entry_sorted:
  assumes "sorted_wrt (\<lambda>a b. \<not> entry_before b a) es" "\<forall>e \<in> insert e0 (set es). is_finite (ce_score e) \<and> is_finite (ce_cost_out e)"
  shows "sorted_wrt (\<lambda>a b. \<not> entry_before b a) (insert_entry e0 es)"
  using assms
proof (induction es)
  case (Cons x es)
  show ?case
  proof (cases "entry_before x e0")
    case True
    then show ?thesis using Cons entry_before_asym[OF True] by (auto simp: set_insert_entry)
  next
    case False
    have "\<not> entry_before y e0" if "y \<in> set es" for y
      using entry_before_trans[of e0 x y] False Cons.prems that by auto
    then show ?thesis using Cons.prems(1) False by auto
  qed
qed simp

lemma sort_entries_sorted:
  "\<forall>e \<in> set es. is_finite (ce_score e) \<and> is_finite (ce_cost_out e) \<Longrightarrow> sorted_wrt (\<lambda>a b. \<not> entry_before b a) (sort_entries es)"
proof (induction es)
  case (Cons e es)
  then show ?case using insert_entry_sorted[of "sort_entries es" e] by (simp add: sort_entries_def[symmetric] sort_entries_def[of "e # es"])
qed (simp add: sort_entries_def)

subsection \<open>Properties\<close>


definition lane :: "string \<Rightarrow> string \<Rightarrow> rat \<Rightarrow> CatalogEntry" where
  "lane provider kind score = \<lparr>ce_provider = provider, ce_model_type = kind, ce_stability = Fin 1, ce_score = Fin score, ce_cost_out = Fin 1\<rparr>"

definition two_lanes :: catalog_host where
  "two_lanes = \<lparr>ch_pipeline_models = None, ch_model_catalog = Some ''catalog'',
     ch_decode = \<lambda>_. Some [lane ''a/heavy'' ''strong'' 2, lane ''b/light'' ''fast'' 1, lane ''c/best'' ''strong'' 1],
     ch_pid = 1, ch_nanos = 0, ch_lowercase = \<lambda>s. s\<rparr>"

definition plain_graph :: PipelineGraph where
  "plain_graph = \<lparr>g_id = ''g'', g_label = None, g_default_model = None, g_max_total_tokens = None, g_default_timeout_secs = None,
     g_result_fidelity = None, g_nodes = map (\<lambda>i. (i, default_node\<lparr>n_id := i\<rparr>)) [''start''], g_edges = [], g_subgraphs = []\<rparr>"

lemma two_lanes_pools:
  "load_catalog two_lanes = Some [lane ''a/heavy'' ''strong'' 2, lane ''b/light'' ''fast'' 1, lane ''c/best'' ''strong'' 1]"
  "build_pools two_lanes [lane ''a/heavy'' ''strong'' 2, lane ''b/light'' ''fast'' 1, lane ''c/best'' ''strong'' 1]
     = Some \<lparr>mp_strong = [''best'', ''heavy''], mp_fast = [''light''], mp_strong_start = 1, mp_fast_start = 0\<rparr>"
  by code_simp+


text \<open>C25. Assignment never decides whether a pipeline is valid. When the routing keys of the catalog have no comma and no white space
  around them, and the validator knows the keys of the catalog, the graph passes validation after the pass exactly when it passes
  before.\<close>

theorem assignment_validates:
  assumes "hm_wf (g_nodes g)" "\<forall>models. load_catalog c = Some models \<longrightarrow> (\<forall>e \<in> set models. plain_key (model_key e))"
    "set (known_model_keys_from_catalog_dir c) \<subseteq> c_known_models ctx"
  shows "validate_with_context (assign_from_catalog_dir c g) ctx = Inr () \<longleftrightarrow> validate_with_context g ctx = Inr ()"
proof -
  have valid: "validate_with_context g ctx = Inr () \<longleftrightarrow> graph_valid g ctx" for g
    unfolding diagnostics_exact[symmetric] by (simp add: validate_with_context_def Let_def)
  show ?thesis
  proof (cases "load_catalog c")
    case (Some models)
    show ?thesis
    proof (cases "build_pools c models")
      case p: (Some p)
      note keys = build_pools_keys[OF p]
      have "model_known k (c_known_models ctx)" if "k \<in> set (mp_strong p) \<union> set (mp_fast p)" for k
        using that keys(3) assms(3) Some by (fastforce simp: model_known_def known_model_keys_from_catalog_dir_def entry_keys_def)
      moreover have "\<forall>k \<in> set (mp_strong p) \<union> set (mp_fast p). plain_key k" using keys(3) assms(2) Some by blast
      ultimately have "(\<forall>m \<in> set (node_models (assigned (ch_lowercase c) p g i n)). model_known m (c_known_models ctx))
          \<longleftrightarrow> (\<forall>m \<in> set (node_models n). model_known m (c_known_models ctx))" for i n
        using assigned_models[OF keys(1,2)] by blast
      then show ?thesis
        using assign_to_graph_exact[OF assms(1) keys(1,2)] remodel_valid[OF remodels_assigned] Some p
        by (simp add: assign_from_catalog_dir_def valid)
    qed (simp add: assign_from_catalog_dir_def Some)
  qed (simp add: assign_from_catalog_dir_def)
qed

theorem assignment_validates_witness:
  "validate_with_context (assign_from_catalog_dir two_lanes plain_graph)
     (with_known_models (known_model_keys_from_catalog_dir two_lanes) default_context) = Inr ()"
proof -
  have "validate_with_context plain_graph (with_known_models (known_model_keys_from_catalog_dir two_lanes) default_context) = Inr ()"
    by code_simp
  moreover have "list_all (\<lambda>e. plain_key (model_key e)) [lane ''a/heavy'' ''strong'' 2, lane ''b/light'' ''fast'' 1, lane ''c/best'' ''strong'' 1]"
    by code_simp
  ultimately show ?thesis
    using assignment_validates[of plain_graph two_lanes "with_known_models (known_model_keys_from_catalog_dir two_lanes) default_context"]
    by (simp add: two_lanes_pools with_known_models_def plain_graph_def)
qed

end
