(* ===== verification/Float_Arith.thy ===== *)
theory Float_Arith
  imports Rust_Float
begin

text \<open>
  Addition and multiplication of \<^verbatim>\<open>f64\<close>, for the code that computes with amounts of money, and what rounding keeps: results that
  need at most 53 bits are exact, and rounding is monotone, so that sums and products of amounts are.
\<close>

subsection \<open>Operations\<close>

fun f64_add :: "f64 \<Rightarrow> f64 \<Rightarrow> f64" where
  "f64_add (Fin a) (Fin b) = round_f64 (a + b)"
| "f64_add (Inf s) (Inf t) = (if s = t then Inf s else NaN)"
| "f64_add (Inf s) (Fin _) = Inf s"
| "f64_add (Fin _) (Inf t) = Inf t"
| "f64_add _ _ = NaN"

definition f64_sum :: "f64 list \<Rightarrow> f64" where
  "f64_sum xs = foldl f64_add (Fin 0) xs"

fun f64_mul :: "f64 \<Rightarrow> f64 \<Rightarrow> f64" where
  "f64_mul (Fin a) (Fin b) = round_f64 (a * b)"
| "f64_mul (Inf s) (Inf t) = Inf (s \<noteq> t)"
| "f64_mul (Inf s) (Fin b) = (if b = 0 then NaN else Inf (s \<noteq> (b < 0)))"
| "f64_mul (Fin a) (Inf t) = (if a = 0 then NaN else Inf (t \<noteq> (a < 0)))"
| "f64_mul _ _ = NaN"

subsection \<open>Exact results\<close>

lemma pow2_powi: "pow2 e = 2 powi e"
  by (simp add: pow2_def power_int_def field_simps)

lemma pow2_add: "pow2 (a + b) = pow2 a * pow2 b"
  by (simp add: pow2_powi power_int_add)

lemma pow2_less_iff: "pow2 a < pow2 b \<longleftrightarrow> a < b"
proof -
  have less: "pow2 x < pow2 y" if "x < y" for x y
    using that unfolding pow2_powi by (rule power_int_strict_increasing) simp
  show ?thesis using less[of a b] less[of b a] by (cases a b rule: linorder_cases) auto
qed

lemma pow2_nat: "pow2 (int n) = 2 ^ n"
  by (simp add: pow2_def)

lemma bit_length_bounds: "n < 2 ^ bit_length n \<and> (0 < n \<longrightarrow> 2 ^ bit_length n \<le> 2 * n)"
proof (induction n rule: bit_length.induct)
  case (1 n)
  then show ?case by (cases "n = 0"; cases "n = 1") (auto simp: bit_length.simps[of n] bit_length.simps[of 0] bit_length.simps[of "Suc 0"])
qed

lemma bit_length_rat:
  assumes "0 < k"
  shows "of_int k < (2 :: rat) ^ bit_length (nat k)" "2 ^ bit_length (nat k) \<le> (2 :: rat) * of_int k"
proof -
  have "int (nat k) < int (2 ^ bit_length (nat k))" "int (2 ^ bit_length (nat k)) \<le> int (2 * nat k)"
    unfolding of_nat_less_iff of_nat_le_iff using bit_length_bounds[of "nat k"] assms by auto
  then have "k < 2 ^ bit_length (nat k)" "2 ^ bit_length (nat k) \<le> 2 * k" using assms by simp_all
  then have "(of_int k :: rat) < of_int (2 ^ bit_length (nat k))" "(of_int (2 ^ bit_length (nat k)) :: rat) \<le> of_int (2 * k)"
    by (simp_all only: of_int_less_iff of_int_le_iff)
  then show "of_int k < (2 :: rat) ^ bit_length (nat k)" "2 ^ bit_length (nat k) \<le> (2 :: rat) * of_int k" by simp_all
qed

lemma binary_exponent_bounds:
  assumes "0 < q"
  shows "pow2 (binary_exponent q) \<le> q" "q < pow2 (binary_exponent q + 1)"
proof -
  obtain n d where nd: "quotient_of q = (n, d)" by fastforce
  define a where "a = bit_length (nat n)"
  define b where "b = bit_length (nat d)"
  have d: "0 < d" using nd quotient_of_denom_pos by blast
  have q: "q = of_int n / of_int d" using nd quotient_of_div by blast
  with assms d have n: "0 < n" by (simp add: zero_less_divide_iff)
  have up: "(of_int n :: rat) < 2 ^ a" "(of_int d :: rat) < 2 ^ b" and low: "2 ^ a \<le> 2 * (of_int n :: rat)" "2 ^ b \<le> 2 * (of_int d :: rat)"
    using bit_length_rat[OF n] bit_length_rat[OF d] by (simp_all add: a_def b_def)
  define e where "e = int a - int b"
  have e: "pow2 e = 2 ^ a / 2 ^ b" by (simp add: e_def pow2_powi power_int_diff)
  have "of_int n * 2 ^ b < 2 ^ a * (2 * of_int d :: rat)" "2 ^ a * of_int d < 2 * of_int n * (2 ^ b :: rat)"
    by (rule mult_less_le_imp_less; use up low n d in simp) (rule mult_le_less_imp_less; use up low n d in simp)
  then have "q < 2 * pow2 e" "pow2 e < 2 * q" using d unfolding q e by (simp_all add: field_simps)
  moreover have "binary_exponent q = (if pow2 e \<le> q then e else e - 1)"
    by (simp add: binary_exponent_def nd a_def b_def e_def Let_def)
  moreover have "pow2 (e + 1) = 2 * pow2 e" "pow2 e = 2 * pow2 (e - 1)"
    using pow2_add[of e 1] pow2_add[of "e - 1" 1] by (simp_all add: pow2_def[of 1])
  ultimately show "pow2 (binary_exponent q) \<le> q" "q < pow2 (binary_exponent q + 1)" by auto
qed

lemma round_half_even_of_int [simp]: "round_half_even (of_int m) = m"
  by (simp add: round_half_even_def)

lemma round_f64_exact:
  assumes "\<bar>k\<bar> < 2 ^ 53" "- 1074 \<le> z" "of_int \<bar>k\<bar> * pow2 z < pow2 1024"
  shows "round_f64 (of_int k * pow2 z) = Fin (of_int k * pow2 z)"
proof (cases "k = 0")
  case False
  define q where "q = of_int k * pow2 z"
  define t where "t = max (binary_exponent \<bar>q\<bar>) (- 1022) - 52"
  have q: "\<bar>q\<bar> = of_int \<bar>k\<bar> * pow2 z" "0 < \<bar>q\<bar>" using False by (simp_all add: q_def abs_mult less_imp_le)
  have "(of_int \<bar>k\<bar> :: rat) < pow2 53" using assms(1) by (simp add: pow2_def flip: of_int_less_iff[where 'a = rat])
  then have below: "\<bar>q\<bar> < pow2 (z + 53)" unfolding q pow2_add by (simp add: mult.commute)
  then have "pow2 (binary_exponent \<bar>q\<bar>) < pow2 (z + 53)" using binary_exponent_bounds(1)[OF q(2)] by order
  then have "t \<le> z" using assms(2) by (simp add: t_def pow2_less_iff)
  then have "pow2 z = 2 ^ nat (z - t) * pow2 t" using pow2_add[of "z - t" t] by (simp add: pow2_def[of "z - t"])
  then have "q / pow2 t = of_int (k * 2 ^ nat (z - t))" using pow2_pos[of t] by (simp add: q_def less_imp_neq[symmetric])
  then have "of_int (round_half_even (q / pow2 t)) * pow2 t = q" using pow2_pos[of t] by (metis round_half_even_of_int nonzero_divide_eq_eq less_irrefl)
  moreover have "\<bar>q\<bar> < pow2 1024" using assms(3) by (simp add: q)
  ultimately show ?thesis using q(2) unfolding q_def[symmetric] by (simp add: round_f64_def Let_def flip: t_def)
qed simp

subsection \<open>Monotonicity\<close>

lemma round_half_even_mono:
  assumes "x \<le> y"
  shows "round_half_even x \<le> round_half_even y"
proof (cases "\<lfloor>x\<rfloor> = \<lfloor>y\<rfloor>")
  case True
  then show ?thesis using assms by (auto simp: round_half_even_def Let_def)
next
  case False
  then have "\<lfloor>x\<rfloor> + 1 \<le> \<lfloor>y\<rfloor>" using floor_mono[OF assms] by linarith
  moreover have "round_half_even x \<le> \<lfloor>x\<rfloor> + 1" "\<lfloor>y\<rfloor> \<le> round_half_even y" by (simp_all add: round_half_even_def Let_def)
  ultimately show ?thesis by linarith
qed

text \<open>Rounding to the grid of an exponent, and the exponent that a positive number is rounded with.\<close>

definition grid :: "int \<Rightarrow> rat \<Rightarrow> rat" where
  "grid e q = of_int (round_half_even (q / pow2 (e - 52))) * pow2 (e - 52)"

definition level :: "rat \<Rightarrow> int" where
  "level q = max (binary_exponent q) (- 1022)"

lemma round_f64_grid: "0 < q \<Longrightarrow> round_f64 q = (if pow2 1024 \<le> \<bar>grid (level q) q\<bar> then Inf False else Fin (grid (level q) q))"
  by (simp add: round_f64_def grid_def level_def Let_def)

lemma grid_mono: "q \<le> r \<Longrightarrow> grid e q \<le> grid e r"
  unfolding grid_def by (intro mult_right_mono) (simp_all add: round_half_even_mono divide_right_mono less_imp_le[OF pow2_pos])

lemma grid_pow2:
  assumes "e - 52 \<le> k"
  shows "grid e (pow2 k) = pow2 k"
proof -
  have "pow2 k = of_int (2 ^ nat (k - (e - 52))) * pow2 (e - 52)"
    using assms pow2_add[of "k - (e - 52)" "e - 52"] by (simp add: pow2_def[of "k - (e - 52)"])
  moreover from this have "pow2 k / pow2 (e - 52) = of_int (2 ^ nat (k - (e - 52)))"
    using pow2_pos[of "e - 52"] by (simp add: less_imp_neq[symmetric])
  ultimately show ?thesis unfolding grid_def by (metis round_half_even_of_int)
qed

lemma grid_nonneg: "0 \<le> q \<Longrightarrow> 0 \<le> grid e q"
  using round_half_even_mono[of 0 "q / pow2 (e - 52)"] round_half_even_of_int[of 0] pow2_pos[of "e - 52"]
  by (simp add: grid_def mult_nonneg_nonneg less_imp_le)

lemma level_bounds:
  assumes "0 < q"
  shows "q < pow2 (level q + 1)" "- 1022 < level q \<Longrightarrow> pow2 (level q) \<le> q"
proof -
  have "pow2 (binary_exponent q + 1) \<le> pow2 (level q + 1)" by (simp add: level_def pow2_less_iff flip: not_less)
  then show "q < pow2 (level q + 1)" using binary_exponent_bounds(2)[OF assms] by order
  show "pow2 (level q) \<le> q" if "- 1022 < level q"
    using that binary_exponent_bounds(1)[OF assms] by (simp add: level_def split: if_splits)
qed

lemma grid_level_mono:
  assumes "0 < q" "q \<le> r"
  shows "grid (level q) q \<le> grid (level r) r"
proof (cases "level q" "level r" rule: linorder_cases)
  case equal
  then show ?thesis using assms(2) by (simp add: grid_mono)
next
  case less
  have r: "pow2 (level r) \<le> r" using level_bounds(2)[of r] less assms by (force simp: level_def)
  have "grid (level q) q \<le> grid (level q) (pow2 (level q + 1))" using level_bounds(1)[OF assms(1)] by (intro grid_mono) simp
  also have "\<dots> = pow2 (level q + 1)" by (simp add: grid_pow2)
  also have "\<dots> \<le> pow2 (level r)" using less by (simp add: pow2_less_iff flip: not_less)
  also have "\<dots> = grid (level r) (pow2 (level r))" by (simp add: grid_pow2)
  also have "\<dots> \<le> grid (level r) r" by (rule grid_mono[OF r])
  finally show ?thesis .
next
  case greater
  then have "pow2 (level q) \<le> q" using level_bounds(2)[OF assms(1)] by (force simp: level_def)
  moreover have "r < pow2 (level r + 1)" using level_bounds(1)[of r] assms by simp
  moreover have "pow2 (level r + 1) \<le> pow2 (level q)" using greater by (simp add: pow2_less_iff flip: not_less)
  ultimately show ?thesis using assms(2) by order
qed

lemma f64_le_simps [simp]: "f64_le (Fin a) (Fin b) \<longleftrightarrow> a \<le> b" "f64_le (Inf s) (Fin b) \<longleftrightarrow> s" "f64_le (Fin a) (Inf t) \<longleftrightarrow> \<not> t"
  "f64_le (Inf s) (Inf t) \<longleftrightarrow> s \<or> \<not> t" "\<not> f64_le NaN x" "\<not> f64_le x NaN"
  by (cases x; auto simp: f64_le_def)+

lemma f64_le_Inf: "x \<noteq> NaN \<Longrightarrow> f64_le x (Inf False)"
  by (cases x) auto

lemma round_f64_mono:
  assumes "0 \<le> q" "q \<le> r"
  shows "f64_le (round_f64 q) (round_f64 r)"
proof (cases "q = 0")
  case True
  then show ?thesis using assms grid_nonneg[of r "level r"]
    by (cases "r = 0") (simp_all add: round_f64_grid round_f64_def[of 0])
next
  case False
  then have "0 < q" "0 < r" using assms by simp_all
  then show ?thesis using grid_level_mono[of q r] assms(2) grid_nonneg[of q "level q"] grid_nonneg[of r "level r"]
    by (auto simp: round_f64_grid)
qed

text \<open>A rounded value is not rounded again.\<close>

lemma round_f64_idem:
  assumes "0 \<le> q" "round_f64 q = Fin c"
  shows "round_f64 c = Fin c"
proof (cases "q = 0")
  case False
  define e where "e = level q"
  define k where "k = round_half_even (q / pow2 (e - 52))"
  have q: "0 < q" using assms False by simp
  have c: "c = of_int k * pow2 (e - 52)" "c < pow2 1024"
    using assms(2) unfolding round_f64_grid[OF q] by (auto simp: grid_def k_def e_def split: if_splits)
  have up: "pow2 (e + 1) / pow2 (e - 52) = of_int (2 ^ 53)"
    using pow2_add[of 53 "e - 52"] pow2_pos[of "e - 52"] by (simp add: pow2_def[of 53] less_imp_neq[symmetric] add.commute)
  have "q / pow2 (e - 52) \<le> of_int (2 ^ 53)" unfolding up[symmetric]
    using level_bounds(1)[OF q] by (intro divide_right_mono) (simp_all add: e_def less_imp_le)
  then have "k \<le> 2 ^ 53" using round_half_even_mono[of "q / pow2 (e - 52)" "of_int (2 ^ 53)"] unfolding k_def round_half_even_of_int by blast
  moreover have "0 \<le> k" using round_half_even_mono[of 0 "q / pow2 (e - 52)"] round_half_even_of_int[of 0] q
    by (simp add: k_def less_imp_le)
  moreover have "- 1074 \<le> e - 52" by (simp add: e_def level_def)
  ultimately consider "\<bar>k\<bar> < 2 ^ 53" | "k = 2 ^ 53" by linarith
  then show ?thesis
  proof cases
    case 1
    then show ?thesis using round_f64_exact[of k "e - 52"] c \<open>- 1074 \<le> e - 52\<close> \<open>0 \<le> k\<close> by simp
  next
    case 2
    then have "c = pow2 (e + 1)" using c(1) up pow2_pos[of "e - 52"] by (simp add: field_simps)
    then show ?thesis using round_f64_exact[of 1 "e + 1"] c(2) \<open>- 1074 \<le> e - 52\<close> by simp
  qed
qed (use assms in \<open>simp add: round_f64_def\<close>)

text \<open>Amounts: values that are not negative and not a NaN.\<close>

definition amount :: "f64 \<Rightarrow> bool" where
  "amount x \<longleftrightarrow> f64_le (Fin 0) x"

lemma amount_simps [simp]: "amount (Fin a) \<longleftrightarrow> 0 \<le> a" "amount (Inf s) \<longleftrightarrow> \<not> s" "\<not> amount NaN"
  by (auto simp: amount_def f64_le_def)

lemma f64_le_trans: "f64_le x y \<Longrightarrow> f64_le y z \<Longrightarrow> f64_le x z"
  by (cases x; cases y; cases z) (auto simp: f64_le_def)

lemma f64_le_refl: "x \<noteq> NaN \<Longrightarrow> f64_le x x"
  by (simp add: f64_le_def)

lemma amount_round [simp]: "0 \<le> q \<Longrightarrow> amount (round_f64 q)"
  using round_f64_mono[of 0 q] by (simp add: amount_def round_f64_def[of 0])

lemma amount_add: "amount x \<Longrightarrow> amount y \<Longrightarrow> amount (f64_add x y)"
  by (cases x; cases y) auto

lemma amount_mul: "amount x \<Longrightarrow> amount (Fin b) \<Longrightarrow> 0 < b \<or> is_finite x \<Longrightarrow> amount (f64_mul x (Fin b))"
  by (cases x) auto

lemma f64_add_mono:
  assumes "amount x" "amount y" "f64_le x x'" "f64_le y y'"
  shows "f64_le (f64_add x y) (f64_add x' y')"
  using assms by (cases x; cases y; cases x'; cases y') (auto simp: round_f64_mono add_mono f64_le_Inf)

lemma f64_mul_mono:
  assumes "amount x" "f64_le x x'" "0 < b" "b \<le> b'"
  shows "f64_le (f64_mul x (Fin b)) (f64_mul x' (Fin b'))"
  using assms by (cases x; cases x') (auto simp: mult_mono round_f64_mono f64_le_Inf)

end
