(* ===== verification/Cost_Ledger.thy ===== *)
theory Cost_Ledger
  imports Float_Arith "HOL-Library.Multiset"
begin

text \<open>
  Model of \<^verbatim>\<open>crates/octos-agent/src/cost_ledger.rs\<close>: the ledger of what agents spent, and the accountant that reserves budget before an
  agent starts. A pipeline reserves for the whole run and for each node, and commits or refunds afterwards.

  The three tables of the database are association lists. A write transaction succeeds as a whole or changes nothing; whether it
  succeeds, and the JSON encoding of a row, are fields of the record \<open>ledger_host\<close>. The accountant calls its ledger through the
  operations of the record \<open>ledger_ops\<close>, the trait \<^verbatim>\<open>CostLedger\<close>; what it relies on is the locale \<open>cost_ledger\<close> of
  \<^verbatim>\<open>Cost_Properties\<close>. Metrics are left out.
\<close>

subsection \<open>Attributions\<close>

definition COST_ATTRIBUTION_SCHEMA_VERSION :: u32 where "COST_ATTRIBUTION_SCHEMA_VERSION = 1"

record CostAttributionEvent =
  ca_schema_version :: u32
  ca_attribution_id :: string
  ca_supervisor_session :: string
  ca_contract_id :: string
  ca_task_id :: string
  ca_model :: string
  ca_tokens_in :: u32
  ca_tokens_out :: u32
  ca_cost_usd :: f64
  ca_timestamp :: string
  ca_workflow :: "string option"
  ca_phase :: "string option"
  ca_backend :: "string option"
  ca_outcome :: "string option"

text \<open>The id and the time of a new attribution come from a clock and a process-wide counter.\<close>

definition attribution_new :: "string \<Rightarrow> string \<Rightarrow> string \<Rightarrow> string \<Rightarrow> string \<Rightarrow> string \<Rightarrow> u32 \<Rightarrow> u32 \<Rightarrow> f64 \<Rightarrow> CostAttributionEvent" where
  "attribution_new attribution_id timestamp supervisor_session contract_id task_id model tokens_in tokens_out cost_usd =
     \<lparr>ca_schema_version = COST_ATTRIBUTION_SCHEMA_VERSION, ca_attribution_id = attribution_id,
      ca_supervisor_session = supervisor_session, ca_contract_id = contract_id, ca_task_id = task_id, ca_model = model,
      ca_tokens_in = tokens_in, ca_tokens_out = tokens_out, ca_cost_usd = cost_usd, ca_timestamp = timestamp,
      ca_workflow = None, ca_phase = None, ca_backend = None, ca_outcome = None\<rparr>"

definition with_workflow :: "string option \<Rightarrow> string option \<Rightarrow> CostAttributionEvent \<Rightarrow> CostAttributionEvent" where
  "with_workflow workflow phase e = e\<lparr>ca_workflow := workflow, ca_phase := phase\<rparr>"

definition with_backend_outcome :: "string option \<Rightarrow> string option \<Rightarrow> CostAttributionEvent \<Rightarrow> CostAttributionEvent" where
  "with_backend_outcome backend result e = e\<lparr>ca_backend := backend, ca_outcome := result\<rparr>"

definition hex_digit :: "nat \<Rightarrow> char" where
  "hex_digit d = ''0123456789abcdef'' ! d"

fun hex_text :: "nat \<Rightarrow> string" where
  "hex_text n = (if n < 16 then [hex_digit n] else hex_text (n div 16) @ [hex_digit (n mod 16)])"

declare hex_text.simps [simp del]

definition pad_zeros :: "nat \<Rightarrow> string \<Rightarrow> string" where
  "pad_zeros width s = replicate (width - length s) (CHR ''0'') @ s"

definition generate_attribution_id :: "nat \<Rightarrow> u32 \<Rightarrow> string" where
  "generate_attribution_id nanos seq = ''cost-'' @ hex_text nanos @ ''-'' @ pad_zeros 8 (hex_text (unat seq))"

subsection \<open>The persistent ledger\<close>

record ledger =
  lg_attributions :: "(string, string) hashmap"
  lg_contract_index :: "(string, string list) hashmap"
  lg_session_index :: "(string, string list) hashmap"

record ledger_host =
  lh_encode :: "CostAttributionEvent \<Rightarrow> string"
  lh_decode :: "string \<Rightarrow> CostAttributionEvent option"
  lh_write_ok :: "ledger \<Rightarrow> bool"
  lh_read_ok :: "ledger \<Rightarrow> bool"

definition ledger_open :: ledger where
  "ledger_open = \<lparr>lg_attributions = [], lg_contract_index = [], lg_session_index = []\<rparr>"

definition append_index :: "(string, string list) hashmap \<Rightarrow> string \<Rightarrow> string \<Rightarrow> (string, string list) hashmap" where
  "append_index table key attribution_id =
     (let ids = (case hm_get table key of Some v \<Rightarrow> v | None \<Rightarrow> [])
      in hm_insert key (if attribution_id \<in> set ids then ids else ids @ [attribution_id]) table)"

definition load_by_ids :: "ledger_host \<Rightarrow> ledger \<Rightarrow> string list \<Rightarrow> CostAttributionEvent list" where
  "load_by_ids lh l ids = List.map_filter (\<lambda>i. case hm_get (lg_attributions l) i of Some json \<Rightarrow> lh_decode lh json | None \<Rightarrow> None) ids"

definition persistent_record :: "ledger_host \<Rightarrow> CostAttributionEvent \<Rightarrow> ledger \<Rightarrow> ledger option" where
  "persistent_record lh e l = (if lh_write_ok lh l
     then Some \<lparr>lg_attributions = hm_insert (ca_attribution_id e) (lh_encode lh e) (lg_attributions l),
       lg_contract_index = append_index (lg_contract_index l) (ca_contract_id e) (ca_attribution_id e),
       lg_session_index = append_index (lg_session_index l) (ca_supervisor_session e) (ca_attribution_id e)\<rparr>
     else None)"

definition indexed :: "(string, string list) hashmap \<Rightarrow> string \<Rightarrow> string list" where
  "indexed table key = (case hm_get table key of Some ids \<Rightarrow> ids | None \<Rightarrow> [])"

definition list_for_contract :: "ledger_host \<Rightarrow> string \<Rightarrow> ledger \<Rightarrow> CostAttributionEvent list option" where
  "list_for_contract lh c l = (if lh_read_ok lh l then Some (load_by_ids lh l (indexed (lg_contract_index l) c)) else None)"

definition list_for_session :: "ledger_host \<Rightarrow> string \<Rightarrow> ledger \<Rightarrow> CostAttributionEvent list option" where
  "list_for_session lh s l = (if lh_read_ok lh l then Some (load_by_ids lh l (indexed (lg_session_index l) s)) else None)"

record ContractCostRollup =
  ro_contract_id :: string
  ro_dispatch_count :: u64
  ro_tokens_in :: u64
  ro_tokens_out :: u64
  ro_cost_usd :: f64

definition rollup_add :: "ContractCostRollup \<Rightarrow> CostAttributionEvent \<Rightarrow> ContractCostRollup" where
  "rollup_add r e = r\<lparr>ro_dispatch_count := ro_dispatch_count r + 1, ro_tokens_in := ro_tokens_in r + ucast (ca_tokens_in e),
     ro_tokens_out := ro_tokens_out r + ucast (ca_tokens_out e), ro_cost_usd := f64_add (ro_cost_usd r) (ca_cost_usd e)\<rparr>"

definition rollup_of :: "string \<Rightarrow> CostAttributionEvent list \<Rightarrow> ContractCostRollup" where
  "rollup_of c es = foldl rollup_add
     \<lparr>ro_contract_id = c, ro_dispatch_count = 0, ro_tokens_in = 0, ro_tokens_out = 0, ro_cost_usd = Fin 0\<rparr> es"

text \<open>Descending cost, then ascending contract id. The cost of a rollup is never a NaN, so this is a total preorder.\<close>

definition rollup_before :: "ContractCostRollup \<Rightarrow> ContractCostRollup \<Rightarrow> bool" where
  "rollup_before a b \<longleftrightarrow> f64_lt (ro_cost_usd b) (ro_cost_usd a)
     \<or> (\<not> f64_lt (ro_cost_usd a) (ro_cost_usd b) \<and> ro_contract_id a < ro_contract_id b)"

fun insert_rollup :: "ContractCostRollup \<Rightarrow> ContractCostRollup list \<Rightarrow> ContractCostRollup list" where
  "insert_rollup r [] = [r]"
| "insert_rollup r (x # xs) = (if rollup_before x r then x # insert_rollup r xs else r # x # xs)"

text \<open>The database iterates over its keys in ascending order.\<close>

definition aggregate_per_contract :: "ledger_host \<Rightarrow> ledger \<Rightarrow> ContractCostRollup list option" where
  "aggregate_per_contract lh l = (if lh_read_ok lh l
     then Some (foldr insert_rollup
       (map (\<lambda>c. rollup_of c (load_by_ids lh l (indexed (lg_contract_index l) c))) (sort (hm_keys (lg_contract_index l)))) [])
     else None)"

record 'l ledger_ops =
  lo_record :: "CostAttributionEvent \<Rightarrow> 'l \<Rightarrow> 'l option"
  lo_list_for_contract :: "string \<Rightarrow> 'l \<Rightarrow> CostAttributionEvent list option"
  lo_aggregate_per_contract :: "'l \<Rightarrow> ContractCostRollup list option"

definition PersistentCostLedger :: "ledger_host \<Rightarrow> ledger ledger_ops" where
  "PersistentCostLedger lh = \<lparr>lo_record = persistent_record lh, lo_list_for_contract = list_for_contract lh,
     lo_aggregate_per_contract = aggregate_per_contract lh\<rparr>"

subsection \<open>Budgets\<close>

record CostBudgetPolicy =
  bp_per_dispatch_usd :: "f64 option"
  bp_per_contract_usd :: "f64 option"
  bp_global_usd :: "f64 option"

datatype BudgetRejectionReason =
    PerDispatchExceeded (limit_usd: f64) (breach_usd: f64)
  | PerContractExceeded (limit_usd: f64) (breach_usd: f64)
  | GlobalExceeded (limit_usd: f64) (breach_usd: f64)

datatype BudgetProjection = Allowed f64 | Rejected f64 BudgetRejectionReason

definition is_enforced :: "CostBudgetPolicy \<Rightarrow> bool" where
  "is_enforced p \<longleftrightarrow> bp_per_dispatch_usd p \<noteq> None \<or> bp_per_contract_usd p \<noteq> None \<or> bp_global_usd p \<noteq> None"

definition with_per_dispatch_usd :: "f64 \<Rightarrow> CostBudgetPolicy \<Rightarrow> CostBudgetPolicy" where
  "with_per_dispatch_usd limit p = p\<lparr>bp_per_dispatch_usd := Some limit\<rparr>"

definition with_per_contract_usd :: "f64 \<Rightarrow> CostBudgetPolicy \<Rightarrow> CostBudgetPolicy" where
  "with_per_contract_usd limit p = p\<lparr>bp_per_contract_usd := Some limit\<rparr>"

definition with_global_usd :: "f64 \<Rightarrow> CostBudgetPolicy \<Rightarrow> CostBudgetPolicy" where
  "with_global_usd limit p = p\<lparr>bp_global_usd := Some limit\<rparr>"

definition exceeds :: "f64 \<Rightarrow> f64 option \<Rightarrow> bool" where
  "exceeds x limit = (case limit of Some m \<Rightarrow> f64_lt m x | None \<Rightarrow> False)"

definition project :: "CostBudgetPolicy \<Rightarrow> f64 \<Rightarrow> f64 \<Rightarrow> f64 \<Rightarrow> BudgetProjection" where
  "project p projected_usd contract_spend_usd global_spend_usd =
     (let in_contract = f64_add contract_spend_usd projected_usd; in_all = f64_add global_spend_usd projected_usd in
      if exceeds projected_usd (bp_per_dispatch_usd p)
      then Rejected projected_usd (PerDispatchExceeded (the (bp_per_dispatch_usd p)) projected_usd)
      else if exceeds in_contract (bp_per_contract_usd p)
      then Rejected projected_usd (PerContractExceeded (the (bp_per_contract_usd p)) in_contract)
      else if exceeds in_all (bp_global_usd p)
      then Rejected projected_usd (GlobalExceeded (the (bp_global_usd p)) in_all)
      else Allowed projected_usd)"

subsection \<open>The accountant\<close>

record 'l CostAccountant =
  ac_ledger :: 'l
  ac_policy :: "CostBudgetPolicy option"
  ac_reservations :: "(string, f64) hashmap"

record Breach =
  br_reason :: BudgetRejectionReason
  br_projected_usd :: f64

record ReservationHandle =
  rh_contract_id :: string
  rh_amount_usd :: f64
  rh_inserted :: bool
  rh_committed :: bool

definition accountant_new :: "'l \<Rightarrow> CostBudgetPolicy option \<Rightarrow> 'l CostAccountant" where
  "accountant_new l policy = \<lparr>ac_ledger = l, ac_policy = policy, ac_reservations = []\<rparr>"

definition sum_cost :: "CostAttributionEvent list \<Rightarrow> f64" where
  "sum_cost events = f64_sum (map ca_cost_usd events)"

definition sum_cost_rollups :: "ContractCostRollup list \<Rightarrow> f64" where
  "sum_cost_rollups rollups = f64_sum (map ro_cost_usd rollups)"

definition reserved_for :: "(string, f64) hashmap \<Rightarrow> string \<Rightarrow> f64" where
  "reserved_for reservations c = (case hm_get reservations c of Some x \<Rightarrow> x | None \<Rightarrow> Fin 0)"

text \<open>\<^verbatim>\<open>reserve\<close> under its lock: it reads the history of the contract, then the history of all contracts, then decides. A failed read
  counts as no history.\<close>

definition contract_history :: "'l ledger_ops \<Rightarrow> CostBudgetPolicy \<Rightarrow> string \<Rightarrow> 'l \<Rightarrow> f64" where
  "contract_history ops p c l = (if bp_per_contract_usd p = None then Fin 0
     else case lo_list_for_contract ops c l of Some rows \<Rightarrow> sum_cost rows | None \<Rightarrow> Fin 0)"

definition global_history :: "'l ledger_ops \<Rightarrow> CostBudgetPolicy \<Rightarrow> 'l \<Rightarrow> f64" where
  "global_history ops p l = (if bp_global_usd p = None then Fin 0
     else case lo_aggregate_per_contract ops l of Some rollups \<Rightarrow> sum_cost_rollups rollups | None \<Rightarrow> Fin 0)"

definition decide :: "CostBudgetPolicy \<Rightarrow> string \<Rightarrow> f64 \<Rightarrow> f64 \<Rightarrow> f64 \<Rightarrow> 'l CostAccountant
    \<Rightarrow> (Breach, ReservationHandle) sum \<times> 'l CostAccountant" where
  "decide p c projected contract_hist global_hist a =
     (let reservations = ac_reservations a;
          contract_total = f64_add contract_hist (reserved_for reservations c);
          global_total = f64_add global_hist (f64_sum (hm_values reservations))
      in case project p projected contract_total global_total of
           Allowed _ \<Rightarrow> (Inr \<lparr>rh_contract_id = c, rh_amount_usd = projected, rh_inserted = True, rh_committed = False\<rparr>,
             a\<lparr>ac_reservations := hm_insert c (f64_add (reserved_for reservations c) projected) reservations\<rparr>)
         | Rejected x reason \<Rightarrow> (Inl \<lparr>br_reason = reason, br_projected_usd = x\<rparr>, a))"

definition reserve :: "'l ledger_ops \<Rightarrow> string \<Rightarrow> f64 \<Rightarrow> 'l CostAccountant \<Rightarrow> (Breach, ReservationHandle) sum \<times> 'l CostAccountant" where
  "reserve ops c projected a = (case ac_policy a of
       None \<Rightarrow> (Inr \<lparr>rh_contract_id = c, rh_amount_usd = projected, rh_inserted = False, rh_committed = False\<rparr>, a)
     | Some p \<Rightarrow> decide p c projected (contract_history ops p c (ac_ledger a)) (global_history ops p (ac_ledger a)) a)"

text \<open>\<^verbatim>\<open>project_dispatch\<close> looks at the same sums without reserving, and fails when the ledger cannot be read.\<close>

definition project_dispatch :: "'l ledger_ops \<Rightarrow> string \<Rightarrow> f64 \<Rightarrow> 'l CostAccountant \<Rightarrow> BudgetProjection option" where
  "project_dispatch ops c projected a = (case ac_policy a of
       None \<Rightarrow> Some (Allowed projected)
     | Some p \<Rightarrow>
         let contract_spend = (if bp_per_contract_usd p = None then Some (Fin 0)
               else map_option (\<lambda>rows. f64_add (sum_cost rows) (reserved_for (ac_reservations a) c)) (lo_list_for_contract ops c (ac_ledger a)));
             global_spend = (if bp_global_usd p = None then Some (Fin 0)
               else map_option (\<lambda>rs. f64_add (sum_cost_rollups rs) (f64_sum (hm_values (ac_reservations a))))
                 (lo_aggregate_per_contract ops (ac_ledger a)))
         in case (contract_spend, global_spend) of
              (Some x, Some y) \<Rightarrow> Some (project p projected x y)
            | _ \<Rightarrow> None)"

definition release_reservation :: "ReservationHandle \<Rightarrow> (string, f64) hashmap \<Rightarrow> (string, f64) hashmap" where
  "release_reservation h reservations = (case hm_get reservations (rh_contract_id h) of
       None \<Rightarrow> reservations
     | Some entry \<Rightarrow>
         let rest = f64_sub entry (rh_amount_usd h)
         in if f64_le rest EPSILON then hm_remove (rh_contract_id h) reservations else hm_insert (rh_contract_id h) rest reservations)"

text \<open>\<^verbatim>\<open>commit\<close> writes the row first, outside the lock, and releases the reservation afterwards, under it. The result is whether the
  row was written.\<close>

definition commit_record :: "'l ledger_ops \<Rightarrow> ReservationHandle \<Rightarrow> CostAttributionEvent \<Rightarrow> 'l CostAccountant
    \<Rightarrow> (ReservationHandle \<times> 'l CostAccountant) option" where
  "commit_record ops h e a = (case lo_record ops e (ac_ledger a) of
       None \<Rightarrow> None
     | Some l \<Rightarrow> Some (h\<lparr>rh_committed := True\<rparr>, a\<lparr>ac_ledger := l\<rparr>))"

definition release :: "ReservationHandle \<Rightarrow> 'l CostAccountant \<Rightarrow> 'l CostAccountant" where
  "release h a = (if rh_inserted h then a\<lparr>ac_reservations := release_reservation h (ac_reservations a)\<rparr> else a)"

definition commit :: "'l ledger_ops \<Rightarrow> ReservationHandle \<Rightarrow> CostAttributionEvent \<Rightarrow> 'l CostAccountant
    \<Rightarrow> bool \<times> ReservationHandle \<times> 'l CostAccountant" where
  "commit ops h e a = (if rh_committed h then (True, h, a)
     else case commit_record ops h e a of
       None \<Rightarrow> (False, h, a)
     | Some (h1, a1) \<Rightarrow> (True, h1, release h1 a1))"

definition drop_handle :: "ReservationHandle \<Rightarrow> 'l CostAccountant \<Rightarrow> 'l CostAccountant" where
  "drop_handle h a = (if rh_committed h then a else release h a)"

end
