(* ===== verification/Pricing.thy ===== *)
theory Pricing
  imports Float_Arith "HOL-Library.List_Lexorder" "HOL-Library.Char_ord"
begin

text \<open>
  Model of \<^verbatim>\<open>crates/octos-llm/src/pricing.rs\<close>: what a call of a model costs. Prices come from a catalog that is seeded once at startup,
  \<^verbatim>\<open>PRICING_CATALOG\<close>, and from a built-in table for models that are not in it.

  The catalog is an association list, \<open>None\<close> before it is seeded; \<^verbatim>\<open>HashMap\<close> iterates in an unspecified order, here the order of the
  list. Lowercase of a text that is not ASCII is a parameter.
\<close>

subsection \<open>Rates\<close>

record ModelPricing =
  input_per_million :: f64
  output_per_million :: f64

definition provider_prefix :: "string \<Rightarrow> string" where
  "provider_prefix key = (case split_once (CHR ''/'') key of Some (pre, _) \<Rightarrow> pre | None \<Rightarrow> key)"

subsection \<open>The catalog\<close>

type_synonym pricing_catalog = "(string, ModelPricing) hashmap"

definition bare_name :: "string \<Rightarrow> string" where
  "bare_name key = last (split_char (CHR ''/'') key)"

definition segments :: "string \<Rightarrow> nat" where
  "segments key = length (filter (\<lambda>c. c = CHR ''/'') key)"

definition outranks :: "nat \<times> string \<Rightarrow> nat \<times> string \<Rightarrow> bool" where
  "outranks a b \<longleftrightarrow> fst a < fst b \<or> fst a = fst b
     \<and> (provider_prefix (snd a) < provider_prefix (snd b) \<or> provider_prefix (snd a) = provider_prefix (snd b) \<and> snd a < snd b)"

definition seed_row :: "(string \<Rightarrow> string) \<Rightarrow> pricing_catalog \<times> (string, nat \<times> string) hashmap \<Rightarrow> string \<times> f64 \<times> f64
    \<Rightarrow> pricing_catalog \<times> (string, nat \<times> string) hashmap" where
  "seed_row wide st row =
     (let (catalog, bare_owner) = st; (key, cost_in, cost_out) = row in
      if \<not> (f64_lt (Fin 0) cost_in \<or> f64_lt (Fin 0) cost_out) then st
      else let pricing = \<lparr>input_per_million = cost_in, output_per_million = cost_out\<rparr>;
               catalog1 = hm_insert key pricing catalog;
               bare = to_lowercase wide (bare_name key);
               rank = (segments key, to_lowercase wide key);
               take_it = (case hm_get bare_owner bare of None \<Rightarrow> True | Some owned \<Rightarrow> outranks rank owned)
           in if take_it then (hm_insert bare pricing catalog1, hm_insert bare rank bare_owner) else (catalog1, bare_owner))"

definition seed_pricing_catalog :: "(string \<Rightarrow> string) \<Rightarrow> (string \<times> f64 \<times> f64) list \<Rightarrow> pricing_catalog" where
  "seed_pricing_catalog wide entries = fst (foldl (seed_row wide) ([], []) entries)"

definition max_by :: "('a \<Rightarrow> 'a \<Rightarrow> bool) \<Rightarrow> 'a list \<Rightarrow> 'a option" where
  "max_by lt xs = (case xs of [] \<Rightarrow> None | y # ys \<Rightarrow> Some (foldl (\<lambda>x y. if lt y x then x else y) y ys))"

definition min_by :: "('a \<Rightarrow> 'a \<Rightarrow> bool) \<Rightarrow> 'a list \<Rightarrow> 'a option" where
  "min_by lt xs = (case xs of [] \<Rightarrow> None | y # ys \<Rightarrow> Some (foldl (\<lambda>x y. if lt y x then y else x) y ys))"

definition family_less :: "string \<times> ModelPricing \<Rightarrow> string \<times> ModelPricing \<Rightarrow> bool" where
  "family_less a b \<longleftrightarrow> length (fst a) < length (fst b) \<or> length (fst a) = length (fst b) \<and> fst b < fst a"

definition closest_less :: "string \<times> ModelPricing \<Rightarrow> string \<times> ModelPricing \<Rightarrow> bool" where
  "closest_less a b \<longleftrightarrow> length (fst a) < length (fst b) \<or> length (fst a) = length (fst b) \<and> fst a < fst b"

definition catalog_pricing :: "(string \<Rightarrow> string) \<Rightarrow> pricing_catalog option \<Rightarrow> string \<Rightarrow> ModelPricing option" where
  "catalog_pricing wide cat model_id = (case cat of None \<Rightarrow> None | Some catalog \<Rightarrow>
     let m = to_lowercase wide model_id in
     case hm_get catalog m of
       Some p \<Rightarrow> Some p
     | None \<Rightarrow> (case max_by family_less (filter (\<lambda>(key, _). str_contains m key) catalog) of
         Some (_, p) \<Rightarrow> Some p
       | None \<Rightarrow> map_option snd (min_by closest_less (filter (\<lambda>(key, _). str_contains key m) catalog))))"

subsection \<open>The built-in table\<close>

definition price :: "rat \<Rightarrow> rat \<Rightarrow> ModelPricing" where
  "price i u = \<lparr>input_per_million = round_f64 i, output_per_million = round_f64 u\<rparr>"

definition default_pricing :: "string \<Rightarrow> ModelPricing option" where
  "default_pricing m =
     (let has = str_contains m in
      if has ''claude-opus-4'' \<or> has ''claude-4-opus'' then Some (price 15 75)
      else if has ''claude-sonnet-4'' \<or> has ''claude-4-sonnet'' then Some (price 3 15)
      else if has ''claude-3-5-sonnet'' then Some (price 3 15)
      else if has ''claude-3-5-haiku'' \<or> has ''claude-haiku'' then Some (price (4 / 5) 4)
      else if has ''gpt-4o-mini'' then Some (price (3 / 20) (3 / 5))
      else if has ''gpt-4o'' then Some (price (5 / 2) 10)
      else if starts_with m ''o3'' \<or> starts_with m ''o4'' then Some (price 10 40)
      else if has ''gemini-2'' \<or> has ''gemini-1.5'' then Some (price (3 / 40) (3 / 10))
      else if has ''deepseek-r1'' then Some (price (11 / 20) (219 / 100))
      else if has ''deepseek'' then Some (price (27 / 100) (11 / 10))
      else if has ''qwen3-coder'' \<or> has ''qwen3-235b'' \<or> has ''qwen3.5'' then Some (price (3 / 10) (6 / 5))
      else if has ''qwen'' then Some (price (3 / 20) (3 / 5))
      else if has ''llama-3.1-405b'' \<or> has ''llama-3.1-nemotron-ultra'' then Some (price 5 15)
      else if has ''llama-3.3-70b'' \<or> has ''llama-3.1-70b'' \<or> has ''llama-4-maverick'' then Some (price (2 / 5) (8 / 5))
      else if has ''llama-4-scout'' \<or> has ''llama3-70b'' then Some (price (3 / 10) (6 / 5))
      else if (has ''llama'' \<and> \<not> has ''ollama'') \<or> has ''meta/llama'' then Some (price (1 / 10) (2 / 5))
      else if has ''mistral-large'' then Some (price 2 6)
      else if has ''mistral'' \<or> has ''mixtral'' then Some (price (1 / 5) (3 / 5))
      else if has ''kimi-k3'' then Some (price 3 15)
      else if has ''kimi-k2'' \<or> has ''moonshot'' then Some (price (3 / 5) (12 / 5))
      else if has ''kimi'' then Some (price (3 / 10) (6 / 5))
      else if has ''minimax-m1'' \<or> has ''minimax-m2'' then Some (price (1 / 2) 2)
      else if has ''minimax'' then Some (price (1 / 5) (11 / 10))
      else if has ''glm-5'' \<or> has ''glm5'' then Some (price (1 / 2) 2)
      else if has ''glm-4'' \<or> has ''glm4'' then Some (price (3 / 10) (6 / 5))
      else if has ''nemotron-super'' \<or> has ''nemotron-ultra'' then Some (price (3 / 2) 5)
      else if has ''nemotron'' then Some (price (1 / 5) (4 / 5))
      else None)"

definition model_pricing :: "(string \<Rightarrow> string) \<Rightarrow> pricing_catalog option \<Rightarrow> string \<Rightarrow> ModelPricing option" where
  "model_pricing wide cat model_id = (case catalog_pricing wide cat model_id of
       Some p \<Rightarrow> Some p | None \<Rightarrow> default_pricing (to_lowercase wide model_id))"

subsection \<open>Costs\<close>

definition CACHE_READ_INPUT_MULTIPLIER :: f64 where "CACHE_READ_INPUT_MULTIPLIER = round_f64 (1 / 10)"

definition CACHE_WRITE_INPUT_MULTIPLIER :: f64 where "CACHE_WRITE_INPUT_MULTIPLIER = round_f64 (5 / 4)"

record CacheRates =
  read_multiplier :: f64
  write_multiplier :: f64

datatype CacheLane = Anthropic | Gemini | Residual

definition prefers_anthropic :: "string \<Rightarrow> bool" where
  "prefers_anthropic model = starts_with model ''claude-''"

definition speaks_anthropic_protocol :: "string \<Rightarrow> string \<Rightarrow> bool" where
  "speaks_anthropic_protocol provider model =
     (let p = to_ascii_lowercase provider in
      str_contains p ''anthropic'' \<or> p = ''zai'' \<or> p = ''zai-coding'' \<or> (p = ''r9s'' \<and> prefers_anthropic model))"

definition cache_rates :: "string \<Rightarrow> string \<Rightarrow> CacheRates" where
  "cache_rates provider model =
     (if speaks_anthropic_protocol provider model
      then \<lparr>read_multiplier = CACHE_READ_INPUT_MULTIPLIER, write_multiplier = CACHE_WRITE_INPUT_MULTIPLIER\<rparr>
      else let p = to_ascii_lowercase provider in
           if str_contains p ''deepseek'' then \<lparr>read_multiplier = round_f64 (1 / 10), write_multiplier = Fin 0\<rparr>
           else if str_contains p ''gemini'' \<or> str_contains p ''vertex'' \<or> str_contains p ''google''
           then \<lparr>read_multiplier = Fin (1 / 4), write_multiplier = Fin 0\<rparr>
           else \<lparr>read_multiplier = Fin 1, write_multiplier = CACHE_WRITE_INPUT_MULTIPLIER\<rparr>)"

primrec cache_rates_for_lane :: "CacheLane \<Rightarrow> CacheRates" where
  "cache_rates_for_lane Anthropic = \<lparr>read_multiplier = CACHE_READ_INPUT_MULTIPLIER, write_multiplier = CACHE_WRITE_INPUT_MULTIPLIER\<rparr>"
| "cache_rates_for_lane Gemini = \<lparr>read_multiplier = Fin (1 / 4), write_multiplier = Fin 0\<rparr>"
| "cache_rates_for_lane Residual = \<lparr>read_multiplier = Fin 1, write_multiplier = CACHE_WRITE_INPUT_MULTIPLIER\<rparr>"

definition millions :: "u32 \<Rightarrow> f64" where
  "millions tokens = f64_div_const (Fin (of_nat (unat tokens))) 1000000"

definition cost :: "ModelPricing \<Rightarrow> u32 \<Rightarrow> u32 \<Rightarrow> f64" where
  "cost p input outp = f64_add (f64_mul (millions input) (input_per_million p)) (f64_mul (millions outp) (output_per_million p))"

definition cost_with_cache_rates :: "ModelPricing \<Rightarrow> u32 \<Rightarrow> u32 \<Rightarrow> u32 \<Rightarrow> u32 \<Rightarrow> CacheRates \<Rightarrow> f64" where
  "cost_with_cache_rates p input outp cache_read cache_write rates =
     f64_add (f64_add (cost p input outp)
         (f64_mul (f64_mul (millions cache_read) (input_per_million p)) (read_multiplier rates)))
       (f64_mul (f64_mul (millions cache_write) (input_per_million p)) (write_multiplier rates))"

definition cost_with_cache :: "ModelPricing \<Rightarrow> u32 \<Rightarrow> u32 \<Rightarrow> u32 \<Rightarrow> u32 \<Rightarrow> f64" where
  "cost_with_cache p input outp cache_read cache_write = cost_with_cache_rates p input outp cache_read cache_write
     \<lparr>read_multiplier = CACHE_READ_INPUT_MULTIPLIER, write_multiplier = CACHE_WRITE_INPUT_MULTIPLIER\<rparr>"

definition cost_with_cache_for_provider :: "ModelPricing \<Rightarrow> string \<Rightarrow> string \<Rightarrow> u32 \<Rightarrow> u32 \<Rightarrow> u32 \<Rightarrow> u32 \<Rightarrow> f64" where
  "cost_with_cache_for_provider p provider model input outp cache_read cache_write =
     cost_with_cache_rates p input outp cache_read cache_write (cache_rates provider model)"

definition cost_with_cache_for_metadata :: "ModelPricing \<Rightarrow> CacheLane \<Rightarrow> u32 \<Rightarrow> u32 \<Rightarrow> u32 \<Rightarrow> u32 \<Rightarrow> f64" where
  "cost_with_cache_for_metadata p cache_lane input outp cache_read cache_write =
     cost_with_cache_rates p input outp cache_read cache_write (cache_rates_for_lane cache_lane)"

text \<open>\<^verbatim>\<open>project_cost_usd\<close> of \<^verbatim>\<open>cost_ledger.rs\<close>.\<close>

definition project_cost_usd :: "(string \<Rightarrow> string) \<Rightarrow> pricing_catalog option \<Rightarrow> string \<Rightarrow> u32 \<Rightarrow> u32 \<Rightarrow> f64 option" where
  "project_cost_usd wide cat model tokens_in tokens_out =
     map_option (\<lambda>pricing. cost pricing tokens_in tokens_out) (model_pricing wide cat model)"

end
