(* ===== verification/Pipeline_Run.thy ===== *)
theory Pipeline_Run
  imports Metered Model_Assignment Handlers Cost_Ledger Pricing Compose Dot_Parser
begin

text \<open>
  Model of a whole run, the entry points of \<^verbatim>\<open>PipelineExecutor\<close> in \<^verbatim>\<open>executor.rs\<close>: \<^verbatim>\<open>run\<close> on a DOT text, \<^verbatim>\<open>run_ir\<close> on a document,
  \<^verbatim>\<open>run_graph\<close> on a graph. A run assigns models, validates, reserves budget, executes on one of the two engines, applies the
  validators declared for the end, and commits or refunds its reservation.

  The configuration of the executor is the record \<open>executor\<close>; what it holds of the agent crate (the task supervisor, the runner of
  declared validators) are functions. The world of a run is the accountant, the reservation handles that are alive, and
  the rest. A handle is refunded when it is dropped; the code does so in a task of its own, a moment later. The permits that limit
  concurrent calls and the log lines are left out.
\<close>

subsection \<open>World and configuration\<close>

record ('l, 'w) run_world =
  rw_accountant :: "'l CostAccountant option"
  rw_handles :: "ReservationHandle multiset"
  rw_rest :: 'w

record 'v WorkspacePolicy =
  wp_validators :: "'v list"
  wp_on_completion :: "string list"

record ('l, 'v, 'w) executor =
  ex_ledger :: "'l ledger_ops"
  ex_contract_id :: string
  ex_pipeline_projected_usd :: f64
  ex_policy :: "'v WorkspacePolicy option"
  ex_validators_by_node :: "(string, 'v list) hashmap"
  ex_run_validators :: "'v list \<Rightarrow> string \<Rightarrow> ('l, 'w) run_world \<Rightarrow> (string, unit) sum \<times> ('l, 'w) run_world"
  ex_glob_matches :: "string \<Rightarrow> ('l, 'w) run_world \<Rightarrow> bool"
  ex_supervisor :: "(string \<Rightarrow> string \<Rightarrow> string option \<Rightarrow> ('l, 'w) run_world \<Rightarrow> (string, string) sum \<times> ('l, 'w) run_world) option"
  ex_parent_tool_call_id :: "string option"
  ex_parent_session_key :: "string option"
  ex_pricing :: "pricing_catalog option"
  ex_lowercase :: "string \<Rightarrow> string"
  ex_new_attribution :: "('l, 'w) run_world \<Rightarrow> (string \<times> string) \<times> ('l, 'w) run_world"
  ex_walk :: "('l, 'w) run_world walk_host"
  ex_dag_override :: "bool option"
  ex_env_dag :: "string option"
  ex_catalog :: "('l, 'w) run_world \<Rightarrow> catalog_host"
  ex_builtin_tools :: "string list"
  ex_load_plugins :: "string list \<Rightarrow> bool \<Rightarrow> string list"
  ex_plugin_dirs :: "string list"
  ex_plugin_require_signed :: bool
  ex_working_dir :: string
  ex_parse_ir :: "string \<Rightarrow> (string, PipelineIr) sum"
  ex_alphanumeric :: "string \<Rightarrow> bool"
  ex_handlers :: "('l, 'w) run_world handler_host"

subsection \<open>Budget\<close>

text \<open>What a call is projected to cost: \<^verbatim>\<open>project_cost_usd\<close> with the catalog that was seeded at startup.\<close>

definition priced :: "('l, 'v, 'w) executor \<Rightarrow> string \<Rightarrow> u32 \<Rightarrow> u32 \<Rightarrow> f64 option" where
  "priced ex = project_cost_usd (ex_lowercase ex) (ex_pricing ex)"

definition MIN_PER_NODE_PROJECTED_USD :: f64 where "MIN_PER_NODE_PROJECTED_USD = round_f64 (1 / 1000)"

definition DEFAULT_PIPELINE_PROJECTED_USD :: f64 where "DEFAULT_PIPELINE_PROJECTED_USD = round_f64 (1 / 100)"

definition DEFAULT_PIPELINE_CONTRACT_ID :: string where "DEFAULT_PIPELINE_CONTRACT_ID = ''pipeline''"

definition handler_kind_reserves :: "HandlerKind \<Rightarrow> bool" where
  "handler_kind_reserves kind \<longleftrightarrow> kind = Codergen \<or> kind = DynamicParallel"

definition project_node_usd :: "('l, 'v, 'w) executor \<Rightarrow> string option \<Rightarrow> f64" where
  "project_node_usd ex model = (case model of
       None \<Rightarrow> MIN_PER_NODE_PROJECTED_USD
     | Some m \<Rightarrow> (case priced ex m 2000 2000 of
         Some c \<Rightarrow> if f64_lt (Fin 0) c then c else MIN_PER_NODE_PROJECTED_USD
       | None \<Rightarrow> MIN_PER_NODE_PROJECTED_USD))"

definition pipeline_contract_id :: "('l, 'v, 'w) executor \<Rightarrow> string \<Rightarrow> string" where
  "pipeline_contract_id ex graph_id =
     (let explicit = trim (ex_contract_id ex) in
      if explicit \<noteq> [] then explicit else if graph_id \<noteq> [] then graph_id else DEFAULT_PIPELINE_CONTRACT_ID)"

definition pipeline_projected_usd :: "('l, 'v, 'w) executor \<Rightarrow> f64" where
  "pipeline_projected_usd ex =
     (if f64_lt (Fin 0) (ex_pipeline_projected_usd ex) then ex_pipeline_projected_usd ex else DEFAULT_PIPELINE_PROJECTED_USD)"

text \<open>The text of a breach: amounts with four decimals, rounded half to even.\<close>

fun usd_text :: "f64 \<Rightarrow> string" where
  "usd_text NaN = ''NaN''"
| "usd_text (Inf s) = (if s then ''-inf'' else ''inf'')"
| "usd_text (Fin q) = (let n = nat (round_half_even (\<bar>q\<bar> * 10000)) in
     (if q < 0 then ''-'' else []) @ nat_text (n div 10000) @ ''.'' @ pad_zeros 4 (nat_text (n mod 10000)))"

primrec breach_axis :: "BudgetRejectionReason \<Rightarrow> string" where
  "breach_axis (PerDispatchExceeded _ _) = ''per-dispatch''"
| "breach_axis (PerContractExceeded _ _) = ''per-contract''"
| "breach_axis (GlobalExceeded _ _) = ''global''"

definition breach_text :: "Breach \<Rightarrow> string" where
  "breach_text b = breach_axis (br_reason b) @ '' budget $'' @ usd_text (limit_usd (br_reason b)) @ '' exceeded by projection $''
     @ usd_text (breach_usd (br_reason b))"

definition open_reservation :: "('l, 'v, 'w) executor \<Rightarrow> string \<Rightarrow> f64 \<Rightarrow> ('l, 'w) run_world
    \<Rightarrow> (Breach, ReservationHandle option) sum \<times> ('l, 'w) run_world" where
  "open_reservation ex contract projected w = (case rw_accountant w of
       None \<Rightarrow> (Inr None, w)
     | Some a \<Rightarrow> (case reserve (ex_ledger ex) contract projected a of
         (Inl b, a1) \<Rightarrow> (Inl b, w\<lparr>rw_accountant := Some a1\<rparr>)
       | (Inr handle, a1) \<Rightarrow> (Inr (Some handle), w\<lparr>rw_accountant := Some a1, rw_handles := add_mset handle (rw_handles w)\<rparr>)))"

definition drop_reservation :: "ReservationHandle \<Rightarrow> ('l, 'w) run_world \<Rightarrow> ('l, 'w) run_world" where
  "drop_reservation handle w = w\<lparr>rw_accountant := map_option (drop_handle handle) (rw_accountant w),
     rw_handles := rw_handles w - {#handle#}\<rparr>"

definition reserve_pipeline_budget :: "('l, 'v, 'w) executor \<Rightarrow> string \<Rightarrow> ('l, 'w) run_world
    \<Rightarrow> (string, ReservationHandle option) sum \<times> ('l, 'w) run_world" where
  "reserve_pipeline_budget ex graph_id w =
     (case open_reservation ex (pipeline_contract_id ex graph_id) (pipeline_projected_usd ex) w of
        (Inl b, w1) \<Rightarrow> (Inl (''cost budget breach: '' @ breach_text b), w1)
      | (Inr handle, w1) \<Rightarrow> (Inr handle, w1))"

definition reserve_node_budget :: "('l, 'v, 'w) executor \<Rightarrow> string \<Rightarrow> PipelineNode \<Rightarrow> ('l, 'w) run_world
    \<Rightarrow> (string, ReservationHandle option) sum \<times> ('l, 'w) run_world" where
  "reserve_node_budget ex graph_id node w =
     (if rw_accountant w = None \<or> \<not> handler_kind_reserves (n_handler node) then (Inr None, w)
      else (case open_reservation ex (pipeline_contract_id ex graph_id) (project_node_usd ex (n_model node)) w of
        (Inl b, w1) \<Rightarrow> (Inl (''cost budget breach reserving node '' @ quote (n_id node) @ '': '' @ breach_text b), w1)
      | (Inr handle, w1) \<Rightarrow> (Inr handle, w1)))"

definition actual_cost :: "('l, 'v, 'w) executor \<Rightarrow> PipelineResult \<Rightarrow> f64" where
  "actual_cost ex r =
     (let node_cost_total = f64_sum (filter (\<lambda>c. is_finite c \<and> f64_lt (Fin 0) c) (map nc_actual_usd (pr_node_costs r)));
          usage = pr_token_usage r
      in if f64_lt (Fin 0) node_cost_total then node_cost_total
         else (case priced ex ''pipeline-aggregate'' (input_tokens usage) (output_tokens usage) of Some c \<Rightarrow> c | None \<Rightarrow> Fin 0))"

definition run_attribution :: "('l, 'v, 'w) executor \<Rightarrow> string \<Rightarrow> PipelineResult \<Rightarrow> string \<times> string \<Rightarrow> CostAttributionEvent" where
  "run_attribution ex graph_id r stamp =
     (let contract = pipeline_contract_id ex graph_id; usage = pr_token_usage r
      in attribution_new (fst stamp) (snd stamp) contract contract (''pipeline-'' @ graph_id) ''pipeline-aggregate''
           (input_tokens usage) (output_tokens usage) (actual_cost ex r))"

definition commit_pipeline_reservation :: "('l, 'v, 'w) executor \<Rightarrow> ReservationHandle \<Rightarrow> string \<Rightarrow> PipelineResult \<Rightarrow> ('l, 'w) run_world
    \<Rightarrow> ReservationHandle \<times> ('l, 'w) run_world" where
  "commit_pipeline_reservation ex handle graph_id r w =
     (let (stamp, w1) = ex_new_attribution ex w in
      case rw_accountant w1 of
        None \<Rightarrow> (handle, w1)
      | Some a \<Rightarrow> (case commit (ex_ledger ex) handle (run_attribution ex graph_id r stamp) a of
          (_, handle1, a1) \<Rightarrow>
            (handle1, w1\<lparr>rw_accountant := Some a1, rw_handles := add_mset handle1 (rw_handles w1 - {#handle#})\<rparr>)))"

subsection \<open>Validators and supervisor\<close>

definition run_node_validators :: "('l, 'v, 'w) executor \<Rightarrow> string \<Rightarrow> ('l, 'w) run_world \<Rightarrow> (string, unit) sum \<times> ('l, 'w) run_world" where
  "run_node_validators ex node_id w = (case hm_get (ex_validators_by_node ex) node_id of
       None \<Rightarrow> (Inr (), w)
     | Some validators \<Rightarrow>
         if validators = [] then (Inr (), w) else ex_run_validators ex validators (''pipeline-node-'' @ node_id) w)"

definition action_holds :: "('l, 'v, 'w) executor \<Rightarrow> ('l, 'w) run_world \<Rightarrow> string \<Rightarrow> bool" where
  "action_holds ex w action = (case strip_prefix ''file_exists:'' action of
       Some spec \<Rightarrow> ex_glob_matches ex (path_join (ex_working_dir ex) spec) w
     | None \<Rightarrow> True)"

definition evaluate_on_completion_actions :: "('l, 'v, 'w) executor \<Rightarrow> string list \<Rightarrow> ('l, 'w) run_world \<Rightarrow> string option" where
  "evaluate_on_completion_actions ex actions w =
     (let failures = filter (\<lambda>a. \<not> action_holds ex w a) actions in
      if failures = [] then None else Some (''pipeline completion validator failed: '' @ join '', '' failures))"

definition run_terminal_validators :: "('l, 'v, 'w) executor \<Rightarrow> ('l, 'w) run_world \<Rightarrow> (string, unit) sum \<times> ('l, 'w) run_world" where
  "run_terminal_validators ex w = (case ex_policy ex of
       None \<Rightarrow> (Inr (), w)
     | Some policy \<Rightarrow> (case evaluate_on_completion_actions ex (wp_on_completion policy) w of
         Some reason \<Rightarrow> (Inl reason, w)
       | None \<Rightarrow> if wp_validators policy = [] then (Inr (), w) else ex_run_validators ex (wp_validators policy) ''pipeline'' w))"

definition register_node_task :: "('l, 'v, 'w) executor \<Rightarrow> string \<Rightarrow> ('l, 'w) run_world \<Rightarrow> (string, string option) sum \<times> ('l, 'w) run_world" where
  "register_node_task ex node_id w = (case ex_supervisor ex of
       None \<Rightarrow> (Inr None, w)
     | Some try_register_node_task \<Rightarrow>
         (case try_register_node_task (''pipeline:'' @ node_id) (case ex_parent_tool_call_id ex of Some i \<Rightarrow> i | None \<Rightarrow> [])
             (ex_parent_session_key ex) w of
           (Inl e, w1) \<Rightarrow> (Inl e, w1)
         | (Inr task_id, w1) \<Rightarrow> (Inr (Some task_id), w1)))"

subsection \<open>The engines of a run\<close>

text \<open>The engines know a handle by its amount; its contract is that of the run, and it was entered if there is a policy.\<close>

definition node_handle :: "('l, 'v, 'w) executor \<Rightarrow> string \<Rightarrow> ('l, 'w) run_world \<Rightarrow> f64 \<Rightarrow> ReservationHandle" where
  "node_handle ex graph_id w usd = \<lparr>rh_contract_id = pipeline_contract_id ex graph_id, rh_amount_usd = usd,
     rh_inserted = (case rw_accountant w of Some a \<Rightarrow> ac_policy a \<noteq> None | None \<Rightarrow> False), rh_committed = False\<rparr>"

definition release_node_budget :: "('l, 'v, 'w) executor \<Rightarrow> string \<Rightarrow> f64 option \<Rightarrow> ('l, 'w) run_world \<Rightarrow> ('l, 'w) run_world" where
  "release_node_budget ex graph_id res w = (case res of
       None \<Rightarrow> w | Some usd \<Rightarrow> drop_reservation (node_handle ex graph_id w usd) w)"

definition configured_host :: "('l, 'v, 'w) executor \<Rightarrow> ('l, 'w) run_world handler_registry \<Rightarrow> string \<Rightarrow> ('l, 'w) run_world host" where
  "configured_host ex handlers graph_id = (wh_host (ex_walk ex))\<lparr>
     ho_handler := hm_get handlers,
     ho_register := register_node_task ex,
     ho_reserve := \<lambda>gid node w. (case reserve_node_budget ex gid node w of
         (Inl e, w1) \<Rightarrow> (Inl e, w1) | (Inr handle, w1) \<Rightarrow> (Inr (map_option rh_amount_usd handle), w1)),
     ho_release := release_node_budget ex graph_id,
     ho_validators := run_node_validators ex,
     ho_project_cost_usd := priced ex,
     ho_working_dir := ex_working_dir ex\<rparr>"

definition configured_walk :: "('l, 'v, 'w) executor \<Rightarrow> ('l, 'w) run_world handler_registry \<Rightarrow> string \<Rightarrow> ('l, 'w) run_world walk_host" where
  "configured_walk ex handlers graph_id = (ex_walk ex)\<lparr>wh_fan := (wh_fan (ex_walk ex))\<lparr>fh_host := configured_host ex handlers graph_id\<rparr>\<rparr>"

subsection \<open>Runs\<close>

datatype run_error = ParseFailed dot_error | ComposeFailed ComposeError | InvalidGraph "LintDiagnostic list" | NoStartNode
  | ReservationFailed string | DagFailed exec_error | WalkFailed walk_error

definition dag_scheduler_enabled :: "string option \<Rightarrow> bool" where
  "dag_scheduler_enabled env \<longleftrightarrow> env = Some ''1'' \<or> env = Some ''true'' \<or> env = Some ''TRUE''"

definition validation_context :: "('l, 'v, 'w) executor \<Rightarrow> PipelineGraph \<Rightarrow> (string \<times> string option) list \<Rightarrow> ('l, 'w) run_world \<Rightarrow> ValidationContext" where
  "validation_context ex g variables w =
     (let tool_names = known_tool_names_with_plugins (ex_builtin_tools ex) (ex_load_plugins ex) (ex_plugin_dirs ex)
            (ex_plugin_require_signed ex) (referenced_tool_entries g)
      in with_known_tools tool_names (with_known_models (known_model_keys_from_catalog_dir (ex_catalog ex w))
           (with_runtime_variables (map fst variables) default_context)))"

definition use_dag :: "('l, 'v, 'w) executor \<Rightarrow> PipelineGraph \<Rightarrow> bool" where
  "use_dag ex g \<longleftrightarrow> (case ex_dag_override ex of Some b \<Rightarrow> b | None \<Rightarrow> dag_scheduler_enabled (ex_env_dag ex))
     \<and> graph_is_dag_schedulable g \<and> wh_checkpoints (ex_walk ex) = None"

definition execute :: "('l, 'v, 'w) executor \<Rightarrow> ('l, 'w) run_world handler_registry \<Rightarrow> run_ctx \<Rightarrow> string \<Rightarrow> ('l, 'w) run_world
    \<Rightarrow> ((run_error, PipelineResult) sum \<times> ('l, 'w) run_world) option" where
  "execute ex handlers rc start_node w =
     (let g = rc_graph rc in
      if use_dag ex g
      then (case execute_graph_dag (configured_host ex handlers (g_id g)) rc w of
          (Inl e, w1) \<Rightarrow> Some (Inl (DagFailed e), w1) | (Inr r, w1) \<Rightarrow> Some (Inr r, w1))
      else (case execute_graph (configured_walk ex handlers (g_id g)) rc start_node w of
          None \<Rightarrow> None | Some (Inl e, w1) \<Rightarrow> Some (Inl (WalkFailed e), w1) | Some (Inr r, w1) \<Rightarrow> Some (Inr r, w1)))"

text \<open>After the engine: the terminal validators, the commit, and the end of the handle's life.\<close>

definition demoted :: "string \<Rightarrow> PipelineResult \<Rightarrow> PipelineResult" where
  "demoted reason r = r\<lparr>pr_success := False,
     pr_output := ''Pipeline validator rejected completion: '' @ reason @ line_break @ line_break @ pr_output r\<rparr>"

definition drop_optional :: "ReservationHandle option \<Rightarrow> ('l, 'w) run_world \<Rightarrow> ('l, 'w) run_world" where
  "drop_optional handle w = (case handle of None \<Rightarrow> w | Some rh \<Rightarrow> drop_reservation rh w)"

definition conclude :: "('l, 'v, 'w) executor \<Rightarrow> string \<Rightarrow> ReservationHandle option \<Rightarrow> PipelineResult \<Rightarrow> ('l, 'w) run_world
    \<Rightarrow> PipelineResult \<times> ('l, 'w) run_world" where
  "conclude ex graph_id handle r w =
     (let (verdict, w1) = (if pr_success r then run_terminal_validators ex w else (Inr (), w));
          r1 = (case verdict of Inl reason \<Rightarrow> demoted reason r | Inr _ \<Rightarrow> r);
          (handle1, w2) = (case handle of
              Some rh \<Rightarrow> if pr_success r1 then (case commit_pipeline_reservation ex rh graph_id r1 w1 of (rh1, v) \<Rightarrow> (Some rh1, v))
                else (handle, w1)
            | None \<Rightarrow> (None, w1))
      in (r1, drop_optional handle1 w2))"

definition run_graph_with_handlers :: "('l, 'v, 'w) executor \<Rightarrow> PipelineGraph \<Rightarrow> string \<Rightarrow> (string \<times> string option) list
    \<Rightarrow> ('l, 'w) run_world handler_registry \<Rightarrow> ('l, 'w) run_world \<Rightarrow> ((run_error, PipelineResult) sum \<times> ('l, 'w) run_world) option" where
  "run_graph_with_handlers ex g0 user_input variables handlers w =
     (let g = assign_from_catalog_dir (ex_catalog ex w) g0;
          diags = diagnostics_with_context g (validation_context ex g variables w)
      in if has_errors diags then Some (Inl (InvalidGraph (filter (\<lambda>d. d_severity d = SevError) diags)), w)
         else (case find_start_node g of
             None \<Rightarrow> Some (Inl NoStartNode, w)
           | Some start_node \<Rightarrow> (case reserve_pipeline_budget ex (g_id g) w of
               (Inl e, w1) \<Rightarrow> Some (Inl (ReservationFailed e), w1)
             | (Inr handle, w1) \<Rightarrow>
                 (case execute ex handlers \<lparr>rc_graph = g, rc_user_input = user_input, rc_variables = variables\<rparr> start_node w1 of
                    None \<Rightarrow> None
                  | Some (Inl e, w2) \<Rightarrow> Some (Inl e, drop_optional handle w2)
                  | Some (Inr r, w2) \<Rightarrow> (case conclude ex (g_id g) handle r w2 of (r1, w3) \<Rightarrow> Some (Inr r1, w3))))))"

definition run_graph :: "('l, 'v, 'w) executor \<Rightarrow> PipelineGraph \<Rightarrow> string \<Rightarrow> (string \<times> string option) list \<Rightarrow> ('l, 'w) run_world
    \<Rightarrow> ((run_error, PipelineResult) sum \<times> ('l, 'w) run_world) option" where
  "run_graph ex g user_input variables w = run_graph_with_handlers ex g user_input variables (build_handlers (ex_handlers ex)) w"

definition run_with_handlers :: "('l, 'v, 'w) executor \<Rightarrow> string \<Rightarrow> string \<Rightarrow> (string \<times> string option) list
    \<Rightarrow> ('l, 'w) run_world handler_registry \<Rightarrow> ('l, 'w) run_world \<Rightarrow> ((run_error, PipelineResult) sum \<times> ('l, 'w) run_world) option" where
  "run_with_handlers ex dot_content user_input variables handlers w = (case parse_dot (ex_alphanumeric ex) dot_content of
       Inl e \<Rightarrow> Some (Inl (ParseFailed e), w)
     | Inr g \<Rightarrow> run_graph_with_handlers ex g user_input variables handlers w)"

definition run :: "('l, 'v, 'w) executor \<Rightarrow> string \<Rightarrow> string \<Rightarrow> (string \<times> string option) list \<Rightarrow> ('l, 'w) run_world
    \<Rightarrow> ((run_error, PipelineResult) sum \<times> ('l, 'w) run_world) option" where
  "run ex dot_content user_input variables w =
     run_with_handlers ex dot_content user_input variables (build_handlers (ex_handlers ex)) w"

definition run_ir :: "('l, 'v, 'w) executor \<Rightarrow> string \<Rightarrow> ValidationProfile \<Rightarrow> string \<Rightarrow> (string \<times> string option) list \<Rightarrow> ('l, 'w) run_world
    \<Rightarrow> ((run_error, PipelineResult) sum \<times> ('l, 'w) run_world) option" where
  "run_ir ex ir_json profile user_input variables w = (case compose (ex_parse_ir ex) ir_json profile (map fst variables) of
       None \<Rightarrow> None
     | Some (Inl e) \<Rightarrow> Some (Inl (ComposeFailed e), w)
     | Some (Inr g) \<Rightarrow> run_graph ex g user_input variables w)"

end
