(* ===== verification/Cost_Properties.thy ===== *)
theory Cost_Properties
  imports Cost_Ledger "HOL-Library.Countable"
begin

text \<open>
  What the cost accountant guarantees: no interleaving of reservations, commits and refunds spends more than the budget.
  The interface between the accountant and its ledger is the locale \<open>cost_ledger\<close>, interpreted for the persistent ledger.

  Amounts are binary floating-point numbers and their sums are rounded. The guarantee is stated for amounts that are
  multiples of \<open>2\<^sup>-\<^sup>2\<^sup>0\<close> dollars below \<open>2\<^sup>3\<^sup>0\<close> dollars, whose sums are exact.
\<close>

subsection \<open>Exact sums\<close>

text \<open>\<open>usd k\<close>: \<open>k\<close> units of \<open>2\<^sup>-\<^sup>2\<^sup>0\<close> dollars.\<close>

definition usd :: "nat \<Rightarrow> f64" where
  "usd k = Fin (of_nat k / 2 ^ 20)"

definition CAP :: nat where "CAP = 2 ^ 50"

lemma usd_0 [simp]: "usd 0 = Fin 0"
  by (simp add: usd_def)

lemma usd_inject [simp]: "usd a = usd b \<longleftrightarrow> a = b"
  by (simp add: usd_def)

lemma usd_less [simp]: "f64_lt (usd a) (usd b) \<longleftrightarrow> a < b"
  by (simp add: usd_def divide_strict_right_mono divide_less_cancel)

lemma usd_not_NaN [simp]: "usd a \<noteq> NaN"
  by (simp add: usd_def)

lemma usd_le [simp]: "f64_le (usd a) (usd b) \<longleftrightarrow> a \<le> b"
  by (auto simp: f64_le_def)

lemma usd_finite [simp]: "is_finite (usd a)"
  by (simp add: usd_def)

lemma usd_epsilon [simp]: "f64_le (usd a) EPSILON \<longleftrightarrow> a = 0"
proof (cases "a = 0")
  case False
  then have "(1 :: rat) / 2 ^ 20 \<le> of_nat a / 2 ^ 20"
    using of_nat_mono[of 1 a, where 'a = rat] by (intro divide_right_mono) simp_all
  moreover have "(1 :: rat) / 2 ^ 52 < 1 / 2 ^ 20" by simp
  ultimately have "\<not> of_nat a / 2 ^ 20 \<le> (1 :: rat) / 2 ^ 52" by order
  with False show ?thesis unfolding usd_def EPSILON_def f64_le_simps by blast
qed (simp add: EPSILON_def)

lemma round_usd:
  assumes "int a < 2 ^ 53"
  shows "round_f64 (of_nat a / 2 ^ 20) = usd a"
proof -
  have "(of_int (int a) :: rat) < of_int (2 ^ 53)" using assms unfolding of_int_less_iff .
  then have "of_int \<bar>int a\<bar> * pow2 (- 20) < pow2 53 * pow2 (- 20)" by (simp add: pow2_def)
  also have "\<dots> = pow2 33" using pow2_add[of 53 "- 20"] by simp
  also have "\<dots> < pow2 1024" by (simp add: pow2_less_iff)
  finally show ?thesis using round_f64_exact[of "int a" "- 20"] assms by (simp add: usd_def pow2_def)
qed

lemma add_usd: "a + b < 2 ^ 53 \<Longrightarrow> f64_add (usd a) (usd b) = usd (a + b)"
  using round_usd[of "a + b"] by (simp add: usd_def add_divide_distrib)

lemma sub_usd: "b \<le> a \<Longrightarrow> a < 2 ^ 53 \<Longrightarrow> f64_sub (usd a) (usd b) = usd (a - b)"
  using round_usd[of "a - b"] by (simp add: usd_def diff_divide_distrib of_nat_diff)

lemma sum_usd: "sum_list ks < 2 ^ 53 \<Longrightarrow> f64_sum (map usd ks) = usd (sum_list ks)"
proof (induction ks rule: rev_induct)
  case (snoc k ks)
  then have "f64_sum (map usd ks) = usd (sum_list ks)" by simp
  with snoc.prems show ?case by (simp add: f64_sum_def add_usd)
qed (simp add: f64_sum_def)

subsection \<open>Tallies\<close>

text \<open>Amounts in units of \<open>2\<^sup>-\<^sup>2\<^sup>0\<close> dollars, and their sum over the entries of a multiset whose contract satisfies a predicate.\<close>

primrec units :: "f64 \<Rightarrow> nat" where
  "units (Fin q) = nat \<lfloor>q * 2 ^ 20\<rfloor>"
| "units (Inf s) = 0"
| "units NaN = 0"

lemma units_usd [simp]: "units (usd k) = k"
  by (simp add: usd_def)

definition tally :: "('a \<Rightarrow> string) \<Rightarrow> ('a \<Rightarrow> f64) \<Rightarrow> (string \<Rightarrow> bool) \<Rightarrow> 'a multiset \<Rightarrow> nat" where
  "tally key val P M = (\<Sum>x\<in>#filter_mset (\<lambda>x. P (key x)) M. units (val x))"

lemma tally_empty [simp]: "tally key val P {#} = 0"
  by (simp add: tally_def)

lemma tally_add [simp]: "tally key val P (add_mset x M) = (if P (key x) then units (val x) else 0) + tally key val P M"
  by (simp add: tally_def)

lemma tally_union [simp]: "tally key val P (M + N) = tally key val P M + tally key val P N"
  by (simp add: tally_def)

lemma tally_cong_False: "(\<And>x. x \<in># M \<Longrightarrow> P (key x) \<Longrightarrow> units (val x) = 0) \<Longrightarrow> tally key val P M = 0"
  by (auto simp: tally_def)

lemma tally_mono: "(\<And>d. P d \<Longrightarrow> Q d) \<Longrightarrow> tally key val P M \<le> tally key val Q M"
  by (induction M) auto

lemma tally_list: "tally key val (\<lambda>_. True) (mset xs) = (\<Sum>x\<leftarrow>xs. units (val x))"
  by (induction xs) simp_all

lemma tally_split: "tally key val (\<lambda>_. True) M = tally key val Q M + tally key val (\<lambda>d. \<not> Q d) M"
  by (induction M) auto

lemma tally_keys:
  assumes "distinct ks"
  shows "(\<Sum>k\<leftarrow>ks. tally key val (\<lambda>d. d = k) M) = tally key val (\<lambda>d. d \<in> set ks) M"
proof (induction M)
  case (add x M)
  have "(\<Sum>k\<leftarrow>ks. if key x = k then n else 0) = (if key x \<in> set ks then n else 0)" for n :: nat
    using assms by (induction ks) auto
  with add show ?case by (simp add: sum_list_addf)
qed simp

lemma sum_cost_tally:
  assumes "\<forall>e\<in>set es. \<exists>k. ca_cost_usd e = usd k" "tally ca_contract_id ca_cost_usd (\<lambda>_. True) (mset es) < 2 ^ 53"
  shows "sum_cost es = usd (tally ca_contract_id ca_cost_usd (\<lambda>_. True) (mset es))"
proof -
  have costs: "map ca_cost_usd es = map usd (map (\<lambda>e. units (ca_cost_usd e)) es)" using assms(1) by auto
  show ?thesis unfolding sum_cost_def tally_list costs using assms(2) by (intro sum_usd) (simp only: tally_list)
qed

lemma sum_rollups_tally:
  assumes "map ro_cost_usd rs = map sum_cost ess" "\<forall>e\<in>set (concat ess). \<exists>k. ca_cost_usd e = usd k"
    "tally ca_contract_id ca_cost_usd (\<lambda>_. True) (mset (concat ess)) < 2 ^ 53"
  shows "sum_cost_rollups rs = usd (tally ca_contract_id ca_cost_usd (\<lambda>_. True) (mset (concat ess)))"
proof -
  let ?t = "\<lambda>es. tally ca_contract_id ca_cost_usd (\<lambda>_. True) (mset es)"
  have all: "?t (concat ess) = sum_list (map ?t ess)" by (induction ess) simp_all
  have "sum_cost es = usd (?t es)" if "es \<in> set ess" for es
    using that assms(2,3) member_le_sum_list[of "?t es" "map ?t ess"] all by (intro sum_cost_tally) auto
  then have "map ro_cost_usd rs = map usd (map ?t ess)" by (simp add: assms(1))
  then show ?thesis using sum_usd[of "map ?t ess"] assms(3) by (simp add: sum_cost_rollups_def all)
qed

subsection \<open>Callers and the accountant\<close>

text \<open>
  The accountant with its callers: the reservations callers hold, those whose row is written but which are not yet
  released, those dropped but not yet refunded (\<^verbatim>\<open>Drop\<close> spawns a task for it), and the call of \<^verbatim>\<open>reserve\<close> that has the lock, with
  what it has read so far. A row is written without the lock; a reservation is released or refunded under it.
\<close>

record 'l office =
  of_accountant :: "'l CostAccountant"
  of_held :: "ReservationHandle multiset"
  of_recorded :: "ReservationHandle multiset"
  of_dropped :: "ReservationHandle multiset"
  of_reserving :: "(string \<times> f64 \<times> f64 \<times> f64 option) option"

abbreviation office_ledger :: "'l office \<Rightarrow> 'l" where
  "office_ledger s \<equiv> ac_ledger (of_accountant s)"

definition office_new :: "'l \<Rightarrow> CostBudgetPolicy \<Rightarrow> 'l office" where
  "office_new l p = \<lparr>of_accountant = accountant_new l (Some p), of_held = {#}, of_recorded = {#}, of_dropped = {#}, of_reserving = None\<rparr>"

text \<open>Each commit stays within its reservation and names its contract.\<close>

inductive office_step :: "'l ledger_ops \<Rightarrow> (CostAttributionEvent \<Rightarrow> 'l \<Rightarrow> bool) \<Rightarrow> CostBudgetPolicy \<Rightarrow> 'l office \<Rightarrow> 'l office \<Rightarrow> bool"
  for ops fresh p where
  enter: "of_reserving s = None \<Longrightarrow> k \<le> CAP
    \<Longrightarrow> office_step ops fresh p s (s\<lparr>of_reserving := Some (c, usd k, contract_history ops p c (office_ledger s), None)\<rparr>)"
| survey: "of_reserving s = Some (c, x, h, None)
    \<Longrightarrow> office_step ops fresh p s (s\<lparr>of_reserving := Some (c, x, h, Some (global_history ops p (office_ledger s)))\<rparr>)"
| grant: "of_reserving s = Some (c, x, h, Some g) \<Longrightarrow> decide p c x h g (of_accountant s) = (Inr rh, a)
    \<Longrightarrow> office_step ops fresh p s (s\<lparr>of_accountant := a, of_held := add_mset rh (of_held s), of_reserving := None\<rparr>)"
| refuse: "of_reserving s = Some (c, x, h, Some g) \<Longrightarrow> decide p c x h g (of_accountant s) = (Inl b, a)
    \<Longrightarrow> office_step ops fresh p s (s\<lparr>of_accountant := a, of_reserving := None\<rparr>)"
| write_row: "of_held s = add_mset rh H \<Longrightarrow> commit_record ops rh e (of_accountant s) = Some (rh1, a) \<Longrightarrow> fresh e (office_ledger s)
    \<Longrightarrow> ca_contract_id e = rh_contract_id rh \<Longrightarrow> ca_cost_usd e = usd k \<Longrightarrow> f64_le (usd k) (rh_amount_usd rh)
    \<Longrightarrow> office_step ops fresh p s (s\<lparr>of_accountant := a, of_held := H, of_recorded := add_mset rh1 (of_recorded s)\<rparr>)"
| write_fails: "of_held s = add_mset rh H \<Longrightarrow> commit_record ops rh e (of_accountant s) = None \<Longrightarrow> office_step ops fresh p s s"
| let_go: "of_reserving s = None \<Longrightarrow> of_recorded s = add_mset rh H
    \<Longrightarrow> office_step ops fresh p s (s\<lparr>of_accountant := release rh (of_accountant s), of_recorded := H\<rparr>)"
| give_up: "of_held s = add_mset rh H
    \<Longrightarrow> office_step ops fresh p s (s\<lparr>of_held := H, of_dropped := add_mset rh (of_dropped s)\<rparr>)"
| refund: "of_reserving s = None \<Longrightarrow> of_dropped s = add_mset rh H
    \<Longrightarrow> office_step ops fresh p s (s\<lparr>of_accountant := drop_handle rh (of_accountant s), of_dropped := H\<rparr>)"

text \<open>Policies whose limits are amounts of this kind, with a limit for each contract or for all of them.\<close>

definition exact_policy :: "CostBudgetPolicy \<Rightarrow> bool" where
  "exact_policy p \<longleftrightarrow> (bp_per_contract_usd p \<noteq> None \<or> bp_global_usd p \<noteq> None)
     \<and> (\<forall>m. bp_per_contract_usd p = Some m \<longrightarrow> (\<exists>n\<le>CAP. m = usd n)) \<and> (\<forall>m. bp_global_usd p = Some m \<longrightarrow> (\<exists>n\<le>CAP. m = usd n))"

lemma decide_Inr:
  assumes "decide p c x h g a = (Inr rh, a1)"
  shows "rh = \<lparr>rh_contract_id = c, rh_amount_usd = x, rh_inserted = True, rh_committed = False\<rparr>"
    "a1 = a\<lparr>ac_reservations := hm_insert c (f64_add (reserved_for (ac_reservations a) c) x) (ac_reservations a)\<rparr>"
    "\<not> exceeds (f64_add (f64_add h (reserved_for (ac_reservations a) c)) x) (bp_per_contract_usd p)"
    "\<not> exceeds (f64_add (f64_add g (f64_sum (hm_values (ac_reservations a)))) x) (bp_global_usd p)"
  using assms by (simp_all add: decide_def project_def Let_def split: if_splits)

lemma decide_Inl: "decide p c x h g a = (Inl b, a1) \<Longrightarrow> a1 = a"
  by (simp add: decide_def Let_def split: BudgetProjection.splits)

lemma release_map:
  assumes "reserved_for m (rh_contract_id h) = usd (k + r)" "rh_amount_usd h = usd k" "k + r \<le> CAP" "hm_wf m"
  shows "hm_wf (release_reservation h m)"
    "reserved_for (release_reservation h m) d = (if d = rh_contract_id h then usd r else reserved_for m d)"
proof -
  have "k + r < 2 ^ 53" using assms(3) by (simp add: CAP_def)
  then have sub: "f64_sub (usd (k + r)) (usd k) = usd r" by (subst sub_usd) simp_all
  show "reserved_for (release_reservation h m) d = (if d = rh_contract_id h then usd r else reserved_for m d)"
    using assms(1,2) sub
    by (cases "hm_get m (rh_contract_id h)") (auto simp: release_reservation_def reserved_for_def hm_simps simp flip: usd_0)
  show "hm_wf (release_reservation h m)"
    using assms(4) by (auto simp: release_reservation_def Let_def split: option.splits)
qed

definition office_reachable :: "'l ledger_ops \<Rightarrow> (CostAttributionEvent \<Rightarrow> 'l \<Rightarrow> bool) \<Rightarrow> CostBudgetPolicy \<Rightarrow> 'l \<Rightarrow> 'l office \<Rightarrow> bool" where
  "office_reachable ops fresh p l = (office_step ops fresh p)\<^sup>*\<^sup>* (office_new l p)"

subsection \<open>What the accountant relies on\<close>

locale cost_ledger =
  fixes ops :: "'l ledger_ops" and ledger_inv :: "'l \<Rightarrow> bool" and fresh :: "CostAttributionEvent \<Rightarrow> 'l \<Rightarrow> bool"
    and rows :: "'l \<Rightarrow> CostAttributionEvent multiset"
  assumes record_rows: "ledger_inv l \<Longrightarrow> fresh e l \<Longrightarrow> is_finite (ca_cost_usd e) \<Longrightarrow> lo_record ops e l = Some l1
      \<Longrightarrow> ledger_inv l1 \<and> rows l1 = add_mset e (rows l)"
    and list_rows: "ledger_inv l \<Longrightarrow> \<exists>es. lo_list_for_contract ops c l = Some es
      \<and> mset es = filter_mset (\<lambda>e. ca_contract_id e = c) (rows l)"
    and aggregate_rows: "ledger_inv l \<Longrightarrow> \<exists>rs ess. lo_aggregate_per_contract ops l = Some rs
      \<and> map ro_cost_usd rs = map sum_cost ess \<and> mset (concat ess) = rows l"
begin

definition spent :: "(string \<Rightarrow> bool) \<Rightarrow> 'l office \<Rightarrow> nat" where
  "spent P s = tally ca_contract_id ca_cost_usd P (rows (office_ledger s))"

definition held :: "(string \<Rightarrow> bool) \<Rightarrow> 'l office \<Rightarrow> nat" where
  "held P s = tally rh_contract_id rh_amount_usd P (of_held s)"

definition open_handles :: "'l office \<Rightarrow> ReservationHandle multiset" where
  "open_handles s = of_held s + of_recorded s + of_dropped s"

definition outstanding :: "(string \<Rightarrow> bool) \<Rightarrow> 'l office \<Rightarrow> nat" where
  "outstanding P s = tally rh_contract_id rh_amount_usd P (open_handles s)"

text \<open>The scopes in which a policy limits spending: each contract, and all of them.\<close>

definition limited :: "CostBudgetPolicy \<Rightarrow> (string \<Rightarrow> bool) \<Rightarrow> nat \<Rightarrow> bool" where
  "limited p P n \<longleftrightarrow> (\<exists>c. P = (\<lambda>d. d = c) \<and> bp_per_contract_usd p = Some (usd n)) \<or> P = (\<lambda>_. True) \<and> bp_global_usd p = Some (usd n)"

text \<open>A history that was read is still good: what is spent by now, with what is held, is at most the history with what is outstanding.\<close>

definition still_good :: "(string \<Rightarrow> bool) \<Rightarrow> nat \<Rightarrow> f64 \<Rightarrow> 'l office \<Rightarrow> bool" where
  "still_good P n h s \<longleftrightarrow> (\<exists>m. h = usd m \<and> m \<le> n \<and> spent P s + held P s \<le> m + outstanding P s)"

definition amounts_ok :: "'l office \<Rightarrow> bool" where
  "amounts_ok s \<longleftrightarrow> (\<forall>h\<in>#open_handles s. rh_inserted h \<and> (\<exists>k. rh_amount_usd h = usd k))
     \<and> (\<forall>h\<in>#of_held s + of_dropped s. \<not> rh_committed h) \<and> (\<forall>e\<in>#rows (office_ledger s). \<exists>k. ca_cost_usd e = usd k)"

definition map_ok :: "'l office \<Rightarrow> bool" where
  "map_ok s \<longleftrightarrow> hm_wf (ac_reservations (of_accountant s))
     \<and> (\<forall>c. reserved_for (ac_reservations (of_accountant s)) c = usd (outstanding (\<lambda>d. d = c) s))"

definition in_budget :: "CostBudgetPolicy \<Rightarrow> 'l office \<Rightarrow> bool" where
  "in_budget p s \<longleftrightarrow> (\<forall>P n. limited p P n \<longrightarrow> outstanding P s \<le> n \<and> spent P s + held P s \<le> n)"

definition reserving_ok :: "CostBudgetPolicy \<Rightarrow> 'l office \<Rightarrow> bool" where
  "reserving_ok p s \<longleftrightarrow> (\<forall>c x h g. of_reserving s = Some (c, x, h, g) \<longrightarrow> (\<exists>k \<le> CAP. x = usd k)
     \<and> (\<forall>n. bp_per_contract_usd p = Some (usd n) \<longrightarrow> still_good (\<lambda>d. d = c) n h s)
     \<and> (\<forall>n y. bp_global_usd p = Some (usd n) \<longrightarrow> g = Some y \<longrightarrow> still_good (\<lambda>_. True) n y s))"

definition office_inv :: "CostBudgetPolicy \<Rightarrow> 'l office \<Rightarrow> bool" where
  "office_inv p s \<longleftrightarrow> ledger_inv (office_ledger s) \<and> amounts_ok s \<and> map_ok s \<and> in_budget p s \<and> reserving_ok p s"

lemmas office_defs = office_inv_def amounts_ok_def map_ok_def in_budget_def reserving_ok_def still_good_def spent_def held_def outstanding_def open_handles_def

lemma limited_contract: "bp_per_contract_usd p = Some (usd n) \<Longrightarrow> limited p (\<lambda>d. d = c) n"
  by (auto simp: limited_def)

lemma limited_all: "bp_global_usd p = Some (usd n) \<Longrightarrow> limited p (\<lambda>_. True) n"
  by (simp add: limited_def)

lemma limit_CAP: "exact_policy p \<Longrightarrow> limited p P n \<Longrightarrow> n \<le> CAP"
  by (auto simp: exact_policy_def limited_def)

lemma in_budgetD:
  assumes "in_budget p s" "limited p P n"
  shows "outstanding P s \<le> n" "spent P s + held P s \<le> n"
  using assms by (auto simp: in_budget_def)

lemma outstanding_CAP:
  assumes "exact_policy p" "in_budget p s"
  shows "outstanding (\<lambda>d. d = c) s \<le> CAP"
proof (cases "bp_per_contract_usd p")
  case None
  then obtain n where n: "bp_global_usd p = Some (usd n)" "n \<le> CAP" using assms(1) by (auto simp: exact_policy_def)
  have "outstanding (\<lambda>d. d = c) s \<le> outstanding (\<lambda>_. True) s" by (simp add: outstanding_def tally_mono)
  also have "\<dots> \<le> n" by (rule in_budgetD(1)[OF assms(2) limited_all[OF n(1)]])
  finally show ?thesis using n(2) by simp
next
  case (Some m)
  then obtain n where "bp_per_contract_usd p = Some (usd n)" "n \<le> CAP" using assms(1) by (auto simp: exact_policy_def)
  then show ?thesis using in_budgetD(1)[OF assms(2) limited_contract[of p n c]] by simp
qed

lemma held_outstanding: "held P s \<le> outstanding P s"
  by (simp add: held_def outstanding_def open_handles_def)

lemma contract_history_exact:
  assumes "office_inv p s" "bp_per_contract_usd p = Some (usd n)" "n \<le> CAP"
  shows "contract_history ops p c (office_ledger s) = usd (spent (\<lambda>d. d = c) s)" "spent (\<lambda>d. d = c) s \<le> n"
proof -
  obtain es where es: "lo_list_for_contract ops c (office_ledger s) = Some es"
    "mset es = filter_mset (\<lambda>e. ca_contract_id e = c) (rows (office_ledger s))"
    using list_rows assms(1) unfolding office_inv_def by blast
  show low: "spent (\<lambda>d. d = c) s \<le> n" 
    using in_budgetD(2)[of p s, OF _ limited_contract[OF assms(2), of c]] assms(1) by (simp add: office_inv_def)
  have t: "tally ca_contract_id ca_cost_usd (\<lambda>_. True) (mset es) = spent (\<lambda>d. d = c) s" by (simp add: es tally_def spent_def)
  have "\<forall>e\<in>set es. \<exists>k. ca_cost_usd e = usd k"
    using assms(1) es(2) by (auto simp: office_inv_def amounts_ok_def simp flip: set_mset_mset)
  then have "sum_cost es = usd (spent (\<lambda>d. d = c) s)"
    using sum_cost_tally[of es] low assms(3) by (simp add: t CAP_def)
  then show "contract_history ops p c (office_ledger s) = usd (spent (\<lambda>d. d = c) s)" by (simp add: contract_history_def assms(2) es)
qed

lemma global_history_exact:
  assumes "office_inv p s" "bp_global_usd p = Some (usd n)" "n \<le> CAP"
  shows "global_history ops p (office_ledger s) = usd (spent (\<lambda>_. True) s)" "spent (\<lambda>_. True) s \<le> n"
proof -
  obtain rs ess where rs: "lo_aggregate_per_contract ops (office_ledger s) = Some rs" "map ro_cost_usd rs = map sum_cost ess"
    "mset (concat ess) = rows (office_ledger s)"
    using aggregate_rows assms(1) unfolding office_inv_def by blast
  show low: "spent (\<lambda>_. True) s \<le> n" 
    using in_budgetD(2)[of p s, OF _ limited_all[OF assms(2)]] assms(1) by (simp add: office_inv_def)
  have "\<forall>e\<in>#rows (office_ledger s). \<exists>k. ca_cost_usd e = usd k" using assms(1) by (simp add: office_inv_def amounts_ok_def)
  then have "\<forall>e\<in>set (concat ess). \<exists>k. ca_cost_usd e = usd k" unfolding rs(3)[symmetric] set_mset_mset .
  then have "sum_cost_rollups rs = usd (spent (\<lambda>_. True) s)"
    using sum_rollups_tally[OF rs(2)] low assms(3) unfolding rs(3) spent_def by (simp add: CAP_def)
  then show "global_history ops p (office_ledger s) = usd (spent (\<lambda>_. True) s)" by (simp add: global_history_def assms(2) rs)
qed

lemma reserved_sum:
  assumes "office_inv p s" "bp_global_usd p = Some (usd n)" "n \<le> CAP"
  shows "f64_sum (hm_values (ac_reservations (of_accountant s))) = usd (outstanding (\<lambda>_. True) s)" "outstanding (\<lambda>_. True) s \<le> n"
proof -
  let ?m = "ac_reservations (of_accountant s)"
  have m: "hm_wf ?m" "\<And>c. reserved_for ?m c = usd (outstanding (\<lambda>d. d = c) s)" using assms(1) by (auto simp: office_inv_def map_ok_def)
  show low: "outstanding (\<lambda>_. True) s \<le> n" 
    using in_budgetD(1)[of p s, OF _ limited_all[OF assms(2)]] assms(1) by (simp add: office_inv_def)
  have "v = usd (outstanding (\<lambda>d. d = c) s)" if "(c, v) \<in> set ?m" for c v
    using m(2)[of c] that m(1) by (simp add: reserved_for_def)
  then have vals: "hm_values ?m = map usd (map (\<lambda>c. outstanding (\<lambda>d. d = c) s) (hm_keys ?m))" by auto
  have "units (rh_amount_usd h) = 0" if "h \<in># open_handles s" "rh_contract_id h \<notin> set (hm_keys ?m)" for h
  proof -
    have "hm_get ?m (rh_contract_id h) = None" using that(2) by (simp add: map_of_eq_None_iff)
    then have "outstanding (\<lambda>d. d = rh_contract_id h) s = 0"
      using m(2)[of "rh_contract_id h"] by (simp add: reserved_for_def flip: usd_0)
    with that(1) show ?thesis by (auto simp: outstanding_def tally_def)
  qed
  then have "tally rh_contract_id rh_amount_usd (\<lambda>d. d \<notin> set (hm_keys ?m)) (open_handles s) = 0" by (intro tally_cong_False) auto
  then have "outstanding (\<lambda>_. True) s = tally rh_contract_id rh_amount_usd (\<lambda>d. d \<in> set (hm_keys ?m)) (open_handles s)"
    unfolding outstanding_def by (subst tally_split[where Q = "\<lambda>d. d \<in> set (hm_keys ?m)"]) simp
  then have "(\<Sum>c\<leftarrow>hm_keys ?m. outstanding (\<lambda>d. d = c) s) = outstanding (\<lambda>_. True) s"
    using tally_keys[OF m(1), of rh_contract_id rh_amount_usd "open_handles s"] by (simp only: outstanding_def)
  then show "f64_sum (hm_values ?m) = usd (outstanding (\<lambda>_. True) s)"
    unfolding vals using sum_usd low assms(3) by (simp add: CAP_def del: map_map)
qed

subsection \<open>Every step keeps the books in order\<close>

lemma still_good_now:
  assumes "spent P s \<le> n" "spent P t = spent P s" "held P t = held P s" "outstanding P t = outstanding P s"
  shows "still_good P n (usd (spent P s)) t"
  using assms held_outstanding[of P s] by (auto simp: still_good_def)

lemma enter_inv:
  assumes "office_inv p s" "exact_policy p" "k \<le> CAP"
  shows "office_inv p (s\<lparr>of_reserving := Some (c, usd k, contract_history ops p c (office_ledger s), None)\<rparr>)"
proof -
  let ?s = "s\<lparr>of_reserving := Some (c, usd k, contract_history ops p c (office_ledger s), None)\<rparr>"
  have same: "spent P ?s = spent P s" "held P ?s = held P s" "outstanding P ?s = outstanding P s" "open_handles ?s = open_handles s" for P
    by (simp_all add: spent_def held_def outstanding_def open_handles_def)
  have "still_good (\<lambda>d. d = c) n (contract_history ops p c (office_ledger s)) ?s" if "bp_per_contract_usd p = Some (usd n)" for n
    using contract_history_exact[OF assms(1) that limit_CAP[OF assms(2) limited_contract[OF that]]] still_good_now[of "\<lambda>d. d = c" s n ?s] same
    by simp
  then show ?thesis
    using assms(1,3) by (simp add: office_inv_def amounts_ok_def map_ok_def in_budget_def reserving_ok_def same)
qed

lemma survey_inv:
  assumes "office_inv p s" "exact_policy p" "of_reserving s = Some (c, x, h, None)"
  shows "office_inv p (s\<lparr>of_reserving := Some (c, x, h, Some (global_history ops p (office_ledger s)))\<rparr>)"
proof -
  let ?s = "s\<lparr>of_reserving := Some (c, x, h, Some (global_history ops p (office_ledger s)))\<rparr>"
  have same: "spent P ?s = spent P s" "held P ?s = held P s" "outstanding P ?s = outstanding P s" "open_handles ?s = open_handles s" for P
    by (simp_all add: spent_def held_def outstanding_def open_handles_def)
  have "still_good (\<lambda>_. True) n (global_history ops p (office_ledger s)) ?s" if "bp_global_usd p = Some (usd n)" for n
    using global_history_exact[OF assms(1) that limit_CAP[OF assms(2) limited_all[OF that]]] still_good_now[of "\<lambda>_. True" s n ?s] same
    by simp
  then show ?thesis
    using assms(1,3) by (simp add: office_inv_def amounts_ok_def map_ok_def in_budget_def reserving_ok_def still_good_def same)
qed

text \<open>A reservation that is granted fits into every limit.\<close>

lemma granted_fits:
  assumes "office_inv p s" "exact_policy p" "of_reserving s = Some (c, usd k, h, Some g)" "k \<le> CAP"
    "decide p c (usd k) h g (of_accountant s) = (Inr rh, a)" "limited p P n" "P c"
  shows "outstanding P s + k \<le> n" "spent P s + held P s + k \<le> n"
proof -
  note dec = decide_Inr[OF assms(5)]
  have n: "n \<le> CAP" by (rule limit_CAP[OF assms(2,6)])
  have "\<exists>m. m \<le> n \<and> spent P s + held P s \<le> m + outstanding P s \<and> m + outstanding P s + k \<le> n"
  proof (cases "bp_per_contract_usd p = Some (usd n) \<and> P = (\<lambda>d. d = c)")
    case True
    then obtain m where m: "h = usd m" "m \<le> n" "spent P s + held P s \<le> m + outstanding P s"
      using assms(1,3) by (auto simp: office_inv_def reserving_ok_def still_good_def)
    have "reserved_for (ac_reservations (of_accountant s)) c = usd (outstanding P s)" "outstanding P s \<le> n"
      using assms(1) True in_budgetD(1)[OF _ assms(6)] by (auto simp: office_inv_def map_ok_def)
    then have "\<not> n < m + outstanding P s + k"
      using dec(3) True m n assms(4) by (simp add: exceeds_def add_usd CAP_def)
    with m show ?thesis by (intro exI[of _ m]) auto
  next
    case False
    then have P: "P = (\<lambda>_. True)" "bp_global_usd p = Some (usd n)" using assms(6,7) by (auto simp: limited_def)
    then obtain m where m: "g = usd m" "m \<le> n" "spent P s + held P s \<le> m + outstanding P s"
      using assms(1,3) by (auto simp: office_inv_def reserving_ok_def still_good_def)
    note reserved_sum[OF assms(1) P(2) n]
    then have "\<not> n < m + outstanding P s + k"
      using dec(4) P m n assms(4) by (simp add: exceeds_def add_usd CAP_def)
    with m show ?thesis by (intro exI[of _ m]) auto
  qed
  then show "outstanding P s + k \<le> n" "spent P s + held P s + k \<le> n" by auto
qed

lemma grant_inv:
  assumes "office_inv p s" "exact_policy p" "of_reserving s = Some (c, x, h, Some g)" "decide p c x h g (of_accountant s) = (Inr rh, a)"
  shows "office_inv p (s\<lparr>of_accountant := a, of_held := add_mset rh (of_held s), of_reserving := None\<rparr>)"
proof -
  define t where "t = s\<lparr>of_accountant := a, of_held := add_mset rh (of_held s), of_reserving := None\<rparr>"
  have t [simp]: "of_accountant t = a" "of_held t = add_mset rh (of_held s)" "of_reserving t = None" "of_recorded t = of_recorded s"
    "of_dropped t = of_dropped s" by (simp_all add: t_def)
  obtain k where k: "x = usd k" "k \<le> CAP" using assms(1,3) by (auto simp: office_inv_def reserving_ok_def)
  note dec = decide_Inr[OF assms(4)[unfolded k]]
  have open_rh: "open_handles t = add_mset rh (open_handles s)" by (simp add: open_handles_def)
  then have new: "spent P t = spent P s" "held P t = (if P c then k else 0) + held P s" "outstanding P t = (if P c then k else 0) + outstanding P s" for P
    by (simp_all add: spent_def held_def outstanding_def dec(1,2))
  have "outstanding (\<lambda>d. d = c) s \<le> CAP" using outstanding_CAP assms(1,2) by (simp add: office_inv_def)
  then have "f64_add (usd (outstanding (\<lambda>d. d = c) s)) (usd k) = usd (outstanding (\<lambda>d. d = c) s + k)" using k(2) by (simp add: add_usd CAP_def)
  then have "map_ok t" using assms(1)
    by (auto simp: office_inv_def map_ok_def dec(2) new reserved_for_def hm_simps add.commute)
  moreover have "in_budget p t"
  proof -
    have "outstanding P t \<le> n \<and> spent P t + held P t \<le> n" if "limited p P n" for P n
    proof (cases "P c")
      case True
      then show ?thesis
        using granted_fits[OF assms(1,2) assms(3)[unfolded k] k(2) assms(4)[unfolded k] that] by (simp add: new)
    next
      case False
      then show ?thesis using in_budgetD[of p s, OF _ that] assms(1) by (simp add: new office_inv_def)
    qed
    then show ?thesis by (simp add: in_budget_def)
  qed
  moreover have "amounts_ok t" using assms(1) by (auto simp: office_inv_def amounts_ok_def open_rh dec(1,2))
  ultimately show ?thesis using assms(1) unfolding t_def[symmetric] by (simp add: office_inv_def reserving_ok_def dec(2))
qed

lemma less_exposed_inv:
  assumes "office_inv p s" "\<And>P. outstanding P t = outstanding P s" "\<And>P. spent P t + held P t \<le> spent P s + held P s" "amounts_ok t"
    "ledger_inv (office_ledger t)" "ac_reservations (of_accountant t) = ac_reservations (of_accountant s)" "of_reserving t = of_reserving s"
  shows "office_inv p t"
proof -
  have "map_ok t" using assms(1) by (simp add: office_inv_def map_ok_def assms(2,6))
  moreover have "in_budget p t" using assms(1) assms(3)[THEN order_trans] by (simp add: office_inv_def in_budget_def assms(2))
  moreover have "still_good P n x t" if "still_good P n x s" for P n x
    using that assms(3)[of P, THEN order_trans] by (auto simp: still_good_def assms(2))
  then have "reserving_ok p t" using assms(1) by (auto simp: office_inv_def reserving_ok_def assms(7))
  ultimately show ?thesis using assms(4,5) by (simp add: office_inv_def)
qed

lemma write_inv:
  assumes "office_inv p s" "of_held s = add_mset rh H" "commit_record ops rh e (of_accountant s) = Some (rh1, a)" "fresh e (office_ledger s)"
    "ca_contract_id e = rh_contract_id rh" "ca_cost_usd e = usd k" "f64_le (usd k) (rh_amount_usd rh)"
  shows "office_inv p (s\<lparr>of_accountant := a, of_held := H, of_recorded := add_mset rh1 (of_recorded s)\<rparr>)"
proof -
  define t where "t = s\<lparr>of_accountant := a, of_held := H, of_recorded := add_mset rh1 (of_recorded s)\<rparr>"
  have t [simp]: "of_accountant t = a" "of_held t = H" "of_reserving t = of_reserving s" "of_recorded t = add_mset rh1 (of_recorded s)"
    "of_dropped t = of_dropped s" by (simp_all add: t_def)
  obtain l where l: "lo_record ops e (office_ledger s) = Some l" "rh1 = rh\<lparr>rh_committed := True\<rparr>" "a = (of_accountant s)\<lparr>ac_ledger := l\<rparr>"
    using assms(3) by (auto simp: commit_record_def split: option.splits)
  have rows: "ledger_inv l" "rows l = add_mset e (rows (office_ledger s))"
    using record_rows[OF _ assms(4) _ l(1)] assms(1,6) by (auto simp: office_inv_def)
  have h: "rh \<in># open_handles s" "rh \<in># of_held s" by (simp_all add: open_handles_def assms(2))
  then obtain r where r: "rh_amount_usd rh = usd r" "k \<le> r" using assms(1,7) by (force simp: office_inv_def amounts_ok_def)
  have new: "outstanding P t = outstanding P s" "spent P t + held P t \<le> spent P s + held P s" for P
    using r assms(5,6) by (simp_all add: outstanding_def open_handles_def spent_def held_def assms(2) l rows)
  have "amounts_ok t" using assms(1,6) unfolding office_inv_def amounts_ok_def open_handles_def assms(2) by (auto simp: l rows)
  with assms(1) new have "office_inv p t" by (rule less_exposed_inv) (simp_all add: l rows)
  then show ?thesis by (simp add: t_def)
qed

lemma release_inv:
  assumes "office_inv p s" "exact_policy p" "of_reserving s = None" "open_handles s = add_mset rh (open_handles t)" "of_reserving t = None"
    "of_accountant t = (of_accountant s)\<lparr>ac_reservations := release_reservation rh (ac_reservations (of_accountant s))\<rparr>"
    "of_held t = of_held s" "set_mset (of_dropped t) \<subseteq> set_mset (of_dropped s)"
  shows "office_inv p t"
proof -
  let ?c = "rh_contract_id rh"
  obtain k where k: "rh_amount_usd rh = usd k" using assms(1,4) by (auto simp: office_inv_def amounts_ok_def)
  have new: "outstanding P s = (if P ?c then k else 0) + outstanding P t" "spent P t = spent P s" "held P t = held P s" for P
    by (simp_all add: outstanding_def assms(4,6,7) k spent_def held_def)
  have m: "hm_wf (ac_reservations (of_accountant s))" "\<And>d. reserved_for (ac_reservations (of_accountant s)) d = usd (outstanding (\<lambda>x. x = d) s)"
    using assms(1) by (auto simp: office_inv_def map_ok_def)
  have "k + outstanding (\<lambda>d. d = ?c) t \<le> CAP"
    using outstanding_CAP[OF assms(2), of s ?c] assms(1) new(1)[of "\<lambda>d. d = ?c"] by (simp add: office_inv_def)
  note rel = release_map[OF _ k this m(1), unfolded m(2) new(1), simplified]
  have "map_ok t" using rel by (auto simp: map_ok_def assms(6))
  moreover have "in_budget p t" using assms(1) new(1) unfolding office_inv_def in_budget_def new(2,3) by (metis add_leD2)
  moreover have "amounts_ok t"
    using assms(1,7,8) unfolding office_inv_def amounts_ok_def assms(4) by (auto simp: assms(6))
  ultimately show ?thesis using assms(1,5,6) by (simp add: office_inv_def reserving_ok_def)
qed

lemma office_step_inv:
  assumes "office_step ops fresh p s t" "office_inv p s" "exact_policy p"
  shows "office_inv p t"
  using assms
proof cases
  case (let_go rh H)
  have "rh_inserted rh" using assms(2) let_go(3) by (auto simp: office_inv_def amounts_ok_def open_handles_def)
  then show ?thesis using release_inv[OF assms(2,3) let_go(2), of rh t] let_go by (simp add: open_handles_def release_def)
next
  case (refund rh H)
  have "rh_inserted rh" "\<not> rh_committed rh" using assms(2) refund(3) by (auto simp: office_inv_def amounts_ok_def open_handles_def)
  then show ?thesis using release_inv[OF assms(2,3) refund(2), of rh t] refund by (simp add: open_handles_def release_def drop_handle_def subset_insertI)
next
  case (give_up rh H)
  have "open_handles t = open_handles s" "of_held s = add_mset rh (of_held t)" by (simp_all add: give_up open_handles_def)
  moreover from this have "amounts_ok t" using assms(2) by (auto simp: office_inv_def amounts_ok_def give_up)
  ultimately show ?thesis using assms(2)
    by (intro less_exposed_inv[OF assms(2)]) (simp_all add: outstanding_def spent_def held_def office_inv_def give_up(1))
next
  case (refuse c x h g b a)
  then show ?thesis using assms(2) decide_Inl[OF refuse(3)]
    by (simp add: office_inv_def amounts_ok_def map_ok_def in_budget_def reserving_ok_def spent_def held_def outstanding_def open_handles_def)
next
  case (enter k c)
  then show ?thesis using enter_inv[OF assms(2,3)] by simp
next
  case (survey c x h)
  then show ?thesis using survey_inv[OF assms(2,3)] by simp
next
  case (grant c x h g rh a)
  then show ?thesis using grant_inv[OF assms(2,3)] by simp
next
  case (write_row rh H e rh1 a k)
  then show ?thesis using write_inv[OF assms(2)] by simp
qed simp

lemma office_reachable_inv:
  assumes "office_reachable ops fresh p l s" "exact_policy p" "ledger_inv l" "rows l = {#}"
  shows "office_inv p s"
proof -
  have "office_inv p (office_new l p)"
    using assms(3,4) by (simp add: office_defs office_new_def accountant_new_def reserved_for_def)
  with assms(1,2) show ?thesis unfolding office_reachable_def by (induction rule: rtranclp_induct) (auto intro: office_step_inv)
qed

end

subsection \<open>The persistent ledger\<close>

text \<open>What the ledger relies on: a row with a finite cost is decoded as it was encoded, and the database can be read.\<close>

definition lawful :: "ledger_host \<Rightarrow> bool" where
  "lawful lh \<longleftrightarrow> (\<forall>e. is_finite (ca_cost_usd e) \<longrightarrow> lh_decode lh (lh_encode lh e) = Some e) \<and> (\<forall>l. lh_read_ok lh l)"

definition keyed_rows :: "ledger_host \<Rightarrow> ledger \<Rightarrow> (string, string list) hashmap \<Rightarrow> string \<Rightarrow> CostAttributionEvent list" where
  "keyed_rows lh l index c = load_by_ids lh l (indexed index c)"

abbreviation contract_rows :: "ledger_host \<Rightarrow> ledger \<Rightarrow> string \<Rightarrow> CostAttributionEvent list" where
  "contract_rows lh l \<equiv> keyed_rows lh l (lg_contract_index l)"

abbreviation session_rows :: "ledger_host \<Rightarrow> ledger \<Rightarrow> string \<Rightarrow> CostAttributionEvent list" where
  "session_rows lh l \<equiv> keyed_rows lh l (lg_session_index l)"

text \<open>An index is sound when each of its ids names a row with the right key that can be decoded.\<close>

definition index_sound :: "ledger_host \<Rightarrow> (CostAttributionEvent \<Rightarrow> string) \<Rightarrow> ledger \<Rightarrow> (string, string list) hashmap \<Rightarrow> bool" where
  "index_sound lh key l index \<longleftrightarrow> hm_wf index \<and> (\<forall>c. \<forall>i\<in>set (indexed index c).
     \<exists>json e. hm_get (lg_attributions l) i = Some json \<and> lh_decode lh json = Some e \<and> key e = c)"

definition persistent_inv :: "ledger_host \<Rightarrow> ledger \<Rightarrow> bool" where
  "persistent_inv lh l \<longleftrightarrow> lawful lh \<and> index_sound lh ca_contract_id l (lg_contract_index l)
     \<and> index_sound lh ca_supervisor_session l (lg_session_index l)"

definition unrecorded :: "CostAttributionEvent \<Rightarrow> ledger \<Rightarrow> bool" where
  "unrecorded e l \<longleftrightarrow> ca_attribution_id e \<notin> set (hm_keys (lg_attributions l))"

definition persistent_rows :: "ledger_host \<Rightarrow> ledger \<Rightarrow> CostAttributionEvent multiset" where
  "persistent_rows lh l = (\<Sum>c\<in>set (hm_keys (lg_contract_index l)). mset (contract_rows lh l c))"

lemma mset_concat_map: "distinct ks \<Longrightarrow> mset (concat (map f ks)) = (\<Sum>k\<in>set ks. mset (f k))"
  by (induction ks) simp_all

lemma load_by_ids_Nil [simp]: "load_by_ids lh l [] = []"
  by (simp add: load_by_ids_def map_filter_simps)

lemma load_by_ids_Cons: "load_by_ids lh l (i # is) =
    (case hm_get (lg_attributions l) i of Some json \<Rightarrow> (case lh_decode lh json of Some e \<Rightarrow> [e] | None \<Rightarrow> []) | None \<Rightarrow> []) @ load_by_ids lh l is"
  by (simp add: load_by_ids_def map_filter_simps split: option.splits)

lemma load_by_ids_append: "load_by_ids lh l (is @ js) = load_by_ids lh l is @ load_by_ids lh l js"
  by (simp add: load_by_ids_def List.map_filter_def)

lemma load_unchanged: "i \<notin> set is \<Longrightarrow> lg_attributions l1 = hm_insert i json (lg_attributions l) \<Longrightarrow> load_by_ids lh l1 is = load_by_ids lh l is"
  by (induction "is") (auto simp: load_by_ids_Cons hm_simps)

lemma keyed_rows_absent: "c \<notin> set (hm_keys index) \<Longrightarrow> keyed_rows lh l index c = []"
  unfolding keyed_rows_def indexed_def by (metis (no_types) list.set_map map_of_eq_None_iff option.case(1) load_by_ids_Nil)

lemma indexed_append: "indexed (append_index table key i) c =
    (if c = key then (if i \<in> set (indexed table c) then indexed table c else indexed table c @ [i]) else indexed table c)"
  by (cases "hm_get table key") (auto simp: append_index_def indexed_def Let_def hm_simps)

lemma keys_append: "set (hm_keys (append_index table key i)) = insert key (set (hm_keys table))"
  by (simp add: append_index_def Let_def hm_simps del: set_map list.set_map)

lemma keyed_rows_key: "index_sound lh key l index \<Longrightarrow> e \<in> set (keyed_rows lh l index c) \<Longrightarrow> key e = c"
  by (fastforce simp: index_sound_def keyed_rows_def load_by_ids_def List.map_filter_def split: option.splits)

text \<open>Recording an attribution with a new id appends it to the rows of its key, in each index.\<close>

lemma append_index_rows:
  assumes "lawful lh" "index_sound lh key l index" "unrecorded e l" "is_finite (ca_cost_usd e)"
    "lg_attributions l1 = hm_insert (ca_attribution_id e) (lh_encode lh e) (lg_attributions l)"
  shows "index_sound lh key l1 (append_index index (key e) (ca_attribution_id e))"
    "keyed_rows lh l1 (append_index index (key e) (ca_attribution_id e)) c = keyed_rows lh l index c @ (if c = key e then [e] else [])"
proof -
  let ?i = "ca_attribution_id e" and ?index = "append_index index (key e) (ca_attribution_id e)"
  have known: "\<exists>json e. hm_get (lg_attributions l) i = Some json \<and> lh_decode lh json = Some e \<and> key e = c"
    if "i \<in> set (indexed index c)" for i c using that assms(2) by (auto simp: index_sound_def)
  have new: "?i \<notin> set (indexed index c)" for c
    using known[of ?i c] assms(3) by (force simp: unrecorded_def dest!: map_of_SomeD)
  have reread: "lh_decode lh (lh_encode lh e) = Some e" using assms(1,4) by (simp add: lawful_def)
  have index: "indexed ?index c = indexed index c @ (if c = key e then [?i] else [])" for c
    by (simp add: indexed_append new)
  show "keyed_rows lh l1 ?index c = keyed_rows lh l index c @ (if c = key e then [e] else [])"
    using load_unchanged[OF new assms(5), of lh c]
    by (simp add: keyed_rows_def index load_by_ids_append load_by_ids_Cons assms(5) hm_simps reread)
  have "\<exists>json e. hm_get (lg_attributions l1) i = Some json \<and> lh_decode lh json = Some e \<and> key e = c"
    if "i \<in> set (indexed ?index c)" for i c
    using that known[of i c] new[of c] reread by (auto simp: index assms(5) hm_simps split: if_splits)
  moreover have "hm_wf ?index" using assms(2) by (auto simp: index_sound_def append_index_def Let_def)
  ultimately show "index_sound lh key l1 ?index" by (simp add: index_sound_def)
qed

lemma persistent_record_keyed:
  assumes "persistent_inv lh l" "unrecorded e l" "is_finite (ca_cost_usd e)" "persistent_record lh e l = Some l1"
  shows "persistent_inv lh l1" "contract_rows lh l1 c = contract_rows lh l c @ (if c = ca_contract_id e then [e] else [])"
    "session_rows lh l1 c = session_rows lh l c @ (if c = ca_supervisor_session e then [e] else [])"
    "set (hm_keys (lg_contract_index l1)) = insert (ca_contract_id e) (set (hm_keys (lg_contract_index l)))"
    "set (hm_keys (lg_attributions l1)) = insert (ca_attribution_id e) (set (hm_keys (lg_attributions l)))"
proof -
  have l1: "lg_attributions l1 = hm_insert (ca_attribution_id e) (lh_encode lh e) (lg_attributions l)"
    "lg_contract_index l1 = append_index (lg_contract_index l) (ca_contract_id e) (ca_attribution_id e)"
    "lg_session_index l1 = append_index (lg_session_index l) (ca_supervisor_session e) (ca_attribution_id e)"
    using assms(4) by (auto simp: persistent_record_def split: if_splits)
  have inv: "lawful lh" "index_sound lh ca_contract_id l (lg_contract_index l)" "index_sound lh ca_supervisor_session l (lg_session_index l)"
    using assms(1) by (simp_all add: persistent_inv_def)
  note contract = append_index_rows[OF inv(1,2) assms(2,3) l1(1)] and session = append_index_rows[OF inv(1,3) assms(2,3) l1(1)]
  show "persistent_inv lh l1" by (simp add: persistent_inv_def inv(1) l1(2,3) contract session)
  show "contract_rows lh l1 c = contract_rows lh l c @ (if c = ca_contract_id e then [e] else [])"
    "session_rows lh l1 c = session_rows lh l c @ (if c = ca_supervisor_session e then [e] else [])"
    by (simp_all only: l1(2,3) contract session)
  show "set (hm_keys (lg_contract_index l1)) = insert (ca_contract_id e) (set (hm_keys (lg_contract_index l)))"
    by (simp only: l1 keys_append)
  show "set (hm_keys (lg_attributions l1)) = insert (ca_attribution_id e) (set (hm_keys (lg_attributions l)))"
    by (simp only: l1 hm_simps)
qed

lemma persistent_record_rows:
  assumes "persistent_inv lh l" "unrecorded e l" "is_finite (ca_cost_usd e)" "persistent_record lh e l = Some l1"
  shows "persistent_inv lh l1 \<and> persistent_rows lh l1 = add_mset e (persistent_rows lh l)"
proof -
  let ?k = "ca_contract_id e" and ?keys = "set (hm_keys (lg_contract_index l))"
  note keyed = persistent_record_keyed[OF assms]
  have "(\<Sum>c\<in>insert ?k ?keys. mset (contract_rows lh l c)) = persistent_rows lh l"
    using keyed_rows_absent[of ?k "lg_contract_index l"] by (cases "?k \<in> ?keys") (auto simp: persistent_rows_def insert_absorb)
  moreover have "(\<Sum>c\<in>insert ?k ?keys. mset (if c = ?k then [e] else [])) = {#e#}" by (subst sum.remove[of _ ?k]) simp_all
  ultimately have "persistent_rows lh l1 = add_mset e (persistent_rows lh l)"
    unfolding persistent_rows_def keyed(4) by (simp add: keyed(2) sum.distrib del: sum.insert_if sum.insert set_map list.set_map)
  with keyed(1) show ?thesis ..
qed

lemma persistent_list_rows:
  assumes "persistent_inv lh l"
  shows "list_for_contract lh c l = Some (contract_rows lh l c)"
    "mset (contract_rows lh l c) = filter_mset (\<lambda>e. ca_contract_id e = c) (persistent_rows lh l)"
proof -
  have inv: "lawful lh" "index_sound lh ca_contract_id l (lg_contract_index l)" using assms by (simp_all add: persistent_inv_def)
  show "list_for_contract lh c l = Some (contract_rows lh l c)"
    using inv(1) by (simp add: list_for_contract_def keyed_rows_def lawful_def)
  have one: "filter_mset (\<lambda>e. ca_contract_id e = c) (mset (contract_rows lh l d)) = (if d = c then mset (contract_rows lh l d) else {#})" for d
    using keyed_rows_key[OF inv(2)] by (auto simp: filter_mset_eq_conv simp flip: mset_filter)
  have sum: "filter_mset P (\<Sum>d\<in>S. f d) = (\<Sum>d\<in>S. filter_mset P (f d))" if "finite S" for P S and f :: "string \<Rightarrow> CostAttributionEvent multiset"
    using that by (induction S) simp_all
  show "mset (contract_rows lh l c) = filter_mset (\<lambda>e. ca_contract_id e = c) (persistent_rows lh l)"
    using keyed_rows_absent[of c "lg_contract_index l"]
    by (cases "c \<in> set (hm_keys (lg_contract_index l))") (simp_all add: persistent_rows_def sum one)
qed

lemma rollup_of_cost: "ro_cost_usd (rollup_of c es) = sum_cost es \<and> ro_contract_id (rollup_of c es) = c"
  by (induction es rule: rev_induct) (simp_all add: rollup_of_def rollup_add_def sum_cost_def f64_sum_def)

lemma mset_insert_rollup: "mset (insert_rollup r rs) = add_mset r (mset rs)"
  by (induction rs) simp_all

lemma mset_sort_rollups: "mset (foldr insert_rollup rs []) = mset rs"
  by (induction rs) (simp_all add: mset_insert_rollup)

lemma persistent_aggregate_rows:
  assumes "persistent_inv lh l"
  shows "\<exists>rs ess. aggregate_per_contract lh l = Some rs \<and> map ro_cost_usd rs = map sum_cost ess \<and> mset (concat ess) = persistent_rows lh l"
proof -
  let ?f = "\<lambda>c. rollup_of c (contract_rows lh l c)" and ?keys = "hm_keys (lg_contract_index l)"
  define rs where "rs = foldr insert_rollup (map ?f (sort ?keys)) []"
  define ks where "ks = map ro_contract_id rs"
  have m: "mset rs = image_mset ?f (mset ?keys)" by (simp add: rs_def mset_sort_rollups)
  have "r = ?f (ro_contract_id r)" if "r \<in> set rs" for r
    using that m rollup_of_cost by (metis (no_types, lifting) imageE set_image_mset set_mset_mset)
  then have rs: "rs = map ?f ks" unfolding ks_def by (simp add: map_idI[symmetric] o_def)
  have "mset ks = mset ?keys" unfolding ks_def mset_map m by (simp add: image_mset.compositionality o_def rollup_of_cost)
  then have ks: "distinct ks" "set ks = set ?keys" using assms unfolding persistent_inv_def index_sound_def by (metis mset_eq_imp_distinct_iff, metis set_mset_mset)
  have "aggregate_per_contract lh l = Some rs"
    using assms by (simp add: aggregate_per_contract_def rs_def keyed_rows_def persistent_inv_def lawful_def)
  moreover have "map ro_cost_usd rs = map sum_cost (map (contract_rows lh l) ks)" by (simp add: rs rollup_of_cost)
  moreover have "mset (concat (map (contract_rows lh l) ks)) = persistent_rows lh l"
    unfolding persistent_rows_def ks(2)[symmetric] by (rule mset_concat_map[OF ks(1)])
  ultimately show ?thesis by blast
qed

interpretation persistent: cost_ledger "PersistentCostLedger lh" "persistent_inv lh" unrecorded "persistent_rows lh" for lh
  unfolding PersistentCostLedger_def
  by unfold_locales (simp_all add: persistent_record_rows persistent_aggregate_rows persistent_list_rows del: ex_simps)

subsection \<open>Attribution ids\<close>

definition hex_value :: "string \<Rightarrow> nat" where
  "hex_value s = foldl (\<lambda>v c. 16 * v + (the (List.find (\<lambda>d. hex_digit d = c) [0..<16]))) 0 s"

lemma hex_digit_value:
  assumes "d < 16"
  shows "the (List.find (\<lambda>k. hex_digit k = hex_digit d) [0..<16]) = d"
proof -
  have "list_all (\<lambda>d. the (List.find (\<lambda>k. hex_digit k = hex_digit d) [0..<16]) = d) [0..<16]" by code_simp
  with assms show ?thesis by (simp add: list_all_iff)
qed

lemma hex_value_text: "hex_value (hex_text n) = n"
proof (induction n rule: hex_text.induct)
  case (1 n)
  then show ?case using hex_digit_value[of n] hex_digit_value[of "n mod 16"]
    by (cases "n < 16") (simp_all add: hex_text.simps[of n] hex_value_def)
qed

lemma hex_value_pad: "hex_value (pad_zeros w s) = hex_value s"
proof -
  have "foldl (\<lambda>v c. 16 * v + (the (List.find (\<lambda>d. hex_digit d = c) [0..<16]))) 0 (replicate n (CHR ''0'')) = 0" for n
    using hex_digit_value[of 0] by (induction n) (simp_all add: hex_digit_def flip: replicate_append_same)
  then show ?thesis by (simp add: hex_value_def pad_zeros_def)
qed

lemma hex_text_no_dash: "CHR ''-'' \<notin> set (hex_text n)"
proof (induction n rule: hex_text.induct)
  case (1 n)
  have "hex_digit d \<noteq> CHR ''-''" if "d < 16" for d
  proof -
    have "list_all (\<lambda>d. hex_digit d \<noteq> CHR ''-'') [0..<16]" by code_simp
    with that show ?thesis by (simp add: list_all_iff)
  qed
  then show ?case using 1 by (cases "n < 16") (auto simp: hex_text.simps[of n] dest: sym)
qed

lemma attribution_id_unique:
  assumes "generate_attribution_id n s = generate_attribution_id m t"
  shows "n = m \<and> s = t"
proof -
  have "takeWhile (\<lambda>c. c \<noteq> CHR ''-'') (hex_text k @ ''-'' @ r) = hex_text k \<and> dropWhile (\<lambda>c. c \<noteq> CHR ''-'') (hex_text k @ ''-'' @ r) = ''-'' @ r" for k r
    using hex_text_no_dash[of k] by (auto simp: takeWhile_append dropWhile_append)
  moreover have "hex_text n @ ''-'' @ pad_zeros 8 (hex_text (unat s)) = hex_text m @ ''-'' @ pad_zeros 8 (hex_text (unat t))"
    using assms by (simp add: generate_attribution_id_def)
  ultimately have "hex_text n = hex_text m" "''-'' @ pad_zeros 8 (hex_text (unat s)) = ''-'' @ pad_zeros 8 (hex_text (unat t))" by metis+
  then have "n = m" "unat s = unat t" by (metis hex_value_text, metis append_Cons append_Nil hex_value_pad hex_value_text list.inject)
  then show ?thesis by (simp add: word_unat_eq_iff)
qed

subsection \<open>Rollups\<close>

text \<open>\<open>a\<close> does not come after \<open>b\<close> in the order of the rollups.\<close>

definition best_first :: "ContractCostRollup list \<Rightarrow> bool" where
  "best_first rs \<longleftrightarrow> sorted_wrt (\<lambda>a b. \<not> rollup_before b a) rs"

lemma rollup_before_negtrans:
  assumes "\<not> rollup_before b a" "\<not> rollup_before c b" "ro_cost_usd a \<noteq> NaN" "ro_cost_usd b \<noteq> NaN" "ro_cost_usd c \<noteq> NaN"
  shows "\<not> rollup_before c a"
proof -
  have before: "rollup_before x y \<longleftrightarrow> f64_lt (ro_cost_usd y) (ro_cost_usd x) \<or> ro_cost_usd x = ro_cost_usd y \<and> ro_contract_id x < ro_contract_id y"
    if "ro_cost_usd x \<noteq> NaN" "ro_cost_usd y \<noteq> NaN" for x y
    using f64_lt_total[OF that] unfolding rollup_before_def by auto
  have "ro_cost_usd a = ro_cost_usd b \<or> f64_lt (ro_cost_usd b) (ro_cost_usd a)" "ro_cost_usd b = ro_cost_usd c \<or> f64_lt (ro_cost_usd c) (ro_cost_usd b)"
    using f64_lt_total[OF assms(3,4)] f64_lt_total[OF assms(4,5)] assms(1,2) by (auto simp: rollup_before_def)
  moreover have "\<not> f64_lt x y" if "f64_lt y x" for x y using that f64_lt_trans f64_lt_irrefl by blast
  ultimately show ?thesis using assms(1,2) unfolding before[OF assms(4,3)] before[OF assms(5,4)] before[OF assms(5,3)]
    by (elim disjE) (auto dest: f64_lt_trans)
qed

lemma rollup_before_asym: "rollup_before a b \<Longrightarrow> \<not> rollup_before b a"
  unfolding rollup_before_def by (metis f64_lt_irrefl f64_lt_trans order.asym)

lemma set_insert_rollup [simp]: "set (insert_rollup r rs) = insert r (set rs)"
  by (induction rs) auto

lemma insert_rollup_best_first:
  assumes "best_first rs" "\<forall>x\<in>insert r (set rs). ro_cost_usd x \<noteq> NaN"
  shows "best_first (insert_rollup r rs)"
  using assms
proof (induction rs)
  case (Cons x rs)
  then show ?case
    using rollup_before_asym[of x r] rollup_before_negtrans[of x r] by (auto simp: best_first_def)
qed (simp add: best_first_def)

lemma sort_rollups_best_first: "\<forall>x\<in>set rs. ro_cost_usd x \<noteq> NaN \<Longrightarrow> best_first (foldr insert_rollup rs [])"
proof (induction rs)
  case (Cons r rs)
  have "set (foldr insert_rollup rs []) = set rs" by (metis mset_sort_rollups set_mset_mset)
  with Cons show ?case by (simp add: insert_rollup_best_first)
qed (simp add: best_first_def)

lemma sum_cost_not_NaN: "\<forall>e\<in>set es. is_finite (ca_cost_usd e) \<Longrightarrow> sum_cost es \<noteq> NaN"
proof (induction es rule: rev_induct)
  case (snoc e es)
  then have "sum_cost es \<noteq> NaN" "\<exists>q. ca_cost_usd e = Fin q" by (auto elim: is_finite.elims)
  then show ?case by (cases "sum_cost es") (auto simp: sum_cost_def f64_sum_def)
qed (simp add: sum_cost_def f64_sum_def)

subsection \<open>Recording a sequence\<close>

fun record_all :: "ledger_host \<Rightarrow> CostAttributionEvent list \<Rightarrow> ledger \<Rightarrow> ledger option" where
  "record_all lh [] l = Some l"
| "record_all lh (e # es) l = (case persistent_record lh e l of None \<Rightarrow> None | Some l1 \<Rightarrow> record_all lh es l1)"

lemma record_all_rows:
  assumes "persistent_inv lh l" "\<forall>l. lh_write_ok lh l" "distinct (map ca_attribution_id es)"
    "\<forall>e\<in>set es. is_finite (ca_cost_usd e) \<and> unrecorded e l"
  shows "\<exists>l1. record_all lh es l = Some l1 \<and> persistent_inv lh l1
    \<and> (\<forall>c. contract_rows lh l1 c = contract_rows lh l c @ filter (\<lambda>e. ca_contract_id e = c) es)
    \<and> (\<forall>c. session_rows lh l1 c = session_rows lh l c @ filter (\<lambda>e. ca_supervisor_session e = c) es)
    \<and> set (hm_keys (lg_contract_index l1)) = set (hm_keys (lg_contract_index l)) \<union> ca_contract_id ` set es"
  using assms
proof (induction es arbitrary: l)
  case (Cons e es)
  obtain l1 where l1: "persistent_record lh e l = Some l1" using Cons.prems(2) by (simp add: persistent_record_def)
  have e: "unrecorded e l" "is_finite (ca_cost_usd e)" using Cons.prems(4) by simp_all
  note keyed = persistent_record_keyed[OF Cons.prems(1) e l1]
  have "\<forall>x\<in>set es. is_finite (ca_cost_usd x) \<and> unrecorded x l1"
    using Cons.prems(3,4) unfolding unrecorded_def keyed(5) by (force simp: image_iff)
  with Cons.IH[of l1] Cons.prems(2,3) keyed(1) show ?case unfolding keyed(2,3,4) by (fastforce simp: l1)
qed simp

lemma aggregate_of_rows:
  assumes "persistent_inv lh l" "\<And>c. contract_rows lh l c = f c" "\<And>c. \<forall>e\<in>set (f c). is_finite (ca_cost_usd e)"
    "set (hm_keys (lg_contract_index l)) = K"
  shows "\<exists>rs. aggregate_per_contract lh l = Some rs \<and> best_first rs \<and> mset rs = image_mset (\<lambda>c. rollup_of c (f c)) (mset_set K)"
proof -
  let ?keys = "hm_keys (lg_contract_index l)"
  have "aggregate_per_contract lh l = Some (foldr insert_rollup (map (\<lambda>c. rollup_of c (f c)) (sort ?keys)) [])"
    using assms(1) unfolding assms(2)[symmetric] keyed_rows_def by (simp add: aggregate_per_contract_def persistent_inv_def lawful_def)
  moreover have "mset (sort ?keys) = mset_set K"
    using assms(1) unfolding assms(4)[symmetric] by (simp add: mset_set_set persistent_inv_def index_sound_def del: set_map list.set_map)
  moreover have "best_first (foldr insert_rollup (map (\<lambda>c. rollup_of c (f c)) (sort ?keys)) [])"
    using assms(3) by (intro sort_rollups_best_first) (auto simp: rollup_of_cost sum_cost_not_NaN)
  ultimately show ?thesis by (simp add: mset_sort_rollups)
qed

subsection \<open>Properties\<close>


text \<open>C34. The ledger gives back what was recorded: after attributions with ids generated at different times or counts are recorded, the rows
  of a contract and of a session are exactly those recorded for it, in that order, and the rollups are one for each contract, with its
  counts and its cost, the most expensive first.\<close>

theorem ledger_lists_records:
  assumes "lawful lh" "\<forall>l. lh_write_ok lh l" "\<forall>e\<in>set es. is_finite (ca_cost_usd e)"
    "map ca_attribution_id es = map (\<lambda>(nanos, seq). generate_attribution_id nanos seq) stamps" "distinct stamps"
  shows "\<exists>l. record_all lh es ledger_open = Some l
    \<and> (\<forall>c. list_for_contract lh c l = Some (filter (\<lambda>e. ca_contract_id e = c) es))
    \<and> (\<forall>s. list_for_session lh s l = Some (filter (\<lambda>e. ca_supervisor_session e = s) es))
    \<and> (\<exists>rs. aggregate_per_contract lh l = Some rs \<and> best_first rs
        \<and> mset rs = image_mset (\<lambda>c. rollup_of c (filter (\<lambda>e. ca_contract_id e = c) es)) (mset_set (ca_contract_id ` set es)))"
proof -
  have open_inv: "persistent_inv lh ledger_open"
    using assms(1) by (simp add: persistent_inv_def index_sound_def ledger_open_def indexed_def)
  have "distinct (map ca_attribution_id es)"
    unfolding assms(4) using assms(5) by (auto simp: distinct_map inj_on_def dest: attribution_id_unique)
  from record_all_rows[OF open_inv assms(2) this] assms(3)
  obtain l where l: "record_all lh es ledger_open = Some l" "persistent_inv lh l"
    "\<And>c. contract_rows lh l c = filter (\<lambda>e. ca_contract_id e = c) es" "\<And>s. session_rows lh l s = filter (\<lambda>e. ca_supervisor_session e = s) es"
    "set (hm_keys (lg_contract_index l)) = ca_contract_id ` set es"
    by (auto simp: unrecorded_def ledger_open_def keyed_rows_def indexed_def)
  moreover have "list_for_session lh s l = Some (session_rows lh l s)" for s
    using l(2) by (simp add: list_for_session_def keyed_rows_def persistent_inv_def lawful_def)
  ultimately show ?thesis using persistent_list_rows(1)[OF l(2)] aggregate_of_rows[OF l(2,3) _ l(5)] assms(3) by auto
qed

subsection \<open>Witnesses\<close>

text \<open>A lawful host: rows are encoded as numbers.\<close>

instance f64 :: countable
  by countable_datatype

definition event_fields :: "CostAttributionEvent \<Rightarrow> nat \<times> string \<times> string \<times> string \<times> string \<times> string \<times> nat \<times> nat \<times> f64 \<times> string
    \<times> string option \<times> string option \<times> string option \<times> string option" where
  "event_fields e = (unat (ca_schema_version e), ca_attribution_id e, ca_supervisor_session e, ca_contract_id e, ca_task_id e, ca_model e,
     unat (ca_tokens_in e), unat (ca_tokens_out e), ca_cost_usd e, ca_timestamp e, ca_workflow e, ca_phase e, ca_backend e, ca_outcome e)"

definition of_fields :: "nat \<times> string \<times> string \<times> string \<times> string \<times> string \<times> nat \<times> nat \<times> f64 \<times> string
    \<times> string option \<times> string option \<times> string option \<times> string option \<Rightarrow> CostAttributionEvent" where
  "of_fields = (\<lambda>(v, i, s, c, t, m, ti, to, x, ts, w, ph, b, r).
     \<lparr>ca_schema_version = of_nat v, ca_attribution_id = i, ca_supervisor_session = s, ca_contract_id = c, ca_task_id = t, ca_model = m,
      ca_tokens_in = of_nat ti, ca_tokens_out = of_nat to, ca_cost_usd = x, ca_timestamp = ts, ca_workflow = w, ca_phase = ph,
      ca_backend = b, ca_outcome = r\<rparr>)"

definition number_host :: ledger_host where
  "number_host = \<lparr>lh_encode = \<lambda>e. nat_text (to_nat (event_fields e)), lh_decode = \<lambda>s. Some (of_fields (from_nat (digits_value s))),
     lh_write_ok = \<lambda>_. True, lh_read_ok = \<lambda>_. True\<rparr>"

lemma lawful_number_host: "lawful number_host"
  by (simp add: lawful_def number_host_def digits_value_nat_text of_fields_def event_fields_def)

definition small_policy :: CostBudgetPolicy where
  "small_policy = \<lparr>bp_per_dispatch_usd = None, bp_per_contract_usd = Some (usd 5), bp_global_usd = None\<rparr>"

lemma exact_small_policy: "exact_policy small_policy"
  by (auto simp: exact_policy_def small_policy_def CAP_def)

lemma small_office:
  "\<exists>s. office_reachable (PersistentCostLedger number_host) unrecorded small_policy ledger_open s \<and> of_held s \<noteq> {#}"
proof -
  let ?step = "office_step (PersistentCostLedger number_host) unrecorded small_policy"
  let ?s0 = "office_new ledger_open small_policy"
  let ?s1 = "?s0\<lparr>of_reserving := Some (''c'', usd 3, contract_history (PersistentCostLedger number_host) small_policy ''c'' (office_ledger ?s0), None)\<rparr>"
  let ?s2 = "?s1\<lparr>of_reserving := Some (''c'', usd 3, contract_history (PersistentCostLedger number_host) small_policy ''c'' (office_ledger ?s0),
     Some (global_history (PersistentCostLedger number_host) small_policy (office_ledger ?s1)))\<rparr>"
  let ?h = "\<lparr>rh_contract_id = ''c'', rh_amount_usd = usd 3, rh_inserted = True, rh_committed = False\<rparr>"
  have "?step ?s0 ?s1" by (rule enter) (simp_all add: office_new_def CAP_def)
  moreover have "?step ?s1 ?s2" by (rule survey) simp
  moreover have history: "contract_history (PersistentCostLedger number_host) small_policy ''c'' (office_ledger ?s0) = Fin 0"
    by (simp add: contract_history_def small_policy_def PersistentCostLedger_def list_for_contract_def number_host_def office_new_def accountant_new_def
      ledger_open_def indexed_def sum_cost_def f64_sum_def)
  have "\<exists>a. decide small_policy ''c'' (usd 3) (Fin 0) g (of_accountant ?s2) = (Inr ?h, a)" for g
    using add_usd[of 0 3]
    by (simp add: decide_def project_def exceeds_def small_policy_def reserved_for_def office_new_def accountant_new_def Let_def)
  then obtain a where "decide small_policy ''c'' (usd 3) (Fin 0) (global_history (PersistentCostLedger number_host) small_policy (office_ledger ?s1))
    (of_accountant ?s2) = (Inr ?h, a)" by blast
  then have "?step ?s2 (?s2\<lparr>of_accountant := a, of_held := add_mset ?h (of_held ?s2), of_reserving := None\<rparr>)"
    by (rule grant[rotated]) (simp add: history)
  ultimately have "office_reachable (PersistentCostLedger number_host) unrecorded small_policy ledger_open
    (?s2\<lparr>of_accountant := a, of_held := add_mset ?h (of_held ?s2), of_reserving := None\<rparr>)"
    unfolding office_reachable_def by (meson r_into_rtranclp rtranclp_trans)
  then show ?thesis by force
qed


definition row :: "nat \<Rightarrow> string \<Rightarrow> nat \<Rightarrow> CostAttributionEvent" where
  "row n c k = attribution_new (generate_attribution_id n 0) ''now'' ''session'' c ''task'' ''model'' 10 20 (usd k)"

theorem ledger_lists_records_witness:
  "\<exists>l. record_all number_host [row 1 ''a'' 3, row 2 ''b'' 5, row 3 ''a'' 1] ledger_open = Some l
    \<and> list_for_contract number_host ''a'' l = Some [row 1 ''a'' 3, row 3 ''a'' 1]"
proof -
  let ?es = "[row 1 ''a'' 3, row 2 ''b'' 5, row 3 ''a'' 1]"
  have "map ca_attribution_id ?es = map (\<lambda>(nanos, seq). generate_attribution_id nanos seq) [(1, 0), (2, 0), (3, 0)]" "\<forall>e\<in>set ?es. is_finite (ca_cost_usd e)"
    "\<forall>l. lh_write_ok number_host l" by (simp_all add: row_def attribution_new_def number_host_def)
  from ledger_lists_records[OF lawful_number_host this(3,2,1)]
  obtain l where "record_all number_host ?es ledger_open = Some l"
    "list_for_contract number_host ''a'' l = Some (filter (\<lambda>e. ca_contract_id e = ''a'') ?es)" by auto
  then show ?thesis by (auto simp: row_def attribution_new_def)
qed

end
