(* ===== verification/Run_Properties.thy ===== *)
theory Run_Properties
  imports Pipeline_Run Cost_Properties Dag_Properties Validate_Properties
begin

text \<open>
  What a whole run guarantees: a reported success was checked at the start and at the end, a refused run touches nothing, and the books
  are closed on every path.
\<close>

subsection \<open>The accounts of the scheduler\<close>

text \<open>The tokens of a result are those of its summaries, and a success has a node that passed.\<close>

definition accounted :: "PipelineResult \<Rightarrow> bool" where
  "accounted r \<longleftrightarrow> pr_token_usage r = charge (pr_node_summaries r) no_tokens \<and> (pr_success r \<longrightarrow> (\<exists>s\<in>set (pr_node_summaries r). ns_success s))"

definition dag_books :: "dag_state \<Rightarrow> bool" where
  "dag_books st \<longleftrightarrow> ds_total_tokens st = charge (ds_summaries st) no_tokens
     \<and> (\<forall>i out. hm_get (ds_completed st) i = Some out \<longrightarrow> o_status out = Pass \<longrightarrow> (\<exists>s\<in>set (ds_summaries st). ns_success s))"

lemma node_output_sel [simp]:
  "dn_outcome (node_output h n p res d out) = out" "ns_token_usage (dn_summary (node_output h n p res d out)) = o_token_usage out"
  "ns_success (dn_summary (node_output h n p res d out)) \<longleftrightarrow> o_status out = Pass"
  by (simp_all add: node_output_def Let_def)

lemma ran_summary:
  assumes "dag_execute_node h rc i fired completed remaining feedback w = (Inr (Ran out), w1)"
  shows "ns_token_usage (dn_summary out) = o_token_usage (dn_outcome out) \<and> (ns_success (dn_summary out) \<longleftrightarrow> o_status (dn_outcome out) = Pass)"
  using assms
  by (auto simp: dag_execute_node_def dispatched_def Let_def split: option.splits prod.splits sum.splits)

lemma record_books:
  assumes "dag_books st" "ns_token_usage (dn_summary out) = o_token_usage (dn_outcome out)"
    "ns_success (dn_summary out) \<longleftrightarrow> o_status (dn_outcome out) = Pass"
  shows "dag_books (record_run i out st)"
  using assms by (auto simp: dag_books_def record_run_def Let_def add_usage_def hm_simps split: if_splits)

lemma retry_books: "dag_books st \<Longrightarrow> retry_first g es st = Some st1 \<Longrightarrow> dag_books st1"
  by (elim retry_first_Some) (auto simp: dag_books_def retry_target_def Let_def get_drop_region restrict_map_def split: if_splits)

lemma prune_books: "dag_books st \<Longrightarrow> dag_books (prune_node i r st)"
  by (simp add: dag_books_def prune_node_def)

lemma build_accounted:
  assumes "dag_books st" "v = Some True \<Longrightarrow> \<exists>s\<in>set (ds_summaries st). ns_success s"
  shows "accounted (dag_build_result v msg st g b)"
proof -
  have "\<exists>s\<in>set (ds_summaries st). ns_success s"
    if t: "dag_terminal_nodes g (ds_completed st) \<noteq> []"
      "list_all (\<lambda>out. o_status out = Pass) (List.map_filter (hm_get (ds_completed st)) (dag_terminal_nodes g (ds_completed st)))"
  proof -
    obtain i where i: "i \<in> set (dag_terminal_nodes g (ds_completed st))" using t(1) by (meson hd_in_set)
    then obtain out where out: "hm_get (ds_completed st) i = Some out" by (auto simp: dag_terminal_nodes_def dest: weak_map_of_SomeI)
    with i t(2) have "o_status out = Pass" by (auto simp: list_all_iff map_filter_set)
    with out assms(1) show ?thesis by (auto simp: dag_books_def)
  qed
  then show ?thesis using assms by (cases v) (auto simp: accounted_def dag_build_result_def Let_def dag_books_def)
qed

definition books_after :: "step_result \<Rightarrow> bool" where
  "books_after r = (case r of Advance st \<Rightarrow> dag_books st | Finish q \<Rightarrow> accounted q | _ \<Rightarrow> True)"

lemma after_run_books:
  assumes "dag_books st" "ns_token_usage (dn_summary out) = o_token_usage (dn_outcome out)"
    "ns_success (dn_summary out) \<longleftrightarrow> o_status (dn_outcome out) = Pass"
  shows "books_after (after_run g i out st)"
proof -
  have b: "dag_books (record_run i out st)" by (rule record_books[OF assms])
  have fail: "accounted (early_exit False msg (record_run i out st) g)" for msg
    unfolding early_exit_def by (rule build_accounted[OF b]) simp
  have pass: "accounted (early_exit True msg (record_run i out st) g)" if "o_status (dn_outcome out) = Pass" for msg
    unfolding early_exit_def by (rule build_accounted[OF b]) (use that assms(3) in \<open>simp add: record_run_def Let_def\<close>)
  have "dag_books (case retry_first g es (record_run i out st) of Some s \<Rightarrow> s | None \<Rightarrow> record_run i out st)" for es
    using b retry_books[OF b] by (auto split: option.splits)
  then show ?thesis using fail pass by (auto simp: after_run_def books_after_def Let_def split: option.splits)
qed

lemma forward_step_books:
  assumes "dag_books st"
  shows "books_after (fst (forward_step h rc st w))"
proof -
  have fail: "accounted (early_exit False msg st g)" for msg g unfolding early_exit_def by (rule build_accounted[OF assms]) simp
  have "books_after (fst (run_node h rc st i w))" for i
    using after_run_books[OF assms] fail
    by (auto simp: run_node_def books_after_def[of "Finish _"] books_after_def[of "Fault _"] Let_def split: prod.splits sum.splits DagStep.splits
        dest!: ran_summary)
  moreover have "books_after (Advance (prune_node i r st))" "books_after Quiescent" for i r using prune_books[OF assms] by (simp_all add: books_after_def)
  ultimately show ?thesis by (auto simp: forward_step_def split: option.splits)
qed

lemma forward_pass_books: "dag_books st \<Longrightarrow> case fst (forward_pass h rc st w) of Settled st1 \<Rightarrow> dag_books st1 | Ended r \<Rightarrow> accounted r | Broke e \<Rightarrow> True"
proof (induction h rc st w rule: forward_pass.induct)
  case (1 h rc st w)
  obtain r v where r: "forward_step h rc st w = (r, v)" by fastforce
  have "books_after r" using forward_step_books[OF 1(2), of h rc w] r by simp
  then show ?case using 1(1)[OF r[symmetric]] 1(2) r by (subst forward_pass.simps) (auto simp: books_after_def split: step_result.splits)
qed

lemma dag_loop_books: "dag_books st \<Longrightarrow> case fst (dag_loop h rc st w) of Inr r \<Rightarrow> accounted r | Inl e \<Rightarrow> True"
proof (induction h rc st w rule: dag_loop.induct)
  case (1 h rc st w)
  obtain q v where q: "forward_pass h rc st w = (q, v)" by fastforce
  have after: "case q of Settled st1 \<Rightarrow> dag_books st1 | Ended r \<Rightarrow> accounted r | Broke e \<Rightarrow> True"
    using forward_pass_books[OF 1(2), of h rc w] q by simp
  show ?case
  proof (cases q)
    case (Settled st1)
    then have b: "dag_books st1" using after by simp
    show ?thesis
    proof (cases "retry_first (rc_graph rc) (g_edges (rc_graph rc)) st1")
      case None
      then show ?thesis using build_accounted[OF b, of None] by (subst dag_loop.simps) (simp add: q Settled)
    next
      case (Some st2)
      then show ?thesis using 1(1)[OF q[symmetric] Settled Some retry_books[OF b Some]] by (subst dag_loop.simps) (simp add: q Settled)
    qed
  qed (use after in \<open>subst dag_loop.simps; simp add: q\<close>)+
qed

lemma dag_accounted: "execute_graph_dag h rc w = (Inr r, w1) \<Longrightarrow> accounted r"
  using dag_loop_books[of init_state h rc w] by (simp add: execute_graph_dag_def dag_books_def init_state_def)

lemma walk_accounted: "execute_graph h rc start w = Some (Inr r, w1) \<Longrightarrow> pr_success r \<Longrightarrow> accounted r"
  using walk_success_accounted[of h rc start w r w1] by (simp add: accounted_def)

subsection \<open>The books of a run\<close>

text \<open>The handles that are alive, the policy of the accountant and its ledger.\<close>

definition books_of :: "('l, 'w) run_world \<Rightarrow> ReservationHandle multiset \<times> CostBudgetPolicy option option \<times> 'l option" where
  "books_of w = (rw_handles w, map_option ac_policy (rw_accountant w), map_option ac_ledger (rw_accountant w))"

definition keeps_books :: "(('l, 'w) run_world \<Rightarrow> ('l, 'w) run_world) \<Rightarrow> bool" where
  "keeps_books f \<longleftrightarrow> (\<forall>w. books_of (f w) = books_of w)"

text \<open>Everything a run calls, apart from its own bookkeeping, leaves the books as they are.\<close>

definition detached :: "('l, 'v, 'w) executor \<Rightarrow> ('l, 'w) run_world handler_registry \<Rightarrow> bool" where
  "detached ex handlers \<longleftrightarrow> (let wh = ex_walk ex; h = wh_host wh; rt = ho_runtime h in
     (\<forall>k f n c. hm_get handlers k = Some f \<longrightarrow> keeps_books (\<lambda>w. snd (f n c w)))
     \<and> (\<forall>vs label. keeps_books (\<lambda>w. snd (ex_run_validators ex vs label w)))
     \<and> (\<forall>f a b c. ex_supervisor ex = Some f \<longrightarrow> keeps_books (\<lambda>w. snd (f a b c w)))
     \<and> keeps_books (\<lambda>w. snd (ex_new_attribution ex w))
     \<and> (\<forall>t. keeps_books (ho_mark_running h t)) \<and> (\<forall>t fs. keeps_books (ho_mark_completed h t fs)) \<and> (\<forall>t m. keeps_books (ho_mark_failed h t m))
     \<and> (\<forall>ms. keeps_books (rt_sleep rt ms)) \<and> (\<forall>d. keeps_books (rt_cancel rt d)) \<and> (\<forall>n d. keeps_books (rt_spawn_failure_hook rt n d))
     \<and> (\<forall>m p. keeps_books (\<lambda>w. snd (fh_chat (wh_fan wh) m p w))) \<and> (\<forall>c. keeps_books (\<lambda>w. snd (wh_persist wh c w)))
     \<and> keeps_books (wh_count_persisted wh))"

definition handle_for :: "('l, 'v, 'w) executor \<Rightarrow> string \<Rightarrow> CostBudgetPolicy option option \<Rightarrow> f64 \<Rightarrow> ReservationHandle" where
  "handle_for ex gid policy amt = \<lparr>rh_contract_id = pipeline_contract_id ex gid, rh_amount_usd = amt,
     rh_inserted = (\<exists>p. policy = Some (Some p)), rh_committed = False\<rparr>"

definition opened :: "('l, 'v, 'w) executor \<Rightarrow> string \<Rightarrow> CostBudgetPolicy option option \<Rightarrow> f64 option multiset \<Rightarrow> ReservationHandle multiset" where
  "opened ex gid policy M = image_mset (\<lambda>res. handle_for ex gid policy (the res)) (filter_mset (\<lambda>res. res \<noteq> None) M)"

lemma handle_for_amount [simp]: "rh_amount_usd (handle_for ex gid policy amt) = amt"
  by (simp add: handle_for_def)

lemma opened_simps [simp]:
  "opened ex gid policy {#} = {#}" "opened ex gid policy (add_mset None M) = opened ex gid policy M"
  "opened ex gid policy (add_mset (Some amt) M) = add_mset (handle_for ex gid policy amt) (opened ex gid policy M)"
  by (simp_all add: opened_def)

definition run_books :: "('l, 'v, 'w) executor \<Rightarrow> ('l, 'w) run_world handler_registry \<Rightarrow> string
    \<Rightarrow> ReservationHandle multiset \<times> CostBudgetPolicy option option \<times> 'l option \<Rightarrow> f64 option multiset \<Rightarrow> ('l, 'w) run_world \<Rightarrow> bool" where
  "run_books ex handlers gid b M w \<longleftrightarrow> detached ex handlers
     \<and> books_of w = (fst b + opened ex gid (fst (snd b)) M, snd b)"

lemma reserve_outcome:
  assumes "reserve ops c amt a = (r, a1)"
  shows "ac_policy a1 = ac_policy a \<and> ac_ledger a1 = ac_ledger a
    \<and> (case r of Inl _ \<Rightarrow> a1 = a | Inr rh \<Rightarrow> rh = \<lparr>rh_contract_id = c, rh_amount_usd = amt, rh_inserted = (ac_policy a \<noteq> None), rh_committed = False\<rparr>)"
proof (cases "ac_policy a")
  case (Some p)
  with assms show ?thesis by (cases r) (auto simp: reserve_def dest: decide_Inr decide_Inl)
qed (use assms in \<open>auto simp: reserve_def\<close>)

lemma open_reservation_outcome:
  assumes "open_reservation ex (pipeline_contract_id ex gid) amt w = (r, w1)" "books_of w = (H, policy, l)"
  shows "case r of Inl _ \<Rightarrow> w1 = w | Inr None \<Rightarrow> w1 = w \<and> rw_accountant w = None
    | Inr (Some rh) \<Rightarrow> rh = handle_for ex gid policy amt \<and> books_of w1 = (add_mset rh H, policy, l)"
proof (cases "rw_accountant w")
  case (Some a)
  obtain q a1 where q: "reserve (ex_ledger ex) (pipeline_contract_id ex gid) amt a = (q, a1)" by fastforce
  from reserve_outcome[OF q] assms Some show ?thesis
    by (cases q) (auto simp: open_reservation_def q books_of_def handle_for_def)
qed (use assms in \<open>auto simp: open_reservation_def\<close>)

lemma release_sel [simp]: "ac_policy (drop_handle rh a) = ac_policy a" "ac_ledger (drop_handle rh a) = ac_ledger a"
  by (simp_all add: drop_handle_def release_def)

lemma drop_books: "books_of w = (add_mset rh H, policy, l) \<Longrightarrow> books_of (drop_reservation rh w) = (H, policy, l)"
  by (auto simp: books_of_def drop_reservation_def option.map_comp o_def)

lemma node_handle_for: "books_of w = (H, policy, l) \<Longrightarrow> node_handle ex gid w amt = handle_for ex gid policy amt"
  by (auto simp: books_of_def node_handle_def handle_for_def split: option.splits)

lemma configured_sel [simp]:
  "wh_host (configured_walk ex handlers gid) = configured_host ex handlers gid"
  "fh_chat (wh_fan (configured_walk ex handlers gid)) = fh_chat (wh_fan (ex_walk ex))"
  "wh_persist (configured_walk ex handlers gid) = wh_persist (ex_walk ex)"
  "wh_count_persisted (configured_walk ex handlers gid) = wh_count_persisted (ex_walk ex)"
  "ho_handler (configured_host ex handlers gid) = hm_get handlers"
  "ho_register (configured_host ex handlers gid) = register_node_task ex"
  "ho_release (configured_host ex handlers gid) = release_node_budget ex gid"
  "ho_validators (configured_host ex handlers gid) = run_node_validators ex"
  "ho_mark_running (configured_host ex handlers gid) = ho_mark_running (wh_host (ex_walk ex))"
  "ho_mark_completed (configured_host ex handlers gid) = ho_mark_completed (wh_host (ex_walk ex))"
  "ho_mark_failed (configured_host ex handlers gid) = ho_mark_failed (wh_host (ex_walk ex))"
  "ho_runtime (configured_host ex handlers gid) = ho_runtime (wh_host (ex_walk ex))"
  by (simp_all add: configured_walk_def configured_host_def)

lemma reserve_node_books:
  assumes "run_books ex handlers gid b M w" "ho_reserve (configured_host ex handlers gid) gid n w = (r, w1)"
  shows "case r of Inl _ \<Rightarrow> run_books ex handlers gid b M w1 | Inr res \<Rightarrow> run_books ex handlers gid b (add_mset res M) w1"
proof -
  obtain H policy l where b: "b = (H, policy, l)" by (cases b) auto
  have w: "books_of w = (H + opened ex gid policy M, policy, l)" using assms(1) by (simp add: run_books_def b)
  obtain q v where q: "open_reservation ex (pipeline_contract_id ex gid) (project_node_usd ex (n_model n)) w = (q, v)" by fastforce
  from open_reservation_outcome[OF q w] assms q show ?thesis
    by (auto simp: configured_host_def reserve_node_budget_def run_books_def b split: if_splits sum.splits option.splits)
qed

lemma release_node_books:
  assumes "run_books ex handlers gid b (add_mset res M) w"
  shows "run_books ex handlers gid b M (release_node_budget ex gid res w)"
proof (cases res)
  case (Some amt)
  obtain H policy l where b: "b = (H, policy, l)" by (cases b) auto
  have w: "books_of w = (add_mset (handle_for ex gid policy amt) (H + opened ex gid policy M), policy, l)"
    using assms by (simp add: run_books_def b Some)
  show ?thesis using drop_books[OF w] assms
    by (simp add: run_books_def b Some release_node_budget_def node_handle_for[OF w])
qed (use assms in \<open>simp add: release_node_budget_def run_books_def\<close>)

lemma keeps_run_books: "keeps_books f \<Longrightarrow> run_books ex handlers gid b M w \<Longrightarrow> run_books ex handlers gid b M (f w)"
  by (simp add: keeps_books_def run_books_def)

lemma detached_keeps:
  assumes "detached ex handlers"
  shows "hm_get handlers k = Some f \<Longrightarrow> keeps_books (\<lambda>w. snd (f n c w))" "keeps_books (\<lambda>w. snd (ex_run_validators ex vs label w))"
    "ex_supervisor ex = Some s \<Longrightarrow> keeps_books (\<lambda>w. snd (s x y z w))" "keeps_books (\<lambda>w. snd (ex_new_attribution ex w))"
    "keeps_books (ho_mark_running (wh_host (ex_walk ex)) t)" "keeps_books (ho_mark_completed (wh_host (ex_walk ex)) t fs)"
    "keeps_books (ho_mark_failed (wh_host (ex_walk ex)) t m)" "keeps_books (rt_sleep (ho_runtime (wh_host (ex_walk ex))) ms)"
    "keeps_books (rt_cancel (ho_runtime (wh_host (ex_walk ex))) d)" "keeps_books (rt_spawn_failure_hook (ho_runtime (wh_host (ex_walk ex))) nd d)"
    "keeps_books (\<lambda>w. snd (fh_chat (wh_fan (ex_walk ex)) mo p w))" "keeps_books (\<lambda>w. snd (wh_persist (ex_walk ex) cp w))"
    "keeps_books (wh_count_persisted (ex_walk ex))"
  using assms by (simp_all add: detached_def Let_def)

lemma register_keeps_books: "detached ex handlers \<Longrightarrow> keeps_books (\<lambda>w. snd (register_node_task ex i w))"
  using detached_keeps(3)[of ex handlers]
  by (cases "ex_supervisor ex") (force simp: register_node_task_def keeps_books_def case_prod_unfold split: sum.splits)+

lemma node_validators_keep_books: "detached ex handlers \<Longrightarrow> keeps_books (\<lambda>w. snd (run_node_validators ex i w))"
  using detached_keeps(2)[of ex handlers] by (auto simp: run_node_validators_def keeps_books_def split: option.splits)

lemma run_books_detached: "run_books ex handlers gid b M w \<Longrightarrow> detached ex handlers"
  by (simp add: run_books_def)

lemmas calls_keep_books = detached_keeps(1,5-13)[THEN keeps_run_books, OF run_books_detached]
  register_keeps_books[THEN keeps_run_books, OF run_books_detached] node_validators_keep_books[THEN keeps_run_books, OF run_books_detached]

interpretation books: metered_walk "configured_walk ex handlers (g_id (rc_graph rc))" rc "run_books ex handlers (g_id (rc_graph rc)) b"
  for ex handlers rc b
  by (unfold_locales, unfold configured_sel) (auto intro: calls_keep_books release_node_books dest: reserve_node_books)

lemma execute_keeps_books:
  assumes "detached ex handlers" "execute ex handlers rc start w = Some (r, w1)"
  shows "books_of w1 = books_of w"
proof -
  let ?b = "run_books ex handlers (g_id (rc_graph rc)) (books_of w) {#}"
  have "?b w" using assms(1) by (simp add: run_books_def)
  have "?b w1"
  proof (cases "use_dag ex (rc_graph rc)")
    case True
    obtain q v where q: "execute_graph_dag (configured_host ex handlers (g_id (rc_graph rc))) rc w = (q, v)" by fastforce
    have "?b v" using books.scheduler_keeps[OF \<open>?b w\<close>, unfolded configured_sel, OF q] .
    moreover have "w1 = v" using assms(2) True q by (cases q) (simp_all add: execute_def Let_def)
    ultimately show ?thesis by simp
  next
    case False
    then obtain q where q: "execute_graph (configured_walk ex handlers (g_id (rc_graph rc))) rc start w = Some (q, w1)"
      using assms(2) by (auto simp: execute_def Let_def split: option.splits prod.splits sum.splits)
    show ?thesis by (rule books.walk_keeps[OF \<open>?b w\<close> q])
  qed
  then show ?thesis by (simp add: run_books_def)
qed

definition handle_set :: "ReservationHandle option \<Rightarrow> ReservationHandle multiset" where
  "handle_set handle = (case handle of Some rh \<Rightarrow> {#rh#} | None \<Rightarrow> {#})"

lemma drop_optional_books: "books_of w = (handle_set handle + H, policy, l) \<Longrightarrow> books_of (drop_optional handle w) = (H, policy, l)"
  using drop_books by (auto simp: drop_optional_def handle_set_def split: option.splits)

text \<open>The ledger after a run: one row, when the run succeeded and the row could be written.\<close>

definition ledger_after :: "('l, 'v, 'w) executor \<Rightarrow> string \<Rightarrow> PipelineResult \<Rightarrow> string \<times> string \<Rightarrow> 'l \<Rightarrow> 'l" where
  "ledger_after ex gid r stamp l = (case lo_record (ex_ledger ex) (run_attribution ex gid r stamp) l of Some l1 \<Rightarrow> l1 | None \<Rightarrow> l)"

lemma commit_books:
  assumes "detached ex handlers" "books_of w = (add_mset rh H, policy, Some l)" "\<not> rh_committed rh"
    "commit_pipeline_reservation ex rh gid r w = (rh1, w1)"
  shows "\<exists>stamp. books_of w1 = (add_mset rh1 H, policy, Some (ledger_after ex gid r stamp l))"
proof -
  obtain stamp v where v: "ex_new_attribution ex w = (stamp, v)" by fastforce
  have b: "books_of v = (add_mset rh H, policy, Some l)"
    using detached_keeps(4)[OF assms(1)] v assms(2) unfolding keeps_books_def by (metis snd_conv)
  then obtain a where a: "rw_accountant v = Some a" "ac_ledger a = l" by (auto simp: books_of_def)
  have "books_of w1 = (add_mset rh1 H, policy, Some (ledger_after ex gid r stamp l))"
    using assms(3,4) b a
    by (cases "lo_record (ex_ledger ex) (run_attribution ex gid r stamp) l")
       (auto simp: commit_pipeline_reservation_def Let_def v commit_def commit_record_def books_of_def ledger_after_def release_def)
  then show ?thesis ..
qed

lemma terminal_validators_keep:
  assumes "detached ex handlers" "run_terminal_validators ex w = (r, w1)"
  shows "books_of w1 = books_of w"
  using assms detached_keeps(2)[OF assms(1)]
  by (auto simp: run_terminal_validators_def keeps_books_def split: option.splits if_splits) (metis snd_conv)+

lemma conclude_books:
  assumes "detached ex handlers" "books_of w = (handle_set handle + H, policy, l)" "conclude ex gid handle r w = (r1, w1)"
    "\<And>rh. handle = Some rh \<Longrightarrow> \<not> rh_committed rh \<and> l \<noteq> None"
  shows "\<exists>stamp. books_of w1 = (H, policy, if pr_success r1 \<and> handle \<noteq> None then map_option (ledger_after ex gid r1 stamp) l else l)"
proof -
  obtain verdict v where v: "(if pr_success r then run_terminal_validators ex w else (Inr (), w)) = (verdict, v)" by fastforce
  have b: "books_of v = (handle_set handle + H, policy, l)"
    using v assms(2) terminal_validators_keep[OF assms(1)] by (auto split: if_splits)
  let ?r = "case verdict of Inl reason \<Rightarrow> demoted reason r | Inr _ \<Rightarrow> r"
  show ?thesis
  proof (cases "handle \<noteq> None \<and> pr_success ?r")
    case True
    then obtain rh led where rh: "handle = Some rh" "l = Some led" "\<not> rh_committed rh" using assms(4) by auto
    obtain rh1 u where c: "commit_pipeline_reservation ex rh gid ?r v = (rh1, u)" by fastforce
    from commit_books[OF assms(1) b[unfolded rh handle_set_def option.case, simplified] rh(3) c]
    obtain stamp where "books_of u = (handle_set (Some rh1) + H, policy, Some (ledger_after ex gid ?r stamp led))" by (auto simp: handle_set_def)
    from drop_optional_books[OF this] assms(3) True show ?thesis by (intro exI[of _ stamp]) (auto simp: conclude_def Let_def v rh c)
  next
    case False
    then show ?thesis using assms(3) drop_optional_books[OF b] by (cases handle) (auto simp: conclude_def Let_def v)
  qed
qed

lemma assign_id: "g_id (assign_from_catalog_dir c g) = g_id g"
  by (simp add: assign_from_catalog_dir_def assign_to_graph_def split: option.splits)

lemma pipeline_reservation_outcome:
  assumes "reserve_pipeline_budget ex gid w = (r, w1)" "books_of w = (H, policy, l)"
  shows "case r of Inl _ \<Rightarrow> w1 = w
    | Inr handle \<Rightarrow> books_of w1 = (handle_set handle + H, policy, l) \<and> (handle = None \<longleftrightarrow> rw_accountant w = None)
        \<and> (\<forall>rh. handle = Some rh \<longrightarrow> \<not> rh_committed rh)"
proof -
  obtain q v where q: "open_reservation ex (pipeline_contract_id ex gid) (pipeline_projected_usd ex) w = (q, v)" by fastforce
  have "rw_accountant w \<noteq> None" if "q = Inr (Some rh)" for rh
    using q that by (auto simp: open_reservation_def split: option.splits prod.splits sum.splits)
  with open_reservation_outcome[OF q assms(2)] assms q show ?thesis
    by (auto simp: reserve_pipeline_budget_def handle_set_def handle_for_def split: sum.splits option.splits)
qed

subsection \<open>Properties\<close>

text \<open>C6. A run closes its books on every path, whichever engine runs it and however it ends: no reservation it made, for the run or for a
  node, outlives it, and the ledger gets exactly one row, with the tokens and the cost of the result, when the run reports success after
  the terminal validators, and none otherwise. The handlers and the other collaborators leave the books alone.\<close>

theorem run_closes_its_books:
  assumes "detached ex handlers" "run_graph_with_handlers ex g user_input variables handlers w = Some (res, w1)"
  shows "rw_handles w1 = rw_handles w \<and> (\<exists>stamp. map_option ac_ledger (rw_accountant w1) =
    (case res of
       Inr r \<Rightarrow> if pr_success r then map_option (ledger_after ex (g_id g) r stamp) (map_option ac_ledger (rw_accountant w))
         else map_option ac_ledger (rw_accountant w)
     | Inl _ \<Rightarrow> map_option ac_ledger (rw_accountant w)))"
proof -
  obtain H policy l where b: "books_of w = (H, policy, l)" by (metis prod_cases3)
  then have l: "l = map_option ac_ledger (rw_accountant w)" "H = rw_handles w" by (simp_all add: books_of_def)
  let ?g = "assign_from_catalog_dir (ex_catalog ex w) g"
  let ?rc = "\<lparr>rc_graph = ?g, rc_user_input = user_input, rc_variables = variables\<rparr>"
  obtain q v where q: "reserve_pipeline_budget ex (g_id ?g) w = (q, v)" by fastforce
  note reserved = pipeline_reservation_outcome[OF q b]
  show ?thesis
  proof (cases "has_errors (diagnostics_with_context ?g (validation_context ex ?g variables w)) \<or> find_start_node ?g = None \<or> (\<exists>e. q = Inl e)")
    case True
    then have "w1 = w \<and> (\<exists>e. res = Inl e)"
      using assms(2) reserved by (auto simp: run_graph_with_handlers_def Let_def q split: if_splits option.splits)
    then show ?thesis by auto
  next
    case False
    then obtain start handle where s: "find_start_node ?g = Some start" "q = Inr handle" by (cases q) auto
    obtain r1 w2 where e: "execute ex handlers ?rc start v = Some (r1, w2)"
      using assms(2) False s by (fastforce simp: run_graph_with_handlers_def Let_def q split: option.splits)
    have w2: "books_of w2 = (handle_set handle + H, policy, l)"
      using execute_keeps_books[OF assms(1) e] reserved s by simp
    show ?thesis
    proof (cases r1)
      case (Inl err)
      then have "w1 = drop_optional handle w2" "res = Inl err"
        using assms(2) False s e by (simp_all add: run_graph_with_handlers_def Let_def q)
      with drop_optional_books[OF w2] show ?thesis by (simp add: books_of_def l)
    next
      case (Inr r)
      obtain r2 w3 where c: "conclude ex (g_id ?g) handle r w2 = (r2, w3)" by fastforce
      then have w1: "w1 = w3" "res = Inr r2" using assms(2) False s e Inr by (simp_all add: run_graph_with_handlers_def Let_def q)
      obtain stamp where "books_of w1 = (H, policy, if pr_success r2 \<and> handle \<noteq> None then map_option (ledger_after ex (g_id ?g) r2 stamp) l else l)"
        using conclude_books[OF assms(1) w2 c] reserved s l w1 by auto
      moreover have "handle = None \<longleftrightarrow> l = None" using reserved s l by simp
      ultimately show ?thesis using l w1 by (cases l; intro conjI exI[of _ stamp]) (auto simp: books_of_def assign_id)
    qed
  qed
qed

text \<open>For witnesses: an executor without supervisor, validators, catalog or plugins, over a ledger that is a list, with gates only.\<close>

definition list_ledger :: "CostAttributionEvent list ledger_ops" where
  "list_ledger = \<lparr>lo_record = \<lambda>e l. Some (l @ [e]), lo_list_for_contract = \<lambda>c l. Some (filter (\<lambda>e. ca_contract_id e = c) l),
     lo_aggregate_per_contract = \<lambda>_. Some []\<rparr>"

definition no_catalog :: catalog_host where
  "no_catalog = \<lparr>ch_pipeline_models = None, ch_model_catalog = None, ch_decode = \<lambda>_. None, ch_pid = 0, ch_nanos = 0, ch_lowercase = \<lambda>c. c\<rparr>"

definition no_handlers :: "'w handler_host" where
  "no_handlers = \<lparr>hh_expires = \<lambda>_ _. False, hh_cancel = \<lambda>_ w. w, hh_sleep_secs = \<lambda>_ w. w, hh_clock_ns = \<lambda>_. 0,
     hh_exists = \<lambda>_ _. False, hh_sh = \<lambda>_ _ w. (Inl ''no shell'', w), hh_router = None, hh_mark_terminal = \<lambda>_ w. w, hh_session_key = None,
     hh_workspace_write = False, hh_context_window = \<lambda>_ _. 8192, hh_max_output_tokens = \<lambda>_. 1024, hh_worker_number = \<lambda>w. (0, w),
     hh_run_task = \<lambda>_ w. (Inl ''no agent'', w)\<rparr>"

definition plain_executor :: "(CostAttributionEvent list, unit, unit) executor" where
  "plain_executor = \<lparr>ex_ledger = list_ledger, ex_contract_id = [], ex_pipeline_projected_usd = Fin 1, ex_policy = None,
     ex_validators_by_node = [], ex_run_validators = \<lambda>_ _ w. (Inr (), w), ex_glob_matches = \<lambda>_ _. False, ex_supervisor = None,
     ex_parent_tool_call_id = None, ex_parent_session_key = None, ex_pricing = None, ex_lowercase = \<lambda>s. s,
     ex_new_attribution = \<lambda>w. ((''id'', ''now''), w), ex_walk = walk_over (host_with noop_handler), ex_dag_override = Some True, ex_env_dag = None,
     ex_catalog = \<lambda>_. no_catalog, ex_builtin_tools = [], ex_load_plugins = \<lambda>_ _. [], ex_plugin_dirs = [], ex_plugin_require_signed = False,
     ex_working_dir = ''/w'', ex_parse_ir = \<lambda>_. Inl ''no parser'', ex_alphanumeric = \<lambda>_. False, ex_handlers = no_handlers\<rparr>"

definition gate_registry :: "'w handler_registry" where
  "gate_registry = [(Gate, gate_handler)]"

definition fresh_world :: "(CostAttributionEvent list, unit) run_world" where
  "fresh_world = \<lparr>rw_accountant = Some (accountant_new [] None), rw_handles = {#}, rw_rest = ()\<rparr>"

lemma plain_run:
  "\<exists>r w1. run_graph_with_handlers plain_executor solo_graph ''go'' [] gate_registry fresh_world = Some (Inr r, w1) \<and> pr_success r"
proof -
  have "(case run_graph_with_handlers plain_executor solo_graph ''go'' [] gate_registry fresh_world of
    Some (Inr r, w1) \<Rightarrow> pr_success r | _ \<Rightarrow> False)" by code_simp
  then show ?thesis by (auto split: option.splits prod.splits sum.splits)
qed

lemma gate_keeps_world: "snd (gate_handler n c w) = w"
  by (simp add: gate_handler_def Let_def split: sum.splits)

lemma plain_detached: "detached plain_executor gate_registry"
  by (auto simp: detached_def plain_executor_def gate_registry_def walk_over_def host_with_def keeps_books_def gate_keeps_world Let_def)

theorem run_closes_its_books_witness:
  "\<exists>r w1 stamp. run_graph_with_handlers plain_executor solo_graph ''go'' [] gate_registry fresh_world = Some (Inr r, w1)
    \<and> rw_handles w1 = {#} \<and> map_option ac_ledger (rw_accountant w1) = Some [run_attribution plain_executor (g_id solo_graph) r stamp]"
proof -
  obtain r w1 where run: "run_graph_with_handlers plain_executor solo_graph ''go'' [] gate_registry fresh_world = Some (Inr r, w1)" "pr_success r"
    using plain_run by blast
  from run_closes_its_books[OF plain_detached run(1)] run(2) obtain stamp where "rw_handles w1 = {#}"
    "map_option ac_ledger (rw_accountant w1) = Some (ledger_after plain_executor (g_id solo_graph) r stamp [])"
    by (auto simp: fresh_world_def accountant_new_def)
  moreover have "ledger_after plain_executor (g_id solo_graph) r stamp [] = [run_attribution plain_executor (g_id solo_graph) r stamp]"
    by (simp add: ledger_after_def plain_executor_def list_ledger_def)
  ultimately show ?thesis using run(1) by (intro exI[of _ r] exI[of _ w1] exI[of _ stamp]) simp
qed

text \<open>C3. A run that reports success was checked at both ends. The graph with the models assigned to it is valid in the context of the run, the
  result is the one of the engine, it has a node that passed and its tokens are the sum of those of its nodes, and in the
  world in which the engine ended the terminal validators accepted and every file demanded for completion existed.\<close>

theorem run_success_checked:
  assumes "run_graph_with_handlers ex g user_input variables handlers w = Some (Inr r, w1)" "pr_success r"
  shows "let g1 = assign_from_catalog_dir (ex_catalog ex w) g in graph_valid g1 (validation_context ex g1 variables w)
    \<and> (\<exists>s\<in>set (pr_node_summaries r). ns_success s) \<and> pr_token_usage r = charge (pr_node_summaries r) no_tokens
    \<and> (\<exists>start v w2 w3. execute ex handlers \<lparr>rc_graph = g1, rc_user_input = user_input, rc_variables = variables\<rparr> start v = Some (Inr r, w2)
        \<and> run_terminal_validators ex w2 = (Inr (), w3)
        \<and> (\<forall>policy action. ex_policy ex = Some policy \<longrightarrow> action \<in> set (wp_on_completion policy) \<longrightarrow> action_holds ex w2 action))"
proof -
  define g1 where "g1 = assign_from_catalog_dir (ex_catalog ex w) g"
  let ?rc = "\<lparr>rc_graph = g1, rc_user_input = user_input, rc_variables = variables\<rparr>"
  have ok: "\<not> has_errors (diagnostics_with_context g1 (validation_context ex g1 variables w))"
    using assms(1) by (auto simp: run_graph_with_handlers_def Let_def g1_def split: if_splits)
  obtain start handle v r0 w2 w3 where e: "execute ex handlers ?rc start v = Some (Inr r0, w2)" "conclude ex (g_id g1) handle r0 w2 = (r, w3)"
    using assms(1) ok by (auto simp: run_graph_with_handlers_def Let_def simp flip: g1_def split: option.splits prod.splits sum.splits)
  have r0: "r0 = r" "\<exists>w3. run_terminal_validators ex w2 = (Inr (), w3)"
    using e(2) assms(2) by (auto simp: conclude_def Let_def demoted_def split: prod.splits sum.splits option.splits if_splits)
  have acc: "accounted r" using e(1) assms(2) dag_accounted walk_accounted unfolding r0(1) execute_def Let_def
    by (auto split: if_splits option.splits prod.splits sum.splits)
  have "action_holds ex w2 action" if "ex_policy ex = Some policy" "action \<in> set (wp_on_completion policy)" for policy action
    using r0(2) that by (auto simp: run_terminal_validators_def evaluate_on_completion_actions_def filter_empty_conv Let_def split: if_splits)
  then show ?thesis using ok e(1) r0 acc assms(2) unfolding diagnostics_exact accounted_def Let_def g1_def by blast
qed

theorem run_success_checked_witness:
  "\<exists>r w1. run_graph_with_handlers plain_executor solo_graph ''go'' [] gate_registry fresh_world = Some (Inr r, w1)
    \<and> (\<exists>s\<in>set (pr_node_summaries r). ns_success s)"
proof -
  obtain r w1 where run: "run_graph_with_handlers plain_executor solo_graph ''go'' [] gate_registry fresh_world = Some (Inr r, w1)" "pr_success r"
    using plain_run by blast
  from run_success_checked[OF run] run(1) show ?thesis unfolding Let_def by blast
qed

primrec refusal :: "run_error \<Rightarrow> bool" where
  "refusal (ParseFailed e) = True"
| "refusal (ComposeFailed e) = True"
| "refusal (InvalidGraph ds) = True"
| "refusal NoStartNode = True"
| "refusal (ReservationFailed s) = True"
| "refusal (DagFailed e) = False"
| "refusal (WalkFailed e) = False"

lemma graph_refusal:
  assumes "run_graph_with_handlers ex g user_input variables handlers w = Some (Inl e, w1)"
  shows "(refusal e \<longrightarrow> w1 = w) \<and> e \<noteq> NoStartNode"
proof -
  define g1 where "g1 = assign_from_catalog_dir (ex_catalog ex w) g"
  have start: "find_start_node g1 \<noteq> None" if "\<not> has_errors (diagnostics_with_context g1 (validation_context ex g1 variables w))"
    using that unfolding diagnostics_exact graph_valid_def starts_somewhere_def by auto
  obtain q v where q: "reserve_pipeline_budget ex (g_id g1) w = (q, v)" by fastforce
  obtain H policy l where "books_of w = (H, policy, l)" by (metis prod_cases3)
  note reserved = pipeline_reservation_outcome[OF q this]
  have "\<not> refusal e1 \<and> e1 \<noteq> NoStartNode" if "execute ex handlers rc s u = Some (Inl e1, u1)" for rc s u e1 u1
    using that by (auto simp: execute_def Let_def split: if_splits option.splits prod.splits sum.splits)
  then show ?thesis using assms start reserved
    by (auto simp: run_graph_with_handlers_def Let_def q simp flip: g1_def split: if_splits option.splits prod.splits sum.splits)
qed

text \<open>C38. A run that is refused touches nothing. When the text does not parse, the document is not composed, the graph is invalid or the
  budget is exceeded, the run returns the error in the world it was started in: no handler was called and nothing was reserved or
  recorded. A graph that is not valid is always refused, with at least one error, and the error of a missing start node never occurs.\<close>

theorem refused_run_touches_nothing:
  "(run ex dot_content user_input variables w = Some (Inl e, w1) \<or> run_ir ex ir_json profile user_input variables w = Some (Inl e, w1)
     \<longrightarrow> (refusal e \<longrightarrow> w1 = w) \<and> e \<noteq> NoStartNode)
   \<and> (let g1 = assign_from_catalog_dir (ex_catalog ex w) g in \<not> graph_valid g1 (validation_context ex g1 variables w)
     \<longrightarrow> (\<exists>ds. ds \<noteq> [] \<and> run_graph ex g user_input variables w = Some (Inl (InvalidGraph ds), w)))"
proof -
  have "(refusal e \<longrightarrow> w1 = w) \<and> e \<noteq> NoStartNode"
    if "run ex dot_content user_input variables w = Some (Inl e, w1) \<or> run_ir ex ir_json profile user_input variables w = Some (Inl e, w1)"
    using that graph_refusal
    by (force simp: run_def run_with_handlers_def run_ir_def run_graph_def split: sum.splits option.splits)
  moreover have "\<exists>ds. ds \<noteq> [] \<and> run_graph ex g user_input variables w = Some (Inl (InvalidGraph ds), w)"
    if "\<not> graph_valid (assign_from_catalog_dir (ex_catalog ex w) g)
      (validation_context ex (assign_from_catalog_dir (ex_catalog ex w) g) variables w)"
    using that unfolding diagnostics_exact[symmetric]
    by (auto simp: run_graph_def run_graph_with_handlers_def Let_def has_errors_def list_ex_iff filter_empty_conv)
  ultimately show ?thesis by (auto simp: Let_def)
qed

theorem refused_run_touches_nothing_witness:
  "\<exists>e. run plain_executor ''graph'' ''go'' [] fresh_world = Some (Inl (ParseFailed e), fresh_world)"
proof -
  have "case parse_dot (\<lambda>_. False) ''graph'' of Inl e \<Rightarrow> True | Inr g \<Rightarrow> False" by code_simp
  then obtain e where "parse_dot (\<lambda>_. False) ''graph'' = Inl e" by (auto split: sum.splits)
  then obtain w1 where run: "run plain_executor ''graph'' ''go'' [] fresh_world = Some (Inl (ParseFailed e), w1)"
    by (simp add: run_def run_with_handlers_def plain_executor_def)
  with refused_run_touches_nothing[of plain_executor "''graph''" "''go''" "[]" fresh_world "ParseFailed e" w1] show ?thesis by auto
qed

end
