(* ===== verification/Pricing_Properties.thy ===== *)
theory Pricing_Properties
  imports Pricing
begin

text \<open>
  What pricing guarantees. The price of a model depends on the set of rows of the catalog and not on their order or on the order
  in which a hash map is iterated; and costs are monotone in the tokens and never above those of an unknown provider.
\<close>

subsection \<open>Rows and their ranks\<close>

type_synonym row = "string \<times> f64 \<times> f64"

definition priced_row :: "row \<Rightarrow> bool" where
  "priced_row r \<longleftrightarrow> f64_lt (Fin 0) (fst (snd r)) \<or> f64_lt (Fin 0) (snd (snd r))"

definition row_price :: "row \<Rightarrow> ModelPricing" where
  "row_price r = \<lparr>input_per_million = fst (snd r), output_per_million = snd (snd r)\<rparr>"

definition alias_of :: "(string \<Rightarrow> string) \<Rightarrow> row \<Rightarrow> string" where
  "alias_of wide r = to_lowercase wide (bare_name (fst r))"

definition rank_of :: "(string \<Rightarrow> string) \<Rightarrow> row \<Rightarrow> nat \<times> string" where
  "rank_of wide r = (segments (fst r), to_lowercase wide (fst r))"

text \<open>The row that owns an alias: the most native one, of the fewest segments, then of the least provider and key.\<close>

definition owns :: "(string \<Rightarrow> string) \<Rightarrow> row set \<Rightarrow> string \<Rightarrow> row \<Rightarrow> bool" where
  "owns wide R b r \<longleftrightarrow> r \<in> R \<and> alias_of wide r = b \<and> (\<forall>s\<in>R. alias_of wide s = b \<longrightarrow> s = r \<or> outranks (rank_of wide r) (rank_of wide s))"

text \<open>What a catalog with these rows says: each key has the price of its row, each alias that of its owner.\<close>

definition says :: "(string \<Rightarrow> string) \<Rightarrow> row set \<Rightarrow> string \<Rightarrow> ModelPricing \<Rightarrow> bool" where
  "says wide R k p \<longleftrightarrow> (\<exists>r. (r \<in> R \<and> fst r = k \<or> owns wide R k r) \<and> row_price r = p)"

text \<open>What the code relies on of lowercase: it is idempotent and makes no slash.\<close>

definition lawful_lowercase :: "(string \<Rightarrow> string) \<Rightarrow> bool" where
  "lawful_lowercase wide \<longleftrightarrow> (\<forall>s. to_lowercase wide (to_lowercase wide s) = to_lowercase wide s
     \<and> (CHR ''/'' \<in> set (to_lowercase wide s) \<longrightarrow> CHR ''/'' \<in> set s))"

lemma outranks_irrefl [simp]: "\<not> outranks a a"
  by (simp add: outranks_def)

lemma outranks_trans: "outranks a b \<Longrightarrow> outranks b c \<Longrightarrow> outranks a c"
  unfolding outranks_def by (elim disjE conjE) (auto dest: less_trans)

lemma outranks_total: "a \<noteq> b \<Longrightarrow> outranks a b \<or> outranks b a"
  unfolding outranks_def by (cases a; cases b) (auto simp: not_less_iff_gr_or_eq)

lemma split_char_no_slash: "d \<notin> set s \<Longrightarrow> split_char d s = [s]"
  by (induction s) auto

lemma bare_no_slash:
  shows "CHR ''/'' \<notin> set (bare_name key)"
    and segments_0: "segments key = 0 \<Longrightarrow> bare_name key = key"
proof -
  have ne: "split_char d s \<noteq> []" for d s by (induction s) (auto split: list.splits)
  have "\<forall>q\<in>set (split_char d s). d \<notin> set q" for d s by (induction s) (auto split: list.splits)
  then show "CHR ''/'' \<notin> set (bare_name key)" using last_in_set[OF ne[of "CHR ''/''" key]] unfolding bare_name_def by blast
  show "bare_name key = key" if "segments key = 0"
  proof -
    have "CHR ''/'' \<notin> set key" using that by (auto simp: segments_def filter_empty_conv)
    then show ?thesis by (simp add: bare_name_def split_char_no_slash)
  qed
qed

lemma owns_unique: "owns wide R b r \<Longrightarrow> owns wide R b s \<Longrightarrow> r = s"
  unfolding owns_def using outranks_trans outranks_irrefl by blast

definition distinct_rows :: "(string \<Rightarrow> string) \<Rightarrow> row set \<Rightarrow> bool" where
  "distinct_rows wide R \<longleftrightarrow> lawful_lowercase wide \<and> inj_on (\<lambda>r. to_lowercase wide (fst r)) R"

text \<open>A row whose key is an alias owns it.\<close>

lemma key_owns_alias:
  assumes "distinct_rows wide R" "x \<in> R" "owns wide R (fst x) r"
  shows "r = x"
proof -
  note lawful = conjunct1[OF assms(1)[unfolded distinct_rows_def]] and keys = conjunct2[OF assms(1)[unfolded distinct_rows_def]]
  have r: "r \<in> R" "fst x = to_lowercase wide (bare_name (fst r))" using assms(3) by (simp_all add: owns_def alias_of_def)
  then have "CHR ''/'' \<notin> set (fst x)" using lawful bare_no_slash by (auto simp: lawful_lowercase_def)
  then have s: "segments (fst x) = 0" by (auto simp: segments_def filter_empty_conv)
  have "alias_of wide x = fst x" using r(2) lawful segments_0[OF s] by (simp add: alias_of_def lawful_lowercase_def)
  then have "x = r \<or> segments (fst r) = 0" using assms by (auto simp: owns_def outranks_def rank_of_def s)
  moreover have "x = r" if "segments (fst r) = 0"
    using r lawful that segments_0[OF that] assms(2) inj_onD[OF keys, of x r] by (simp add: lawful_lowercase_def)
  ultimately show ?thesis by blast
qed

lemma says_unique:
  assumes "distinct_rows wide R" "says wide R k p" "says wide R k q"
  shows "p = q"
proof -
  have "r = s" if "r \<in> R" "s \<in> R" "fst r = fst s" for r s using assms(1) that by (simp add: distinct_rows_def inj_on_def)
  then show ?thesis using assms key_owns_alias[OF assms(1)] owns_unique unfolding says_def by metis
qed

subsection \<open>Seeding\<close>

definition seeded :: "(string \<Rightarrow> string) \<Rightarrow> row set \<Rightarrow> pricing_catalog \<times> (string, nat \<times> string) hashmap \<Rightarrow> bool" where
  "seeded wide R st \<longleftrightarrow> hm_wf (fst st) \<and> (\<forall>k p. hm_get (fst st) k = Some p \<longleftrightarrow> says wide R k p)
     \<and> (\<forall>b. case hm_get (snd st) b of None \<Rightarrow> \<forall>r\<in>R. alias_of wide r \<noteq> b | Some k \<Rightarrow> \<exists>r. owns wide R b r \<and> rank_of wide r = k)"

text \<open>A new row takes its alias if it outranks the owner.\<close>

lemma owns_insert_other: "alias_of wide x \<noteq> b \<Longrightarrow> owns wide (insert x R) b r \<longleftrightarrow> owns wide R b r"
  by (auto simp: owns_def)

lemma owns_insert_take:
  assumes "(\<forall>r\<in>R. alias_of wide r \<noteq> alias_of wide x) \<or> (\<exists>r. owns wide R (alias_of wide x) r \<and> outranks (rank_of wide x) (rank_of wide r))"
  shows "owns wide (insert x R) (alias_of wide x) x"
  using assms outranks_trans unfolding owns_def by blast

lemma owns_insert_keep:
  assumes "owns wide R (alias_of wide x) r" "\<not> outranks (rank_of wide x) (rank_of wide r)" "rank_of wide x \<noteq> rank_of wide r"
  shows "owns wide (insert x R) (alias_of wide x) s \<longleftrightarrow> s = r"
proof -
  have "owns wide (insert x R) (alias_of wide x) r" using assms outranks_total unfolding owns_def by blast
  then show ?thesis using owns_unique by blast
qed

lemma seed_row_step:
  assumes "seeded wide R (cat, own)" "distinct_rows wide (insert x R)" "x \<notin> R" "priced_row x"
  shows "seeded wide (insert x R) (seed_row wide (cat, own) x)"
proof -
  let ?b = "alias_of wide x" let ?R = "insert x R"
  define took where "took \<longleftrightarrow> (case hm_get own ?b of None \<Rightarrow> True | Some k \<Rightarrow> outranks (rank_of wide x) k)"
  obtain key cost_in cost_out where x: "x = (key, cost_in, cost_out)" by (metis prod_cases3)
  obtain cat1 own1 where st: "seed_row wide (cat, own) x = (cat1, own1)" by fastforce
  have "seed_row wide (cat, own) x = (if took then (hm_insert ?b (row_price x) (hm_insert (fst x) (row_price x) cat), hm_insert ?b (rank_of wide x) own)
      else (hm_insert (fst x) (row_price x) cat, own))"
    using assms(4) unfolding took_def x alias_of_def rank_of_def row_price_def priced_row_def fst_conv snd_conv by (auto simp: seed_row_def Let_def)
  then have eqs: "cat1 = (if took then hm_insert ?b (row_price x) (hm_insert (fst x) (row_price x) cat) else hm_insert (fst x) (row_price x) cat)"
    "own1 = (if took then hm_insert ?b (rank_of wide x) own else own)"
    using st by (simp_all split: if_splits)
  have wf: "hm_wf cat" and cat: "\<And>k p. hm_get cat k = Some p \<longleftrightarrow> says wide R k p"
    and own: "\<And>b. case hm_get own b of None \<Rightarrow> \<forall>r\<in>R. alias_of wide r \<noteq> b | Some k \<Rightarrow> \<exists>r. owns wide R b r \<and> rank_of wide r = k"
    using assms(1) by (simp_all add: seeded_def)
  have ranks: "rank_of wide x \<noteq> rank_of wide r" if "r \<in> R" for r
    using assms(2,3) that by (auto simp: distinct_rows_def rank_of_def)
  have take: "owns wide ?R ?b x" if took
  proof (rule owns_insert_take, cases "hm_get own ?b")
    case (Some k)
    then have "\<exists>r. owns wide R ?b r \<and> rank_of wide r = k" using own[of ?b] by simp
    moreover have "outranks (rank_of wide x) k" using that Some by (simp add: took_def)
    ultimately show "(\<forall>r\<in>R. alias_of wide r \<noteq> ?b) \<or> (\<exists>r. owns wide R ?b r \<and> outranks (rank_of wide x) (rank_of wide r))" by blast
  qed (use own[of ?b] in simp)
  have keep: "\<exists>r. owns wide R ?b r \<and> hm_get own ?b = Some (rank_of wide r) \<and> (\<forall>s. owns wide ?R ?b s \<longleftrightarrow> s = r)" if untaken: "\<not> took"
  proof -
    obtain r where r: "owns wide R ?b r" "hm_get own ?b = Some (rank_of wide r)" "\<not> outranks (rank_of wide x) (rank_of wide r)"
      using own[of ?b] untaken by (cases "hm_get own ?b") (auto simp: took_def)
    then have "r \<in> R" by (simp add: owns_def)
    then show ?thesis using owns_insert_keep[OF r(1,3) ranks] r by blast
  qed
  have "hm_get cat1 k = Some p \<longleftrightarrow> says wide ?R k p" for k p
  proof (cases "k = fst x \<or> k = ?b \<and> took")
    case True
    then have "says wide ?R k (row_price x)" using take unfolding says_def by blast
    moreover have "hm_get cat1 k = Some (row_price x)" using True by (auto simp: eqs hm_simps)
    ultimately show ?thesis using says_unique[OF assms(2)] by auto
  next
    case False
    then have "hm_get cat1 k = hm_get cat k" by (auto simp: eqs hm_simps)
    moreover have "owns wide ?R k r \<longleftrightarrow> owns wide R k r" for r
      using False keep owns_unique owns_insert_other[of wide x k R r] by (cases "k = ?b") metis+
    ultimately show ?thesis using False by (auto simp: cat says_def)
  qed
  moreover have "case hm_get own1 b of None \<Rightarrow> \<forall>r\<in>?R. alias_of wide r \<noteq> b | Some k \<Rightarrow> \<exists>r. owns wide ?R b r \<and> rank_of wide r = k" for b
  proof (cases "b = ?b")
    case True
    show ?thesis
    proof (cases took)
      case True
      then have "hm_get own1 b = Some (rank_of wide x)" using \<open>b = ?b\<close> by (simp add: eqs hm_simps)
      then show ?thesis using take[OF True] \<open>b = ?b\<close> by (simp del: split_paired_Ex) blast
    next
      case False
      then obtain r where r: "hm_get own ?b = Some (rank_of wide r)" "owns wide ?R ?b r" using keep by blast
      have "hm_get own1 b = Some (rank_of wide r)" using r(1) False \<open>b = ?b\<close> by (simp add: eqs)
      then show ?thesis using r(2) \<open>b = ?b\<close> by (simp del: split_paired_Ex) blast
    qed
  next
    case False
    then show ?thesis using own[of b] owns_insert_other[of wide x b R]
      by (auto simp: eqs hm_simps split: option.splits)
  qed
  moreover have "hm_wf cat1" using wf by (auto simp: eqs)
  ultimately show ?thesis by (simp add: seeded_def st)
qed

lemma distinct_rows_subset: "distinct_rows wide R \<Longrightarrow> S \<subseteq> R \<Longrightarrow> distinct_rows wide S"
  unfolding distinct_rows_def by (blast intro: inj_on_subset)

lemma seed_exact:
  assumes "lawful_lowercase wide" "distinct (map (\<lambda>r. to_lowercase wide (fst r)) rows)"
  shows "seeded wide {r \<in> set rows. priced_row r} (foldl (seed_row wide) ([], []) rows)"
  using assms(2)
proof (induction rows rule: rev_induct)
  case Nil
  then show ?case by (simp add: seeded_def says_def owns_def)
next
  case (snoc x rows)
  obtain cat own where st: "foldl (seed_row wide) ([], []) rows = (cat, own)" by fastforce
  have rows: "distinct_rows wide (set (rows @ [x]))" "x \<notin> set rows"
    using snoc.prems assms(1) by (auto simp: distinct_rows_def distinct_map)
  show ?case
  proof (cases "priced_row x")
    case True
    then have "{r \<in> set (rows @ [x]). priced_row r} = insert x {r \<in> set rows. priced_row r}" by auto
    moreover have "seeded wide (insert x {r \<in> set rows. priced_row r}) (seed_row wide (cat, own) x)"
      using snoc rows True by (intro seed_row_step distinct_rows_subset[OF rows(1)]) (auto simp: st)
    ultimately show ?thesis by (simp add: st)
  next
    case False
    then have "seed_row wide (cat, own) x = (cat, own)" by (auto simp: seed_row_def priced_row_def Let_def split: prod.splits)
    moreover have "{r \<in> set (rows @ [x]). priced_row r} = {r \<in> set rows. priced_row r}" using False by auto
    ultimately show ?thesis using snoc by (simp add: st)
  qed
qed

subsection \<open>Lookup\<close>

lemma fold_select:
  assumes "\<And>a b c. lt a b \<Longrightarrow> lt b c \<Longrightarrow> lt a c" "\<And>a b. a \<in> set (x # xs) \<Longrightarrow> b \<in> set (x # xs) \<Longrightarrow> a = b \<or> lt a b \<or> lt b a"
  shows "foldl (\<lambda>x y. if lt y x then x else y) x xs \<in> set (x # xs)
    \<and> (\<forall>y\<in>set (x # xs). y = foldl (\<lambda>x y. if lt y x then x else y) x xs \<or> lt y (foldl (\<lambda>x y. if lt y x then x else y) x xs))"
  using assms(2)
proof (induction xs arbitrary: x)
  case (Cons y ys)
  define z where "z = (if lt y x then x else y)"
  define m where "m = foldl (\<lambda>x y. if lt y x then x else y) z ys"
  have z: "x = z \<or> lt x z" "y = z \<or> lt y z" "z = x \<or> z = y" using Cons.prems[of x y] by (auto simp: z_def)
  then have m: "m \<in> set (z # ys)" "\<forall>w\<in>set (z # ys). w = m \<or> lt w m" using Cons.IH[of z] Cons.prems by (auto simp: m_def)
  have "x = m \<or> lt x m" "y = m \<or> lt y m" using z(1,2) m(2) assms(1) by (metis list.set_intros(1))+
  moreover have "m \<in> set (x # y # ys)" using m(1) z(3) by auto
  ultimately show ?case using m(2) by (simp flip: z_def m_def)
qed simp

lemma max_by_iff:
  assumes "\<And>a b c. lt a b \<Longrightarrow> lt b c \<Longrightarrow> lt a c" "\<And>a. \<not> lt a a" "\<And>a b. a \<in> set xs \<Longrightarrow> b \<in> set xs \<Longrightarrow> a = b \<or> lt a b \<or> lt b a"
  shows "max_by lt xs = Some m \<longleftrightarrow> m \<in> set xs \<and> (\<forall>y\<in>set xs. y = m \<or> lt y m)"
proof (cases xs)
  case (Cons x ys)
  define n where "n = foldl (\<lambda>x y. if lt y x then x else y) x ys"
  have n: "n \<in> set xs" "\<forall>y\<in>set xs. y = n \<or> lt y n" using fold_select[of lt x ys, OF assms(1,3)[unfolded Cons]] by (simp_all add: n_def Cons)
  then have "m = n" if "m \<in> set xs" "\<forall>y\<in>set xs. y = m \<or> lt y m" using bspec[OF n(2) that(1)] bspec[OF that(2) n(1)] assms(1)[of m n m] assms(2)[of m] by auto
  moreover have "max_by lt xs = Some n" by (simp add: max_by_def n_def Cons)
  ultimately show ?thesis using n by auto
qed (simp add: max_by_def)

lemma min_by_max_by:
  assumes "\<And>a b c. lt a b \<Longrightarrow> lt b c \<Longrightarrow> lt a c" "\<And>a. \<not> lt a a" "\<And>a b. a \<in> set xs \<Longrightarrow> b \<in> set xs \<Longrightarrow> a = b \<or> lt a b \<or> lt b a"
  shows "min_by lt xs = max_by (\<lambda>a b. lt b a) xs"
proof (cases xs)
  case (Cons x ys)
  have "foldl (\<lambda>x y. if lt y x then y else x) x ys = foldl (\<lambda>x y. if lt x y then x else y) x ys"
    using assms(3)[unfolded Cons]
  proof (induction ys arbitrary: x)
    case (Cons y ys)
    have "(if lt y x then y else x) = (if lt x y then x else y)" using Cons.prems[of x y] assms(1,2) by auto
    moreover have "a = b \<or> lt a b \<or> lt b a" if "a \<in> set ((if lt x y then x else y) # ys)" "b \<in> set ((if lt x y then x else y) # ys)" for a b
      using Cons.prems that by (auto split: if_splits)
    ultimately show ?case using Cons.IH[of "if lt x y then x else y"] by simp
  qed simp
  then show ?thesis by (simp add: min_by_def max_by_def Cons)
qed (simp add: min_by_def max_by_def)

text \<open>The key that prices a model: the lowercase id itself; else the longest key that the id contains, the first in the alphabet among
  equally long ones; else the shortest key that contains the id.\<close>

definition chosen_key :: "string set \<Rightarrow> string \<Rightarrow> string \<Rightarrow> bool" where
  "chosen_key K m k \<longleftrightarrow> k \<in> K \<and>
     (if m \<in> K then k = m
      else if \<exists>j\<in>K. str_contains m j
      then str_contains m k \<and> (\<forall>j\<in>K. str_contains m j \<longrightarrow> length j < length k \<or> length j = length k \<and> k \<le> j)
      else str_contains k m \<and> (\<forall>j\<in>K. str_contains j m \<longrightarrow> length k < length j \<or> length k = length j \<and> k \<le> j))"

lemma by_key_orders:
  "family_less a b \<Longrightarrow> family_less b c \<Longrightarrow> family_less a c" "\<not> family_less a a"
  "closest_less a b \<Longrightarrow> closest_less b c \<Longrightarrow> closest_less a c" "\<not> closest_less a a"
  unfolding family_less_def closest_less_def by (elim disjE conjE; simp; fail)+ (auto dest: less_trans)

lemma by_key_total:
  assumes "hm_wf m" "a \<in> set m" "b \<in> set m"
  shows "a = b \<or> family_less a b \<or> family_less b a" "a = b \<or> closest_less a b \<or> closest_less b a"
proof -
  have "a = b" if "fst a = fst b" using eq_key_imp_eq_value[OF assms(1), of "fst a" "snd a" "snd b"] assms(2,3) that by (metis prod.collapse)
  then show "a = b \<or> family_less a b \<or> family_less b a" "a = b \<or> closest_less a b \<or> closest_less b a"
    unfolding family_less_def closest_less_def by (metis linorder_less_linear)+
qed

lemma select_by_key:
  assumes "hm_wf cat"
  shows "max_by family_less (filter P cat) = Some m \<longleftrightarrow> m \<in> set (filter P cat) \<and> (\<forall>y\<in>set (filter P cat). y = m \<or> family_less y m)"
    and "min_by closest_less (filter P cat) = Some m \<longleftrightarrow> m \<in> set (filter P cat) \<and> (\<forall>y\<in>set (filter P cat). y = m \<or> closest_less m y)"
proof -
  have total: "a = b \<or> family_less a b \<or> family_less b a" "a = b \<or> closest_less a b \<or> closest_less b a" "a = b \<or> closest_less b a \<or> closest_less a b"
    if "a \<in> set (filter P cat)" "b \<in> set (filter P cat)" for a b using by_key_total[OF assms, of a b] that by auto
  show "max_by family_less (filter P cat) = Some m \<longleftrightarrow> m \<in> set (filter P cat) \<and> (\<forall>y\<in>set (filter P cat). y = m \<or> family_less y m)"
    by (rule max_by_iff; (erule (1) total | erule (1) by_key_orders | rule by_key_orders))
  have "min_by closest_less (filter P cat) = max_by (\<lambda>a b. closest_less b a) (filter P cat)"
    by (rule min_by_max_by; (erule (1) total | erule (1) by_key_orders | rule by_key_orders))
  moreover have "max_by (\<lambda>a b. closest_less b a) (filter P cat) = Some m
      \<longleftrightarrow> m \<in> set (filter P cat) \<and> (\<forall>y\<in>set (filter P cat). y = m \<or> closest_less m y)"
    by (rule max_by_iff; (erule (1) total | erule (1) by_key_orders(3)[rotated] | rule by_key_orders))
  ultimately show "min_by closest_less (filter P cat) = Some m \<longleftrightarrow> m \<in> set (filter P cat) \<and> (\<forall>y\<in>set (filter P cat). y = m \<or> closest_less m y)"
    by simp
qed

lemma best_by_key:
  assumes "hm_wf cat" "(k, q) \<in> set cat"
  shows "(\<forall>y\<in>set (filter (\<lambda>(key, _). P key) cat). y = (k, q) \<or> family_less y (k, q))
      \<longleftrightarrow> (\<forall>j\<in>set (hm_keys cat). P j \<longrightarrow> length j < length k \<or> length j = length k \<and> k \<le> j)"
    and "(\<forall>y\<in>set (filter (\<lambda>(key, _). P key) cat). y = (k, q) \<or> closest_less (k, q) y)
      \<longleftrightarrow> (\<forall>j\<in>set (hm_keys cat). P j \<longrightarrow> length k < length j \<or> length k = length j \<and> k \<le> j)"
proof -
  have eq: "y = (k, q) \<longleftrightarrow> fst y = k" if "y \<in> set cat" for y
    using eq_key_imp_eq_value[OF assms(1), of k "snd y" q] that assms(2) by (metis prod.collapse fst_conv)
  have key: "y = (k, q) \<or> family_less y (k, q) \<longleftrightarrow> length (fst y) < length k \<or> length (fst y) = length k \<and> k \<le> fst y"
    "y = (k, q) \<or> closest_less (k, q) y \<longleftrightarrow> length k < length (fst y) \<or> length k = length (fst y) \<and> k \<le> fst y" if "y \<in> set cat" for y
    unfolding eq[OF that] family_less_def closest_less_def fst_conv le_less by metis+
  have all: "(\<forall>y\<in>set (filter (\<lambda>(key, _). P key) cat). S y) \<longleftrightarrow> (\<forall>j\<in>set (hm_keys cat). P j \<longrightarrow> T j)"
    if "\<And>y. y \<in> set cat \<Longrightarrow> S y \<longleftrightarrow> T (fst y)" for S T
    using that by (simp add: case_prod_beta) (metis fst_conv prod.collapse)
  show "(\<forall>y\<in>set (filter (\<lambda>(key, _). P key) cat). y = (k, q) \<or> family_less y (k, q))
      \<longleftrightarrow> (\<forall>j\<in>set (hm_keys cat). P j \<longrightarrow> length j < length k \<or> length j = length k \<and> k \<le> j)" by (rule all) (rule key(1))
  show "(\<forall>y\<in>set (filter (\<lambda>(key, _). P key) cat). y = (k, q) \<or> closest_less (k, q) y)
      \<longleftrightarrow> (\<forall>j\<in>set (hm_keys cat). P j \<longrightarrow> length k < length j \<or> length k = length j \<and> k \<le> j)" by (rule all) (rule key(2))
qed

lemma lookup_exact:
  assumes "hm_wf cat"
  shows "catalog_pricing wide (Some cat) model_id = Some p
    \<longleftrightarrow> (\<exists>k. chosen_key (set (hm_keys cat)) (to_lowercase wide model_id) k \<and> hm_get cat k = Some p)"
proof -
  define m where "m = to_lowercase wide model_id"
  let ?K = "set (hm_keys cat)"
  let ?inner = "filter (\<lambda>(key, _). str_contains m key) cat" and ?outer = "filter (\<lambda>(key, _). str_contains key m) cat"
  have inner: "max_by family_less ?inner = Some (k, q) \<longleftrightarrow> (k, q) \<in> set cat \<and> str_contains m k
      \<and> (\<forall>j\<in>?K. str_contains m j \<longrightarrow> length j < length k \<or> length j = length k \<and> k \<le> j)" for k q
    using best_by_key(1)[OF assms, of k q "str_contains m"] unfolding select_by_key(1)[OF assms] by auto
  have outer: "min_by closest_less ?outer = Some (k, q) \<longleftrightarrow> (k, q) \<in> set cat \<and> str_contains k m
      \<and> (\<forall>j\<in>?K. str_contains j m \<longrightarrow> length k < length j \<or> length k = length j \<and> k \<le> j)" for k q
    using best_by_key(2)[OF assms, of k q "\<lambda>j. str_contains j m"] unfolding select_by_key(2)[OF assms] by auto
  have none: "max_by family_less ?inner = None \<longleftrightarrow> \<not> (\<exists>j\<in>?K. str_contains m j)"
  proof -
    have "max_by family_less xs = None \<longleftrightarrow> xs = []" for xs by (simp add: max_by_def split: list.splits)
    then show ?thesis by (simp add: filter_empty_conv case_prod_beta)
  qed
  have get: "hm_get cat k = Some q \<longleftrightarrow> (k, q) \<in> set cat" for k q using assms by simp
  show ?thesis
  proof (cases "hm_get cat m")
    case (Some q)
    then have "m \<in> ?K" by (force simp: get)
    then show ?thesis using Some unfolding catalog_pricing_def chosen_key_def m_def[symmetric] Let_def by (simp del: set_map)
  next
    case None
    then have m: "m \<notin> ?K" by (simp add: map_of_eq_None_iff)
    have K: "k \<in> ?K" if "(k, q) \<in> set cat" for k q using that by force
    show ?thesis
    proof (cases "max_by family_less ?inner")
      case None
      then have "catalog_pricing wide (Some cat) model_id = Some p \<longleftrightarrow> (\<exists>k. min_by closest_less ?outer = Some (k, p))"
        using \<open>hm_get cat m = None\<close> by (auto simp: catalog_pricing_def simp flip: m_def)
      moreover have "chosen_key ?K m k \<longleftrightarrow> k \<in> ?K \<and> str_contains k m
          \<and> (\<forall>j\<in>?K. str_contains j m \<longrightarrow> length k < length j \<or> length k = length j \<and> k \<le> j)" for k
        unfolding chosen_key_def if_not_P[OF m] if_not_P[OF None[unfolded none]] ..
      ultimately show ?thesis using K unfolding outer m_def[symmetric] get by blast
    next
      case (Some e)
      then have "catalog_pricing wide (Some cat) model_id = Some p \<longleftrightarrow> (\<exists>k. max_by family_less ?inner = Some (k, p))"
        using \<open>hm_get cat m = None\<close> by (cases e) (auto simp: catalog_pricing_def simp flip: m_def)
      moreover have any: "\<exists>j\<in>?K. str_contains m j" using Some none by (metis option.distinct(1))
      have "chosen_key ?K m k \<longleftrightarrow> k \<in> ?K \<and> str_contains m k
          \<and> (\<forall>j\<in>?K. str_contains m j \<longrightarrow> length j < length k \<or> length j = length k \<and> k \<le> j)" for k
        unfolding chosen_key_def if_not_P[OF m] if_P[OF any] ..
      ultimately show ?thesis using K unfolding inner m_def[symmetric] get by blast
    qed
  qed
qed

text \<open>C26. The price of a model is decided by the rows of the catalog alone, not by the order in which they are seeded or a hash map is
  iterated. Each key is priced by its row and each bare model name by the most native row of that name: fewest path segments, then least
  provider, then least key. A model takes the price of its own name, else of the longest key that its id contains, else of the
  shortest key that contains it. Rows without a price do not count. The rows have different keys in lowercase.\<close>

theorem catalog_price_exact:
  assumes "lawful_lowercase wide" "distinct (map (\<lambda>r. to_lowercase wide (fst r)) rows)"
  shows "let R = {r \<in> set rows. priced_row r}
    in catalog_pricing wide (Some (seed_pricing_catalog wide rows)) model_id = Some p
       \<longleftrightarrow> (\<exists>k. chosen_key {k. \<exists>q. says wide R k q} (to_lowercase wide model_id) k \<and> says wide R k p)"
proof -
  define cat where "cat = seed_pricing_catalog wide rows"
  let ?R = "{r \<in> set rows. priced_row r}"
  have cat: "hm_wf cat" "\<And>k p. hm_get cat k = Some p \<longleftrightarrow> says wide ?R k p"
    using seed_exact[OF assms] by (simp_all add: seeded_def seed_pricing_catalog_def cat_def)
  have "set (hm_keys cat) = {k. \<exists>q. says wide ?R k q}"
    using hm_contains_get[of cat] by (auto simp: hm_contains_iff simp flip: cat(2))
  then show ?thesis using lookup_exact[OF cat(1)] unfolding Let_def cat_def[symmetric] cat(2) by simp
qed

subsection \<open>Costs\<close>

lemma millions_Fin: "\<exists>m. millions n = Fin m \<and> 0 \<le> m \<and> m \<le> 8192"
proof -
  have "of_nat (unat n) \<le> (of_nat (2 ^ 32) :: rat)" using unsigned_less[of n, where 'a = nat] unfolding of_nat_le_iff by simp
  then have "f64_le (millions n) (round_f64 (of_int 8192 * pow2 0))"
    unfolding millions_def f64_div_const.simps by (intro round_f64_mono) (simp_all add: pow2_def divide_nonneg_nonneg del: of_nat_unat)
  then have "f64_le (millions n) (Fin 8192)" by (subst (asm) round_f64_exact) (simp_all add: pow2_def)
  moreover have "amount (millions n)" by (simp add: millions_def del: of_nat_unat)
  ultimately show ?thesis by (cases "millions n") auto
qed

lemma millions_mono: "m \<le> n \<Longrightarrow> f64_le (millions m) (millions n)"
  unfolding millions_def f64_div_const.simps
  by (intro round_f64_mono divide_right_mono divide_nonneg_nonneg) (simp_all only: of_nat_le_iff word_le_nat_alt of_nat_0_le_iff zero_le_numeral)

lemma millions_0 [simp]: "millions 0 = Fin 0"
  by (simp add: millions_def round_f64_def)

text \<open>The price of some tokens at a rate of the catalog.\<close>

lemma part_Fin:
  assumes "0 \<le> a" "a \<le> pow2 1000"
  shows "\<exists>u. f64_mul (millions n) (Fin a) = Fin u \<and> 0 \<le> u"
proof -
  obtain m where m: "millions n = Fin m" "0 \<le> m" "m \<le> 8192" using millions_Fin by blast
  have "m * a \<le> 8192 * pow2 1000" using m assms by (intro mult_mono) auto
  also have "\<dots> = of_int 1 * pow2 1013" using pow2_add[of 13 1000] by (simp add: pow2_def[of 13])
  finally have "f64_le (round_f64 (m * a)) (round_f64 (of_int 1 * pow2 1013))" using m assms by (intro round_f64_mono) simp_all
  then have "f64_le (round_f64 (m * a)) (Fin (pow2 1013))" by (subst (asm) round_f64_exact) (simp_all add: pow2_less_iff)
  moreover have "amount (round_f64 (m * a))" using m assms by simp
  ultimately show ?thesis by (cases "round_f64 (m * a)") (auto simp: m)
qed

lemma part_mono:
  assumes "0 \<le> a" "m \<le> n"
  shows "f64_le (f64_mul (millions m) (Fin a)) (f64_mul (millions n) (Fin a))"
proof -
  obtain x y where "millions m = Fin x" "millions n = Fin y" "0 \<le> x" using millions_Fin by meson
  then show ?thesis using millions_mono[OF assms(2)] assms(1) by (simp add: round_f64_mono mult_right_mono)
qed

lemma cost_mono:
  assumes "0 \<le> a" "0 \<le> b" "i \<le> i'" "u \<le> u'" "p = \<lparr>input_per_million = Fin a, output_per_million = Fin b\<rparr>"
  shows "f64_le (cost p i u) (cost p i' u')" "amount (cost p i u)"
proof -
  have amount: "amount (f64_mul (millions n) (Fin c))" if "0 \<le> c" for n c using millions_Fin[of n] that by auto
  show "f64_le (cost p i u) (cost p i' u')" unfolding cost_def using assms by (auto intro: f64_add_mono part_mono amount)
  show "amount (cost p i u)" unfolding cost_def using assms by (auto intro: amount_add amount)
qed

text \<open>Rate cards: reads at most at the full rate, writes at most at 1.25 times the rate.\<close>

definition rate_card :: "CacheRates \<Rightarrow> bool" where
  "rate_card rates \<longleftrightarrow> (\<exists>c d. rates = \<lparr>read_multiplier = Fin c, write_multiplier = Fin d\<rparr> \<and> 0 \<le> c \<and> c \<le> 1 \<and> 0 \<le> d \<and> d \<le> 5 / 4)"

lemma rate_card_intro: "0 \<le> c \<Longrightarrow> c \<le> 1 \<Longrightarrow> 0 \<le> d \<Longrightarrow> d \<le> 5 / 4 \<Longrightarrow> rate_card \<lparr>read_multiplier = Fin c, write_multiplier = Fin d\<rparr>"
  unfolding rate_card_def by blast

lemma multipliers: "\<exists>c. CACHE_READ_INPUT_MULTIPLIER = Fin c \<and> 0 \<le> c \<and> c \<le> 1" "CACHE_WRITE_INPUT_MULTIPLIER = Fin (5 / 4)"
proof -
  have "round_f64 (of_int 1 * pow2 0) = Fin 1" "round_f64 (of_int 5 * pow2 (- 2)) = Fin (5 / 4)"
    by (subst round_f64_exact; simp add: pow2_def)+
  then have one: "round_f64 1 = Fin 1" and "CACHE_WRITE_INPUT_MULTIPLIER = Fin (5 / 4)"
    by (simp_all add: pow2_def CACHE_WRITE_INPUT_MULTIPLIER_def)
  then show "CACHE_WRITE_INPUT_MULTIPLIER = Fin (5 / 4)" by simp
  show "\<exists>c. CACHE_READ_INPUT_MULTIPLIER = Fin c \<and> 0 \<le> c \<and> c \<le> 1"
    using round_f64_mono[of "1 / 10" 1] amount_round[of "1 / 10"] one
    unfolding CACHE_READ_INPUT_MULTIPLIER_def by (cases "round_f64 (1 / 10)") simp_all
qed

lemma rate_cards: "rate_card (cache_rates provider model)" "rate_card (cache_rates_for_lane lane)"
proof -
  obtain c where c: "CACHE_READ_INPUT_MULTIPLIER = Fin c" "round_f64 (1 / 10) = Fin c" "0 \<le> c" "c \<le> 1"
    using multipliers(1) by (auto simp: CACHE_READ_INPUT_MULTIPLIER_def)
  have cards: "rate_card \<lparr>read_multiplier = CACHE_READ_INPUT_MULTIPLIER, write_multiplier = CACHE_WRITE_INPUT_MULTIPLIER\<rparr>"
    "rate_card \<lparr>read_multiplier = round_f64 (1 / 10), write_multiplier = Fin 0\<rparr>" "rate_card \<lparr>read_multiplier = Fin (1 / 4), write_multiplier = Fin 0\<rparr>"
    "rate_card \<lparr>read_multiplier = Fin 1, write_multiplier = CACHE_WRITE_INPUT_MULTIPLIER\<rparr>"
    unfolding c(1,2) multipliers(2) using c(3,4) by (simp_all add: rate_card_intro)
  then show "rate_card (cache_rates provider model)" by (simp add: cache_rates_def Let_def)
  show "rate_card (cache_rates_for_lane lane)" using cards by (cases lane) simp_all
qed

lemma cached_cost_mono:
  assumes "0 \<le> a" "a \<le> pow2 1000" "0 \<le> b" "p = \<lparr>input_per_million = Fin a, output_per_million = Fin b\<rparr>"
    "rate_card rates" "rate_card rates'" "f64_le (read_multiplier rates) (read_multiplier rates')" "f64_le (write_multiplier rates) (write_multiplier rates')"
    "i \<le> i'" "u \<le> u'" "r \<le> r'" "w \<le> w'"
  shows "f64_le (cost_with_cache_rates p i u r w rates) (cost_with_cache_rates p i' u' r' w' rates')"
    "amount (cost_with_cache_rates p i u r w rates)"
proof -
  have part: "f64_le (f64_mul (f64_mul (millions m) (Fin a)) (Fin c)) (f64_mul (f64_mul (millions n) (Fin a)) (Fin d))"
    "amount (f64_mul (f64_mul (millions m) (Fin a)) (Fin c))" if "m \<le> n" "0 \<le> c" "c \<le> d" for m n c d
  proof -
    obtain x y where "f64_mul (millions m) (Fin a) = Fin x" "f64_mul (millions n) (Fin a) = Fin y" "0 \<le> x"
      using part_Fin[OF assms(1,2)] by meson
    then show "f64_le (f64_mul (f64_mul (millions m) (Fin a)) (Fin c)) (f64_mul (f64_mul (millions n) (Fin a)) (Fin d))"
      "amount (f64_mul (f64_mul (millions m) (Fin a)) (Fin c))"
      using part_mono[OF assms(1) that(1)] that by (auto intro!: round_f64_mono mult_mono)
  qed
  note cost = cost_mono[OF assms(1,3) _ _ assms(4)]
  show "f64_le (cost_with_cache_rates p i u r w rates) (cost_with_cache_rates p i' u' r' w' rates')"
    "amount (cost_with_cache_rates p i u r w rates)"
    using assms(4-) part cost unfolding cost_with_cache_rates_def rate_card_def
    by (auto intro!: f64_add_mono amount_add)
qed

lemma add_nothing:
  assumes "amount x" "amount y"
  shows "f64_add (f64_add x y) (Fin 0) = f64_add x y"
proof (cases "is_finite x \<and> is_finite y")
  case True
  then obtain a b where "x = Fin a" "y = Fin b" by (metis is_finite.elims(2))
  then show ?thesis using assms round_f64_idem[of "a + b"] by (cases "round_f64 (a + b)") simp_all
next
  case False
  then show ?thesis using assms by (cases x; cases y) simp_all
qed

text \<open>C29. Costs are never understated. A response costs at least nothing and at least what a response with fewer tokens of any kind costs,
  under every rate card. Whatever provider label or cache lane it is billed under, it costs no more than under the card of an unknown
  provider. Without cached tokens it costs what its input and output tokens cost. Prices are finite, those for input up to
  \<open>2\<^sup>1\<^sup>0\<^sup>0\<^sup>0\<close>, and all sums and products are rounded.\<close>

theorem costs_never_understated:
  assumes "0 \<le> a" "a \<le> 2 ^ 1000" "0 \<le> b" "input \<le> input'" "outp \<le> outp'" "cached \<le> cached'" "written \<le> written'"
  shows "let p = \<lparr>input_per_million = Fin a, output_per_million = Fin b\<rparr>;
      by_label = cost_with_cache_for_provider p provider model; by_lane = cost_with_cache_for_metadata p
    in f64_le (by_label input outp cached written) (by_label input' outp' cached' written')
       \<and> f64_le (by_lane lane input outp cached written) (by_lane lane input' outp' cached' written')
       \<and> f64_le (by_label input outp cached written) (by_lane Residual input' outp' cached' written')
       \<and> f64_le (by_lane lane input outp cached written) (by_lane Residual input' outp' cached' written')
       \<and> f64_le (Fin 0) (by_label input outp cached written)
       \<and> by_label input outp 0 0 = cost p input outp \<and> by_lane lane input outp 0 0 = cost p input outp"
proof -
  let ?p = "\<lparr>input_per_million = Fin a, output_per_million = Fin b\<rparr>"
  have a: "a \<le> pow2 1000" using assms(2) by (simp add: pow2_def)
  note mono = cached_cost_mono[OF assms(1) a assms(3) refl _ _ _ _ assms(4-7)]
  have le: "f64_le (read_multiplier r) (read_multiplier r)" "f64_le (write_multiplier r) (write_multiplier r)"
    "f64_le (read_multiplier r) (read_multiplier (cache_rates_for_lane Residual))"
    "f64_le (write_multiplier r) (write_multiplier (cache_rates_for_lane Residual))" if "rate_card r" for r
    using that by (auto simp: rate_card_def multipliers(2))
  have plain: "cost_with_cache_rates ?p input outp 0 0 r = cost ?p input outp" if "rate_card r" for r
  proof -
    have zero: "f64_mul (Fin 0) (Fin c) = Fin 0" for c by (simp add: round_f64_def)
    obtain x y where "cost ?p input outp = f64_add x y" "amount x" "amount y"
      using millions_Fin[of input] millions_Fin[of outp] assms(1,3) by (auto simp: cost_def)
    then have "f64_add (cost ?p input outp) (Fin 0) = cost ?p input outp" using add_nothing by simp
    then show ?thesis using that by (auto simp: cost_with_cache_rates_def rate_card_def zero)
  qed
  show ?thesis
    using mono(1)[OF rate_cards(1) rate_cards(1) le(1,2)] mono(1)[OF rate_cards(2) rate_cards(2) le(1,2)]
      mono(1)[OF rate_cards(1) rate_cards(2) le(3,4)] mono(1)[OF rate_cards(2) rate_cards(2) le(3,4)] mono(2)[OF rate_cards(1) rate_cards(1) le(1,2)]
    by (simp add: cost_with_cache_for_provider_def cost_with_cache_for_metadata_def plain rate_cards amount_def Let_def)
qed

subsection \<open>Witnesses and examples\<close>

lemma byte_ascii_lower: "byte (ascii_lower c) = (if 65 \<le> byte c \<and> byte c \<le> 90 then byte c + 32 else byte c)"
  by (simp add: ascii_lower_def byte_def)

lemma ascii_lower_facts: "byte c < 128 \<Longrightarrow> byte (ascii_lower c) < 128" "ascii_lower (ascii_lower c) = ascii_lower c"
  "ascii_lower c = CHR ''/'' \<Longrightarrow> c = CHR ''/''"
proof -
  show "byte c < 128 \<Longrightarrow> byte (ascii_lower c) < 128" by (simp add: byte_ascii_lower)
  show "ascii_lower (ascii_lower c) = ascii_lower c" unfolding ascii_lower_def[of "ascii_lower c"] by (auto simp: byte_ascii_lower)
  have "byte (CHR ''/'') = 47" by (simp add: byte_def)
  then show "ascii_lower c = CHR ''/'' \<Longrightarrow> c = CHR ''/''"
    using byte_ascii_lower[of c] by (auto simp: ascii_lower_def split: if_splits)
qed

lemma lawful_ascii: "lawful_lowercase (\<lambda>s. s)"
  unfolding lawful_lowercase_def to_lowercase_def to_ascii_lowercase_def
  by (auto simp: list_all_iff ascii_lower_facts dest: ascii_lower_facts(3) sym)

definition glm_rows :: "row list" where
  "glm_rows = [(''zai-coding/GLM-5'', Fin 1, Fin 1), (''zai/glm-5'', Fin 2, Fin 2), (''local/glm'', Fin 0, Fin 0)]"

theorem catalog_price_exact_witness:
  "\<exists>k. chosen_key {k. \<exists>q. says (\<lambda>s. s) {r \<in> set glm_rows. priced_row r} k q} ''glm-5-air'' k
    \<and> says (\<lambda>s. s) {r \<in> set glm_rows. priced_row r} k \<lparr>input_per_million = Fin 2, output_per_million = Fin 2\<rparr>"
proof -
  have "distinct (map (\<lambda>r. to_lowercase (\<lambda>s. s) (fst r)) glm_rows)"
    "catalog_pricing (\<lambda>s. s) (Some (seed_pricing_catalog (\<lambda>s. s) glm_rows)) ''GLM-5-Air'' = Some \<lparr>input_per_million = Fin 2, output_per_million = Fin 2\<rparr>"
    "to_lowercase (\<lambda>s. s) ''GLM-5-Air'' = ''glm-5-air''"
    by code_simp+
  then show ?thesis using catalog_price_exact[OF lawful_ascii, of glm_rows "''GLM-5-Air''" "\<lparr>input_per_million = Fin 2, output_per_million = Fin 2\<rparr>"]
    by (simp add: Let_def)
qed

theorem costs_never_understated_witness:
  "f64_le (cost_with_cache_for_provider \<lparr>input_per_million = Fin 3, output_per_million = Fin 15\<rparr> ''anthropic'' ''claude'' 1000 10 500 20)
     (cost_with_cache_for_metadata \<lparr>input_per_million = Fin 3, output_per_million = Fin 15\<rparr> Residual 1000 10 500 30)"
  using costs_never_understated[of 3 15 1000 1000 10 10 500 500 20 30 "''anthropic''" "''claude''" Residual] by (simp add: Let_def)

text \<open>Three promises of the price list that are not kept. Two rows whose keys differ in case only share a bare name, and the one seeded
  first owns it, although the choice is said not to depend on the order. A row whose key has a capital letter is not found under that
  key, and another row of its name answers. And a model of the local runner, which is said to have no price, has one when its name is
  matched before the rule that excludes that runner.\<close>

theorem price_promises_broken:
  "let one = \<lparr>input_per_million = Fin 1, output_per_million = Fin 1\<rparr>; two = \<lparr>input_per_million = Fin 2, output_per_million = Fin 2\<rparr>;
      listed = \<lambda>rows. catalog_pricing (\<lambda>s. s) (Some (seed_pricing_catalog (\<lambda>s. s) rows))
   in listed [(''a/M'', Fin 1, Fin 1), (''a/m'', Fin 2, Fin 2)] ''m'' = Some one
    \<and> listed [(''a/m'', Fin 2, Fin 2), (''a/M'', Fin 1, Fin 1)] ''m'' = Some two
    \<and> listed [(''far/Glm'', Fin 2, Fin 2), (''ai/glm'', Fin 1, Fin 1)] ''far/Glm'' = Some one
    \<and> default_pricing ''ollama/llama-3.3-70b'' \<noteq> None \<and> default_pricing ''ollama/llama3'' = None"
proof -
  have "str_contains ''ollama/llama-3.3-70b'' ''llama-3.3-70b''" by code_simp
  then have "default_pricing ''ollama/llama-3.3-70b'' \<noteq> None" unfolding default_pricing_def Let_def by (simp del: str_contains.simps)
  moreover have "default_pricing ''ollama/llama3'' = None" by code_simp
  moreover have "catalog_pricing (\<lambda>s. s) (Some (seed_pricing_catalog (\<lambda>s. s) [(''a/M'', Fin 1, Fin 1), (''a/m'', Fin 2, Fin 2)])) ''m''
      = Some \<lparr>input_per_million = Fin 1, output_per_million = Fin 1\<rparr>"
    "catalog_pricing (\<lambda>s. s) (Some (seed_pricing_catalog (\<lambda>s. s) [(''a/m'', Fin 2, Fin 2), (''a/M'', Fin 1, Fin 1)])) ''m''
      = Some \<lparr>input_per_million = Fin 2, output_per_million = Fin 2\<rparr>"
    "catalog_pricing (\<lambda>s. s) (Some (seed_pricing_catalog (\<lambda>s. s) [(''far/Glm'', Fin 2, Fin 2), (''ai/glm'', Fin 1, Fin 1)])) ''far/Glm''
      = Some \<lparr>input_per_million = Fin 1, output_per_million = Fin 1\<rparr>"
    by code_simp+
  ultimately show ?thesis unfolding Let_def by blast
qed

end
