(* ===== verification/Task_Supervisor.thy ===== *)
theory Task_Supervisor
  imports Graph_Model
begin

text \<open>
  Model of \<^verbatim>\<open>crates/octos-agent/src/task_supervisor.rs\<close>: the table of background tasks, what moves a task from one state to the next, the
  signals that its end sends out, and the ledger from which the table is rebuilt after a restart. Pipeline nodes are its tasks too.

  The state of a supervisor is the record \<open>supervisor\<close>. It includes the two things that supervisors share: the set of tasks whose
  worker is alive in this process, and the files. Calls of observers are entries of a log, and an observer that is not installed is a
  flag. An operation gets what it reads of the clock and the id of a new task as arguments; two changes of one task in an operation may get the same time. A JSON value is its text; encoding and
  decoding of a ledger row, lowercase of non-ASCII text and failing writes are fields of the record \<open>task_host\<close>. Metrics, progress
  events and log lines are left out, and so is the error text of a failed write. A panic sets a flag, and the rest of the operation is skipped. Each operation is one step: where the code releases a lock between two parts, nothing comes between.
\<close>

subsection \<open>Tasks\<close>

datatype TaskStatus = TaskSpawned | TaskRunning | TaskCompleted | TaskFailed | TaskCancelled | TaskParked

definition is_active :: "TaskStatus \<Rightarrow> bool" where
  "is_active st \<longleftrightarrow> st = TaskSpawned \<or> st = TaskRunning"

definition status_is_terminal :: "TaskStatus \<Rightarrow> bool" where
  "status_is_terminal st \<longleftrightarrow> st = TaskCompleted \<or> st = TaskFailed \<or> st = TaskCancelled"

primrec status_as_str :: "TaskStatus \<Rightarrow> string" where
  "status_as_str TaskSpawned = ''spawned''"
| "status_as_str TaskRunning = ''running''"
| "status_as_str TaskCompleted = ''completed''"
| "status_as_str TaskFailed = ''failed''"
| "status_as_str TaskCancelled = ''cancelled''"
| "status_as_str TaskParked = ''parked''"

datatype ChildSessionTerminalState = ChildCompleted | RetryableFailure | TerminalFailure

datatype ChildSessionJoinState = Joined | Orphaned

datatype ChildSessionFailureAction = RetryChild | EscalateChild

datatype TaskRuntimeState = RtSpawned | ExecutingTool | ResolvingOutputs | VerifyingOutputs | DeliveringOutputs | CleaningUp
  | RtCompleted | RtFailed | RtCancelled

datatype TaskLifecycleState = LifeQueued | LifeRunning | LifeVerifying | LifeReady | LifeFailed | LifeCancelled

record BackgroundTask =
  bt_id :: string
  bt_tool_name :: string
  bt_tool_call_id :: string
  bt_parent_session_key :: "string option"
  bt_child_session_key :: "string option"
  bt_child_terminal_state :: "ChildSessionTerminalState option"
  bt_child_join_state :: "ChildSessionJoinState option"
  bt_child_joined_at :: "int option"
  bt_child_failure_action :: "ChildSessionFailureAction option"
  bt_task_ledger_path :: "string option"
  bt_status :: TaskStatus
  bt_runtime_state :: TaskRuntimeState
  bt_runtime_detail :: "string option"
  bt_started_at :: int
  bt_updated_at :: int
  bt_completed_at :: "int option"
  bt_output_files :: "string list"
  bt_error :: "string option"
  bt_final_output :: "string option"
  bt_failed_by_observer :: bool
  bt_session_key :: "string option"
  bt_tool_input :: "string option"
  bt_originating_client_message_id :: "string option"
  bt_source :: "string option"
  bt_role :: "string option"
  bt_summary :: "string option"
  bt_artifact_count :: "u32 option"
  bt_runtime_policy_stamp :: "string option"
  bt_projection_metadata :: "string option"
  bt_workspace_root :: "string option"

definition lifecycle_state :: "BackgroundTask \<Rightarrow> TaskLifecycleState" where
  "lifecycle_state t = (case bt_status t of
       TaskSpawned \<Rightarrow> LifeQueued
     | TaskCompleted \<Rightarrow> LifeReady
     | TaskFailed \<Rightarrow> LifeFailed
     | TaskCancelled \<Rightarrow> LifeCancelled
     | TaskParked \<Rightarrow> LifeCancelled
     | TaskRunning \<Rightarrow> (case bt_runtime_state t of
         RtSpawned \<Rightarrow> LifeRunning | ExecutingTool \<Rightarrow> LifeRunning
       | RtFailed \<Rightarrow> LifeFailed | RtCancelled \<Rightarrow> LifeCancelled | _ \<Rightarrow> LifeVerifying))"

definition is_terminal_runtime_state :: "TaskRuntimeState \<Rightarrow> bool" where
  "is_terminal_runtime_state st \<longleftrightarrow> st = RtCompleted \<or> st = RtFailed \<or> st = RtCancelled"

primrec child_failure_action_for_terminal_state :: "ChildSessionTerminalState \<Rightarrow> ChildSessionFailureAction option" where
  "child_failure_action_for_terminal_state ChildCompleted = None"
| "child_failure_action_for_terminal_state RetryableFailure = Some RetryChild"
| "child_failure_action_for_terminal_state TerminalFailure = Some EscalateChild"

definition task_snapshot_advances :: "BackgroundTask \<Rightarrow> BackgroundTask \<Rightarrow> bool" where
  "task_snapshot_advances candidate existing \<longleftrightarrow>
     (if bt_updated_at existing < bt_updated_at candidate then True
      else if bt_updated_at candidate < bt_updated_at existing then False
      else (status_is_terminal (bt_status candidate) \<and> \<not> status_is_terminal (bt_status existing))
        \<or> (bt_status existing = TaskFailed \<and> bt_failed_by_observer existing
           \<and> (bt_status candidate = TaskCompleted \<or> (bt_status candidate = TaskFailed \<and> \<not> bt_failed_by_observer candidate))))"

subsection \<open>Signals\<close>

record SpawnOnlyFailureSignal =
  sg_task_id :: string
  sg_tool_name :: string
  sg_tool_input :: string
  sg_error_message :: string
  sg_suggested_alternatives :: "string list"
  sg_parent_session_key :: "string option"
  sg_originating_client_message_id :: "string option"

datatype TerminalOutcome = OutcomeCompleted | OutcomeFailed SpawnOnlyFailureSignal

record RelaunchRequest =
  rq_original_task_id :: string
  rq_new_task_id :: string
  rq_tool_name :: string
  rq_tool_call_id :: string
  rq_parent_session_key :: "string option"
  rq_session_key :: "string option"
  rq_tool_input :: string
  rq_from_node :: "string option"

datatype sup_event = Changed BackgroundTask | Registered BackgroundTask | Signalled SpawnOnlyFailureSignal
  | Ended BackgroundTask bool TerminalOutcome | Relaunched RelaunchRequest | Restored "BackgroundTask list"

text \<open>\<^verbatim>\<open>parse_alternatives\<close> looks for the marker in the lowercase text and cuts the original text at that place; \<open>None\<close> is the panic of a cut
  outside the text or inside a character.\<close>

definition trim_quotes :: "string \<Rightarrow> string" where
  "trim_quotes s = (let quoted = (\<lambda>c. c = CHR 0x22 \<or> c = CHR 0x27) in rev (dropWhile quoted (rev (dropWhile quoted s))))"

definition parse_alternatives :: "(string \<Rightarrow> string) \<Rightarrow> string \<Rightarrow> string list option" where
  "parse_alternatives wide error_text =
     (let needle = ''available:'' in
      case find_text needle (to_lowercase wide error_text) of
        None \<Rightarrow> Some []
      | Some start \<Rightarrow>
          if is_char_boundary error_text (start + length needle)
          then let tail = drop (start + length needle) error_text;
                   clause = takeWhile (\<lambda>c. c \<notin> {CHR 0x0A, CHR ''.'', CHR '';''}) tail
               in Some (filter (\<lambda>i. i \<noteq> []) (map (\<lambda>i. trim_quotes (trim i)) (split_char (CHR '','') clause)))
          else None)"

subsection \<open>Acknowledgements and pending failures\<close>

definition MAX_PENDING_FAILURES :: nat where "MAX_PENDING_FAILURES = 256"

definition MAX_FAILURE_SIGNAL_EMITTED_IDS :: nat where "MAX_FAILURE_SIGNAL_EMITTED_IDS = 1024"

record PendingFailure =
  pf_tool_call_id :: string
  pf_signal :: SpawnOnlyFailureSignal

record AckAndPending =
  ap_acked :: "string set"
  ap_pending :: "(string, PendingFailure) hashmap"
  ap_pending_order :: "string list"
  ap_emitted :: "string list"
  ap_emitted_order :: "string list"
  ap_notified :: "string list"
  ap_notified_order :: "string list"

fun pop_pending :: "(string, PendingFailure) hashmap \<Rightarrow> string list \<Rightarrow> (string, PendingFailure) hashmap \<times> string list" where
  "pop_pending pending [] = (pending, [])"
| "pop_pending pending (stale # order) = (if hm_contains pending stale then (hm_remove stale pending, order) else pop_pending pending order)"

definition insert_pending :: "string \<Rightarrow> PendingFailure \<Rightarrow> AckAndPending \<Rightarrow> AckAndPending" where
  "insert_pending task_id value a =
     (if hm_contains (ap_pending a) task_id then a\<lparr>ap_pending := hm_insert task_id value (ap_pending a)\<rparr>
      else let (pending, order) = (if MAX_PENDING_FAILURES \<le> length (ap_pending a) then pop_pending (ap_pending a) (ap_pending_order a)
             else (ap_pending a, ap_pending_order a))
           in a\<lparr>ap_pending := hm_insert task_id value pending, ap_pending_order := order @ [task_id]\<rparr>)"

definition forget_pending_in_order :: "string \<Rightarrow> AckAndPending \<Rightarrow> AckAndPending" where
  "forget_pending_in_order task_id a = a\<lparr>ap_pending_order := remove1 task_id (ap_pending_order a)\<rparr>"

definition remove_pending :: "string \<Rightarrow> AckAndPending \<Rightarrow> AckAndPending" where
  "remove_pending task_id a = (if hm_contains (ap_pending a) task_id
     then forget_pending_in_order task_id (a\<lparr>ap_pending := hm_remove task_id (ap_pending a)\<rparr>) else a)"

definition drain_pending_for_tool_call :: "string \<Rightarrow> AckAndPending \<Rightarrow> PendingFailure list \<times> AckAndPending" where
  "drain_pending_for_tool_call tool_call_id a =
     (let hits = filter (\<lambda>(_, pf). pf_tool_call_id pf = tool_call_id) (ap_pending a)
      in (map snd hits, foldl (\<lambda>b i. forget_pending_in_order i b)
           (a\<lparr>ap_pending := filter (\<lambda>(_, pf). pf_tool_call_id pf \<noteq> tool_call_id) (ap_pending a)\<rparr>) (map fst hits)))"

text \<open>A set of ids in which the oldest give way when there are more than the limit.\<close>

fun evict_oldest :: "string list \<Rightarrow> string list \<Rightarrow> string list \<times> string list" where
  "evict_oldest ids [] = (ids, [])"
| "evict_oldest ids (stale # order) = (if MAX_FAILURE_SIGNAL_EMITTED_IDS < length ids then evict_oldest (removeAll stale ids) order
     else (ids, stale # order))"

definition mark_emitted :: "string \<Rightarrow> AckAndPending \<Rightarrow> bool \<times> AckAndPending" where
  "mark_emitted task_id a = (if task_id \<in> set (ap_emitted a) then (False, a)
     else let (ids, order) = evict_oldest (task_id # ap_emitted a) (ap_emitted_order a @ [task_id])
          in (True, a\<lparr>ap_emitted := ids, ap_emitted_order := order\<rparr>))"

definition mark_terminal_notified :: "string \<Rightarrow> AckAndPending \<Rightarrow> bool \<times> AckAndPending" where
  "mark_terminal_notified task_id a = (if task_id \<in> set (ap_notified a) then (False, a)
     else let (ids, order) = evict_oldest (task_id # ap_notified a) (ap_notified_order a @ [task_id])
          in (True, a\<lparr>ap_notified := ids, ap_notified_order := order\<rparr>))"

subsection \<open>The supervisor\<close>

record PersistedTaskRecord =
  pt_schema_version :: u32
  pt_task :: BackgroundTask

definition CURRENT_TASK_LEDGER_SCHEMA :: u32 where "CURRENT_TASK_LEDGER_SCHEMA = 1"

type_synonym disk = "(string, string list) hashmap"

record task_host =
  th_lowercase :: "string \<Rightarrow> string"
  th_encode :: "PersistedTaskRecord \<Rightarrow> string"
  th_decode :: "string \<Rightarrow> PersistedTaskRecord option"
  th_append_ok :: "string \<Rightarrow> disk \<Rightarrow> bool"
  th_mkdir_ok :: "string \<Rightarrow> disk \<Rightarrow> bool"
  th_read_ok :: "string \<Rightarrow> disk \<Rightarrow> bool"
  th_max_children :: "string option"

record observers =
  ob_change :: bool
  ob_failure :: bool
  ob_terminal :: bool
  ob_register :: bool
  ob_relaunch :: bool
  ob_restore :: bool
  ob_restore_undelivered :: bool

record supervisor =
  sv_tasks :: "(string, BackgroundTask) hashmap"
  sv_poisoned_parents :: "string set"
  sv_cancel_tokens :: "(string, bool) hashmap"
  sv_ack_and_pending :: AckAndPending
  sv_persistence_path :: "string option"
  sv_observers :: observers
  sv_log :: "sup_event list"
  sv_panicked :: bool
  sv_live :: "string set"
  sv_disk :: disk

definition supervisor_new :: "observers \<Rightarrow> string set \<Rightarrow> disk \<Rightarrow> supervisor" where
  "supervisor_new obs live disk = \<lparr>sv_tasks = [], sv_poisoned_parents = {}, sv_cancel_tokens = [],
     sv_ack_and_pending = \<lparr>ap_acked = {}, ap_pending = [], ap_pending_order = [], ap_emitted = [], ap_emitted_order = [],
       ap_notified = [], ap_notified_order = []\<rparr>,
     sv_persistence_path = None, sv_observers = obs, sv_log = [], sv_panicked = False, sv_live = live, sv_disk = disk\<rparr>"

definition emit :: "bool \<Rightarrow> sup_event \<Rightarrow> supervisor \<Rightarrow> supervisor" where
  "emit installed e s = (if installed then s\<lparr>sv_log := sv_log s @ [e]\<rparr> else s)"

definition put_task :: "BackgroundTask \<Rightarrow> supervisor \<Rightarrow> supervisor" where
  "put_task t s = s\<lparr>sv_tasks := hm_insert (bt_id t) t (sv_tasks s)\<rparr>"

definition get_task :: "string \<Rightarrow> supervisor \<Rightarrow> BackgroundTask option" where
  "get_task task_id s = hm_get (sv_tasks s) task_id"

definition append_persisted_task :: "task_host \<Rightarrow> string \<Rightarrow> string \<Rightarrow> disk \<Rightarrow> disk option" where
  "append_persisted_task h path json d = (if th_append_ok h path d
     then Some (hm_insert path ((case hm_get d path of Some ls \<Rightarrow> ls | None \<Rightarrow> []) @ [json]) d) else None)"

definition task_line :: "task_host \<Rightarrow> BackgroundTask \<Rightarrow> string" where
  "task_line h t = th_encode h \<lparr>pt_schema_version = CURRENT_TASK_LEDGER_SCHEMA, pt_task = t\<rparr>"

definition persist_snapshot_strict :: "task_host \<Rightarrow> BackgroundTask \<Rightarrow> supervisor \<Rightarrow> supervisor option" where
  "persist_snapshot_strict h t s = (case sv_persistence_path s of
       None \<Rightarrow> Some s
     | Some path \<Rightarrow> map_option (\<lambda>d. s\<lparr>sv_disk := d\<rparr>) (append_persisted_task h path (task_line h t) (sv_disk s)))"

definition persist_snapshot :: "task_host \<Rightarrow> BackgroundTask \<Rightarrow> supervisor \<Rightarrow> supervisor" where
  "persist_snapshot h t s = (case persist_snapshot_strict h t s of Some s1 \<Rightarrow> s1 | None \<Rightarrow> s)"

definition notify_change :: "BackgroundTask \<Rightarrow> supervisor \<Rightarrow> supervisor" where
  "notify_change t s = emit (ob_change (sv_observers s)) (Changed t) s"

text \<open>What most operations do with a task that they changed: store it, write its row, tell the observers.\<close>

definition publish :: "task_host \<Rightarrow> BackgroundTask \<Rightarrow> supervisor \<Rightarrow> supervisor" where
  "publish h t s = notify_change t (persist_snapshot h t (put_task t s))"

definition was_synth_ack_emitted :: "string \<Rightarrow> supervisor \<Rightarrow> bool" where
  "was_synth_ack_emitted tool_call_id s \<longleftrightarrow> tool_call_id \<noteq> [] \<and> tool_call_id \<in> ap_acked (sv_ack_and_pending s)"

definition invoke_failure_callback :: "SpawnOnlyFailureSignal \<Rightarrow> supervisor \<Rightarrow> supervisor" where
  "invoke_failure_callback sg s = emit (ob_failure (sv_observers s)) (Signalled sg) s"

definition dispatch_failure_signal :: "string \<Rightarrow> SpawnOnlyFailureSignal \<Rightarrow> supervisor \<Rightarrow> supervisor" where
  "dispatch_failure_signal task_id sg s = (case mark_emitted task_id (sv_ack_and_pending s) of
       (False, _) \<Rightarrow> s
     | (True, a) \<Rightarrow> invoke_failure_callback sg (s\<lparr>sv_ack_and_pending := a\<rparr>))"

definition mark_synth_ack_emitted :: "string \<Rightarrow> supervisor \<Rightarrow> supervisor" where
  "mark_synth_ack_emitted tool_call_id s = (if tool_call_id = [] then s
     else let a = sv_ack_and_pending s;
              (drained, a1) = drain_pending_for_tool_call tool_call_id (a\<lparr>ap_acked := insert tool_call_id (ap_acked a)\<rparr>)
          in foldl (\<lambda>v pf. dispatch_failure_signal (sg_task_id (pf_signal pf)) (pf_signal pf) v) (s\<lparr>sv_ack_and_pending := a1\<rparr>) drained)"

definition failure_signal :: "string option \<Rightarrow> string list \<Rightarrow> BackgroundTask \<Rightarrow> SpawnOnlyFailureSignal" where
  "failure_signal parent alternatives t = \<lparr>sg_task_id = bt_id t, sg_tool_name = bt_tool_name t,
     sg_tool_input = (case bt_tool_input t of Some v \<Rightarrow> v | None \<Rightarrow> ''null''),
     sg_error_message = (case bt_error t of Some e \<Rightarrow> e | None \<Rightarrow> []), sg_suggested_alternatives = alternatives,
     sg_parent_session_key = parent, sg_originating_client_message_id = bt_originating_client_message_id t\<rparr>"

definition notify_failure :: "string list \<Rightarrow> BackgroundTask \<Rightarrow> supervisor \<Rightarrow> supervisor" where
  "notify_failure alternatives t s =
     (let a = sv_ack_and_pending s; sg = failure_signal (bt_parent_session_key t) alternatives t in
      if bt_tool_call_id t = [] \<or> bt_id t \<in> set (ap_emitted a) then s
      else if bt_tool_call_id t \<in> ap_acked a
      then invoke_failure_callback sg (s\<lparr>sv_ack_and_pending := snd (mark_emitted (bt_id t) a)\<rparr>)
      else s\<lparr>sv_ack_and_pending := insert_pending (bt_id t) \<lparr>pf_tool_call_id = bt_tool_call_id t, pf_signal = sg\<rparr> a\<rparr>)"

definition notify_terminal :: "string list \<Rightarrow> BackgroundTask \<Rightarrow> supervisor \<Rightarrow> supervisor" where
  "notify_terminal alternatives t s = (if \<not> ob_terminal (sv_observers s) \<or> \<not> status_is_terminal (bt_status t) then s
     else (case mark_terminal_notified (bt_id t) (sv_ack_and_pending s) of
         (False, _) \<Rightarrow> s
       | (True, a) \<Rightarrow>
           let s1 = s\<lparr>sv_ack_and_pending := a\<rparr>
           in emit True (if bt_status t = TaskCompleted then Ended t False OutcomeCompleted
                else Ended t (was_synth_ack_emitted (bt_tool_call_id t) s1)
                  (OutcomeFailed (failure_signal (or_else (bt_parent_session_key t) (bt_session_key t)) alternatives t))) s1))"

definition drain_pending_failure_for_task :: "string \<Rightarrow> supervisor \<Rightarrow> supervisor" where
  "drain_pending_failure_for_task task_id s = (if task_id = [] then s
     else s\<lparr>sv_ack_and_pending := remove_pending task_id (sv_ack_and_pending s)\<rparr>)"

subsection \<open>Transitions\<close>

definition mark_running :: "task_host \<Rightarrow> int \<Rightarrow> string \<Rightarrow> supervisor \<Rightarrow> supervisor" where
  "mark_running h now task_id s = (case get_task task_id s of
       None \<Rightarrow> s
     | Some t \<Rightarrow> if status_is_terminal (bt_status t) then s
         else publish h (t\<lparr>bt_status := TaskRunning, bt_runtime_state := ExecutingTool, bt_runtime_detail := None, bt_updated_at := now\<rparr>) s)"

definition mark_runtime_state :: "task_host \<Rightarrow> int \<Rightarrow> string \<Rightarrow> TaskRuntimeState \<Rightarrow> string option \<Rightarrow> supervisor \<Rightarrow> supervisor" where
  "mark_runtime_state h now task_id runtime_state runtime_detail s = (case get_task task_id s of
       None \<Rightarrow> s
     | Some t \<Rightarrow> if status_is_terminal (bt_status t) then s
         else publish h (t\<lparr>bt_runtime_state := runtime_state, bt_runtime_detail := runtime_detail, bt_updated_at := now\<rparr>) s)"

definition completed_task :: "int \<Rightarrow> string list \<Rightarrow> BackgroundTask \<Rightarrow> BackgroundTask" where
  "completed_task now output_files t0 =
     (let t = (if status_is_terminal (bt_status t0) then t0\<lparr>bt_failed_by_observer := False, bt_error := None, bt_summary := None\<rparr> else t0);
          artifact_count = of_nat (length output_files) :: u32
      in t\<lparr>bt_status := TaskCompleted, bt_runtime_state := RtCompleted, bt_updated_at := now, bt_completed_at := Some now,
           bt_output_files := output_files,
           bt_artifact_count := (if bt_artifact_count t \<noteq> None \<or> 0 < artifact_count then Some artifact_count else None),
           bt_summary := (case bt_summary t of Some m \<Rightarrow> Some m
             | None \<Rightarrow> Some (if 0 < artifact_count
                 then bt_tool_name t @ '' completed with '' @ nat_text (unat artifact_count) @ '' artifact(s)''
                 else bt_tool_name t @ '' completed''))\<rparr>)"

definition mark_completed :: "task_host \<Rightarrow> int \<Rightarrow> string \<Rightarrow> string list \<Rightarrow> supervisor \<Rightarrow> supervisor" where
  "mark_completed h now task_id output_files s = (case get_task task_id s of
       None \<Rightarrow> s
     | Some t \<Rightarrow> if status_is_terminal (bt_status t) \<and> \<not> (bt_status t = TaskFailed \<and> bt_failed_by_observer t) then s
         else let t1 = completed_task now output_files t
              in drain_pending_failure_for_task (bt_id t1) (notify_terminal [] t1 (publish h t1 s)))"

definition FINAL_OUTPUT_CAP_BYTES :: nat where "FINAL_OUTPUT_CAP_BYTES = 128 * 1024"

definition truncated_utf8 :: "string \<Rightarrow> nat \<Rightarrow> string \<Rightarrow> string" where
  "truncated_utf8 t max_len marker = (if length t \<le> max_len then t else take (snap_boundary t max_len) t @ marker)"

definition record_final_output :: "task_host \<Rightarrow> int \<Rightarrow> string \<Rightarrow> string \<Rightarrow> supervisor \<Rightarrow> supervisor" where
  "record_final_output h now task_id outp s = (case get_task task_id s of
       None \<Rightarrow> s
     | Some t \<Rightarrow> publish h (t\<lparr>bt_final_output := Some (truncated_utf8 outp FINAL_OUTPUT_CAP_BYTES
           ([CHR 0x0A, CHR 0xE2, CHR 0x80, CHR 0xA6] @ ''[final output truncated]'')), bt_updated_at := now\<rparr>) s)"

definition failed_task :: "int \<Rightarrow> string \<Rightarrow> bool \<Rightarrow> BackgroundTask \<Rightarrow> BackgroundTask" where
  "failed_task now err observed t = t\<lparr>bt_status := TaskFailed, bt_runtime_state := RtFailed,
     bt_failed_by_observer := (if \<not> observed then False else if bt_status t \<noteq> TaskFailed then True else bt_failed_by_observer t),
     bt_updated_at := now, bt_completed_at := Some now,
     bt_summary := (case bt_summary t of Some m \<Rightarrow> Some m | None \<Rightarrow> Some (concat (take 1200 (scalars err)))),
     bt_error := Some err\<rparr>"

text \<open>The signals of a failure are built from the error text, which may panic; the row is written and the observers of changes are told
  by then.\<close>

definition report_failure :: "task_host \<Rightarrow> BackgroundTask \<Rightarrow> supervisor \<Rightarrow> supervisor" where
  "report_failure h t s = (if bt_tool_call_id t = [] \<and> \<not> ob_terminal (sv_observers s) then s
     else (case parse_alternatives (th_lowercase h) (case bt_error t of Some e \<Rightarrow> e | None \<Rightarrow> []) of
         None \<Rightarrow> s\<lparr>sv_panicked := True\<rparr>
       | Some alternatives \<Rightarrow> notify_terminal alternatives t (notify_failure alternatives t s)))"

definition mark_failed_inner :: "task_host \<Rightarrow> int \<Rightarrow> string \<Rightarrow> string \<Rightarrow> bool \<Rightarrow> supervisor \<Rightarrow> supervisor" where
  "mark_failed_inner h now task_id err observed s = (case get_task task_id s of
       None \<Rightarrow> s
     | Some t \<Rightarrow> if bt_status t = TaskCancelled \<or> bt_status t = TaskCompleted then s
         else let t1 = failed_task now err observed t; s1 = publish h t1 s
              in if bt_status t = TaskFailed then s1 else report_failure h t1 s1)"

definition mark_failed :: "task_host \<Rightarrow> int \<Rightarrow> string \<Rightarrow> string \<Rightarrow> supervisor \<Rightarrow> supervisor" where
  "mark_failed h now task_id err s = mark_failed_inner h now task_id err False s"

definition mark_failed_observed :: "task_host \<Rightarrow> int \<Rightarrow> string \<Rightarrow> string \<Rightarrow> supervisor \<Rightarrow> supervisor" where
  "mark_failed_observed h now task_id err s = mark_failed_inner h now task_id err True s"

text \<open>A panic ends the loop over the tasks to fail.\<close>

definition mark_all_failed :: "task_host \<Rightarrow> int \<Rightarrow> string \<Rightarrow> string list \<Rightarrow> supervisor \<Rightarrow> supervisor" where
  "mark_all_failed h now reason ids s = foldl (\<lambda>v i. if sv_panicked v then v else mark_failed h now i reason v) s ids"

definition mark_parked :: "task_host \<Rightarrow> int \<Rightarrow> string \<Rightarrow> string \<Rightarrow> supervisor \<Rightarrow> supervisor" where
  "mark_parked h now task_id reason s = (case get_task task_id s of
       None \<Rightarrow> s
     | Some t \<Rightarrow> if status_is_terminal (bt_status t) then s
         else publish h (t\<lparr>bt_status := TaskParked, bt_runtime_state := RtFailed, bt_error := Some reason, bt_runtime_detail := Some reason,
                bt_updated_at := now\<rparr>) s)"

definition is_pipeline_node :: "BackgroundTask \<Rightarrow> bool" where
  "is_pipeline_node t = starts_with (bt_tool_name t) ''pipeline:''"

definition active_descendants :: "string \<Rightarrow> supervisor \<Rightarrow> string list" where
  "active_descendants tool_call_id s =
     map bt_id (filter (\<lambda>t. bt_tool_call_id t = tool_call_id \<and> is_active (bt_status t) \<and> is_pipeline_node t) (hm_values (sv_tasks s)))"

definition mark_descendants_failed :: "task_host \<Rightarrow> int \<Rightarrow> string \<Rightarrow> string \<Rightarrow> supervisor \<Rightarrow> nat \<times> supervisor" where
  "mark_descendants_failed h now tool_call_id reason s = (if tool_call_id = [] then (0, s)
     else (length (active_descendants tool_call_id s), mark_all_failed h now reason (active_descendants tool_call_id s) s))"

definition mark_child_session_outcome :: "task_host \<Rightarrow> int \<Rightarrow> string \<Rightarrow> ChildSessionTerminalState \<Rightarrow> ChildSessionJoinState
    \<Rightarrow> supervisor \<Rightarrow> supervisor" where
  "mark_child_session_outcome h now task_id terminal_state join_state s = (case get_task task_id s of
       None \<Rightarrow> s
     | Some t \<Rightarrow> publish h (t\<lparr>bt_child_terminal_state := Some terminal_state, bt_child_join_state := Some join_state,
         bt_child_joined_at := (case join_state of Joined \<Rightarrow> Some now | Orphaned \<Rightarrow> None),
         bt_child_failure_action := child_failure_action_for_terminal_state terminal_state, bt_updated_at := now\<rparr>) s)"

subsection \<open>Registration\<close>

definition MAX_CHILDREN_PER_PARENT :: nat where "MAX_CHILDREN_PER_PARENT = 200"

definition max_children_per_parent :: "task_host \<Rightarrow> nat" where
  "max_children_per_parent h = (case th_max_children h of
       None \<Rightarrow> MAX_CHILDREN_PER_PARENT
     | Some raw \<Rightarrow> (case parse_usize raw of Some cap \<Rightarrow> if 0 < cap then cap else MAX_CHILDREN_PER_PARENT | None \<Rightarrow> MAX_CHILDREN_PER_PARENT))"

datatype RegisterTaskError = ChildFanoutExceeded string nat nat | ParentTerminal string TaskStatus | WorkspacePersistFailed string

text \<open>\<^verbatim>\<open>max_by_key\<close> returns the last of the latest tasks.\<close>

definition latest_task :: "BackgroundTask list \<Rightarrow> BackgroundTask option" where
  "latest_task ts = (case ts of [] \<Rightarrow> None
     | t # rest \<Rightarrow> Some (foldl (\<lambda>b u. if bt_updated_at u < bt_updated_at b then b else u) t rest))"

definition pick_parent_status :: "(string, BackgroundTask) hashmap \<Rightarrow> string \<Rightarrow> TaskStatus option" where
  "pick_parent_status tasks parent_tool_call_id =
     (let parents = filter (\<lambda>t. bt_tool_call_id t = parent_tool_call_id \<and> \<not> is_pipeline_node t) (hm_values tasks)
      in case latest_task (filter (\<lambda>t. is_active (bt_status t)) parents) of
           Some t \<Rightarrow> Some (bt_status t)
         | None \<Rightarrow> map_option bt_status (latest_task parents))"

definition parent_status_for_tool_call_id :: "string \<Rightarrow> supervisor \<Rightarrow> TaskStatus option" where
  "parent_status_for_tool_call_id parent_tool_call_id s =
     (if parent_tool_call_id = [] then None else pick_parent_status (sv_tasks s) parent_tool_call_id)"

definition terminal_parent :: "string option \<Rightarrow> supervisor \<Rightarrow> RegisterTaskError option" where
  "terminal_parent check s = (case check of
       None \<Rightarrow> None
     | Some tcid \<Rightarrow> (case parent_status_for_tool_call_id tcid s of
         Some st \<Rightarrow> if status_is_terminal st then Some (ParentTerminal tcid st) else None
       | None \<Rightarrow> None))"

definition is_task_live :: "string \<Rightarrow> supervisor \<Rightarrow> bool" where
  "is_task_live task_id s \<longleftrightarrow> task_id \<in> sv_live s"

definition live_children :: "string \<Rightarrow> supervisor \<Rightarrow> BackgroundTask list" where
  "live_children key s = filter (\<lambda>t. bt_parent_session_key t = Some key \<and> (is_active (bt_status t) \<or> is_task_live (bt_id t) s))
     (hm_values (sv_tasks s))"

definition active_children :: "string \<Rightarrow> supervisor \<Rightarrow> string list" where
  "active_children key s = map bt_id (filter (\<lambda>t. bt_parent_session_key t = Some key \<and> is_active (bt_status t)) (hm_values (sv_tasks s)))"

definition fanout_gate :: "task_host \<Rightarrow> int \<Rightarrow> string option \<Rightarrow> supervisor \<Rightarrow> RegisterTaskError option \<times> supervisor" where
  "fanout_gate h now session_key s = (case session_key of
       None \<Rightarrow> (None, s)
     | Some key \<Rightarrow>
         let cap = max_children_per_parent h; count = length (live_children key s) in
         if key \<in> sv_poisoned_parents s then (Some (ChildFanoutExceeded key count cap), s)
         else if cap \<le> count
         then (Some (ChildFanoutExceeded key count cap),
           mark_all_failed h now (''child fanout exceeded ('' @ nat_text count @ '' of '' @ nat_text cap @ '')'') (active_children key s)
             (s\<lparr>sv_poisoned_parents := insert key (sv_poisoned_parents s)\<rparr>))
         else (None, s))"

definition new_task :: "int \<Rightarrow> string \<Rightarrow> string \<Rightarrow> string \<Rightarrow> string option \<Rightarrow> string option \<Rightarrow> string option \<Rightarrow> string option
    \<Rightarrow> string option \<Rightarrow> BackgroundTask" where
  "new_task now task_id tool_name tool_call_id session_key ledger_path tool_input cmid workspace =
     \<lparr>bt_id = task_id, bt_tool_name = tool_name, bt_tool_call_id = tool_call_id, bt_parent_session_key = session_key,
      bt_child_session_key = map_option (\<lambda>parent. parent @ ''#child-'' @ task_id) session_key, bt_child_terminal_state = None,
      bt_child_join_state = None, bt_child_joined_at = None, bt_child_failure_action = None, bt_task_ledger_path = ledger_path,
      bt_status = TaskSpawned, bt_runtime_state = RtSpawned, bt_runtime_detail = None, bt_started_at = now, bt_updated_at = now,
      bt_completed_at = None, bt_output_files = [], bt_error = None, bt_final_output = None, bt_failed_by_observer = False,
      bt_session_key = session_key, bt_tool_input = tool_input, bt_originating_client_message_id = cmid, bt_source = None,
      bt_role = None, bt_summary = None, bt_artifact_count = None, bt_runtime_policy_stamp = None, bt_projection_metadata = None,
      bt_workspace_root = workspace\<rparr>"

definition notify_register :: "string \<Rightarrow> supervisor \<Rightarrow> supervisor" where
  "notify_register task_id s = (case get_task task_id s of None \<Rightarrow> s | Some t \<Rightarrow> emit (ob_register (sv_observers s)) (Registered t) s)"

definition non_empty :: "string option \<Rightarrow> string option" where
  "non_empty v = (case v of Some w \<Rightarrow> if w = [] then None else Some w | None \<Rightarrow> None)"

definition register_full_with_workspace :: "task_host \<Rightarrow> int \<Rightarrow> string \<Rightarrow> string \<Rightarrow> string \<Rightarrow> string option \<Rightarrow> string option
    \<Rightarrow> string option \<Rightarrow> string option \<Rightarrow> string option \<Rightarrow> string option \<Rightarrow> bool \<Rightarrow> supervisor
    \<Rightarrow> (RegisterTaskError, string) sum \<times> supervisor" where
  "register_full_with_workspace h now task_id tool_name tool_call_id session_key ledger_path tool_input cmid check workspace strict s =
     (case terminal_parent check s of
        Some e \<Rightarrow> (Inl e, s)
      | None \<Rightarrow> (case fanout_gate h now session_key s of
          (Some e, s1) \<Rightarrow> (Inl e, s1)
        | (None, _) \<Rightarrow>
            let t = new_task now task_id tool_name tool_call_id session_key (or_else ledger_path (sv_persistence_path s)) tool_input cmid
                  (non_empty workspace)
            in if strict
               then (case persist_snapshot_strict h t s of
                   None \<Rightarrow> (Inl (WorkspacePersistFailed tool_call_id), s)
                 | Some s1 \<Rightarrow> (Inr task_id, notify_register task_id (put_task t s1)))
               else (Inr task_id, notify_register task_id (persist_snapshot h t (put_task t s)))))"

definition register_full :: "task_host \<Rightarrow> int \<Rightarrow> string \<Rightarrow> string \<Rightarrow> string \<Rightarrow> string option \<Rightarrow> string option \<Rightarrow> string option
    \<Rightarrow> string option \<Rightarrow> string option \<Rightarrow> supervisor \<Rightarrow> (RegisterTaskError, string) sum \<times> supervisor" where
  "register_full h now task_id tool_name tool_call_id session_key ledger_path tool_input cmid check s =
     register_full_with_workspace h now task_id tool_name tool_call_id session_key ledger_path tool_input cmid check None False s"

definition or_empty_id :: "(RegisterTaskError, string) sum \<times> supervisor \<Rightarrow> string \<times> supervisor" where
  "or_empty_id r = (case r of (Inl _, s) \<Rightarrow> ([], s) | (Inr i, s) \<Rightarrow> (i, s))"

definition register_with_lineage :: "task_host \<Rightarrow> int \<Rightarrow> string \<Rightarrow> string \<Rightarrow> string \<Rightarrow> string option \<Rightarrow> string option \<Rightarrow> supervisor
    \<Rightarrow> string \<times> supervisor" where
  "register_with_lineage h now task_id tool_name tool_call_id session_key ledger_path s =
     or_empty_id (register_full h now task_id tool_name tool_call_id session_key ledger_path None None None s)"

definition register_task :: "task_host \<Rightarrow> int \<Rightarrow> string \<Rightarrow> string \<Rightarrow> string \<Rightarrow> string option \<Rightarrow> supervisor \<Rightarrow> string \<times> supervisor" where
  "register_task h now task_id tool_name tool_call_id session_key s =
     register_with_lineage h now task_id tool_name tool_call_id session_key None s"

definition register_with_input_and_cmid :: "task_host \<Rightarrow> int \<Rightarrow> string \<Rightarrow> string \<Rightarrow> string \<Rightarrow> string option \<Rightarrow> string option
    \<Rightarrow> string option \<Rightarrow> supervisor \<Rightarrow> string \<times> supervisor" where
  "register_with_input_and_cmid h now task_id tool_name tool_call_id session_key tool_input cmid s =
     or_empty_id (register_full h now task_id tool_name tool_call_id session_key None tool_input cmid None s)"

definition register_with_input :: "task_host \<Rightarrow> int \<Rightarrow> string \<Rightarrow> string \<Rightarrow> string \<Rightarrow> string option \<Rightarrow> string option \<Rightarrow> supervisor
    \<Rightarrow> string \<times> supervisor" where
  "register_with_input h now task_id tool_name tool_call_id session_key tool_input s =
     or_empty_id (register_full h now task_id tool_name tool_call_id session_key None tool_input None None s)"

definition try_register_node_task :: "task_host \<Rightarrow> int \<Rightarrow> string \<Rightarrow> string \<Rightarrow> string \<Rightarrow> string option \<Rightarrow> supervisor
    \<Rightarrow> (RegisterTaskError, string) sum \<times> supervisor" where
  "try_register_node_task h now task_id node_tool_name parent_tool_call_id session_key s =
     register_full h now task_id node_tool_name parent_tool_call_id session_key None None None (Some parent_tool_call_id) s"

definition try_register_with_input :: "task_host \<Rightarrow> int \<Rightarrow> string \<Rightarrow> string \<Rightarrow> string \<Rightarrow> string option \<Rightarrow> string option \<Rightarrow> supervisor
    \<Rightarrow> (RegisterTaskError, string) sum \<times> supervisor" where
  "try_register_with_input h now task_id tool_name tool_call_id session_key tool_input s =
     register_full h now task_id tool_name tool_call_id session_key None tool_input None None s"

definition try_register_peer_with_workspace :: "task_host \<Rightarrow> int \<Rightarrow> string \<Rightarrow> string \<Rightarrow> string \<Rightarrow> string option \<Rightarrow> string option
    \<Rightarrow> supervisor \<Rightarrow> (RegisterTaskError, string) sum \<times> supervisor" where
  "try_register_peer_with_workspace h now task_id tool_name tool_call_id session_key workspace s =
     register_full_with_workspace h now task_id tool_name tool_call_id session_key None None None None workspace True s"

subsection \<open>Cancellation and relaunch\<close>

definition cancel_token :: "string \<Rightarrow> supervisor \<Rightarrow> supervisor" where
  "cancel_token task_id s = (if hm_contains (sv_cancel_tokens s) task_id then s
     else s\<lparr>sv_cancel_tokens := hm_insert task_id False (sv_cancel_tokens s)\<rparr>)"

definition trigger_token :: "string \<Rightarrow> supervisor \<Rightarrow> supervisor" where
  "trigger_token task_id s = s\<lparr>sv_cancel_tokens := hm_insert task_id True (sv_cancel_tokens s)\<rparr>"

datatype TaskCancelError = CancelNotFound | AlreadyTerminal

definition cancel :: "task_host \<Rightarrow> int \<Rightarrow> string \<Rightarrow> supervisor \<Rightarrow> (TaskCancelError, unit) sum \<times> supervisor" where
  "cancel h now task_id s = (case get_task task_id s of
       None \<Rightarrow> (Inl CancelNotFound, s)
     | Some t \<Rightarrow> if status_is_terminal (bt_status t) then (Inl AlreadyTerminal, s)
         else let t1 = t\<lparr>bt_status := TaskCancelled, bt_runtime_state := RtCancelled, bt_updated_at := now, bt_completed_at := Some now,
                    bt_error := or_else (bt_error t) (Some ''cancelled by supervisor'')\<rparr>
              in (Inr (), drain_pending_failure_for_task task_id (publish h t1 (trigger_token task_id s))))"

datatype TaskRelaunchError = RelaunchNotFound | StillActive

definition relaunch :: "task_host \<Rightarrow> int \<Rightarrow> int \<Rightarrow> string \<Rightarrow> (string \<Rightarrow> string option \<Rightarrow> string) \<Rightarrow> string \<Rightarrow> string option \<Rightarrow> supervisor
    \<Rightarrow> (TaskRelaunchError, string) sum \<times> supervisor" where
  "relaunch h now later new_id lineage task_id from_node s = (case get_task task_id s of
       None \<Rightarrow> (Inl RelaunchNotFound, s)
     | Some t \<Rightarrow> if is_active (bt_status t) then (Inl StillActive, s)
         else (case register_with_input_and_cmid h now new_id (bt_tool_name t) (bt_tool_call_id t) (bt_session_key t) (bt_tool_input t)
                 (bt_originating_client_message_id t) s of
             (new_task_id, s1) \<Rightarrow> if sv_panicked s1 then (Inr new_task_id, s1) else
               let s2 = mark_runtime_state h later new_task_id RtSpawned (Some (lineage task_id from_node)) s1
               in (Inr new_task_id, emit (ob_relaunch (sv_observers s2)) (Relaunched \<lparr>rq_original_task_id = task_id,
                    rq_new_task_id = new_task_id, rq_tool_name = bt_tool_name t, rq_tool_call_id = bt_tool_call_id t,
                    rq_parent_session_key = bt_parent_session_key t, rq_session_key = bt_session_key t,
                    rq_tool_input = (case bt_tool_input t of Some v \<Rightarrow> v | None \<Rightarrow> ''null''), rq_from_node = from_node\<rparr>) s2)))"

subsection \<open>Setters\<close>

definition set_m13b_projection :: "task_host \<Rightarrow> int \<Rightarrow> string \<Rightarrow> string option \<Rightarrow> string option \<Rightarrow> string option \<Rightarrow> u32 option
    \<Rightarrow> string option \<Rightarrow> supervisor \<Rightarrow> supervisor" where
  "set_m13b_projection h now task_id source role summary artifact_count stamp s = (case get_task task_id s of
       None \<Rightarrow> s
     | Some t \<Rightarrow> if source = None \<and> role = None \<and> summary = None \<and> artifact_count = None \<and> stamp = None then s
         else publish h (t\<lparr>bt_source := or_else source (bt_source t), bt_role := or_else role (bt_role t),
                bt_summary := or_else summary (bt_summary t), bt_artifact_count := or_else artifact_count (bt_artifact_count t),
                bt_runtime_policy_stamp := or_else stamp (bt_runtime_policy_stamp t), bt_updated_at := now\<rparr>) s)"

definition set_workspace_root :: "task_host \<Rightarrow> int \<Rightarrow> string \<Rightarrow> string option \<Rightarrow> supervisor \<Rightarrow> supervisor" where
  "set_workspace_root h now task_id workspace_root s = (case (non_empty workspace_root, get_task task_id s) of
       (Some ws, Some t) \<Rightarrow> if bt_workspace_root t = Some ws then s
         else publish h (t\<lparr>bt_workspace_root := Some ws, bt_updated_at := now\<rparr>) s
     | _ \<Rightarrow> s)"

definition set_tool_input :: "string \<Rightarrow> string \<Rightarrow> supervisor \<Rightarrow> supervisor" where
  "set_tool_input task_id tool_input s = (case get_task task_id s of
       None \<Rightarrow> s | Some t \<Rightarrow> put_task (t\<lparr>bt_tool_input := Some tool_input\<rparr>) s)"

definition set_projection_metadata :: "task_host \<Rightarrow> int \<Rightarrow> string \<Rightarrow> string \<Rightarrow> supervisor \<Rightarrow> supervisor" where
  "set_projection_metadata h now task_id metadata s = (case get_task task_id s of
       None \<Rightarrow> s | Some t \<Rightarrow> publish h (t\<lparr>bt_projection_metadata := Some metadata, bt_updated_at := now\<rparr>) s)"

subsection \<open>Harness events\<close>

text \<open>The payload of an event as far as the supervisor looks at it; the detail it attaches is computed by the event.\<close>

datatype HarnessEventPayload = HeProgress | HePhase | HeRetry | HeArtifact | HeValidatorResult bool "string option" | HeFailure string
  | HeMcpServerCall | HeSubAgentDispatch | HeSwarmDispatch | HeSwarmReviewDecision | HeCostAttribution | HeRoutingDecision
  | HeCredentialRotation | HeSessionSanitized | HeSubagentProgress | HeError string string string

definition unless_panicked :: "(supervisor \<Rightarrow> supervisor) \<Rightarrow> supervisor \<Rightarrow> supervisor" where
  "unless_panicked f s = (if sv_panicked s then s else f s)"

definition variant_is_tool_scoped :: "string \<Rightarrow> bool" where
  "variant_is_tool_scoped variant \<longleftrightarrow>
     variant \<in> {''tool_execution'', ''plugin_spawn'', ''plugin_timeout'', ''plugin_protocol''}"

definition apply_harness_event :: "task_host \<Rightarrow> (string option \<Rightarrow> string) \<Rightarrow> int \<Rightarrow> string \<Rightarrow> HarnessEventPayload
    \<Rightarrow> supervisor \<Rightarrow> bool \<times> supervisor" where
  "apply_harness_event h detail now task_id payload s = (case get_task task_id s of
       None \<Rightarrow> (False, s)
     | Some t \<Rightarrow>
         let runtime_detail = Some (detail (bt_runtime_detail t));
             in_state = (\<lambda>st. mark_runtime_state h now task_id st runtime_detail s);
             observational = in_state (bt_runtime_state t)
         in (True, case payload of
              HeProgress \<Rightarrow> in_state ExecutingTool
            | HePhase \<Rightarrow> in_state ExecutingTool
            | HeRetry \<Rightarrow> in_state ExecutingTool
            | HeArtifact \<Rightarrow> in_state DeliveringOutputs
            | HeValidatorResult passed message \<Rightarrow>
                let s1 = in_state VerifyingOutputs
                in if passed then s1
                   else mark_failed h now task_id (case message of Some m \<Rightarrow> m | None \<Rightarrow> ''validator rejected structured harness event'') s1
            | HeFailure message \<Rightarrow> mark_failed h now task_id message (in_state RtFailed)
            | HeMcpServerCall \<Rightarrow> s
            | HeSubAgentDispatch \<Rightarrow> in_state ExecutingTool
            | HeSwarmDispatch \<Rightarrow> in_state ExecutingTool
            | HeSwarmReviewDecision \<Rightarrow> observational
            | HeCostAttribution \<Rightarrow> in_state ExecutingTool
            | HeRoutingDecision \<Rightarrow> in_state ExecutingTool
            | HeCredentialRotation \<Rightarrow> observational
            | HeSessionSanitized \<Rightarrow> observational
            | HeSubagentProgress \<Rightarrow> observational
            | HeError variant recovery message \<Rightarrow>
                let s1 = in_state ExecutingTool
                in if \<not> variant_is_tool_scoped variant \<and> (recovery = ''fail_fast'' \<or> recovery = ''bug'') then mark_failed_observed h now task_id message s1
                   else s1))"

subsection \<open>Restart\<close>

definition ledger_rows :: "task_host \<Rightarrow> string list \<Rightarrow> BackgroundTask list" where
  "ledger_rows h ls = List.map_filter (\<lambda>l. if trim l = [] then None else case th_decode h l of
       None \<Rightarrow> None | Some r \<Rightarrow> if CURRENT_TASK_LEDGER_SCHEMA < pt_schema_version r then None else Some (pt_task r)) ls"

definition merge_row :: "(string, BackgroundTask) hashmap \<Rightarrow> BackgroundTask \<Rightarrow> (string, BackgroundTask) hashmap" where
  "merge_row restored t = (case hm_get restored (bt_id t) of
       Some existing \<Rightarrow> if task_snapshot_advances t existing then hm_insert (bt_id t) t restored else restored
     | None \<Rightarrow> hm_insert (bt_id t) t restored)"

definition load_persisted_tasks :: "task_host \<Rightarrow> string \<Rightarrow> disk \<Rightarrow> (string, BackgroundTask) hashmap option" where
  "load_persisted_tasks h path d = (case hm_get d path of
       None \<Rightarrow> Some []
     | Some ls \<Rightarrow> if th_read_ok h path d then Some (foldl merge_row [] (ledger_rows h ls)) else None)"

definition restore_row :: "(string, BackgroundTask) hashmap \<times> string list \<Rightarrow> string \<times> BackgroundTask
    \<Rightarrow> (string, BackgroundTask) hashmap \<times> string list" where
  "restore_row acc row = (let (tasks, won) = acc; (task_id, t) = row in
     case hm_get tasks task_id of
       Some existing \<Rightarrow> if task_snapshot_advances t existing then (hm_insert task_id t tasks, task_id # won) else (tasks, won)
     | None \<Rightarrow> (hm_insert task_id t tasks, task_id # won))"

definition with_ledger_path :: "string \<Rightarrow> (string, BackgroundTask) hashmap \<Rightarrow> (string, BackgroundTask) hashmap" where
  "with_ledger_path path = map (map_prod id (\<lambda>t. t\<lparr>bt_task_ledger_path := Some path\<rparr>))"

definition is_orphan :: "supervisor \<Rightarrow> BackgroundTask \<Rightarrow> bool" where
  "is_orphan s t \<longleftrightarrow> \<not> is_terminal_runtime_state (bt_runtime_state t) \<and> \<not> is_task_live (bt_id t) s
     \<and> \<not> (is_pipeline_node t \<and> list_ex (\<lambda>u. bt_tool_call_id u \<noteq> [] \<and> is_task_live (bt_id u) s \<and> bt_tool_call_id u = bt_tool_call_id t)
            (hm_values (sv_tasks s)))"

definition sweep_orphan :: "task_host \<Rightarrow> int \<Rightarrow> supervisor \<Rightarrow> BackgroundTask \<Rightarrow> supervisor" where
  "sweep_orphan h now s t = unless_panicked (if bt_tool_name t = ''peer_handoff''
     then mark_parked h now (bt_id t) ''orphaned across restart'' else mark_failed h now (bt_id t) ''orphaned across restart'') s"

definition cascade_ids :: "BackgroundTask list \<Rightarrow> string list" where
  "cascade_ids orphans = rev (remdups (rev (map bt_tool_call_id (filter (\<lambda>t. bt_tool_call_id t \<noteq> [] \<and> \<not> is_pipeline_node t) orphans))))"

definition notify_restore :: "supervisor \<Rightarrow> supervisor" where
  "notify_restore s = (if ob_restore (sv_observers s) then emit True (Restored (hm_values (sv_tasks s))) s
     else s\<lparr>sv_observers := (sv_observers s)\<lparr>ob_restore_undelivered := True\<rparr>\<rparr>)"

definition set_on_restore :: "supervisor \<Rightarrow> supervisor" where
  "set_on_restore s = (let missed = ob_restore_undelivered (sv_observers s);
       s1 = s\<lparr>sv_observers := (sv_observers s)\<lparr>ob_restore := True, ob_restore_undelivered := False\<rparr>\<rparr>
     in if missed then notify_restore s1 else s1)"

definition enable_persistence_with_recovery :: "task_host \<Rightarrow> int \<Rightarrow> string \<Rightarrow> (supervisor \<Rightarrow> supervisor) \<Rightarrow> supervisor
    \<Rightarrow> nat option \<times> supervisor" where
  "enable_persistence_with_recovery h now path recover s =
     (if sv_persistence_path s = Some path then (Some (length (sv_tasks s)), s)
      else if \<not> th_mkdir_ok h path (sv_disk s) then (None, s)
      else (case load_persisted_tasks h path (sv_disk s) of
          None \<Rightarrow> (None, s)
        | Some restored \<Rightarrow>
            let (tasks, won) = foldl restore_row (sv_tasks s, []) restored;
                s1 = s\<lparr>sv_tasks := with_ledger_path path tasks, sv_persistence_path := Some path\<rparr>;
                s2 = foldl (\<lambda>v t. persist_snapshot h t v) s1 (filter (\<lambda>t. bt_id t \<notin> set won) (hm_values (sv_tasks s1)));
                s3 = recover s2;
                orphans = filter (is_orphan s3) (hm_values (sv_tasks s3));
                s4 = foldl (sweep_orphan h now) s3 orphans;
                s5 = foldl (\<lambda>v c. unless_panicked (\<lambda>u. snd (mark_descendants_failed h now c ''parent task orphaned across restart'' u)) v) s4
                       (cascade_ids orphans);
                s6 = unless_panicked notify_restore s5
            in (Some (length (sv_tasks s6)), s6)))"

definition enable_persistence :: "task_host \<Rightarrow> int \<Rightarrow> string \<Rightarrow> supervisor \<Rightarrow> nat option \<times> supervisor" where
  "enable_persistence h now path s = enable_persistence_with_recovery h now path (\<lambda>v. v) s"

definition refresh_row :: "(string, BackgroundTask) hashmap \<times> nat \<Rightarrow> string \<times> BackgroundTask \<Rightarrow> (string, BackgroundTask) hashmap \<times> nat" where
  "refresh_row acc row = (let (tasks, n) = acc; (task_id, t) = row in
     case hm_get tasks task_id of
       Some existing \<Rightarrow> if task_snapshot_advances t existing then (hm_insert task_id t tasks, n + 1) else (tasks, n)
     | None \<Rightarrow> (tasks, n))"

definition refresh_from_persistence :: "task_host \<Rightarrow> supervisor \<Rightarrow> nat option \<times> supervisor" where
  "refresh_from_persistence h s = (case sv_persistence_path s of
       None \<Rightarrow> (Some 0, s)
     | Some path \<Rightarrow> (case load_persisted_tasks h path (sv_disk s) of
         None \<Rightarrow> (None, s)
       | Some restored \<Rightarrow> (case foldl refresh_row (sv_tasks s, 0) restored of (tasks, n) \<Rightarrow> (Some n, s\<lparr>sv_tasks := tasks\<rparr>))))"

definition refresh_task_from_persistence :: "task_host \<Rightarrow> string \<Rightarrow> supervisor \<Rightarrow> BackgroundTask option option \<times> supervisor" where
  "refresh_task_from_persistence h task_id s = (case sv_persistence_path s of
       None \<Rightarrow> (Some (get_task task_id s), s)
     | Some path \<Rightarrow> (case load_persisted_tasks h path (sv_disk s) of
         None \<Rightarrow> (None, s)
       | Some restored \<Rightarrow>
           let s1 = (case (hm_get restored task_id, get_task task_id s) of
               (Some t, Some existing) \<Rightarrow>
                 if task_snapshot_advances t existing then s\<lparr>sv_tasks := hm_insert task_id t (sv_tasks s)\<rparr> else s
             | _ \<Rightarrow> s)
           in (Some (get_task task_id s1), s1)))"

subsection \<open>Liveness of workers\<close>

definition mark_task_live :: "string \<Rightarrow> supervisor \<Rightarrow> supervisor" where
  "mark_task_live task_id s = s\<lparr>sv_live := insert task_id (sv_live s)\<rparr>"

definition clear_task_live :: "string \<Rightarrow> supervisor \<Rightarrow> supervisor" where
  "clear_task_live task_id s = s\<lparr>sv_live := sv_live s - {task_id}\<rparr>"

definition guard_drop :: "task_host \<Rightarrow> int \<Rightarrow> string \<Rightarrow> supervisor \<Rightarrow> supervisor" where
  "guard_drop h now task_id s = (let s1 = clear_task_live task_id s in
     case get_task task_id s1 of
       Some t \<Rightarrow> if is_active (bt_status t) then mark_failed h now task_id ''worker dropped before reaching terminal state'' s1 else s1
     | None \<Rightarrow> s1)"

definition stuck_tasks :: "int \<Rightarrow> int \<Rightarrow> supervisor \<Rightarrow> string list" where
  "stuck_tasks now stuck_timeout s = map bt_id (filter (\<lambda>t. is_active (bt_status t) \<and> is_task_live (bt_id t) s
     \<and> 0 \<le> now - bt_updated_at t \<and> stuck_timeout < now - bt_updated_at t) (hm_values (sv_tasks s)))"

definition reap_stuck_tasks :: "task_host \<Rightarrow> (int \<Rightarrow> string) \<Rightarrow> int \<Rightarrow> int \<Rightarrow> int \<Rightarrow> supervisor \<Rightarrow> string list \<times> supervisor" where
  "reap_stuck_tasks h duration_text clock now stuck_timeout s =
     (let stuck = stuck_tasks now stuck_timeout s;
          reason = ''orphaned: no progress for '' @ duration_text stuck_timeout @ '' (heartbeat timeout)''
      in (stuck, foldl (\<lambda>v i. unless_panicked (\<lambda>u. let u1 = mark_failed h clock i reason u in unless_panicked (trigger_token i) u1) v) s stuck))"

end
