(* ===== verification/Supervisor_Steps.thy ===== *)
theory Supervisor_Steps
  imports Task_Supervisor
begin

text \<open>
  The operations of the task supervisor as one machine. \<open>sup_apply\<close> performs an operation, \<open>sup_run\<close> a sequence of them, until one panics.
  Every operation that does not read the ledger is a sequence of the few steps of \<open>micro\<close>, over which the invariants are proved.
\<close>

subsection \<open>Operations\<close>

datatype sup_op =
    OpRegister string string string "string option" "string option" "string option" "string option" "string option" "string option" bool
  | OpRunning string
  | OpRuntimeState string TaskRuntimeState "string option"
  | OpCompleted string "string list"
  | OpFinalOutput string string
  | OpFailed string string bool
  | OpParked string string
  | OpDescendants string string
  | OpChildOutcome string ChildSessionTerminalState ChildSessionJoinState
  | OpCancel string
  | OpRelaunch int string "string \<Rightarrow> string option \<Rightarrow> string" string "string option"
  | OpProjection string "string option" "string option" "string option" "u32 option" "string option"
  | OpWorkspace string "string option"
  | OpToolInput string string
  | OpMetadata string string
  | OpHarness "string option \<Rightarrow> string" string HarnessEventPayload
  | OpAck string
  | OpToken string
  | OpLive string
  | OpDead string
  | OpGuardDrop string
  | OpReap "int \<Rightarrow> string" int int
  | OpRestoreObserver
  | OpEnable string
  | OpRefresh
  | OpRefreshTask string

primrec sup_apply :: "task_host \<Rightarrow> int \<Rightarrow> sup_op \<Rightarrow> supervisor \<Rightarrow> supervisor" where
  "sup_apply h now (OpRegister i n c k l inp m chk w strict) s = snd (register_full_with_workspace h now i n c k l inp m chk w strict s)"
| "sup_apply h now (OpRunning i) s = mark_running h now i s"
| "sup_apply h now (OpRuntimeState i r d) s = mark_runtime_state h now i r d s"
| "sup_apply h now (OpCompleted i fs) s = mark_completed h now i fs s"
| "sup_apply h now (OpFinalOutput i t) s = record_final_output h now i t s"
| "sup_apply h now (OpFailed i e obs) s = mark_failed_inner h now i e obs s"
| "sup_apply h now (OpParked i r) s = mark_parked h now i r s"
| "sup_apply h now (OpDescendants c r) s = snd (mark_descendants_failed h now c r s)"
| "sup_apply h now (OpChildOutcome i st j) s = mark_child_session_outcome h now i st j s"
| "sup_apply h now (OpCancel i) s = snd (cancel h now i s)"
| "sup_apply h now (OpRelaunch later i lineage j from_node) s = snd (relaunch h now later i lineage j from_node s)"
| "sup_apply h now (OpProjection i a b c d e) s = set_m13b_projection h now i a b c d e s"
| "sup_apply h now (OpWorkspace i w) s = set_workspace_root h now i w s"
| "sup_apply h now (OpToolInput i v) s = set_tool_input i v s"
| "sup_apply h now (OpMetadata i v) s = set_projection_metadata h now i v s"
| "sup_apply h now (OpHarness detail i p) s = snd (apply_harness_event h detail now i p s)"
| "sup_apply h now (OpAck c) s = mark_synth_ack_emitted c s"
| "sup_apply h now (OpToken i) s = cancel_token i s"
| "sup_apply h now (OpLive i) s = mark_task_live i s"
| "sup_apply h now (OpDead i) s = clear_task_live i s"
| "sup_apply h now (OpGuardDrop i) s = guard_drop h now i s"
| "sup_apply h now (OpReap fmt moment limit) s = snd (reap_stuck_tasks h fmt now moment limit s)"
| "sup_apply h now OpRestoreObserver s = set_on_restore s"
| "sup_apply h now (OpEnable p) s = snd (enable_persistence h now p s)"
| "sup_apply h now OpRefresh s = snd (refresh_from_persistence h s)"
| "sup_apply h now (OpRefreshTask i) s = snd (refresh_task_from_persistence h i s)"

primrec sup_run :: "task_host \<Rightarrow> supervisor \<Rightarrow> (int \<times> sup_op) list \<Rightarrow> supervisor" where
  "sup_run h s [] = s"
| "sup_run h s (e # es) = sup_run h (unless_panicked (sup_apply h (fst e) (snd e)) s) es"

lemma sup_run_append: "sup_run h s (xs @ ys) = sup_run h (sup_run h s xs) ys"
  by (induction xs arbitrary: s) auto

text \<open>The operations that read the ledger bring in what other supervisors wrote. The ids of new tasks are random and never repeat.\<close>

primrec reads_ledger :: "sup_op \<Rightarrow> bool" where
  "reads_ledger (OpRegister i n c k l inp m chk w strict) = False"
| "reads_ledger (OpRunning i) = False"
| "reads_ledger (OpRuntimeState i r d) = False"
| "reads_ledger (OpCompleted i fs) = False"
| "reads_ledger (OpFinalOutput i t) = False"
| "reads_ledger (OpFailed i e obs) = False"
| "reads_ledger (OpParked i r) = False"
| "reads_ledger (OpDescendants c r) = False"
| "reads_ledger (OpChildOutcome i st j) = False"
| "reads_ledger (OpCancel i) = False"
| "reads_ledger (OpRelaunch later i lineage j from_node) = False"
| "reads_ledger (OpProjection i a b c d e) = False"
| "reads_ledger (OpWorkspace i w) = False"
| "reads_ledger (OpToolInput i v) = False"
| "reads_ledger (OpMetadata i v) = False"
| "reads_ledger (OpHarness detail i p) = False"
| "reads_ledger (OpAck c) = False"
| "reads_ledger (OpToken i) = False"
| "reads_ledger (OpLive i) = False"
| "reads_ledger (OpDead i) = False"
| "reads_ledger (OpGuardDrop i) = False"
| "reads_ledger (OpReap fmt moment limit) = False"
| "reads_ledger OpRestoreObserver = False"
| "reads_ledger (OpEnable p) = True"
| "reads_ledger OpRefresh = True"
| "reads_ledger (OpRefreshTask i) = True"

definition fresh_ids :: "sup_op \<Rightarrow> supervisor \<Rightarrow> bool" where
  "fresh_ids op s = (case op of
       OpRegister i n c k l inp m chk w strict \<Rightarrow> i \<noteq> [] \<and> \<not> hm_contains (sv_tasks s) i
     | OpRelaunch later i lineage j from_node \<Rightarrow> i \<noteq> [] \<and> \<not> hm_contains (sv_tasks s) i
     | _ \<Rightarrow> True)"

primrec local_run :: "task_host \<Rightarrow> supervisor \<Rightarrow> (int \<times> sup_op) list \<Rightarrow> bool" where
  "local_run h s [] = True"
| "local_run h s (e # es) \<longleftrightarrow> \<not> reads_ledger (snd e) \<and> fresh_ids (snd e) s
     \<and> local_run h (unless_panicked (sup_apply h (fst e) (snd e)) s) es"

subsection \<open>What the parts of an operation leave alone\<close>

definition tasks_wf :: "supervisor \<Rightarrow> bool" where
  "tasks_wf s \<longleftrightarrow> hm_wf (sv_tasks s) \<and> (\<forall>(k, t) \<in> set (sv_tasks s). bt_id t = k \<and> k \<noteq> [])"

lemma emit_simps [simp]:
  "sv_tasks (emit b e s) = sv_tasks s" "sv_ack_and_pending (emit b e s) = sv_ack_and_pending s"
  "sv_persistence_path (emit b e s) = sv_persistence_path s" "sv_observers (emit b e s) = sv_observers s"
  "sv_panicked (emit b e s) = sv_panicked s" "sv_live (emit b e s) = sv_live s" "sv_disk (emit b e s) = sv_disk s"
  "sv_log (emit b e s) = sv_log s @ (if b then [e] else [])"
  by (simp_all add: emit_def)

lemma persist_simps [simp]:
  "sv_tasks (persist_snapshot h t s) = sv_tasks s" "sv_ack_and_pending (persist_snapshot h t s) = sv_ack_and_pending s"
  "sv_persistence_path (persist_snapshot h t s) = sv_persistence_path s" "sv_observers (persist_snapshot h t s) = sv_observers s"
  "sv_panicked (persist_snapshot h t s) = sv_panicked s" "sv_live (persist_snapshot h t s) = sv_live s"
  "sv_log (persist_snapshot h t s) = sv_log s"
  by (auto simp: persist_snapshot_def persist_snapshot_strict_def split: option.splits)

lemma publish_simps [simp]:
  "sv_tasks (publish h t s) = hm_insert (bt_id t) t (sv_tasks s)" "sv_ack_and_pending (publish h t s) = sv_ack_and_pending s"
  "sv_persistence_path (publish h t s) = sv_persistence_path s" "sv_observers (publish h t s) = sv_observers s"
  "sv_panicked (publish h t s) = sv_panicked s" "sv_live (publish h t s) = sv_live s"
  "sv_log (publish h t s) = sv_log s @ (if ob_change (sv_observers s) then [Changed t] else [])"
  by (simp_all add: publish_def notify_change_def put_task_def)

lemma get_publish [simp]: "get_task i (publish h t s) = (if i = bt_id t then Some t else get_task i s)"
  by (simp add: get_task_def hm_simps)

lemma drain_simps [simp]:
  "sv_tasks (drain_pending_failure_for_task i s) = sv_tasks s" "sv_persistence_path (drain_pending_failure_for_task i s) = sv_persistence_path s"
  "sv_observers (drain_pending_failure_for_task i s) = sv_observers s" "sv_panicked (drain_pending_failure_for_task i s) = sv_panicked s"
  "sv_live (drain_pending_failure_for_task i s) = sv_live s" "sv_log (drain_pending_failure_for_task i s) = sv_log s"
  "sv_disk (drain_pending_failure_for_task i s) = sv_disk s"
  by (simp_all add: drain_pending_failure_for_task_def)

lemma terminal_simps [simp]:
  "sv_tasks (notify_terminal al t s) = sv_tasks s" "sv_persistence_path (notify_terminal al t s) = sv_persistence_path s"
  "sv_observers (notify_terminal al t s) = sv_observers s" "sv_panicked (notify_terminal al t s) = sv_panicked s"
  "sv_live (notify_terminal al t s) = sv_live s" "sv_disk (notify_terminal al t s) = sv_disk s"
  by (auto simp: notify_terminal_def Let_def split: prod.splits bool.splits)

lemma failure_simps [simp]:
  "sv_tasks (notify_failure al t s) = sv_tasks s" "sv_persistence_path (notify_failure al t s) = sv_persistence_path s"
  "sv_observers (notify_failure al t s) = sv_observers s" "sv_panicked (notify_failure al t s) = sv_panicked s"
  "sv_live (notify_failure al t s) = sv_live s" "sv_disk (notify_failure al t s) = sv_disk s"
  by (auto simp: notify_failure_def invoke_failure_callback_def Let_def)

lemma report_simps [simp]:
  "sv_tasks (report_failure h t s) = sv_tasks s" "sv_persistence_path (report_failure h t s) = sv_persistence_path s"
  "sv_observers (report_failure h t s) = sv_observers s" "sv_live (report_failure h t s) = sv_live s"
  "sv_disk (report_failure h t s) = sv_disk s"
  by (auto simp: report_failure_def split: option.splits)

lemma dispatch_simps [simp]:
  "sv_tasks (dispatch_failure_signal i sg s) = sv_tasks s" "sv_persistence_path (dispatch_failure_signal i sg s) = sv_persistence_path s"
  "sv_observers (dispatch_failure_signal i sg s) = sv_observers s" "sv_panicked (dispatch_failure_signal i sg s) = sv_panicked s"
  "sv_live (dispatch_failure_signal i sg s) = sv_live s" "sv_disk (dispatch_failure_signal i sg s) = sv_disk s"
  by (auto simp: dispatch_failure_signal_def invoke_failure_callback_def split: prod.splits bool.splits)

definition dispatch_all :: "PendingFailure list \<Rightarrow> supervisor \<Rightarrow> supervisor" where
  "dispatch_all pfs s = foldl (\<lambda>v pf. dispatch_failure_signal (sg_task_id (pf_signal pf)) (pf_signal pf) v) s pfs"

lemma dispatch_all_simps [simp]:
  "sv_tasks (dispatch_all pfs s) = sv_tasks s" "sv_persistence_path (dispatch_all pfs s) = sv_persistence_path s"
  "sv_observers (dispatch_all pfs s) = sv_observers s" "sv_panicked (dispatch_all pfs s) = sv_panicked s"
  "sv_live (dispatch_all pfs s) = sv_live s" "sv_disk (dispatch_all pfs s) = sv_disk s"
  unfolding dispatch_all_def by (induction pfs arbitrary: s) simp_all

lemma mark_synth_ack_emitted_eq: "mark_synth_ack_emitted c s = (if c = [] then s
  else let a = sv_ack_and_pending s; d = drain_pending_for_tool_call c (a\<lparr>ap_acked := insert c (ap_acked a)\<rparr>)
       in dispatch_all (fst d) (s\<lparr>sv_ack_and_pending := snd d\<rparr>))"
  by (simp add: mark_synth_ack_emitted_def dispatch_all_def Let_def split: prod.splits)

lemma ack_simps [simp]:
  "sv_tasks (mark_synth_ack_emitted c s) = sv_tasks s" "sv_persistence_path (mark_synth_ack_emitted c s) = sv_persistence_path s"
  "sv_observers (mark_synth_ack_emitted c s) = sv_observers s" "sv_panicked (mark_synth_ack_emitted c s) = sv_panicked s"
  "sv_live (mark_synth_ack_emitted c s) = sv_live s" "sv_disk (mark_synth_ack_emitted c s) = sv_disk s"
  by (simp_all add: mark_synth_ack_emitted_eq Let_def)

subsection \<open>Steps\<close>

definition same_task :: "BackgroundTask \<Rightarrow> BackgroundTask \<Rightarrow> bool" where
  "same_task t t' \<longleftrightarrow> bt_id t' = bt_id t \<and> bt_tool_call_id t' = bt_tool_call_id t"

definition provisional :: "BackgroundTask \<Rightarrow> bool" where
  "provisional t \<longleftrightarrow> bt_status t = TaskFailed \<and> bt_failed_by_observer t"

definition has_verdict :: "BackgroundTask \<Rightarrow> bool" where
  "has_verdict t \<longleftrightarrow> status_is_terminal (bt_status t) \<and> \<not> provisional t"

definition signalled :: "sup_event list \<Rightarrow> string list" where
  "signalled es = List.map_filter (\<lambda>e. case e of Signalled sg \<Rightarrow> Some (sg_task_id sg) | _ \<Rightarrow> None) es"

lemma signalled_append [simp]: "signalled (xs @ ys) = signalled xs @ signalled ys"
  by (simp add: signalled_def List.map_filter_def)

lemma signalled_simps [simp]:
  "signalled [] = []" "signalled [Signalled sg] = [sg_task_id sg]" "signalled [Changed t] = []" "signalled [Registered t] = []"
  "signalled [Ended t b oc] = []" "signalled [Relaunched r] = []" "signalled [Restored ts] = []"
  by (simp_all add: signalled_def List.map_filter_def)

text \<open>\<open>P\<close> relates the two versions of a task, \<open>N\<close> holds of a new task, and \<open>U\<close> says whether a change may skip the ledger.\<close>

inductive micro :: "task_host \<Rightarrow> (BackgroundTask \<Rightarrow> BackgroundTask \<Rightarrow> bool) \<Rightarrow> (BackgroundTask \<Rightarrow> bool) \<Rightarrow> bool \<Rightarrow> supervisor \<Rightarrow> supervisor \<Rightarrow> bool"
  for h P N U where
  edit: "get_task (bt_id t) s = Some t \<Longrightarrow> same_task t t' \<Longrightarrow> bt_failed_by_observer t' = bt_failed_by_observer t
    \<Longrightarrow> bt_status t' = bt_status t \<or> \<not> status_is_terminal (bt_status t) \<and> \<not> status_is_terminal (bt_status t') \<Longrightarrow> P t t'
    \<Longrightarrow> micro h P N U s (publish h t' s)"
| noted: "get_task (bt_id t) s = Some t \<Longrightarrow> U \<Longrightarrow> micro h P N U s (put_task (t\<lparr>bt_tool_input := v\<rparr>) s)"
| cancelled: "get_task (bt_id t) s = Some t \<Longrightarrow> same_task t t' \<Longrightarrow> \<not> status_is_terminal (bt_status t) \<Longrightarrow> bt_status t' = TaskCancelled \<Longrightarrow> P t t'
    \<Longrightarrow> micro h P N U s (drain_pending_failure_for_task (bt_id t) (publish h t' s))"
| completed: "get_task (bt_id t) s = Some t \<Longrightarrow> same_task t t' \<Longrightarrow> \<not> has_verdict t \<Longrightarrow> bt_status t' = TaskCompleted \<Longrightarrow> P t t'
    \<Longrightarrow> micro h P N U s (drain_pending_failure_for_task (bt_id t) (notify_terminal [] t' (publish h t' s)))"
| failed: "get_task (bt_id t) s = Some t \<Longrightarrow> same_task t t' \<Longrightarrow> \<not> status_is_terminal (bt_status t) \<Longrightarrow> bt_status t' = TaskFailed \<Longrightarrow> P t t'
    \<Longrightarrow> micro h P N U s (report_failure h t' (publish h t' s))"
| refailed: "get_task (bt_id t) s = Some t \<Longrightarrow> same_task t t' \<Longrightarrow> bt_status t = TaskFailed \<Longrightarrow> bt_status t' = TaskFailed
    \<Longrightarrow> bt_failed_by_observer t \<or> \<not> bt_failed_by_observer t' \<Longrightarrow> P t t' \<Longrightarrow> micro h P N U s (publish h t' s)"
| registered: "get_task (bt_id t) s = None \<Longrightarrow> bt_id t \<noteq> [] \<Longrightarrow> bt_status t = TaskSpawned \<Longrightarrow> N t
    \<Longrightarrow> micro h P N U s (notify_register (bt_id t) (persist_snapshot h t (put_task t s)))"
| acked: "micro h P N U s (mark_synth_ack_emitted c s)"
| aside: "sv_tasks s' = sv_tasks s \<Longrightarrow> sv_ack_and_pending s' = sv_ack_and_pending s \<Longrightarrow> sv_persistence_path s' = sv_persistence_path s
    \<Longrightarrow> sv_disk s' = sv_disk s \<Longrightarrow> sv_panicked s' = sv_panicked s \<Longrightarrow> ob_failure (sv_observers s') = ob_failure (sv_observers s)
    \<Longrightarrow> signalled (sv_log s') = signalled (sv_log s) \<Longrightarrow> micro h P N U s s'"

lemma register_simps [simp]:
  "sv_tasks (notify_register i s) = sv_tasks s" "sv_ack_and_pending (notify_register i s) = sv_ack_and_pending s"
  "sv_persistence_path (notify_register i s) = sv_persistence_path s" "sv_observers (notify_register i s) = sv_observers s"
  "sv_panicked (notify_register i s) = sv_panicked s" "sv_live (notify_register i s) = sv_live s" "sv_disk (notify_register i s) = sv_disk s"
  "signalled (sv_log (notify_register i s)) = signalled (sv_log s)"
  by (auto simp: notify_register_def split: option.splits)

lemma put_task_simps [simp]:
  "sv_tasks (put_task t s) = hm_insert (bt_id t) t (sv_tasks s)" "sv_ack_and_pending (put_task t s) = sv_ack_and_pending s"
  "sv_persistence_path (put_task t s) = sv_persistence_path s" "sv_observers (put_task t s) = sv_observers s"
  "sv_panicked (put_task t s) = sv_panicked s" "sv_live (put_task t s) = sv_live s" "sv_disk (put_task t s) = sv_disk s"
  "sv_log (put_task t s) = sv_log s"
  by (simp_all add: put_task_def)

lemma tasks_wf_cong: "sv_tasks s' = sv_tasks s \<Longrightarrow> tasks_wf s' = tasks_wf s"
  by (simp add: tasks_wf_def)

lemma hm_insert_subset: "set (hm_insert k v m) \<subseteq> insert (k, v) (set m)"
  by (induction m) auto

lemma tasks_wf_insert: "tasks_wf s \<Longrightarrow> sv_tasks s' = hm_insert k t (sv_tasks s) \<Longrightarrow> k = bt_id t \<Longrightarrow> k \<noteq> [] \<Longrightarrow> tasks_wf s'"
  unfolding tasks_wf_def using hm_insert_subset[of "bt_id t" t "sv_tasks s"]
  by (auto simp: distinct_update)

lemma tasks_wf_get: "tasks_wf s \<Longrightarrow> get_task i s = Some t \<Longrightarrow> bt_id t = i"
  by (auto simp: tasks_wf_def get_task_def dest!: map_of_SomeD)

lemma tasks_wf_id: "tasks_wf s \<Longrightarrow> get_task i s = Some t \<Longrightarrow> i \<noteq> []"
  by (auto simp: tasks_wf_def get_task_def dest!: map_of_SomeD)

lemma tasks_wf_member: "tasks_wf s \<Longrightarrow> t \<in> set (hm_values (sv_tasks s)) \<longleftrightarrow> get_task (bt_id t) s = Some t"
  by (force simp: tasks_wf_def get_task_def image_iff)

lemma tasks_wf_distinct: "tasks_wf s \<Longrightarrow> distinct (map bt_id (filter Q (hm_values (sv_tasks s))))"
proof -
  assume wf: "tasks_wf s"
  then have "map bt_id (hm_values (sv_tasks s)) = hm_keys (sv_tasks s)"
    by (auto simp: tasks_wf_def)
  with wf show ?thesis by (metis distinct_map_filter tasks_wf_def)
qed

lemma tasks_wf_replace:
  assumes "tasks_wf s" "get_task (bt_id t) s = Some t" "same_task t t'" "sv_tasks s' = hm_insert (bt_id t') t' (sv_tasks s)"
  shows "tasks_wf s'"
  using assms(1,4) refl
proof (rule tasks_wf_insert)
  show "bt_id t' \<noteq> []" using tasks_wf_id[OF assms(1,2)] assms(3) by (simp add: same_task_def)
qed

lemma micro_tasks_wf: "micro h P N U s s' \<Longrightarrow> tasks_wf s \<Longrightarrow> tasks_wf s'"
proof (induction rule: micro.induct)
  case edit: (edit t s t') show ?case by (rule tasks_wf_replace[OF edit(6,1,2)]) simp
next
  case noted: (noted t s v) show ?case by (rule tasks_wf_replace[OF noted(3,1), of "t\<lparr>bt_tool_input := v\<rparr>"]) (simp_all add: same_task_def)
next
  case canc: (cancelled t s t') show ?case by (rule tasks_wf_replace[OF canc(6,1,2)]) simp
next
  case compl: (completed t s t') show ?case by (rule tasks_wf_replace[OF compl(6,1,2)]) simp
next
  case fl: (failed t s t') show ?case by (rule tasks_wf_replace[OF fl(6,1,2)]) simp
next
  case rf: (refailed t s t') show ?case by (rule tasks_wf_replace[OF rf(7,1,2)]) simp
next
  case rg: (registered t s) show ?case by (rule tasks_wf_insert[OF rg(5) _ refl rg(2)]) simp
next
  case ak: (acked s c) then show ?case by (simp add: tasks_wf_def)
next
  case as: (aside s' s) show ?case using as(8) by (simp add: tasks_wf_def as(1))
qed

lemma micros_tasks_wf: "(micro h P N U)\<^sup>*\<^sup>* s s' \<Longrightarrow> tasks_wf s \<Longrightarrow> tasks_wf s'"
  by (induction rule: rtranclp_induct) (auto intro: micro_tasks_wf)

subsection \<open>Every operation is a sequence of steps\<close>

lemma terminal_status [simp]:
  "status_is_terminal TaskCompleted" "status_is_terminal TaskFailed" "status_is_terminal TaskCancelled"
  "\<not> status_is_terminal TaskSpawned" "\<not> status_is_terminal TaskRunning" "\<not> status_is_terminal TaskParked"
  by (simp_all add: status_is_terminal_def)

text \<open>What an operation may count on: a task that it changes is older than the operation, or the operation touched it before and now
  brings it to its end. A relaunch changes the task that it registered, at a later time.\<close>

locale task_clock =
  fixes old :: "BackgroundTask \<Rightarrow> bool" and now :: int
    and P :: "BackgroundTask \<Rightarrow> BackgroundTask \<Rightarrow> bool" and N :: "BackgroundTask \<Rightarrow> bool"
  assumes advance: "bt_updated_at t' = now \<Longrightarrow> old t \<or> bt_updated_at t = now \<and> \<not> status_is_terminal (bt_status t) \<and> status_is_terminal (bt_status t') \<Longrightarrow> P t t'"
    and newborn: "bt_updated_at t = now \<Longrightarrow> N t"
begin

lemma edit_step:
  assumes "tasks_wf s" "get_task i s = Some t" "P t t'" "same_task t t'" "bt_failed_by_observer t' = bt_failed_by_observer t"
    "bt_status t' = bt_status t \<or> \<not> status_is_terminal (bt_status t) \<and> \<not> status_is_terminal (bt_status t')"
  shows "(micro h P N U)\<^sup>*\<^sup>* s (publish h t' s)"
  using assms micro.edit tasks_wf_get by (metis r_into_rtranclp)

lemma runtime_state_steps:
  assumes "tasks_wf s" "\<And>t r. get_task i s = Some t \<Longrightarrow> \<not> status_is_terminal (bt_status t) \<Longrightarrow> P t (t\<lparr>bt_runtime_state := st, bt_runtime_detail := d, bt_updated_at := tm\<rparr>)"
  shows "(micro h P N U)\<^sup>*\<^sup>* s (mark_runtime_state h tm i st d s)"
  unfolding mark_runtime_state_def using assms
  by (auto split: option.splits intro!: edit_step simp: same_task_def)

lemma failed_steps:
  assumes "tasks_wf s" "\<And>t. get_task i s = Some t \<Longrightarrow> old t \<or> bt_updated_at t = now \<and> \<not> status_is_terminal (bt_status t)"
  shows "(micro h P N U)\<^sup>*\<^sup>* s (mark_failed_inner h now i e obs s)"
proof (cases "get_task i s")
  case (Some t)
  let ?t = "failed_task now e obs t"
  have id: "bt_id t = i" using assms(1) Some by (rule tasks_wf_get)
  have same: "same_task t ?t" "bt_status ?t = TaskFailed" by (simp_all add: same_task_def failed_task_def)
  have P: "P t ?t" using assms(2)[OF Some] by (auto intro: advance simp: failed_task_def)
  consider "bt_status t = TaskCancelled \<or> bt_status t = TaskCompleted" | "bt_status t = TaskFailed" | "\<not> status_is_terminal (bt_status t)"
    by (auto simp: status_is_terminal_def)
  then show ?thesis
  proof cases
    case 2
    have "micro h P N U s (publish h ?t s)"
      using Some id same P 2 by (intro micro.refailed[of t]) (auto simp: failed_task_def)
    with 2 Some show ?thesis by (simp add: mark_failed_inner_def)
  next
    case 3
    have "micro h P N U s (report_failure h ?t (publish h ?t s))"
      using Some id same P 3 by (intro micro.failed[of t]) auto
    with 3 Some show ?thesis by (auto simp: mark_failed_inner_def status_is_terminal_def Let_def)
  qed (simp add: Some mark_failed_inner_def)
qed (simp add: mark_failed_inner_def)

lemma get_failed_other: "tasks_wf s \<Longrightarrow> j \<noteq> i \<Longrightarrow> get_task j (mark_failed_inner h tm i e obs s) = get_task j s"
  by (auto simp: mark_failed_inner_def get_task_def Let_def hm_simps failed_task_def dest: tasks_wf_get[unfolded get_task_def]
      split: option.splits)

lemma fold_steps:
  assumes "\<And>v i. tasks_wf v \<Longrightarrow> (\<And>t. get_task i v = Some t \<Longrightarrow> old t)
      \<Longrightarrow> (micro h P N U)\<^sup>*\<^sup>* v (f v i) \<and> (\<forall>j. j \<noteq> i \<longrightarrow> get_task j (f v i) = get_task j v)"
    and "tasks_wf s" "distinct ids" "\<And>i t. get_task i s = Some t \<Longrightarrow> i \<in> set ids \<Longrightarrow> old t"
  shows "(micro h P N U)\<^sup>*\<^sup>* s (foldl f s ids)"
  using assms(2-4)
proof (induction ids arbitrary: s)
  case (Cons i ids)
  from assms(1)[OF Cons.prems(1), of i] Cons.prems(3)[of i]
  have step: "(micro h P N U)\<^sup>*\<^sup>* s (f s i)" "\<And>j. j \<noteq> i \<Longrightarrow> get_task j (f s i) = get_task j s" by auto
  have "(micro h P N U)\<^sup>*\<^sup>* (f s i) (foldl f (f s i) ids)"
  proof (rule Cons.IH)
    show "tasks_wf (f s i)" using step(1) Cons.prems(1) by (rule micros_tasks_wf)
    show "distinct ids" using Cons.prems(2) by simp
    fix j t assume "get_task j (f s i) = Some t" "j \<in> set ids"
    moreover from this Cons.prems(2) have "j \<noteq> i" by auto
    ultimately show "old t" using Cons.prems(3)[of j t] step(2)[of j] by simp
  qed
  with step(1) show ?case by (simp add: rtranclp_trans)
qed simp

lemma all_failed_steps:
  assumes "tasks_wf s" "distinct ids" "\<And>i t. get_task i s = Some t \<Longrightarrow> i \<in> set ids \<Longrightarrow> old t"
  shows "(micro h P N U)\<^sup>*\<^sup>* s (mark_all_failed h now r ids s)"
  unfolding mark_all_failed_def mark_failed_def
  by (rule fold_steps[OF _ assms]) (auto intro!: failed_steps simp: get_failed_other)

lemma aside_step:
  "sv_tasks s' = sv_tasks s \<Longrightarrow> sv_ack_and_pending s' = sv_ack_and_pending s \<Longrightarrow> sv_persistence_path s' = sv_persistence_path s
    \<Longrightarrow> sv_disk s' = sv_disk s \<Longrightarrow> sv_panicked s' = sv_panicked s \<Longrightarrow> ob_failure (sv_observers s') = ob_failure (sv_observers s)
    \<Longrightarrow> signalled (sv_log s') = signalled (sv_log s) \<Longrightarrow> (micro h P N U)\<^sup>*\<^sup>* s s'"
  by (rule r_into_rtranclp) (rule micro.aside)

lemma register_steps:
  assumes "tasks_wf s" "i \<noteq> []" "\<not> hm_contains (sv_tasks s) i" "\<And>i t. get_task i s = Some t \<Longrightarrow> old t"
  shows "(micro h P N U)\<^sup>*\<^sup>* s (snd (register_full_with_workspace h now i n c k l inp m chk w strict s))"
proof (cases "terminal_parent chk s")
  case None
  obtain e s1 where gate: "fanout_gate h now k s = (e, s1)" by fastforce
  show ?thesis
  proof (cases e)
    case (Some err)
    from gate Some obtain key where key: "k = Some key" by (auto simp: fanout_gate_def split: option.splits)
    let ?p = "s\<lparr>sv_poisoned_parents := insert key (sv_poisoned_parents s)\<rparr>"
    from gate key Some consider "s1 = s" | r where "s1 = mark_all_failed h now r (active_children key s) ?p"
      by (auto simp: fanout_gate_def Let_def split: if_splits)
    then have "(micro h P N U)\<^sup>*\<^sup>* s s1"
    proof cases
      case 2
      have wf: "tasks_wf ?p" using assms(1) by (simp add: tasks_wf_def)
      have "(micro h P N U)\<^sup>*\<^sup>* ?p s1" unfolding 2
      proof (rule all_failed_steps[OF wf])
        show "distinct (active_children key s)" unfolding active_children_def by (rule tasks_wf_distinct[OF assms(1)])
        show "old t" if "get_task j ?p = Some t" for j t using that assms(4)[of j t] by (simp add: get_task_def)
      qed
      moreover have "(micro h P N U)\<^sup>*\<^sup>* s ?p" by (rule aside_step) simp_all
      ultimately show ?thesis by (rule rtranclp_trans[rotated])
    qed simp
    with None gate Some show ?thesis by (simp add: register_full_with_workspace_def)
  next
    case gone: None
    let ?t = "new_task now i n c k (or_else l (sv_persistence_path s)) inp m (non_empty w)"
    have t: "bt_id ?t = i" "bt_status ?t = TaskSpawned" "bt_updated_at ?t = now" by (simp_all add: new_task_def)
    from assms(3) have "get_task i s = None" by (simp add: get_task_def map_of_eq_None_iff hm_contains_iff)
    then have "micro h P N U s (notify_register (bt_id ?t) (persist_snapshot h ?t (put_task ?t s)))"
      using assms(2) t by (intro micro.registered) (auto intro: newborn)
    moreover have "put_task ?t s1 = persist_snapshot h ?t (put_task ?t s)" if "persist_snapshot_strict h ?t s = Some s1" for s1
      using that by (auto simp: persist_snapshot_def persist_snapshot_strict_def put_task_def split: option.splits)
    ultimately show ?thesis using None gate gone t(1)
      by (auto simp: register_full_with_workspace_def Let_def split: option.splits)
  qed
qed (simp add: register_full_with_workspace_def)

lemma registered_task:
  assumes "register_full_with_workspace h now i n c k l inp m chk w strict s = (Inr j, s1)"
  shows "j = i \<and> get_task i s1 = Some (new_task now i n c k (or_else l (sv_persistence_path s)) inp m (non_empty w))"
proof -
  have "sv_tasks v = sv_tasks s" if "persist_snapshot_strict h t s = Some v" for t v
    using that by (auto simp: persist_snapshot_strict_def split: option.splits)
  with assms show ?thesis
    by (auto simp: register_full_with_workspace_def Let_def get_task_def hm_simps new_task_def split: option.splits prod.splits if_splits)
qed

lemma runtime_old:
  assumes "tasks_wf s" "\<And>t. get_task i s = Some t \<Longrightarrow> old t"
  shows "(micro h P N U)\<^sup>*\<^sup>* s (mark_runtime_state h now i st d s)"
  using assms by (intro runtime_state_steps) (auto intro!: advance)

lemma runtime_then_failed:
  assumes "tasks_wf s" "\<And>t. get_task i s = Some t \<Longrightarrow> old t"
  shows "(micro h P N U)\<^sup>*\<^sup>* s (mark_failed_inner h now i e obs (mark_runtime_state h now i st d s))"
proof -
  let ?s = "mark_runtime_state h now i st d s"
  have step: "(micro h P N U)\<^sup>*\<^sup>* s ?s" using assms by (rule runtime_old)
  have wf: "tasks_wf ?s" using step assms(1) by (rule micros_tasks_wf)
  have "old t \<or> bt_updated_at t = now \<and> \<not> status_is_terminal (bt_status t)" if "get_task i ?s = Some t" for t
    using that assms tasks_wf_get[OF assms(1)] by (auto simp: mark_runtime_state_def split: option.splits if_splits)
  with wf have "(micro h P N U)\<^sup>*\<^sup>* ?s (mark_failed_inner h now i e obs ?s)" by (rule failed_steps)
  with step show ?thesis by (rule rtranclp_trans)
qed

lemma harness_steps:
  assumes "tasks_wf s" "\<And>t. get_task i s = Some t \<Longrightarrow> old t"
  shows "(micro h P N U)\<^sup>*\<^sup>* s (snd (apply_harness_event h detail now i p s))"
proof (cases "get_task i s")
  case (Some t)
  have a: "(micro h P N U)\<^sup>*\<^sup>* s (mark_runtime_state h now i st d s)" for st d using assms by (rule runtime_old)
  have b: "(micro h P N U)\<^sup>*\<^sup>* s (mark_failed_inner h now i e obs (mark_runtime_state h now i st d s))" for st d e obs
    using assms by (rule runtime_then_failed)
  show ?thesis using Some
    by (cases p) (auto simp: apply_harness_event_def Let_def mark_failed_def mark_failed_observed_def intro: a b)
qed (simp add: apply_harness_event_def)

lemma drop_steps:
  assumes "tasks_wf s" "\<And>t. get_task i s = Some t \<Longrightarrow> old t"
  shows "(micro h P N U)\<^sup>*\<^sup>* s (guard_drop h now i s)"
proof -
  let ?s = "clear_task_live i s"
  have step: "(micro h P N U)\<^sup>*\<^sup>* s ?s" by (rule aside_step) (simp_all add: clear_task_live_def)
  have wf: "tasks_wf ?s" using step assms(1) by (rule micros_tasks_wf)
  have "(micro h P N U)\<^sup>*\<^sup>* ?s (mark_failed_inner h now i e False ?s)" for e
    using wf assms(2) by (intro failed_steps) (auto simp: clear_task_live_def get_task_def)
  with step show ?thesis
    by (auto simp: guard_drop_def mark_failed_def Let_def intro: rtranclp_trans split: option.splits)
qed

lemma reap_steps:
  assumes "tasks_wf s" "\<And>i t. get_task i s = Some t \<Longrightarrow> old t"
  shows "(micro h P N U)\<^sup>*\<^sup>* s (snd (reap_stuck_tasks h fmt now moment limit s))"
  unfolding reap_stuck_tasks_def Let_def snd_conv
proof (rule fold_steps[OF _ assms(1) _ assms(2)])
  show "distinct (stuck_tasks moment limit s)" unfolding stuck_tasks_def by (rule tasks_wf_distinct[OF assms(1)])
next
  fix v i assume v: "tasks_wf v" "\<And>t. get_task i v = Some t \<Longrightarrow> old t"
  let ?r = "''orphaned: no progress for '' @ fmt limit @ '' (heartbeat timeout)''"
  let ?u = "mark_failed h now i ?r v"
  have step: "(micro h P N U)\<^sup>*\<^sup>* v ?u" unfolding mark_failed_def using v by (intro failed_steps) auto
  moreover have "(micro h P N U)\<^sup>*\<^sup>* ?u (trigger_token i ?u)" by (rule aside_step) (simp_all add: trigger_token_def)
  ultimately have "(micro h P N U)\<^sup>*\<^sup>* v (trigger_token i ?u)" by (rule rtranclp_trans)
  moreover have "get_task j (trigger_token i ?u) = get_task j v" if "j \<noteq> i" for j
    using get_failed_other[OF v(1) that] by (simp add: trigger_token_def get_task_def mark_failed_def)
  ultimately show "(micro h P N U)\<^sup>*\<^sup>* v (unless_panicked (\<lambda>u. unless_panicked (trigger_token i) (mark_failed h now i ?r u)) v)
      \<and> (\<forall>j. j \<noteq> i \<longrightarrow> get_task j (unless_panicked (\<lambda>u. unless_panicked (trigger_token i) (mark_failed h now i ?r u)) v) = get_task j v)"
    using step get_failed_other[OF v(1)] by (auto simp: unless_panicked_def mark_failed_def)
qed

lemma cancel_steps:
  assumes "tasks_wf s" "\<And>t. get_task i s = Some t \<Longrightarrow> old t"
  shows "(micro h P N U)\<^sup>*\<^sup>* s (snd (cancel h now i s))"
proof (cases "get_task i s")
  case (Some t)
  let ?t = "t\<lparr>bt_status := TaskCancelled, bt_runtime_state := RtCancelled, bt_updated_at := now, bt_completed_at := Some now,
    bt_error := or_else (bt_error t) (Some ''cancelled by supervisor'')\<rparr>"
  let ?s = "trigger_token i s"
  have id: "bt_id t = i" using assms(1) Some by (rule tasks_wf_get)
  have "(micro h P N U)\<^sup>*\<^sup>* s ?s" by (rule aside_step) (simp_all add: trigger_token_def)
  moreover have "micro h P N U ?s (drain_pending_failure_for_task (bt_id t) (publish h ?t ?s))" if "\<not> status_is_terminal (bt_status t)"
    using Some id assms(2)[OF Some] that
    by (intro micro.cancelled) (auto simp: same_task_def trigger_token_def get_task_def intro: advance)
  ultimately show ?thesis using Some id by (auto simp: cancel_def Let_def intro: rtranclp.rtrancl_into_rtrancl)
qed (simp add: cancel_def)

lemma completed_steps:
  assumes "tasks_wf s" "\<And>t. get_task i s = Some t \<Longrightarrow> old t"
  shows "(micro h P N U)\<^sup>*\<^sup>* s (mark_completed h now i fs s)"
proof (cases "get_task i s")
  case (Some t)
  let ?t = "completed_task now fs t"
  have t: "same_task t ?t" "bt_status ?t = TaskCompleted" "bt_updated_at ?t = now"
    by (simp_all add: completed_task_def Let_def same_task_def)
  have id: "bt_id t = i" using assms(1) Some by (rule tasks_wf_get)
  have "micro h P N U s (drain_pending_failure_for_task (bt_id t) (notify_terminal [] ?t (publish h ?t s)))" if "\<not> has_verdict t"
    using Some id t that assms(2)[OF Some] by (intro micro.completed) (auto intro: advance)
  with Some t(1) show ?thesis
    by (auto simp: mark_completed_def Let_def has_verdict_def provisional_def same_task_def intro: r_into_rtranclp)
qed (simp add: mark_completed_def)

lemma setter_steps:
  assumes "tasks_wf s" "\<And>t. get_task i s = Some t \<Longrightarrow> old t"
  shows "(micro h P N U)\<^sup>*\<^sup>* s (mark_running h now i s)" "(micro h P N U)\<^sup>*\<^sup>* s (mark_parked h now i r s)"
    "(micro h P N U)\<^sup>*\<^sup>* s (record_final_output h now i x s)" "(micro h P N U)\<^sup>*\<^sup>* s (mark_child_session_outcome h now i st j s)"
    "(micro h P N U)\<^sup>*\<^sup>* s (set_m13b_projection h now i a b c d e s)" "(micro h P N U)\<^sup>*\<^sup>* s (set_workspace_root h now i w s)"
    "(micro h P N U)\<^sup>*\<^sup>* s (set_projection_metadata h now i v s)"
  unfolding mark_running_def mark_parked_def record_final_output_def mark_child_session_outcome_def set_m13b_projection_def
    set_workspace_root_def set_projection_metadata_def
  using assms by (auto split: option.splits intro!: edit_step advance simp: same_task_def)

lemma op_steps:
  assumes "tasks_wf s" "\<And>i t. get_task i s = Some t \<Longrightarrow> old t" "\<not> reads_ledger op" "fresh_ids op s"
    "\<And>i v. op = OpToolInput i v \<Longrightarrow> U" "\<And>l i f j n. op \<noteq> OpRelaunch l i f j n"
  shows "(micro h P N U)\<^sup>*\<^sup>* s (sup_apply h now op s)"
proof (cases op)
  case (OpDescendants c r)
  have "(micro h P N U)\<^sup>*\<^sup>* s (mark_all_failed h now r (active_descendants c s) s)"
    unfolding active_descendants_def using assms(2) by (intro all_failed_steps tasks_wf_distinct assms(1))
  with OpDescendants show ?thesis by (simp add: mark_descendants_failed_def)
next
  case (OpToolInput i v)
  with assms(5)[OF OpToolInput] show ?thesis using tasks_wf_get[OF assms(1)] micro.noted[of _ s U h P N "Some v"]
    by (auto simp: set_tool_input_def split: option.splits)
next
  case (OpRelaunch l i f j n)
  with assms(6) show ?thesis by blast
next
  case (OpRegister i n c k l inp m chk w strict)
  with register_steps[OF assms(1) _ _ assms(2)] assms(4) show ?thesis by (simp add: fresh_ids_def)
next
  case (OpAck c)
  then show ?thesis by (auto intro: micro.acked)
next
  case (OpToken i)
  then show ?thesis by (auto simp: cancel_token_def intro!: aside_step)
next
  case (OpLive i)
  then show ?thesis by (auto simp: mark_task_live_def intro!: aside_step)
next
  case (OpDead i)
  then show ?thesis by (auto simp: clear_task_live_def intro!: aside_step)
next
  case OpRestoreObserver
  then show ?thesis by (auto simp: set_on_restore_def notify_restore_def Let_def intro!: aside_step)
qed (use assms(1-3) in \<open>auto intro: setter_steps runtime_old completed_steps failed_steps cancel_steps harness_steps drop_steps reap_steps\<close>)

end

locale relaunch_clock = task_clock old now P N for old :: "BackgroundTask \<Rightarrow> bool" and now P N +
  fixes later :: int
  assumes relaunched: "bt_updated_at t = now \<Longrightarrow> bt_updated_at t' = later \<Longrightarrow> P t t'"
begin

lemma relaunch_steps:
  assumes "tasks_wf s" "i \<noteq> []" "\<not> hm_contains (sv_tasks s) i" "\<And>i t. get_task i s = Some t \<Longrightarrow> old t"
  shows "(micro h P N U)\<^sup>*\<^sup>* s (snd (relaunch h now later i lineage j from_node s))"
proof (cases "get_task j s")
  case (Some t)
  obtain r s1 where reg: "register_full_with_workspace h now i (bt_tool_name t) (bt_tool_call_id t) (bt_session_key t) None
      (bt_tool_input t) (bt_originating_client_message_id t) None None False s = (r, s1)" by fastforce
  let ?i = "case r of Inl _ \<Rightarrow> [] | Inr v \<Rightarrow> v"
  have "(micro h P N U)\<^sup>*\<^sup>* s (snd (r, s1))" unfolding reg[symmetric] by (rule register_steps[OF assms])
  then have s1: "(micro h P N U)\<^sup>*\<^sup>* s s1" by simp
  then have wf: "tasks_wf s1" using assms(1) by (rule micros_tasks_wf)
  have born: "bt_updated_at u = now" if "get_task ?i s1 = Some u" for u
    using that tasks_wf_id[OF wf that] reg by (cases r) (auto simp: new_task_def dest!: registered_task)
  let ?s2 = "mark_runtime_state h later ?i RtSpawned (Some (lineage j from_node)) s1"
  have "(micro h P N U)\<^sup>*\<^sup>* s1 ?s2" using born by (intro runtime_state_steps[OF wf]) (auto intro!: relaunched)
  moreover have "(micro h P N U)\<^sup>*\<^sup>* ?s2 (emit b (Relaunched q) ?s2)" for b q by (rule aside_step) simp_all
  ultimately have "(micro h P N U)\<^sup>*\<^sup>* s (emit b (Relaunched q) ?s2)" for b q using s1 by (meson rtranclp_trans)
  with Some reg s1 show ?thesis
    by (auto simp: relaunch_def register_with_input_and_cmid_def register_full_def or_empty_id_def Let_def split: sum.splits)
qed (simp add: relaunch_def)

lemma relaunch_op_steps:
  assumes "tasks_wf s" "\<And>i t. get_task i s = Some t \<Longrightarrow> old t" "fresh_ids (OpRelaunch later i f j n) s"
  shows "(micro h P N U)\<^sup>*\<^sup>* s (sup_apply h now (OpRelaunch later i f j n) s)"
  using relaunch_steps[OF assms(1) _ _ assms(2)] assms(3) by (simp add: fresh_ids_def)

end

interpretation anytime: relaunch_clock "\<lambda>_. True" now "\<lambda>_ _. True" "\<lambda>_. True" later for now later
  by unfold_locales simp_all

abbreviation any_step :: "task_host \<Rightarrow> supervisor \<Rightarrow> supervisor \<Rightarrow> bool" where
  "any_step h \<equiv> micro h (\<lambda>_ _. True) (\<lambda>_. True) True"

lemma apply_steps:
  assumes "tasks_wf s" "\<not> reads_ledger op" "fresh_ids op s"
  shows "(any_step h)\<^sup>*\<^sup>* s (unless_panicked (sup_apply h now op) s)"
proof -
  have "(any_step h)\<^sup>*\<^sup>* s (sup_apply h now op s)"
  proof (cases "\<exists>l i f j n. op = OpRelaunch l i f j n")
    case True
    then show ?thesis using anytime.relaunch_op_steps[OF assms(1)] assms(3) by blast
  next
    case False
    then show ?thesis using anytime.op_steps[OF assms(1) _ assms(2,3)] by blast
  qed
  then show ?thesis by (simp add: unless_panicked_def)
qed

lemma run_steps: "tasks_wf s \<Longrightarrow> local_run h s es \<Longrightarrow> (any_step h)\<^sup>*\<^sup>* s (sup_run h s es)"
proof (induction es arbitrary: s)
  case (Cons e es)
  let ?s = "unless_panicked (sup_apply h (fst e) (snd e)) s"
  have "(any_step h)\<^sup>*\<^sup>* s ?s" using Cons.prems by (intro apply_steps) simp_all
  moreover have "(any_step h)\<^sup>*\<^sup>* ?s (sup_run h ?s es)"
    using Cons.prems micros_tasks_wf[OF calculation] by (intro Cons.IH) simp_all
  ultimately show ?case by (simp add: rtranclp_trans)
qed simp

lemma steps_invariant:
  assumes "(micro h P N U)\<^sup>*\<^sup>* s s'" "I s" "\<And>v v'. micro h P N U v v' \<Longrightarrow> I v \<Longrightarrow> I v'"
  shows "I s'"
  using assms by (induction rule: rtranclp_induct) auto

end
