(* ===== verification/Supervisor_Properties.thy ===== *)
theory Supervisor_Properties
  imports Supervisor_Steps
begin

text \<open>
  Properties of the task supervisor: a verdict is final, a failure is reported once, what the supervisor remembers is bounded, and a restart
  gets back every task from the ledger.
\<close>

subsection \<open>Verdicts\<close>

definition verdict_kept :: "BackgroundTask \<Rightarrow> BackgroundTask \<Rightarrow> bool" where
  "verdict_kept t t' \<longleftrightarrow> same_task t t' \<and> (has_verdict t \<longrightarrow> has_verdict t' \<and> bt_status t' = bt_status t)
     \<and> (bt_status t = TaskFailed \<longrightarrow> bt_status t' = TaskFailed \<or> bt_status t' = TaskCompleted)"

lemma verdict_kept_refl [simp]: "verdict_kept t t"
  by (simp add: verdict_kept_def same_task_def)

lemma verdict_kept_trans: "verdict_kept t u \<Longrightarrow> verdict_kept u v \<Longrightarrow> verdict_kept t v"
  by (auto simp: verdict_kept_def same_task_def has_verdict_def provisional_def)

lemma kept_replace:
  assumes "get_task (bt_id t) s = Some t" "same_task t t'" "sv_tasks s' = hm_insert (bt_id t') t' (sv_tasks s)" "verdict_kept t t'"
    "get_task i s = Some u"
  shows "\<exists>u'. get_task i s' = Some u' \<and> verdict_kept u u'"
proof (cases "i = bt_id t")
  case True
  with assms(1,5) have "u = t" by simp
  moreover have "get_task i s' = Some t'" using True assms(2,3) by (simp add: get_task_def hm_simps same_task_def)
  ultimately show ?thesis using assms(4) by simp
next
  case False
  then have "get_task i s' = Some u" using assms(2,3,5) by (simp add: get_task_def hm_simps same_task_def)
  then show ?thesis by simp
qed

lemma micro_verdict: "micro h P N U s s' \<Longrightarrow> get_task i s = Some u \<Longrightarrow> \<exists>t'. get_task i s' = Some t' \<and> verdict_kept u t'"
proof (induction rule: micro.induct)
  case c: (edit t s t')
  have v: "verdict_kept t t'" using c(2-4) by (auto simp: verdict_kept_def has_verdict_def provisional_def)
  show ?case by (rule kept_replace[OF c(1,2) _ v c(6)]) simp
next
  case c: (noted t s v)
  show ?case by (rule kept_replace[OF c(1) _ _ _ c(3), of "t\<lparr>bt_tool_input := v\<rparr>"])
    (simp_all add: same_task_def verdict_kept_def has_verdict_def provisional_def)
next
  case c: (cancelled t s t')
  have v: "verdict_kept t t'" using c(2-4) by (auto simp: verdict_kept_def has_verdict_def provisional_def)
  show ?case by (rule kept_replace[OF c(1,2) _ v c(6)]) simp
next
  case c: (completed t s t')
  have v: "verdict_kept t t'" using c(2-4) by (auto simp: verdict_kept_def has_verdict_def provisional_def)
  show ?case by (rule kept_replace[OF c(1,2) _ v c(6)]) simp
next
  case c: (failed t s t')
  have v: "verdict_kept t t'" using c(2-4) by (auto simp: verdict_kept_def has_verdict_def provisional_def)
  show ?case by (rule kept_replace[OF c(1,2) _ v c(6)]) simp
next
  case c: (refailed t s t')
  have v: "verdict_kept t t'" using c(2-5) by (auto simp: verdict_kept_def has_verdict_def provisional_def)
  show ?case by (rule kept_replace[OF c(1,2) _ v c(7)]) simp
next
  case c: (registered t s)
  then have "i \<noteq> bt_id t" by auto
  with c(5) show ?case by (simp add: get_task_def hm_simps)
next
  case k: (acked s c)
  then show ?case by (simp add: get_task_def)
next
  case c: (aside s' s)
  from c(8) show ?case by (simp add: get_task_def c(1))
qed

lemma micros_verdict: "(micro h P N U)\<^sup>*\<^sup>* s s' \<Longrightarrow> get_task i s = Some t \<Longrightarrow> \<exists>t'. get_task i s' = Some t' \<and> verdict_kept t t'"
proof (induction rule: rtranclp_induct)
  case (step v w)
  then obtain u where u: "get_task i v = Some u" "verdict_kept t u" by blast
  from micro_verdict[OF step(2) u(1)] u(2) show ?case by (blast intro: verdict_kept_trans)
qed simp

subsection \<open>The stash and the sets of ids\<close>

text \<open>What the supervisor remembers of failures: the stash and its order agree, and each part is bounded.\<close>

definition stash_ok :: "AckAndPending \<Rightarrow> bool" where
  "stash_ok a \<longleftrightarrow> hm_wf (ap_pending a) \<and> distinct (ap_pending_order a) \<and> set (ap_pending_order a) = set (hm_keys (ap_pending a))
     \<and> length (ap_pending a) \<le> MAX_PENDING_FAILURES
     \<and> distinct (ap_emitted a) \<and> distinct (ap_emitted_order a) \<and> set (ap_emitted_order a) = set (ap_emitted a)
     \<and> length (ap_emitted a) \<le> MAX_FAILURE_SIGNAL_EMITTED_IDS
     \<and> distinct (ap_notified a) \<and> distinct (ap_notified_order a) \<and> set (ap_notified_order a) = set (ap_notified a)
     \<and> length (ap_notified a) \<le> MAX_FAILURE_SIGNAL_EMITTED_IDS"

lemma evict_oldest_ok:
  assumes "distinct ids" "distinct order" "set order = set ids" "evict_oldest ids order = (ids', order')"
  shows "distinct ids' \<and> distinct order' \<and> set order' = set ids' \<and> length ids' \<le> MAX_FAILURE_SIGNAL_EMITTED_IDS
    \<and> set ids' \<subseteq> set ids"
  using assms
proof (induction ids order rule: evict_oldest.induct)
  case (2 ids stale order)
  show ?case
  proof (cases "MAX_FAILURE_SIGNAL_EMITTED_IDS < length ids")
    case True
    have a: "distinct (removeAll stale ids)" using 2(2) by (rule distinct_removeAll)
    have b: "distinct order" "set order = set (removeAll stale ids)" using 2(3,4) by auto
    have c: "evict_oldest (removeAll stale ids) order = (ids', order')" using 2(5) True by simp
    from 2(1)[OF True a b c] show ?thesis by auto
  next
    case False
    with 2(5) have "ids' = ids" "order' = stale # order" by simp_all
    with 2(2-4) False show ?thesis by simp
  qed
qed (simp add: MAX_FAILURE_SIGNAL_EMITTED_IDS_def)

lemma hm_remove_subset: "set (hm_remove k m) \<subseteq> set m"
  by (auto simp: AList.delete_eq)

lemma hm_remove_length:
  assumes "hm_wf m" "hm_contains m k"
  shows "length (hm_remove k m) = length m - 1"
proof -
  have "length (hm_remove k m) = card (set (hm_keys (hm_remove k m)))"
    using assms(1) distinct_card[OF hm_wf_remove] by (metis length_map)
  also have "\<dots> = card (set (hm_keys m)) - 1" using assms(2) by (simp only: hm_keys_remove) (simp add: hm_contains_iff)
  also have "\<dots> = length m - 1" using assms(1) distinct_card[of "hm_keys m"] by simp
  finally show ?thesis .
qed

lemma pop_pending_ok:
  assumes "hm_wf m" "distinct order" "set order = set (hm_keys m)" "pop_pending m order = (m', order')"
  shows "hm_wf m' \<and> distinct order' \<and> set order' = set (hm_keys m') \<and> length m' = length m - 1 \<and> set m' \<subseteq> set m"
proof (cases order)
  case Nil
  with assms show ?thesis by auto
next
  case (Cons stale rest)
  then have "hm_contains m stale" using assms(3) by (auto simp: hm_contains_iff)
  with assms(4) Cons have m': "m' = hm_remove stale m" "order' = rest" by auto
  from assms Cons have "set rest = set (hm_keys m) - {stale}" by auto
  moreover have "set (hm_keys m') = set (hm_keys m) - {stale}" unfolding m' by (rule hm_keys_remove)
  moreover have "hm_wf m'" unfolding m' using assms(1) by (rule hm_wf_remove)
  moreover have "length m' = length m - 1" unfolding m' using assms(1) \<open>hm_contains m stale\<close> by (rule hm_remove_length)
  moreover have "set m' \<subseteq> set m" unfolding m' by (rule hm_remove_subset)
  ultimately show ?thesis using assms(2) Cons m'(2) by simp
qed

lemma hm_insert_length: "length (hm_insert k v m) = (if hm_contains m k then length m else Suc (length m))"
  using arg_cong[OF update_keys[of k v m], of length] by (simp add: hm_contains_iff split: if_splits)

lemma insert_pending_ok: "stash_ok a \<Longrightarrow> stash_ok (insert_pending i v a)"
proof (cases "hm_contains (ap_pending a) i")
  case True
  assume "stash_ok a"
  moreover have "set (hm_keys (hm_insert i v (ap_pending a))) = set (hm_keys (ap_pending a))"
    using True by (simp only: hm_keys_insert) (auto simp: hm_contains_iff)
  ultimately show ?thesis using True
    by (simp add: insert_pending_def stash_ok_def hm_insert_length hm_wf_insert del: set_map)
next
  case False
  assume ok: "stash_ok a"
  obtain m order where pop: "(if MAX_PENDING_FAILURES \<le> length (ap_pending a) then pop_pending (ap_pending a) (ap_pending_order a)
      else (ap_pending a, ap_pending_order a)) = (m, order)" by fastforce
  have m: "hm_wf m" "distinct order" "set order = set (hm_keys m)" "length m < MAX_PENDING_FAILURES" "set m \<subseteq> set (ap_pending a)"
    using pop pop_pending_ok[of "ap_pending a" "ap_pending_order a" m order] ok
    by (auto simp: stash_ok_def MAX_PENDING_FAILURES_def split: if_splits)
  have new: "i \<notin> set (hm_keys m)" using m(5) False by (auto simp: hm_contains_iff)
  then have "set (hm_keys (hm_insert i v m)) = set (order @ [i])" using m(3) by (simp only: hm_keys_insert) simp
  moreover have "hm_wf (hm_insert i v m)" using m(1) by (rule hm_wf_insert)
  moreover have "length (hm_insert i v m) \<le> MAX_PENDING_FAILURES" using m(4) new by (simp add: hm_insert_length hm_contains_iff)
  moreover have "distinct (order @ [i])" using m(2,3) new by simp
  moreover have "insert_pending i v a = a\<lparr>ap_pending := hm_insert i v m, ap_pending_order := order @ [i]\<rparr>"
    using False pop by (simp add: insert_pending_def)
  ultimately show ?thesis using ok by (simp add: stash_ok_def)
qed

lemma insert_pending_subset: "set (ap_pending (insert_pending i v a)) \<subseteq> insert (i, v) (set (ap_pending a))"
proof -
  have pop: "set (fst (pop_pending m order)) \<subseteq> set m" for m :: "(string, PendingFailure) hashmap" and order
    by (induction m order rule: pop_pending.induct) (auto dest: subsetD[OF hm_remove_subset])
  obtain m order where m: "(if MAX_PENDING_FAILURES \<le> length (ap_pending a) then pop_pending (ap_pending a) (ap_pending_order a)
      else (ap_pending a, ap_pending_order a)) = (m, order)" by fastforce
  then have "set m \<subseteq> set (ap_pending a)" using pop[of "ap_pending a" "ap_pending_order a"] by (auto split: if_splits)
  with hm_insert_subset[of i v m] have "set (hm_insert i v m) \<subseteq> insert (i, v) (set (ap_pending a))" by blast
  moreover have "ap_pending (insert_pending i v a) = (if hm_contains (ap_pending a) i then hm_insert i v (ap_pending a) else hm_insert i v m)"
    using m by (simp add: insert_pending_def)
  ultimately show ?thesis using hm_insert_subset[of i v "ap_pending a"] by simp
qed

lemma insert_pending_keys:
  "length (ap_pending a) < MAX_PENDING_FAILURES \<Longrightarrow> set (hm_keys (ap_pending (insert_pending i v a))) = insert i (set (hm_keys (ap_pending a)))"
  by (simp add: insert_pending_def Let_def hm_keys_insert[simplified])

lemma insert_pending_simps [simp]:
  "ap_acked (insert_pending i v a) = ap_acked a" "ap_emitted (insert_pending i v a) = ap_emitted a"
  by (simp_all add: insert_pending_def Let_def split: prod.splits)

lemma remove_pending_ok: "stash_ok a \<Longrightarrow> stash_ok (remove_pending i a)"
  unfolding remove_pending_def forget_pending_in_order_def stash_ok_def
  by (auto simp: hm_remove_length hm_keys_remove[simplified] hm_wf_remove)

lemma remove_pending_simps [simp]:
  "ap_acked (remove_pending i a) = ap_acked a" "ap_emitted (remove_pending i a) = ap_emitted a"
  "set (ap_pending (remove_pending i a)) = {x \<in> set (ap_pending a). fst x \<noteq> i}"
  by (auto simp: remove_pending_def forget_pending_in_order_def AList.delete_eq hm_contains_iff)

lemma forget_all:
  "foldl (\<lambda>b i. forget_pending_in_order i b) a ids = a\<lparr>ap_pending_order := foldl (\<lambda>ord i. remove1 i ord) (ap_pending_order a) ids\<rparr>"
  by (induction ids arbitrary: a) (simp_all add: forget_pending_in_order_def)

lemma remove1_all: "distinct ord \<Longrightarrow> distinct (foldl (\<lambda>ord i. remove1 i ord) ord ids)
    \<and> set (foldl (\<lambda>ord i. remove1 i ord) ord ids) = set ord - set ids"
  by (induction ids arbitrary: ord) auto

lemma hm_keys_split: "hm_wf m \<Longrightarrow> set (hm_keys m) - set (hm_keys (filter Q m)) = set (hm_keys (filter (\<lambda>x. \<not> Q x) m))"
  by (induction m) (auto simp: image_iff)

lemma drain_ok:
  assumes "stash_ok a"
  shows "stash_ok (snd (drain_pending_for_tool_call c a))"
proof -
  let ?Q = "\<lambda>(_ :: string, pf). pf_tool_call_id pf = c"
  let ?ids = "map fst (filter ?Q (ap_pending a))"
  have "set (foldl (\<lambda>ord i. remove1 i ord) (ap_pending_order a) ?ids) = set (hm_keys (filter (\<lambda>x. \<not> ?Q x) (ap_pending a)))"
    and "distinct (foldl (\<lambda>ord i. remove1 i ord) (ap_pending_order a) ?ids)"
    using remove1_all[of "ap_pending_order a" ?ids] hm_keys_split[of "ap_pending a" ?Q] assms by (simp_all add: stash_ok_def)
  moreover have "length (filter (\<lambda>(_ :: string, pf). pf_tool_call_id pf \<noteq> c) (ap_pending a)) \<le> MAX_PENDING_FAILURES"
    using assms length_filter_le le_trans unfolding stash_ok_def by blast
  moreover have "(\<lambda>x. \<not> ?Q x) = (\<lambda>(_ :: string, pf). pf_tool_call_id pf \<noteq> c)" by auto
  ultimately show ?thesis using assms
    unfolding drain_pending_for_tool_call_def Let_def forget_all snd_conv stash_ok_def by (simp add: distinct_map_filter split_beta)
qed

lemma drain_simps2 [simp]:
  "ap_acked (snd (drain_pending_for_tool_call c a)) = ap_acked a" "ap_emitted (snd (drain_pending_for_tool_call c a)) = ap_emitted a"
  "ap_pending (snd (drain_pending_for_tool_call c a)) = filter (\<lambda>(_, pf). pf_tool_call_id pf \<noteq> c) (ap_pending a)"
  "fst (drain_pending_for_tool_call c a) = map snd (filter (\<lambda>(_, pf). pf_tool_call_id pf = c) (ap_pending a))"
  by (simp_all add: drain_pending_for_tool_call_def forget_all Let_def)

lemma mark_emitted_ok:
  assumes "stash_ok a"
  shows "stash_ok (snd (mark_emitted i a))" "fst (mark_emitted i a) = (i \<notin> set (ap_emitted a))"
    "set (ap_emitted (snd (mark_emitted i a))) \<subseteq> insert i (set (ap_emitted a))"
    "ap_pending (snd (mark_emitted i a)) = ap_pending a" "ap_acked (snd (mark_emitted i a)) = ap_acked a"
proof -
  obtain ids order where e: "evict_oldest (i # ap_emitted a) (ap_emitted_order a @ [i]) = (ids, order)" by fastforce
  have eq: "mark_emitted i a = (if i \<in> set (ap_emitted a) then (False, a) else (True, a\<lparr>ap_emitted := ids, ap_emitted_order := order\<rparr>))"
    using e by (simp add: mark_emitted_def)
  have ok: "distinct ids \<and> distinct order \<and> set order = set ids \<and> length ids \<le> MAX_FAILURE_SIGNAL_EMITTED_IDS
      \<and> set ids \<subseteq> set (i # ap_emitted a)" if "i \<notin> set (ap_emitted a)"
    using that assms by (intro evict_oldest_ok[OF _ _ _ e]) (auto simp: stash_ok_def)
  show "stash_ok (snd (mark_emitted i a))" using eq ok assms by (cases "i \<in> set (ap_emitted a)") (simp_all add: stash_ok_def)
  show "fst (mark_emitted i a) = (i \<notin> set (ap_emitted a))" using eq by simp
  show "set (ap_emitted (snd (mark_emitted i a))) \<subseteq> insert i (set (ap_emitted a))" using eq ok by auto
  show "ap_pending (snd (mark_emitted i a)) = ap_pending a" "ap_acked (snd (mark_emitted i a)) = ap_acked a" using eq by simp_all
qed

lemma mark_notified_ok:
  assumes "stash_ok a"
  shows "stash_ok (snd (mark_terminal_notified i a))" "fst (mark_terminal_notified i a) = (i \<notin> set (ap_notified a))"
    "ap_emitted (snd (mark_terminal_notified i a)) = ap_emitted a"
    "ap_pending (snd (mark_terminal_notified i a)) = ap_pending a" "ap_acked (snd (mark_terminal_notified i a)) = ap_acked a"
proof -
  obtain ids order where e: "evict_oldest (i # ap_notified a) (ap_notified_order a @ [i]) = (ids, order)" by fastforce
  have eq: "mark_terminal_notified i a = (if i \<in> set (ap_notified a) then (False, a) else (True, a\<lparr>ap_notified := ids, ap_notified_order := order\<rparr>))"
    using e by (simp add: mark_terminal_notified_def)
  have ok: "distinct ids \<and> distinct order \<and> set order = set ids \<and> length ids \<le> MAX_FAILURE_SIGNAL_EMITTED_IDS
      \<and> set ids \<subseteq> set (i # ap_notified a)" if "i \<notin> set (ap_notified a)"
    using that assms by (intro evict_oldest_ok[OF _ _ _ e]) (auto simp: stash_ok_def)
  show "stash_ok (snd (mark_terminal_notified i a))" using eq ok assms by (cases "i \<in> set (ap_notified a)") (simp_all add: stash_ok_def)
  show "fst (mark_terminal_notified i a) = (i \<notin> set (ap_notified a))" using eq by simp
  show "ap_emitted (snd (mark_terminal_notified i a)) = ap_emitted a" "ap_pending (snd (mark_terminal_notified i a)) = ap_pending a"
    "ap_acked (snd (mark_terminal_notified i a)) = ap_acked a" using eq by simp_all
qed

subsection \<open>Reports of failures\<close>

text \<open>What the reports are about: the status and the tool call of each task.\<close>

definition view :: "supervisor \<Rightarrow> string \<rightharpoonup> TaskStatus \<times> string" where
  "view s i = map_option (\<lambda>t. (bt_status t, bt_tool_call_id t)) (get_task i s)"

definition reports_ok :: "(string \<rightharpoonup> TaskStatus \<times> string) \<Rightarrow> AckAndPending \<Rightarrow> string list \<Rightarrow> bool" where
  "reports_ok V a L \<longleftrightarrow> distinct L \<and> set (ap_emitted a) \<subseteq> set L
     \<and> (\<forall>i \<in> set L. \<exists>c \<in> ap_acked a. V i = Some (TaskFailed, c) \<or> V i = Some (TaskCompleted, c))
     \<and> (\<forall>(i, pf) \<in> set (ap_pending a). sg_task_id (pf_signal pf) = i \<and> i \<notin> set L \<and> pf_tool_call_id pf \<notin> ap_acked a
          \<and> V i = Some (TaskFailed, pf_tool_call_id pf))"

definition reports_full :: "(string \<rightharpoonup> TaskStatus \<times> string) \<Rightarrow> AckAndPending \<Rightarrow> string list \<Rightarrow> bool" where
  "reports_full V a L \<longleftrightarrow> (\<forall>i c. V i = Some (TaskFailed, c) \<longrightarrow> c \<noteq> [] \<longrightarrow> i \<in> set L \<or> i \<in> set (hm_keys (ap_pending a)))"

lemma view_publish: "view (publish h t s) = (view s)(bt_id t \<mapsto> (bt_status t, bt_tool_call_id t))"
  by (auto simp: view_def)

lemma view_cong: "sv_tasks s' = sv_tasks s \<Longrightarrow> view s' = view s"
  by (simp add: view_def get_task_def fun_eq_iff)

lemma reports_move:
  assumes "reports_ok V a L" "\<And>st c. V i = Some (st, c) \<Longrightarrow> \<not> status_is_terminal st"
  shows "reports_ok (V(i \<mapsto> (st', c'))) a L" "i \<notin> set L" "i \<notin> set (hm_keys (ap_pending a))"
proof -
  show L: "i \<notin> set L"
  proof
    assume "i \<in> set L"
    then obtain c where "V i = Some (TaskFailed, c) \<or> V i = Some (TaskCompleted, c)" using assms(1) by (auto simp: reports_ok_def)
    with assms(2) show False by auto
  qed
  show p: "i \<notin> set (hm_keys (ap_pending a))"
  proof
    assume "i \<in> set (hm_keys (ap_pending a))"
    then obtain pf where "(i, pf) \<in> set (ap_pending a)" by auto
    with assms show False by (fastforce simp: reports_ok_def)
  qed
  have "(V(i \<mapsto> (st', c'))) j = V j" if "j \<in> set L \<or> j \<in> set (hm_keys (ap_pending a))" for j using that L p by auto
  moreover have "j \<in> set (hm_keys (ap_pending a))" if "(j, pf) \<in> set (ap_pending a)" for j pf using that by force
  ultimately show "reports_ok (V(i \<mapsto> (st', c'))) a L" using assms(1) unfolding reports_ok_def by fastforce
qed

lemma reports_full_move: "reports_full V a L \<Longrightarrow> st \<noteq> TaskFailed \<Longrightarrow> reports_full (V(i \<mapsto> (st, c))) a L"
  by (simp add: reports_full_def)

lemma reports_remove:
  assumes "reports_ok V a L" "i \<notin> set L \<or> st = TaskCompleted" "\<And>st c'. V i = Some (st, c') \<Longrightarrow> c' = c"
  shows "reports_ok (V(i \<mapsto> (st, c))) (remove_pending i a) L"
proof -
  have "\<exists>d \<in> ap_acked a. (V(i \<mapsto> (st, c))) j = Some (TaskFailed, d) \<or> (V(i \<mapsto> (st, c))) j = Some (TaskCompleted, d)" if "j \<in> set L" for j
  proof -
    from that assms(1) obtain d where d: "d \<in> ap_acked a" "V j = Some (TaskFailed, d) \<or> V j = Some (TaskCompleted, d)"
      by (auto simp: reports_ok_def)
    show ?thesis using d that assms(2,3) by (cases "j = i") auto
  qed
  with assms(1) show ?thesis unfolding reports_ok_def by (auto simp: split_beta)
qed

lemma reports_full_remove:
  "reports_full V a L \<Longrightarrow> st \<noteq> TaskFailed \<Longrightarrow> reports_full (V(i \<mapsto> (st, c))) (remove_pending i a) L"
  by (fastforce simp: reports_full_def image_iff)

lemma reports_stash:
  assumes "reports_ok V a L" "sg_task_id (pf_signal pf) = i" "i \<notin> set L" "pf_tool_call_id pf \<notin> ap_acked a"
    "V i = Some (TaskFailed, pf_tool_call_id pf)"
  shows "reports_ok V (insert_pending i pf a) L"
proof -
  have "(case x of (i, pf) \<Rightarrow> sg_task_id (pf_signal pf) = i \<and> i \<notin> set L \<and> pf_tool_call_id pf \<notin> ap_acked a
          \<and> V i = Some (TaskFailed, pf_tool_call_id pf))" if "x \<in> set (ap_pending (insert_pending i pf a))" for x
    using subsetD[OF insert_pending_subset that] assms unfolding reports_ok_def by auto
  with assms(1) show ?thesis by (simp add: reports_ok_def)
qed

lemma reports_emit:
  assumes "stash_ok a" "reports_ok V a L" "V i = Some (TaskFailed, c)" "i \<notin> set L" "i \<notin> set (hm_keys (ap_pending a))" "c \<in> ap_acked a"
  shows "reports_ok V (snd (mark_emitted i a)) (L @ [i])" "fst (mark_emitted i a)"
proof -
  have new: "i \<notin> set (ap_emitted a)" using assms(2,4) by (auto simp: reports_ok_def)
  then show "fst (mark_emitted i a)" using mark_emitted_ok(2)[OF assms(1)] by simp
  have pend: "sg_task_id (pf_signal pf) = j \<and> j \<notin> set (L @ [i]) \<and> pf_tool_call_id pf \<notin> ap_acked a
          \<and> V j = Some (TaskFailed, pf_tool_call_id pf)" if "(j, pf) \<in> set (ap_pending a)" for j pf
  proof -
    have "j \<in> set (hm_keys (ap_pending a))" using that by force
    with assms(5) have "j \<noteq> i" by blast
    with that assms(2) show ?thesis unfolding reports_ok_def by auto
  qed
  have em: "set (ap_emitted (snd (mark_emitted i a))) \<subseteq> set (L @ [i])"
    using mark_emitted_ok(3)[OF assms(1), of i] assms(2) by (auto simp: reports_ok_def)
  have "\<forall>j \<in> set (L @ [i]). \<exists>c \<in> ap_acked a. V j = Some (TaskFailed, c) \<or> V j = Some (TaskCompleted, c)"
    using assms(2,3,6) by (auto simp: reports_ok_def)
  moreover have "distinct (L @ [i])" using assms(2,4) by (simp add: reports_ok_def)
  ultimately show "reports_ok V (snd (mark_emitted i a)) (L @ [i])"
    unfolding reports_ok_def mark_emitted_ok(4,5)[OF assms(1), of i] using em pend by blast
qed

lemma reports_full_except:
  assumes "reports_full (V(i := None)) a L" "set L \<subseteq> set L'" "set (hm_keys (ap_pending a)) \<subseteq> set (hm_keys (ap_pending a'))"
    "i \<in> set L' \<or> i \<in> set (hm_keys (ap_pending a')) \<or> V i = Some (st, [])"
  shows "reports_full V a' L'"
  unfolding reports_full_def
proof (intro allI impI)
  fix j c assume j: "V j = Some (TaskFailed, c)" "c \<noteq> []"
  show "j \<in> set L' \<or> j \<in> set (hm_keys (ap_pending a'))"
  proof (cases "j = i")
    case True
    with assms(4) j show ?thesis by auto
  next
    case False
    with j(1) have "(V(i := None)) j = Some (TaskFailed, c)" by simp
    with assms(1) j(2) have "j \<in> set L \<or> j \<in> set (hm_keys (ap_pending a))" unfolding reports_full_def by blast
    with assms(2,3) show ?thesis by blast
  qed
qed

lemma reports_cong:
  "ap_emitted b = ap_emitted a \<Longrightarrow> ap_pending b = ap_pending a \<Longrightarrow> ap_acked b = ap_acked a \<Longrightarrow> reports_ok V b L = reports_ok V a L"
  "ap_pending b = ap_pending a \<Longrightarrow> reports_full V b L = reports_full V a L"
  by (simp_all add: reports_ok_def reports_full_def)

lemma notify_terminal_ack:
  assumes "stash_ok (sv_ack_and_pending s)" and s'_def: "s' = notify_terminal al t s"
  shows "ap_pending (sv_ack_and_pending s') = ap_pending (sv_ack_and_pending s)" "ap_emitted (sv_ack_and_pending s') = ap_emitted (sv_ack_and_pending s)"
    "ap_acked (sv_ack_and_pending s') = ap_acked (sv_ack_and_pending s)"
proof -
  let ?a = "sv_ack_and_pending s"
  have "sv_ack_and_pending s' = ?a \<or> sv_ack_and_pending s' = snd (mark_terminal_notified (bt_id t) ?a)"
    unfolding s'_def notify_terminal_def by (auto simp: Let_def split: prod.splits bool.splits)
  with mark_notified_ok(3-5)[OF assms(1), of "bt_id t"]
  show "ap_pending (sv_ack_and_pending s') = ap_pending ?a" "ap_emitted (sv_ack_and_pending s') = ap_emitted ?a"
    "ap_acked (sv_ack_and_pending s') = ap_acked ?a" by metis+
qed

lemma notify_terminal_reports:
  assumes "stash_ok (sv_ack_and_pending s)" and s'_def: "s' = notify_terminal al t s"
  shows "stash_ok (sv_ack_and_pending s')" "signalled (sv_log s') = signalled (sv_log s)"
    "reports_ok V (sv_ack_and_pending s') L = reports_ok V (sv_ack_and_pending s) L"
    "reports_full V (sv_ack_and_pending s') L = reports_full V (sv_ack_and_pending s) L"
proof -
  let ?a = "sv_ack_and_pending s"
  note n = mark_notified_ok[OF assms(1), of "bt_id t"]
  have "sv_ack_and_pending s' = ?a \<or> sv_ack_and_pending s' = snd (mark_terminal_notified (bt_id t) ?a)"
    unfolding s'_def notify_terminal_def by (auto simp: Let_def split: prod.splits bool.splits)
  moreover have "signalled (sv_log s') = signalled (sv_log s)"
    unfolding s'_def notify_terminal_def by (auto simp: Let_def split: prod.splits bool.splits)
  ultimately show "stash_ok (sv_ack_and_pending s')" "signalled (sv_log s') = signalled (sv_log s)"
    "reports_ok V (sv_ack_and_pending s') L = reports_ok V ?a L" "reports_full V (sv_ack_and_pending s') L = reports_full V ?a L"
    using assms(1) n(1) reports_cong(1)[OF n(3,4,5)] reports_cong(2)[OF n(4)] by auto
qed

lemma notify_failure_reports:
  assumes "stash_ok (sv_ack_and_pending s)" "ob_failure (sv_observers s)" "view s (bt_id t) = Some (TaskFailed, bt_tool_call_id t)"
    "reports_ok (view s) (sv_ack_and_pending s) (signalled (sv_log s))" "bt_id t \<notin> set (signalled (sv_log s))"
    "bt_id t \<notin> set (hm_keys (ap_pending (sv_ack_and_pending s)))"
    and s'_def: "s' = notify_failure al t s"
  shows "stash_ok (sv_ack_and_pending s')" "reports_ok (view s) (sv_ack_and_pending s') (signalled (sv_log s'))"
    "length (ap_pending (sv_ack_and_pending s)) < MAX_PENDING_FAILURES \<Longrightarrow> reports_full (V(bt_id t := None)) (sv_ack_and_pending s) (signalled (sv_log s))
      \<Longrightarrow> V (bt_id t) = Some (TaskFailed, bt_tool_call_id t) \<Longrightarrow> reports_full V (sv_ack_and_pending s') (signalled (sv_log s'))"
proof -
  let ?a = "sv_ack_and_pending s" and ?L = "signalled (sv_log s)" and ?sg = "failure_signal (bt_parent_session_key t) al t"
  let ?pf = "\<lparr>pf_tool_call_id = bt_tool_call_id t, pf_signal = ?sg\<rparr>"
  have new: "bt_id t \<notin> set (ap_emitted ?a)" using assms(4,5) by (auto simp: reports_ok_def)
  consider (quiet) "bt_tool_call_id t = []" "s' = s"
    | (sent) "sv_ack_and_pending s' = snd (mark_emitted (bt_id t) ?a)" "signalled (sv_log s') = ?L @ [bt_id t]" "bt_tool_call_id t \<in> ap_acked ?a"
    | (stashed) "sv_ack_and_pending s' = insert_pending (bt_id t) ?pf ?a" "signalled (sv_log s') = ?L" "bt_tool_call_id t \<notin> ap_acked ?a"
    using new assms(2) unfolding s'_def notify_failure_def invoke_failure_callback_def
    by (cases "bt_tool_call_id t = []"; cases "bt_tool_call_id t \<in> ap_acked ?a") (auto simp: Let_def failure_signal_def)
  then have "stash_ok (sv_ack_and_pending s') \<and> reports_ok (view s) (sv_ack_and_pending s') (signalled (sv_log s'))
    \<and> (length (ap_pending ?a) < MAX_PENDING_FAILURES \<longrightarrow> reports_full (V(bt_id t := None)) ?a ?L
      \<longrightarrow> V (bt_id t) = Some (TaskFailed, bt_tool_call_id t) \<longrightarrow> reports_full V (sv_ack_and_pending s') (signalled (sv_log s')))"
  proof cases
    case quiet
    have "reports_full V ?a ?L" if "reports_full (V(bt_id t := None)) ?a ?L" "V (bt_id t) = Some (TaskFailed, [])"
      using that by (intro reports_full_except[OF that(1)]) auto
    with quiet assms(1,4) show ?thesis by simp
  next
    case sent
    have "reports_full V (snd (mark_emitted (bt_id t) ?a)) (?L @ [bt_id t])" if "reports_full (V(bt_id t := None)) ?a ?L"
      using mark_emitted_ok(4)[OF assms(1), of "bt_id t"] by (intro reports_full_except[OF that]) auto
    with sent mark_emitted_ok(1)[OF assms(1)] reports_emit(1)[OF assms(1,4,3,5,6) sent(3)] show ?thesis by simp
  next
    case stashed
    have "reports_ok (view s) (insert_pending (bt_id t) ?pf ?a) ?L"
      using assms(3-5) stashed(3) by (intro reports_stash) (simp_all add: failure_signal_def)
    moreover have "reports_full V (insert_pending (bt_id t) ?pf ?a) ?L"
      if "length (ap_pending ?a) < MAX_PENDING_FAILURES" "reports_full (V(bt_id t := None)) ?a ?L"
      by (intro reports_full_except[OF that(2)]) (auto simp only: insert_pending_keys[OF that(1)])
    ultimately show ?thesis using stashed insert_pending_ok[OF assms(1)] by simp
  qed
  then show "stash_ok (sv_ack_and_pending s')" "reports_ok (view s) (sv_ack_and_pending s') (signalled (sv_log s'))"
    "length (ap_pending ?a) < MAX_PENDING_FAILURES \<Longrightarrow> reports_full (V(bt_id t := None)) ?a ?L
      \<Longrightarrow> V (bt_id t) = Some (TaskFailed, bt_tool_call_id t) \<Longrightarrow> reports_full V (sv_ack_and_pending s') (signalled (sv_log s'))"
    by simp_all
qed

lemma dispatch_all_Cons: "dispatch_all (pf # pfs) s = dispatch_all pfs (dispatch_failure_signal (sg_task_id (pf_signal pf)) (pf_signal pf) s)"
  by (simp add: dispatch_all_def)

lemma dispatch_all_reports:
  assumes "stash_ok (sv_ack_and_pending s)" "ob_failure (sv_observers s)" "reports_ok V (sv_ack_and_pending s) (signalled (sv_log s))"
    "distinct (map (\<lambda>pf. sg_task_id (pf_signal pf)) pfs)"
    "\<And>pf. pf \<in> set pfs \<Longrightarrow> sg_task_id (pf_signal pf) \<notin> set (signalled (sv_log s))
      \<and> sg_task_id (pf_signal pf) \<notin> set (hm_keys (ap_pending (sv_ack_and_pending s))) \<and> (\<exists>c \<in> ap_acked (sv_ack_and_pending s). V (sg_task_id (pf_signal pf)) = Some (TaskFailed, c))"
  shows "stash_ok (sv_ack_and_pending (dispatch_all pfs s)) \<and> reports_ok V (sv_ack_and_pending (dispatch_all pfs s)) (signalled (sv_log (dispatch_all pfs s)))
    \<and> signalled (sv_log (dispatch_all pfs s)) = signalled (sv_log s) @ map (\<lambda>pf. sg_task_id (pf_signal pf)) pfs
    \<and> ap_pending (sv_ack_and_pending (dispatch_all pfs s)) = ap_pending (sv_ack_and_pending s)"
  using assms
proof (induction pfs arbitrary: s)
  case Nil
  then show ?case by (simp add: dispatch_all_def)
next
  case (Cons pf pfs)
  let ?i = "sg_task_id (pf_signal pf)" and ?s = "dispatch_failure_signal (sg_task_id (pf_signal pf)) (pf_signal pf) s"
  let ?a = "sv_ack_and_pending s"
  from Cons.prems(5)[of pf] obtain c where i: "?i \<notin> set (signalled (sv_log s))" "?i \<notin> set (hm_keys (ap_pending ?a))"
    "V ?i = Some (TaskFailed, c)" "c \<in> ap_acked ?a" by auto
  note e = reports_emit[OF Cons.prems(1,3) i(3,1,2,4)] mark_emitted_ok[OF Cons.prems(1), of ?i]
  have s: "sv_ack_and_pending ?s = snd (mark_emitted ?i ?a)" "signalled (sv_log ?s) = signalled (sv_log s) @ [?i]" "sv_observers ?s = sv_observers s"
    using e(2) Cons.prems(2) by (cases "mark_emitted ?i ?a"; simp add: dispatch_failure_signal_def invoke_failure_callback_def)+
  have other: "sg_task_id (pf_signal q) \<noteq> ?i" if "q \<in> set pfs" for q 
    using Cons.prems(4) imageI[OF that, of "\<lambda>pf. sg_task_id (pf_signal pf)"] by auto
  have "stash_ok (sv_ack_and_pending (dispatch_all pfs ?s)) \<and> reports_ok V (sv_ack_and_pending (dispatch_all pfs ?s)) (signalled (sv_log (dispatch_all pfs ?s)))
    \<and> signalled (sv_log (dispatch_all pfs ?s)) = signalled (sv_log ?s) @ map (\<lambda>pf. sg_task_id (pf_signal pf)) pfs
    \<and> ap_pending (sv_ack_and_pending (dispatch_all pfs ?s)) = ap_pending (sv_ack_and_pending ?s)"
    using Cons.prems(2,4,5) e(1,3,6,7) other by (intro Cons.IH) (auto simp: s)
  then show ?case unfolding dispatch_all_Cons by (auto simp: s e(6))
qed

lemma ack_reports:
  assumes "stash_ok (sv_ack_and_pending s)" "ob_failure (sv_observers s)" "reports_ok V (sv_ack_and_pending s) (signalled (sv_log s))"
    and s'_def: "s' = mark_synth_ack_emitted c s"
  shows "stash_ok (sv_ack_and_pending s') \<and> reports_ok V (sv_ack_and_pending s') (signalled (sv_log s'))
    \<and> (reports_full V (sv_ack_and_pending s) (signalled (sv_log s)) \<longrightarrow> reports_full V (sv_ack_and_pending s') (signalled (sv_log s')))"
proof (cases "c = []")
  case False
  let ?a = "sv_ack_and_pending s" and ?L = "signalled (sv_log s)"
  let ?b = "?a\<lparr>ap_acked := insert c (ap_acked ?a)\<rparr>"
  let ?hits = "filter (\<lambda>(_ :: string, pf). pf_tool_call_id pf = c) (ap_pending ?a)"
  let ?rest = "filter (\<lambda>(_ :: string, pf). pf_tool_call_id pf \<noteq> c) (ap_pending ?a)"
  let ?s = "s\<lparr>sv_ack_and_pending := snd (drain_pending_for_tool_call c ?b)\<rparr>"
  have s': "s' = dispatch_all (map snd ?hits) ?s" using False by (simp add: s'_def mark_synth_ack_emitted_eq Let_def)
  have wf: "hm_wf (ap_pending ?a)" using assms(1) by (simp add: stash_ok_def)
  have hit: "fst x = sg_task_id (pf_signal (snd x)) \<and> fst x \<notin> set ?L \<and> V (fst x) = Some (TaskFailed, pf_tool_call_id (snd x))"
    if "x \<in> set (ap_pending ?a)" for x using that assms(3) by (force simp: reports_ok_def)
  have ids: "map (\<lambda>pf. sg_task_id (pf_signal pf)) (map snd ?hits) = hm_keys ?hits" using hit by (induction ?hits) auto
  have "stash_ok ?b" using assms(1) by (simp add: stash_ok_def)
  then have ok: "stash_ok (sv_ack_and_pending ?s)" using drain_ok by simp
  have rep: "reports_ok V (sv_ack_and_pending ?s) (signalled (sv_log ?s))" using assms(3) by (auto simp: reports_ok_def)
  have split: "set (hm_keys ?rest) = set (hm_keys (ap_pending ?a)) - set (hm_keys ?hits)"
    using hm_keys_split[OF wf, of "\<lambda>(_, pf). pf_tool_call_id pf = c"] by (simp add: split_beta)
  have D: "stash_ok (sv_ack_and_pending s') \<and> reports_ok V (sv_ack_and_pending s') (signalled (sv_log s'))
    \<and> signalled (sv_log s') = ?L @ hm_keys ?hits \<and> ap_pending (sv_ack_and_pending s') = ?rest"
  proof -
    have a: "distinct (map (\<lambda>pf. sg_task_id (pf_signal pf)) (map snd ?hits))" unfolding ids using wf by (rule distinct_map_filter)
    have b: "sg_task_id (pf_signal pf) \<notin> set ?L \<and> sg_task_id (pf_signal pf) \<notin> set (hm_keys ?rest) \<and> V (sg_task_id (pf_signal pf)) = Some (TaskFailed, c)"
      if "pf \<in> set (map snd ?hits)" for pf
    proof -
      from that obtain x where x: "x \<in> set ?hits" "pf = snd x" by auto
      then have "x \<in> set (ap_pending ?a)" "fst x \<in> set (hm_keys ?hits)" "pf_tool_call_id (snd x) = c" by auto
      with hit[of x] x(2) split show ?thesis by auto
    qed
    have b': "sg_task_id (pf_signal pf) \<notin> set (signalled (sv_log ?s)) \<and> sg_task_id (pf_signal pf) \<notin> set (hm_keys (ap_pending (sv_ack_and_pending ?s)))
        \<and> (\<exists>d \<in> ap_acked (sv_ack_and_pending ?s). V (sg_task_id (pf_signal pf)) = Some (TaskFailed, d))" if "pf \<in> set (map snd ?hits)" for pf
      using b[OF that] by simp
    have "ob_failure (sv_observers ?s)" using assms(2) by simp
    from dispatch_all_reports[OF ok this rep a b', unfolded ids, folded s'] show ?thesis by auto
  qed
  have L: "signalled (sv_log s') = ?L @ hm_keys ?hits" using D by blast
  have R: "ap_pending (sv_ack_and_pending s') = ?rest" using D by blast
  have "reports_full V (sv_ack_and_pending s') (signalled (sv_log s'))" if full: "reports_full V ?a ?L"
    unfolding reports_full_def L R set_append split
  proof (intro allI impI)
    fix i c assume "V i = Some (TaskFailed, c)" "c \<noteq> []"
    with full have "i \<in> set ?L \<or> i \<in> set (hm_keys (ap_pending ?a))" unfolding reports_full_def by blast
    then show "i \<in> set ?L \<union> set (hm_keys ?hits) \<or> i \<in> set (hm_keys (ap_pending ?a)) - set (hm_keys ?hits)" by blast
  qed
  with D show ?thesis by blast
qed (use assms in \<open>simp add: mark_synth_ack_emitted_eq\<close>)

definition few_tasks :: "supervisor \<Rightarrow> bool" where
  "few_tasks s \<longleftrightarrow> length (sv_tasks s) \<le> MAX_PENDING_FAILURES \<and> \<not> sv_panicked s"

definition sup_ok :: "supervisor \<Rightarrow> bool" where
  "sup_ok s \<longleftrightarrow> tasks_wf s \<and> stash_ok (sv_ack_and_pending s) \<and> ob_failure (sv_observers s)
     \<and> reports_ok (view s) (sv_ack_and_pending s) (signalled (sv_log s))
     \<and> (few_tasks s \<longrightarrow> reports_full (view s) (sv_ack_and_pending s) (signalled (sv_log s)))"

lemma sup_okI:
  assumes "tasks_wf s'" "stash_ok (sv_ack_and_pending s')" "sv_observers s' = sv_observers s" "sup_ok s" "few_tasks s' \<Longrightarrow> few_tasks s"
    "reports_ok (view s') (sv_ack_and_pending s') (signalled (sv_log s'))"
    "reports_full (view s) (sv_ack_and_pending s) (signalled (sv_log s)) \<Longrightarrow> few_tasks s'
      \<Longrightarrow> reports_full (view s') (sv_ack_and_pending s') (signalled (sv_log s'))"
  shows "sup_ok s'"
  using assms by (auto simp: sup_ok_def)

lemma sup_ok_same:
  assumes "sup_ok s" "tasks_wf s'" "sv_ack_and_pending s' = sv_ack_and_pending s" "ob_failure (sv_observers s') = ob_failure (sv_observers s)"
    "signalled (sv_log s') = signalled (sv_log s)" "view s' = view s" "few_tasks s' \<Longrightarrow> few_tasks s"
  shows "sup_ok s'"
  using assms(1,2,7) unfolding sup_ok_def assms(3-6) by blast

lemma few_tasks_grow: "sv_tasks s' = hm_insert k t (sv_tasks s) \<Longrightarrow> sv_panicked s \<longrightarrow> sv_panicked s' \<Longrightarrow> few_tasks s' \<Longrightarrow> few_tasks s"
  by (auto simp: few_tasks_def hm_insert_length split: if_splits)

lemma pending_room:
  assumes "sup_ok s" "bt_id t \<notin> set (hm_keys (ap_pending (sv_ack_and_pending s)))" "get_task (bt_id t) s = Some t" "few_tasks s"
  shows "length (ap_pending (sv_ack_and_pending s)) < MAX_PENDING_FAILURES"
proof -
  let ?p = "set (hm_keys (ap_pending (sv_ack_and_pending s)))" and ?k = "set (hm_keys (sv_tasks s))"
  have "V i \<noteq> None" if "i \<in> ?p" "V = view s" for i V using that assms(1) by (fastforce simp: sup_ok_def reports_ok_def)
  then have "?p \<subseteq> ?k" by (auto simp: view_def get_task_def map_of_eq_None_iff)
  moreover have "bt_id t \<in> ?k" using assms(3) by (auto simp: get_task_def dest!: map_of_SomeD intro: rev_image_eqI)
  ultimately have "?p \<subset> ?k" using assms(2) by blast
  then have "card ?p < card ?k" by (simp add: psubset_card_mono)
  moreover have "card ?p = length (ap_pending (sv_ack_and_pending s))" "card ?k = length (sv_tasks s)"
    using assms(1) distinct_card[of "hm_keys (ap_pending (sv_ack_and_pending s))"] distinct_card[of "hm_keys (sv_tasks s)"]
    by (simp_all add: sup_ok_def stash_ok_def tasks_wf_def)
  ultimately show ?thesis using assms(4) by (simp add: few_tasks_def)
qed

lemma view_get: "get_task i s = Some t \<Longrightarrow> view s i = Some (bt_status t, bt_tool_call_id t)"
  by (simp add: view_def)

lemma publish_sup_ok:
  assumes "sup_ok s" "get_task (bt_id t) s = Some t" "same_task t t'"
    "bt_status t' = bt_status t \<or> \<not> status_is_terminal (bt_status t) \<and> \<not> status_is_terminal (bt_status t')"
  shows "sup_ok (publish h t' s)"
proof -
  have "tasks_wf s" using assms(1) by (simp add: sup_ok_def)
  then have wf: "tasks_wf (publish h t' s)" by (rule tasks_wf_replace[OF _ assms(2,3)]) simp
  have id: "bt_id t' = bt_id t" "bt_tool_call_id t' = bt_tool_call_id t" using assms(3) by (simp_all add: same_task_def)
  note v = view_get[OF assms(2)]
  have rep: "reports_ok (view s) (sv_ack_and_pending s) (signalled (sv_log s))" using assms(1) by (simp add: sup_ok_def)
  have "view (publish h t' s) = view s \<or> view (publish h t' s) = (view s)(bt_id t \<mapsto> (bt_status t', bt_tool_call_id t)) \<and> bt_status t' \<noteq> TaskFailed
      \<and> \<not> status_is_terminal (bt_status t)"
    using assms(4) v by (auto simp: view_publish id fun_upd_idem)
  then have "reports_ok (view (publish h t' s)) (sv_ack_and_pending s) (signalled (sv_log s))"
    "reports_full (view s) (sv_ack_and_pending s) (signalled (sv_log s)) \<Longrightarrow> reports_full (view (publish h t' s)) (sv_ack_and_pending s) (signalled (sv_log s))"
    using rep reports_move(1)[OF rep, of "bt_id t"] v reports_full_move[of "view s" _ _ "bt_status t'"] by auto
  with wf assms(1) show ?thesis
    by (intro sup_okI[OF wf _ _ assms(1)]) (auto simp: sup_ok_def intro: few_tasks_grow[OF publish_simps(1)])
qed

lemma removed_sup_ok:
  assumes "sup_ok s" "get_task (bt_id t) s = Some t" "same_task t t'" "\<not> has_verdict t" "bt_status t' = st"
    "st = TaskCompleted \<or> st = TaskCancelled \<and> \<not> status_is_terminal (bt_status t)"
    "sv_tasks s' = hm_insert (bt_id t') t' (sv_tasks s)" "stash_ok (sv_ack_and_pending s')" "sv_observers s' = sv_observers s"
    "sv_panicked s' = sv_panicked s" "signalled (sv_log s') = signalled (sv_log s)"
    "\<And>V L. reports_ok V (sv_ack_and_pending s') L = reports_ok V (remove_pending (bt_id t) (sv_ack_and_pending s)) L"
    "\<And>V L. reports_full V (sv_ack_and_pending s') L = reports_full V (remove_pending (bt_id t) (sv_ack_and_pending s)) L"
  shows "sup_ok s'"
proof -
  have "tasks_wf s" using assms(1) by (simp add: sup_ok_def)
  then have wf: "tasks_wf s'" by (rule tasks_wf_replace[OF _ assms(2,3,7)])
  have id: "bt_id t' = bt_id t" using assms(3) by (simp add: same_task_def)
  have view: "view s' = (view s)(bt_id t \<mapsto> (st, bt_tool_call_id t'))"
    using assms(5,7) id by (auto simp: view_def get_task_def hm_simps fun_eq_iff)
  have rep: "reports_ok (view s) (sv_ack_and_pending s) (signalled (sv_log s))" using assms(1) by (simp add: sup_ok_def)
  have "bt_id t \<notin> set (signalled (sv_log s)) \<or> st = TaskCompleted"
    using assms(6) reports_move(2)[OF rep, of "bt_id t"] view_get[OF assms(2)] by auto
  moreover have "c = bt_tool_call_id t'" if "view s (bt_id t) = Some (x, c)" for x c
    using that view_get[OF assms(2)] assms(3) by (simp add: same_task_def)
  ultimately have "reports_ok (view s') (sv_ack_and_pending s') (signalled (sv_log s'))"
    unfolding assms(11,12) view by (rule reports_remove[OF rep])
  moreover have "reports_full (view s') (sv_ack_and_pending s') (signalled (sv_log s'))"
    if "reports_full (view s) (sv_ack_and_pending s) (signalled (sv_log s))"
    unfolding assms(11,13) view using assms(6) by (intro reports_full_remove[OF that]) auto
  ultimately show ?thesis using few_tasks_grow[OF assms(7)] assms(8-10) by (intro sup_okI[OF wf _ _ assms(1)]) auto
qed

lemma failed_sup_ok:
  assumes "sup_ok s" "get_task (bt_id t) s = Some t" "same_task t t'" "\<not> status_is_terminal (bt_status t)" "bt_status t' = TaskFailed"
  shows "sup_ok (report_failure h t' (publish h t' s))"
proof -
  let ?p = "publish h t' s" and ?a = "sv_ack_and_pending s" and ?L = "signalled (sv_log s)"
  let ?s' = "report_failure h t' ?p"
  have "tasks_wf s" using assms(1) by (simp add: sup_ok_def)
  then have wf: "tasks_wf ?s'" by (rule tasks_wf_replace[OF _ assms(2,3)]) simp
  have id: "bt_id t' = bt_id t" using assms(3) by (simp add: same_task_def)
  note v = view_get[OF assms(2)]
  have rep: "reports_ok (view s) ?a ?L" using assms(1) by (simp add: sup_ok_def)
  have nt: "\<not> status_is_terminal st" if "view s (bt_id t) = Some (st, c)" for st c using that v assms(4) by simp
  have m: "reports_ok ((view s)(bt_id t \<mapsto> (bt_status t', bt_tool_call_id t'))) ?a ?L" "bt_id t \<notin> set ?L"
    "bt_id t \<notin> set (hm_keys (ap_pending ?a))" by (rule reports_move[OF rep nt], assumption)+
  have view: "view ?s' = view ?p" by (rule view_cong) simp
  have vp: "view ?p = (view s)(bt_id t \<mapsto> (bt_status t', bt_tool_call_id t'))" unfolding view_publish id ..
  have okp: "stash_ok (sv_ack_and_pending ?p)" "ob_failure (sv_observers ?p)" "view ?p (bt_id t') = Some (TaskFailed, bt_tool_call_id t')"
    "reports_ok (view ?p) (sv_ack_and_pending ?p) (signalled (sv_log ?p))" "bt_id t' \<notin> set (signalled (sv_log ?p))"
    "bt_id t' \<notin> set (hm_keys (ap_pending (sv_ack_and_pending ?p)))"
    using assms(1,5) m by (auto simp: sup_ok_def vp id)
  have grow: "few_tasks s" if "few_tasks ?s'"
    using that by (rule few_tasks_grow[rotated 2]) (auto simp: report_failure_def split: option.splits)
  have none: "reports_full ((view ?p)(bt_id t' := None)) (sv_ack_and_pending ?p) (signalled (sv_log ?p))" if "reports_full (view s) ?a ?L"
    using that unfolding vp id by (simp add: reports_full_def)
  have room: "length (ap_pending (sv_ack_and_pending ?p)) < MAX_PENDING_FAILURES" if "few_tasks ?s'"
    using pending_room[OF assms(1) _ assms(2)] m(3) grow[OF that] by simp
  have "stash_ok (sv_ack_and_pending ?s') \<and> reports_ok (view ?p) (sv_ack_and_pending ?s') (signalled (sv_log ?s'))
    \<and> (few_tasks ?s' \<longrightarrow> reports_full (view s) ?a ?L \<longrightarrow> reports_full (view ?p) (sv_ack_and_pending ?s') (signalled (sv_log ?s')))"
  proof (cases "bt_tool_call_id t' = [] \<and> \<not> ob_terminal (sv_observers ?p)")
    case True
    then have "?s' = ?p" by (simp add: report_failure_def)
    moreover have "reports_full (view ?p) (sv_ack_and_pending ?p) (signalled (sv_log ?p))" if "reports_full (view s) ?a ?L"
      using True okp(3) by (intro reports_full_except[OF none[OF that]]) auto
    ultimately show ?thesis using okp(1,4) by simp
  next
    case False
    show ?thesis
    proof (cases "parse_alternatives (th_lowercase h) (case bt_error t' of Some e \<Rightarrow> e | None \<Rightarrow> [])")
      case None
      with False have "?s' = ?p\<lparr>sv_panicked := True\<rparr>" by (auto simp: report_failure_def)
      with okp(1,4) show ?thesis by (simp add: few_tasks_def)
    next
      case (Some al)
      let ?f = "notify_failure al t' ?p"
      have s': "?s' = notify_terminal al t' ?f" using False Some by (auto simp: report_failure_def)
      have nf: "stash_ok (sv_ack_and_pending ?f)" "reports_ok (view ?p) (sv_ack_and_pending ?f) (signalled (sv_log ?f))"
        "few_tasks ?s' \<Longrightarrow> reports_full (view s) ?a ?L \<Longrightarrow> reports_full (view ?p) (sv_ack_and_pending ?f) (signalled (sv_log ?f))"
        using notify_failure_reports[OF okp refl] room none okp(3) by blast+
      note nt = notify_terminal_reports[OF nf(1) s']
      show ?thesis using nt(1) nf(2,3) by (simp add: nt(2-4))
    qed
  qed
  then show ?thesis using grow by (intro sup_okI[OF wf _ _ assms(1)]) (auto simp: view)
qed

lemma drain_eq: "i \<noteq> [] \<Longrightarrow> drain_pending_failure_for_task i s = s\<lparr>sv_ack_and_pending := remove_pending i (sv_ack_and_pending s)\<rparr>"
  by (simp add: drain_pending_failure_for_task_def)

lemma micro_sup_ok: "micro h P N U s s' \<Longrightarrow> sup_ok s \<Longrightarrow> sup_ok s'"
proof (induction rule: micro.induct)
  case c: (edit t s t')
  show ?case by (rule publish_sup_ok[OF c(6,1,2,4)])
next
  case c: (noted t s v)
  let ?s = "put_task (t\<lparr>bt_tool_input := v\<rparr>) s"
  have "tasks_wf s" using c(3) by (simp add: sup_ok_def)
  then have wf: "tasks_wf ?s" by (rule tasks_wf_replace[OF _ c(1), of "t\<lparr>bt_tool_input := v\<rparr>"]) (simp_all add: same_task_def)
  have view: "view ?s = view s" using c(1) by (auto simp: view_def get_task_def hm_simps fun_eq_iff)
  have few: "few_tasks s" if "few_tasks ?s" by (rule few_tasks_grow[OF put_task_simps(1) _ that]) simp
  show ?case by (rule sup_ok_same[OF c(3) wf _ _ _ view few]) simp_all
next
  case c: (cancelled t s t')
  have id: "bt_id t \<noteq> []" using tasks_wf_id[OF _ c(1)] c(6) by (simp add: sup_ok_def)
  have ok: "stash_ok (remove_pending (bt_id t) (sv_ack_and_pending s))" using c(6) by (simp add: sup_ok_def remove_pending_ok)
  have st: "\<not> has_verdict t" using c(3) by (simp add: has_verdict_def)
  show ?case unfolding drain_eq[OF id] by (rule removed_sup_ok[OF c(6,1,2) st c(4)]) (simp_all add: ok c(3))
next
  case c: (completed t s t')
  let ?n = "notify_terminal [] t' (publish h t' s)"
  have id: "bt_id t \<noteq> []" using tasks_wf_id[OF _ c(1)] c(6) by (simp add: sup_ok_def)
  have "stash_ok (sv_ack_and_pending (publish h t' s))" using c(6) by (simp add: sup_ok_def)
  note n = notify_terminal_reports[OF this refl, where al = "[]" and t = t']
  have "stash_ok (sv_ack_and_pending (publish h t' s))" using c(6) by (simp add: sup_ok_def)
  note a = notify_terminal_ack[OF this refl, where al = "[]" and t = t', unfolded publish_simps]
  have r: "ap_pending (remove_pending (bt_id t) (sv_ack_and_pending ?n)) = ap_pending (remove_pending (bt_id t) (sv_ack_and_pending s))"
    "ap_emitted (remove_pending (bt_id t) (sv_ack_and_pending ?n)) = ap_emitted (remove_pending (bt_id t) (sv_ack_and_pending s))"
    "ap_acked (remove_pending (bt_id t) (sv_ack_and_pending ?n)) = ap_acked (remove_pending (bt_id t) (sv_ack_and_pending s))"
    using a by (simp_all add: remove_pending_def forget_pending_in_order_def)
  have ok: "stash_ok (remove_pending (bt_id t) (sv_ack_and_pending ?n))" using n(1) by (rule remove_pending_ok)
  show ?case unfolding drain_eq[OF id]
  proof (rule removed_sup_ok[OF c(6,1,2,3,4)])
    show "reports_ok V (sv_ack_and_pending (?n\<lparr>sv_ack_and_pending := remove_pending (bt_id t) (sv_ack_and_pending ?n)\<rparr>)) L
        = reports_ok V (remove_pending (bt_id t) (sv_ack_and_pending s)) L"
      "reports_full V (sv_ack_and_pending (?n\<lparr>sv_ack_and_pending := remove_pending (bt_id t) (sv_ack_and_pending ?n)\<rparr>)) L
        = reports_full V (remove_pending (bt_id t) (sv_ack_and_pending s)) L" for V L
      using reports_cong(1)[OF r(2,1,3)] reports_cong(2)[OF r(1)] by simp_all
  qed (use ok n(2) in simp_all)
next
  case c: (failed t s t')
  show ?case by (rule failed_sup_ok[OF c(6,1,2,3,4)])
next
  case c: (refailed t s t')
  show ?case by (rule publish_sup_ok[OF c(7,1,2)]) (simp add: c)
next
  case c: (registered t s)
  let ?s = "notify_register (bt_id t) (persist_snapshot h t (put_task t s))"
  have "tasks_wf s" using c(5) by (simp add: sup_ok_def)
  then have wf: "tasks_wf ?s" by (rule tasks_wf_insert[OF _ _ refl c(2)]) simp
  have view: "view ?s = (view s)(bt_id t \<mapsto> (bt_status t, bt_tool_call_id t))" by (auto simp: view_def get_task_def hm_simps fun_eq_iff)
  have rep: "reports_ok (view s) (sv_ack_and_pending s) (signalled (sv_log s))" using c(5) by (simp add: sup_ok_def)
  have "reports_ok (view ?s) (sv_ack_and_pending s) (signalled (sv_log s))"
    unfolding view by (rule reports_move(1)[OF rep]) (simp add: view_def c(1))
  moreover have "reports_full (view ?s) (sv_ack_and_pending s) (signalled (sv_log s))"
    if "reports_full (view s) (sv_ack_and_pending s) (signalled (sv_log s))"
    unfolding view by (rule reports_full_move[OF that]) (simp add: c(3))
  moreover have "few_tasks s" if "few_tasks ?s" using few_tasks_grow[of ?s "bt_id t" t s] that by simp
  ultimately show ?case using c(5) by (intro sup_okI[OF wf _ _ c(5)]) (auto simp: sup_ok_def)
next
  case k: (acked s c)
  let ?s = "mark_synth_ack_emitted c s"
  have ok: "stash_ok (sv_ack_and_pending s)" "ob_failure (sv_observers s)" "reports_ok (view s) (sv_ack_and_pending s) (signalled (sv_log s))"
    "tasks_wf s" using k by (simp_all add: sup_ok_def)
  note a = ack_reports[OF ok(1-3) refl, of c]
  have view: "view ?s = view s" by (rule view_cong) simp
  have wf: "tasks_wf ?s" using ok(4) by (simp add: tasks_wf_def)
  have few: "few_tasks s" if "few_tasks ?s" using that by (simp add: few_tasks_def)
  show ?case by (rule sup_okI[OF wf _ _ k few]) (use a in \<open>simp_all add: view\<close>)
next
  case c: (aside s' s)
  have wf: "tasks_wf s'" using c(8) by (simp add: sup_ok_def tasks_wf_def c(1))
  have few: "few_tasks s" if "few_tasks s'" using that by (simp add: few_tasks_def c(1,5))
  show ?case by (rule sup_ok_same[OF c(8) wf c(2,6,7) view_cong[OF c(1)] few])
qed

lemma count_distinct: "distinct xs \<Longrightarrow> count_list xs x = (if x \<in> set xs then 1 else 0)"
  by (induction xs) auto

lemma new_sup_ok: "ob_failure obs \<Longrightarrow> sup_ok (supervisor_new obs live disk)"
  by (simp add: sup_ok_def supervisor_new_def tasks_wf_def stash_ok_def reports_ok_def reports_full_def view_def get_task_def)

lemma run_sup_ok: "sup_ok s \<Longrightarrow> local_run h s es \<Longrightarrow> sup_ok (sup_run h s es)"
  by (rule steps_invariant[OF run_steps]) (auto simp: sup_ok_def[of s] intro: micro_sup_ok)

subsection \<open>Properties\<close>

definition sample_host :: task_host where
  "sample_host = \<lparr>th_lowercase = (\<lambda>s. s), th_encode = (\<lambda>r. bt_id (pt_task r)), th_decode = (\<lambda>_. None), th_append_ok = (\<lambda>_ _. True),
     th_mkdir_ok = (\<lambda>_ _. True), th_read_ok = (\<lambda>_ _. True), th_max_children = None\<rparr>"

definition all_observers :: observers where
  "all_observers = \<lparr>ob_change = True, ob_failure = True, ob_terminal = True, ob_register = True, ob_relaunch = True, ob_restore = True,
     ob_restore_undelivered = False\<rparr>"

definition spawn_op :: "string \<Rightarrow> string \<Rightarrow> sup_op" where
  "spawn_op i c = OpRegister i ''spawn'' c (Some ''main'') None None None None None False"



text \<open>C9. Every failure of a background task reaches the session exactly once: a failed task that belongs to a tool call is reported one time
  when the call was acknowledged, before or after the failure, and waits in the stash until then. No task is reported twice, and none that
  did not fail. (The table holds at most 256 tasks, so that the stash does not evict, and no operation panicked.)\<close>

theorem failures_reported_exactly_once:
  assumes "ob_failure obs" "local_run h (supervisor_new obs live disk) es" "s = sup_run h (supervisor_new obs live disk) es"
    "length (sv_tasks s) \<le> 256" "\<not> sv_panicked s"
  shows "\<forall>i. count_list (signalled (sv_log s)) i \<le> 1
    \<and> (i \<in> set (signalled (sv_log s)) \<longrightarrow> (\<exists>t. get_task i s = Some t \<and> (bt_status t = TaskFailed \<or> bt_status t = TaskCompleted)))
    \<and> (\<forall>t. get_task i s = Some t \<and> bt_status t = TaskFailed \<and> bt_tool_call_id t \<noteq> [] \<longrightarrow>
        (if was_synth_ack_emitted (bt_tool_call_id t) s then count_list (signalled (sv_log s)) i = 1
         else count_list (signalled (sv_log s)) i = 0 \<and> hm_contains (ap_pending (sv_ack_and_pending s)) i))"
proof (intro allI conjI impI)
  let ?a = "sv_ack_and_pending s" and ?L = "signalled (sv_log s)"
  fix i
  have "sup_ok s" unfolding assms(3) using assms(1,2) by (intro run_sup_ok new_sup_ok)
  then have rep: "reports_ok (view s) ?a ?L" and full: "reports_full (view s) ?a ?L"
    using assms(4,5) by (simp_all add: sup_ok_def few_tasks_def MAX_PENDING_FAILURES_def)
  have count: "count_list ?L i = (if i \<in> set ?L then 1 else 0)" using rep by (simp add: reports_ok_def count_distinct)
  then show "count_list ?L i \<le> 1" by simp
  show "\<exists>t. get_task i s = Some t \<and> (bt_status t = TaskFailed \<or> bt_status t = TaskCompleted)" if "i \<in> set ?L"
    using that rep by (fastforce simp: reports_ok_def view_def)
  fix t assume t: "get_task i s = Some t \<and> bt_status t = TaskFailed \<and> bt_tool_call_id t \<noteq> []"
  have v: "view s i = Some (TaskFailed, bt_tool_call_id t)" using t by (simp add: view_def)
  have "bt_tool_call_id t \<in> ap_acked ?a" if "i \<in> set ?L" using that rep v by (fastforce simp: reports_ok_def)
  moreover have "bt_tool_call_id t \<notin> ap_acked ?a" if "i \<in> set (hm_keys (ap_pending ?a))"
    using that rep v by (fastforce simp: reports_ok_def)
  moreover have "i \<in> set ?L \<or> i \<in> set (hm_keys (ap_pending ?a))" using full v t by (simp add: reports_full_def)
  ultimately show "if was_synth_ack_emitted (bt_tool_call_id t) s then count_list ?L i = 1
      else count_list ?L i = 0 \<and> hm_contains (ap_pending ?a) i"
    using count t by (auto simp: was_synth_ack_emitted_def hm_contains_iff)
qed

theorem failures_reported_exactly_once_witness:
  "let s = sup_run sample_host (supervisor_new all_observers {} []) [(1, spawn_op ''a'' ''c''), (2, spawn_op ''b'' ''d''), (3, OpFailed ''a'' ''x'' False),
      (4, OpFailed ''b'' ''y'' False), (5, OpAck ''c''), (6, OpFailed ''a'' ''z'' False)]
   in count_list (signalled (sv_log s)) ''a'' = 1 \<and> count_list (signalled (sv_log s)) ''b'' = 0
     \<and> hm_contains (ap_pending (sv_ack_and_pending s)) ''b''"
proof -
  define es :: "(int \<times> sup_op) list" where "es = [(1, spawn_op ''a'' ''c''), (2, spawn_op ''b'' ''d''), (3, OpFailed ''a'' ''x'' False),
      (4, OpFailed ''b'' ''y'' False), (5, OpAck ''c''), (6, OpFailed ''a'' ''z'' False)]"
  define s where "s = sup_run sample_host (supervisor_new all_observers {} []) es"
  have "ob_failure all_observers" by code_simp
  moreover have "local_run sample_host (supervisor_new all_observers {} []) es" unfolding es_def by code_simp
  moreover have "length (sv_tasks s) \<le> 256 \<and> \<not> sv_panicked s" unfolding s_def es_def by code_simp
  ultimately have *: "\<forall>i t. get_task i s = Some t \<and> bt_status t = TaskFailed \<and> bt_tool_call_id t \<noteq> [] \<longrightarrow>
        (if was_synth_ack_emitted (bt_tool_call_id t) s then count_list (signalled (sv_log s)) i = 1
         else count_list (signalled (sv_log s)) i = 0 \<and> hm_contains (ap_pending (sv_ack_and_pending s)) i)"
    using failures_reported_exactly_once[OF _ _ s_def] by blast
  have "map_option (\<lambda>t. (bt_status t, bt_tool_call_id t)) (get_task ''a'' s) = Some (TaskFailed, ''c'')
      \<and> map_option (\<lambda>t. (bt_status t, bt_tool_call_id t)) (get_task ''b'' s) = Some (TaskFailed, ''d'')
      \<and> was_synth_ack_emitted ''c'' s \<and> \<not> was_synth_ack_emitted ''d'' s" unfolding s_def es_def by code_simp
  then obtain ta tb where "get_task ''a'' s = Some ta" "bt_status ta = TaskFailed" "bt_tool_call_id ta = ''c''"
    "get_task ''b'' s = Some tb" "bt_status tb = TaskFailed" "bt_tool_call_id tb = ''d''"
    "was_synth_ack_emitted ''c'' s" "\<not> was_synth_ack_emitted ''d'' s" by auto
  with *[rule_format, of "''a''" ta] *[rule_format, of "''b''" tb]
  have "count_list (signalled (sv_log s)) ''a'' = 1 \<and> count_list (signalled (sv_log s)) ''b'' = 0
      \<and> hm_contains (ap_pending (sv_ack_and_pending s)) ''b''" by simp
  then show ?thesis by (simp add: s_def es_def Let_def)
qed

text \<open>What the supervisor keeps for reporting is bounded however long it runs: at most 256 stashed failures, each in the queue of the
  stash exactly once, and at most 1024 ids in each of the two sets that suppress repeated reports, with queues of the same ids.\<close>

theorem stash_bounded:
  assumes "ob_failure obs" "local_run h (supervisor_new obs live disk) es"
  shows "let a = sv_ack_and_pending (sup_run h (supervisor_new obs live disk) es) in
    length (ap_pending a) \<le> 256 \<and> distinct (ap_pending_order a) \<and> set (ap_pending_order a) = set (hm_keys (ap_pending a))
    \<and> length (ap_emitted a) \<le> 1024 \<and> length (ap_emitted_order a) = length (ap_emitted a) \<and> set (ap_emitted_order a) = set (ap_emitted a)
    \<and> length (ap_notified a) \<le> 1024 \<and> length (ap_notified_order a) = length (ap_notified a) \<and> set (ap_notified_order a) = set (ap_notified a)"
proof -
  have "stash_ok (sv_ack_and_pending (sup_run h (supervisor_new obs live disk) es))"
    using run_sup_ok[OF new_sup_ok[OF assms(1)] assms(2)] by (simp add: sup_ok_def)
  then show ?thesis using distinct_card
    by (metis (no_types, lifting) MAX_FAILURE_SIGNAL_EMITTED_IDS_def MAX_PENDING_FAILURES_def stash_ok_def)
qed

theorem stash_bounded_witness:
  "length (ap_pending (sv_ack_and_pending (sup_run sample_host (supervisor_new all_observers {} [])
     [(1, spawn_op ''a'' ''c''), (2, OpFailed ''a'' ''x'' False)]))) \<le> 256"
proof -
  have "local_run sample_host (supervisor_new all_observers {} []) [(1, spawn_op ''a'' ''c''), (2, OpFailed ''a'' ''x'' False)]" by code_simp
  moreover have "ob_failure all_observers" by code_simp
  ultimately show ?thesis
    using stash_bounded[of all_observers sample_host "{}" "[]" "[(1, spawn_op ''a'' ''c''), (2, OpFailed ''a'' ''x'' False)]"] by (simp add: Let_def)
qed

end
