(* ===== verification/Supervisor_Restart.thy ===== *)
theory Supervisor_Restart
  imports Supervisor_Properties "HOL-Library.Countable" "HOL-Library.Multiset"
begin

text \<open>
  The ledger of the task supervisor: what it holds while a supervisor runs, what a restart makes of it, and what registration does when a
  session has too many tasks.
\<close>

subsection \<open>The ledger keeps up with the table\<close>

text \<open>Documented behaviour of the codec and of the file system: a row reads back as it was written, and no call fails.\<close>

definition lawful_codec :: "task_host \<Rightarrow> bool" where
  "lawful_codec h \<longleftrightarrow> (\<forall>r. th_decode h (th_encode h r) = Some r \<and> trim (th_encode h r) \<noteq> [])"

definition reliable_disk :: "task_host \<Rightarrow> bool" where
  "reliable_disk h \<longleftrightarrow> (\<forall>p d. th_append_ok h p d \<and> th_mkdir_ok h p d \<and> th_read_ok h p d)"

definition disk_lines :: "disk \<Rightarrow> string \<Rightarrow> string list" where
  "disk_lines d p = (case hm_get d p of Some ls \<Rightarrow> ls | None \<Rightarrow> [])"

definition ledger_table :: "task_host \<Rightarrow> string \<Rightarrow> disk \<Rightarrow> (string, BackgroundTask) hashmap" where
  "ledger_table h p d = foldl merge_row [] (ledger_rows h (disk_lines d p))"

lemma load_table: "reliable_disk h \<Longrightarrow> load_persisted_tasks h p d = Some (ledger_table h p d)"
  by (auto simp: load_persisted_tasks_def ledger_table_def disk_lines_def reliable_disk_def ledger_rows_def List.map_filter_def split: option.splits)

lemma ledger_rows_line:
  "lawful_codec h \<Longrightarrow> ledger_rows h (ls @ [task_line h t]) = ledger_rows h ls @ [t]"
  by (simp add: ledger_rows_def List.map_filter_def lawful_codec_def task_line_def)

lemma persist_disk:
  assumes "lawful_codec h" "reliable_disk h" "sv_persistence_path s = Some p"
  shows "ledger_table h p (sv_disk (persist_snapshot h t s)) = merge_row (ledger_table h p (sv_disk s)) t"
proof -
  have "disk_lines (sv_disk (persist_snapshot h t s)) p = disk_lines (sv_disk s) p @ [task_line h t]"
    using assms(2,3) by (simp add: persist_snapshot_def persist_snapshot_strict_def append_persisted_task_def reliable_disk_def disk_lines_def hm_simps)
  then show ?thesis by (simp add: ledger_table_def ledger_rows_line[OF assms(1)])
qed

lemma merge_row_get: "hm_get (merge_row m t) i = (if i = bt_id t \<and> (\<forall>e. hm_get m i = Some e \<longrightarrow> task_snapshot_advances t e) then Some t else hm_get m i)"
  by (auto simp: merge_row_def hm_simps split: option.splits)

definition replays :: "task_host \<Rightarrow> string \<Rightarrow> supervisor \<Rightarrow> bool" where
  "replays h p s \<longleftrightarrow> sv_persistence_path s = Some p \<and> (\<forall>i. hm_get (ledger_table h p (sv_disk s)) i = get_task i s)"

lemma replays_cong:
  "sv_persistence_path s' = sv_persistence_path s \<Longrightarrow> sv_disk s' = sv_disk s \<Longrightarrow> sv_tasks s' = sv_tasks s \<Longrightarrow> replays h p s' = replays h p s"
  by (simp add: replays_def get_task_def)

lemma replays_put:
  assumes "lawful_codec h" "reliable_disk h" "replays h p s" "\<And>t. get_task (bt_id t') s = Some t \<Longrightarrow> task_snapshot_advances t' t"
    "sv_disk s' = sv_disk (persist_snapshot h t' s)" "sv_tasks s' = hm_insert (bt_id t') t' (sv_tasks s)"
    "sv_persistence_path s' = sv_persistence_path s"
  shows "replays h p s'"
proof -
  have p: "sv_persistence_path s = Some p" "\<And>i. hm_get (ledger_table h p (sv_disk s)) i = get_task i s"
    using assms(3) by (simp_all add: replays_def)
  have "hm_get (ledger_table h p (sv_disk s')) i = get_task i s'" for i
    using assms(4) p(2)[of i] unfolding assms(5) persist_disk[OF assms(1,2) p(1)] merge_row_get
    by (auto simp: get_task_def assms(6) hm_simps)
  with p(1) assms(7) show ?thesis by (simp add: replays_def)
qed

lemma publish_disk: "sv_disk (publish h t s) = sv_disk (persist_snapshot h t s)"
  by (auto simp: publish_def notify_change_def put_task_def persist_snapshot_def persist_snapshot_strict_def split: option.splits)

lemma register_disk: "sv_disk (persist_snapshot h t (put_task t s)) = sv_disk (persist_snapshot h t s)"
  by (auto simp: put_task_def persist_snapshot_def persist_snapshot_strict_def split: option.splits)

lemma micro_replays:
  assumes "lawful_codec h" "reliable_disk h" "\<And>t t'. P t t' \<Longrightarrow> task_snapshot_advances t' t"
  shows "micro h P N False s s' \<Longrightarrow> replays h p s \<Longrightarrow> replays h p s'"
proof (induction rule: micro.induct)
  case c: (edit t s t')
  show ?case by (rule replays_put[OF assms(1,2) c(6), of t']) (use c(1,2,5) assms(3) in \<open>simp_all add: publish_disk same_task_def\<close>)
next
  case c: (cancelled t s t')
  show ?case by (rule replays_put[OF assms(1,2) c(6), of t']) (use c(1,2,5) assms(3) in \<open>simp_all add: publish_disk same_task_def\<close>)
next
  case c: (completed t s t')
  show ?case by (rule replays_put[OF assms(1,2) c(6), of t']) (use c(1,2,5) assms(3) in \<open>simp_all add: publish_disk same_task_def\<close>)
next
  case c: (failed t s t')
  show ?case by (rule replays_put[OF assms(1,2) c(6), of t']) (use c(1,2,5) assms(3) in \<open>simp_all add: publish_disk same_task_def\<close>)
next
  case c: (refailed t s t')
  show ?case by (rule replays_put[OF assms(1,2) c(7), of t']) (use c(1,2,6) assms(3) in \<open>simp_all add: publish_disk same_task_def\<close>)
next
  case c: (registered t s)
  show ?case by (rule replays_put[OF assms(1,2) c(5), of t]) (use c(1) in \<open>simp_all add: register_disk\<close>)
next
  case c: (acked s x)
  then show ?case by (simp add: replays_cong[of "mark_synth_ack_emitted x s" s])
next
  case c: (aside s' s)
  then show ?case by (simp add: replays_cong[OF c(3,4,1)])
qed simp

definition aged :: "int \<Rightarrow> supervisor \<Rightarrow> bool" where
  "aged b s \<longleftrightarrow> (\<forall>i t. get_task i s = Some t \<longrightarrow> bt_updated_at t \<le> b)"

lemma aged_insert: "aged b s \<Longrightarrow> bt_updated_at t \<le> b \<Longrightarrow> sv_tasks s' = hm_insert (bt_id t) t (sv_tasks s) \<Longrightarrow> aged b s'"
  by (auto simp: aged_def get_task_def hm_simps)

lemma micro_aged:
  assumes "\<And>t t'. P t t' \<Longrightarrow> bt_updated_at t' \<le> b" "\<And>t. N t \<Longrightarrow> bt_updated_at t \<le> b"
  shows "micro h P N False s s' \<Longrightarrow> aged b s \<Longrightarrow> aged b s'"
proof (induction rule: micro.induct)
  case c: (acked s x)
  then show ?case by (simp add: aged_def get_task_def)
next
  case c: (aside s' s)
  then show ?case by (simp add: aged_def get_task_def)
qed (use assms in \<open>auto elim!: aged_insert\<close>)

text \<open>An operation happens after everything that went before it.\<close>

definition ends_at :: "int \<times> sup_op \<Rightarrow> int" where
  "ends_at e = (case snd e of OpRelaunch later i f j n \<Rightarrow> later | _ \<Rightarrow> fst e)"

primrec ticking :: "int \<Rightarrow> (int \<times> sup_op) list \<Rightarrow> bool" where
  "ticking b [] = True"
| "ticking b (e # es) \<longleftrightarrow> b < fst e \<and> (case snd e of OpRelaunch later i f j n \<Rightarrow> fst e < later | _ \<Rightarrow> True) \<and> ticking (ends_at e) es"

lemma ticking_ends: "ticking b [e] \<Longrightarrow> b < ends_at e"
  by (auto simp: ends_at_def split: sup_op.splits)

definition writes_all :: "(int \<times> sup_op) list \<Rightarrow> bool" where
  "writes_all es = list_all (\<lambda>e. case snd e of OpToolInput i v \<Rightarrow> False | _ \<Rightarrow> True) es"

interpretation tick: task_clock "\<lambda>t. bt_updated_at t < now" now "\<lambda>t t'. task_snapshot_advances t' t \<and> bt_updated_at t' \<le> now"
  "\<lambda>t. bt_updated_at t \<le> now" for now
  by unfold_locales (auto simp: task_snapshot_advances_def)

interpretation tick_tick: relaunch_clock "\<lambda>t. bt_updated_at t < now" now
  "\<lambda>t t'. (now < later \<longrightarrow> task_snapshot_advances t' t) \<and> bt_updated_at t' \<le> max now later" "\<lambda>t. bt_updated_at t \<le> max now later" later for now later
  by unfold_locales (auto simp: task_snapshot_advances_def)

lemma steps_replay:
  assumes "lawful_codec h" "reliable_disk h" "\<And>t t'. P t t' \<Longrightarrow> task_snapshot_advances t' t \<and> bt_updated_at t' \<le> b"
    "\<And>t. N t \<Longrightarrow> bt_updated_at t \<le> b" "(micro h P N False)\<^sup>*\<^sup>* s s'" "tasks_wf s" "aged b s" "replays h p s"
  shows "tasks_wf s' \<and> aged b s' \<and> replays h p s'"
proof -
  have "tasks_wf v' \<and> aged b v' \<and> replays h p v'" if "micro h P N False v v'" "tasks_wf v \<and> aged b v \<and> replays h p v" for v v'
    using micro_tasks_wf[OF that(1)] micro_aged[OF _ assms(4) that(1)] micro_replays[OF assms(1,2) _ that(1)] assms(3) that(2) by blast
  with steps_invariant[OF assms(5), of "\<lambda>v. tasks_wf v \<and> aged b v \<and> replays h p v"] assms(6-8) show ?thesis by blast
qed

lemma apply_replays:
  assumes "lawful_codec h" "reliable_disk h" "tasks_wf s" "aged b s" "replays h p s" "ticking b [e]" "writes_all [e]"
    "\<not> reads_ledger (snd e)" "fresh_ids (snd e) s"
  shows "let s' = unless_panicked (sup_apply h (fst e) (snd e)) s in tasks_wf s' \<and> aged (ends_at e) s' \<and> replays h p s'"
proof (cases "sv_panicked s")
  case False
  have old: "bt_updated_at t < fst e" if "get_task i s = Some t" for i t using that assms(4,6) by (force simp: aged_def)
  have aged: "aged (ends_at e) s" using assms(4) ticking_ends[OF assms(6)] by (force simp: aged_def)
  have "tasks_wf (sup_apply h (fst e) (snd e) s) \<and> aged (ends_at e) (sup_apply h (fst e) (snd e) s) \<and> replays h p (sup_apply h (fst e) (snd e) s)"
  proof (cases "\<exists>l i f j n. snd e = OpRelaunch l i f j n")
    case True
    then obtain l i f j n where op: "snd e = OpRelaunch l i f j n" by blast
    then have l: "ends_at e = l" "fst e < l" using assms(6) by (auto simp: ends_at_def)
    note steps = tick_tick.relaunch_op_steps[OF assms(3) old assms(9)[unfolded op], where h = h and U = False, folded op]
    show ?thesis by (rule steps_replay[OF assms(1,2) _ _ steps assms(3) aged assms(5)]) (use l in auto)
  next
    case False
    then have l: "ends_at e = fst e" by (auto simp: ends_at_def split: sup_op.splits)
    have "(micro h (\<lambda>t t'. task_snapshot_advances t' t \<and> bt_updated_at t' \<le> fst e) (\<lambda>t. bt_updated_at t \<le> fst e) False)\<^sup>*\<^sup>* s (sup_apply h (fst e) (snd e) s)"
      using assms(7) False by (intro tick.op_steps[OF assms(3) old assms(8,9)]) (auto simp: writes_all_def)
    then show ?thesis using l by (intro steps_replay[OF assms(1,2) _ _ _ assms(3) aged assms(5)]) auto
  qed
  with False show ?thesis by (simp add: unless_panicked_def Let_def)
next
  case True
  have "aged (ends_at e) s" using assms(4) ticking_ends[OF assms(6)] by (force simp: aged_def)
  with True assms(3,5) show ?thesis by (simp add: unless_panicked_def Let_def)
qed

lemma run_replays:
  assumes "lawful_codec h" "reliable_disk h"
  shows "tasks_wf s \<Longrightarrow> aged b s \<Longrightarrow> replays h p s \<Longrightarrow> ticking b es \<Longrightarrow> writes_all es \<Longrightarrow> local_run h s es
    \<Longrightarrow> tasks_wf (sup_run h s es) \<and> replays h p (sup_run h s es)"
proof (induction es arbitrary: s b)
  case (Cons e es)
  let ?s = "unless_panicked (sup_apply h (fst e) (snd e)) s"
  have "ticking b [e]" "writes_all [e]" "\<not> reads_ledger (snd e)" "fresh_ids (snd e) s" using Cons.prems(4-6) by (auto simp: writes_all_def)
  from apply_replays[OF assms Cons.prems(1-3) this]
  have "tasks_wf ?s" "aged (ends_at e) ?s" "replays h p ?s" by (simp_all add: Let_def)
  then have "tasks_wf (sup_run h ?s es) \<and> replays h p (sup_run h ?s es)"
    using Cons.prems(4-6) by (intro Cons.IH) (auto simp: writes_all_def)
  then show ?case by simp
qed simp

subsection \<open>A restart\<close>

lemma ledger_table_wf: "hm_wf (ledger_table h p d) \<and> (\<forall>(k, t) \<in> set (ledger_table h p d). bt_id t = k)"
proof -
  have "hm_wf (foldl merge_row m ts) \<and> (\<forall>(k, t) \<in> set (foldl merge_row m ts). bt_id t = k)"
    if "hm_wf m" "\<forall>(k, t) \<in> set m. bt_id t = k" for m ts
    using that
  proof (induction ts arbitrary: m)
    case (Cons t ts)
    have "merge_row m t = m \<or> merge_row m t = hm_insert (bt_id t) t m" by (auto simp: merge_row_def split: option.splits)
    moreover have "\<forall>(k, u) \<in> set (hm_insert (bt_id t) t m). bt_id u = k"
      using Cons.prems(2) subsetD[OF hm_insert_subset, of _ "bt_id t" t m] by blast
    ultimately have "hm_wf (merge_row m t) \<and> (\<forall>(k, u) \<in> set (merge_row m t). bt_id u = k)"
      using Cons.prems hm_wf_insert[OF Cons.prems(1)] by metis
    with Cons.IH[of "merge_row m t"] show ?case by simp
  qed simp
  from this[of "[]"] show ?thesis by (simp add: ledger_table_def)
qed

lemma restore_all:
  "hm_wf rows \<Longrightarrow> set (hm_keys rows) \<inter> set (hm_keys m) = {} \<Longrightarrow> foldl restore_row (m, w) rows = (m @ rows, rev (hm_keys rows) @ w)"
proof (induction rows arbitrary: m w)
  case (Cons row rows)
  obtain k t where row: "row = (k, t)" by fastforce
  have k: "k \<notin> set (hm_keys m)" using Cons.prems(2) row by auto
  then have none: "hm_get m k = None" by (simp add: map_of_eq_None_iff)
  have "hm_insert k t m = m @ [(k, t)]" using k by (induction m) auto
  then have "restore_row (m, w) row = (m @ [row], k # w)" using none row by (simp add: restore_row_def)
  moreover have "foldl restore_row (m @ [row], k # w) rows = ((m @ [row]) @ rows, rev (hm_keys rows) @ k # w)"
    using Cons.prems row by (intro Cons.IH) auto
  ultimately show ?case using row by simp
qed simp

definition settle_orphan :: "int \<Rightarrow> BackgroundTask \<Rightarrow> BackgroundTask" where
  "settle_orphan now t = (if bt_tool_name t = ''peer_handoff''
     then if status_is_terminal (bt_status t) then t
          else t\<lparr>bt_status := TaskParked, bt_runtime_state := RtFailed, bt_error := Some ''orphaned across restart'',
                 bt_runtime_detail := Some ''orphaned across restart'', bt_updated_at := now\<rparr>
     else if bt_status t = TaskCancelled \<or> bt_status t = TaskCompleted then t else failed_task now ''orphaned across restart'' False t)"

lemma quiet_reasons:
  "parse_alternatives wide ''orphaned across restart'' = Some []" "parse_alternatives wide ''parent task orphaned across restart'' = Some []"
proof -
  have "to_lowercase wide s = to_ascii_lowercase s" if "list_all (\<lambda>c. byte c < 128) s" for s using that by (simp add: to_lowercase_def)
  moreover have "list_all (\<lambda>c. byte c < 128) ''orphaned across restart''" "list_all (\<lambda>c. byte c < 128) ''parent task orphaned across restart''"
    by code_simp+
  moreover have "find_text ''available:'' (to_ascii_lowercase ''orphaned across restart'') = None"
    "find_text ''available:'' (to_ascii_lowercase ''parent task orphaned across restart'') = None" by code_simp+
  ultimately show "parse_alternatives wide ''orphaned across restart'' = Some []"
    "parse_alternatives wide ''parent task orphaned across restart'' = Some []" by (simp_all only: parse_alternatives_def Let_def option.case)
qed

lemma failed_quiet:
  assumes "parse_alternatives (th_lowercase h) e = Some []"
  shows "sv_panicked (mark_failed h now i e s) = sv_panicked s"
  using assms by (auto simp: mark_failed_def mark_failed_inner_def report_failure_def failed_task_def Let_def split: option.splits)

lemma get_failed: "tasks_wf s \<Longrightarrow> get_task i s = Some t \<Longrightarrow> get_task i (mark_failed h now i e s)
    = Some (if bt_status t = TaskCancelled \<or> bt_status t = TaskCompleted then t else failed_task now e False t)"
  using tasks_wf_get[of s i t]
  by (auto simp: mark_failed_def mark_failed_inner_def get_task_def Let_def hm_simps failed_task_def)

lemma failed_wf: "tasks_wf s \<Longrightarrow> tasks_wf (mark_failed h now i e s)"
  unfolding mark_failed_def by (rule micros_tasks_wf[OF anytime.failed_steps]) simp_all

lemma failed_live [simp]: "sv_live (mark_failed h now i e s) = sv_live s"
  by (auto simp: mark_failed_def mark_failed_inner_def Let_def split: option.splits)

lemma sweep_step:
  assumes "tasks_wf s" "\<not> sv_panicked s" "get_task (bt_id t) s = Some t"
  shows "tasks_wf (sweep_orphan h now s t) \<and> \<not> sv_panicked (sweep_orphan h now s t)
    \<and> get_task i (sweep_orphan h now s t) = (if i = bt_id t then Some (settle_orphan now t) else get_task i s)"
proof (cases "bt_tool_name t = ''peer_handoff''")
  case True
  then have "sweep_orphan h now s t = mark_parked h now (bt_id t) ''orphaned across restart'' s"
    using assms(2) by (simp add: sweep_orphan_def unless_panicked_def)
  moreover have "tasks_wf (mark_parked h now (bt_id t) ''orphaned across restart'' s)"
    by (rule micros_tasks_wf[OF anytime.setter_steps(2)]) (use assms(1) in simp_all)
  ultimately show ?thesis using True assms by (auto simp: mark_parked_def settle_orphan_def)
next
  case False
  then have "sweep_orphan h now s t = mark_failed h now (bt_id t) ''orphaned across restart'' s"
    using assms(2) by (simp add: sweep_orphan_def unless_panicked_def)
  then show ?thesis using False assms(2) get_failed[OF assms(1,3)] anytime.get_failed_other[OF assms(1)] failed_wf[OF assms(1)]
    failed_quiet[OF quiet_reasons(1)] by (auto simp: settle_orphan_def mark_failed_def)
qed

lemma sweep_all:
  assumes "tasks_wf s" "\<not> sv_panicked s" "distinct (map bt_id ts)" "\<And>t. t \<in> set ts \<Longrightarrow> get_task (bt_id t) s = Some t"
  shows "tasks_wf (foldl (sweep_orphan h now) s ts) \<and> \<not> sv_panicked (foldl (sweep_orphan h now) s ts)
    \<and> (\<forall>i. get_task i (foldl (sweep_orphan h now) s ts)
        = (if i \<in> bt_id ` set ts then map_option (settle_orphan now) (get_task i s) else get_task i s))"
  using assms
proof (induction ts arbitrary: s)
  case (Cons t ts)
  let ?s = "sweep_orphan h now s t"
  have t: "get_task (bt_id t) s = Some t" using Cons.prems(4) by simp
  note st = sweep_step[OF Cons.prems(1,2) t]
  have "get_task (bt_id u) ?s = Some u" if "u \<in> set ts" for u
    using that Cons.prems(3,4) st by (metis (no_types, lifting) distinct.simps(2) image_eqI list.set_intros(2) list.simps(9) set_map)
  with Cons.IH[of ?s] st Cons.prems(3) show ?case by (auto simp: t)
qed simp

lemma all_failed_other:
  assumes "tasks_wf s" "\<not> sv_panicked s" "parse_alternatives (th_lowercase h) e = Some []"
  shows "tasks_wf (mark_all_failed h now e ids s) \<and> \<not> sv_panicked (mark_all_failed h now e ids s)
    \<and> (\<forall>i. i \<notin> set ids \<longrightarrow> get_task i (mark_all_failed h now e ids s) = get_task i s)"
  using assms(1,2)
proof (induction ids arbitrary: s)
  case (Cons j ids)
  let ?s = "mark_failed h now j e s"
  have "tasks_wf ?s" "\<not> sv_panicked ?s" "\<And>i. i \<noteq> j \<Longrightarrow> get_task i ?s = get_task i s"
    using failed_wf[OF Cons.prems(1)] failed_quiet[OF assms(3)] Cons.prems(2) anytime.get_failed_other[OF Cons.prems(1)]
    by (simp_all add: mark_failed_def)
  with Cons.IH[of ?s] Cons.prems(2) show ?case by (simp add: mark_all_failed_def)
qed (simp add: mark_all_failed_def)

definition cascaded :: "BackgroundTask \<Rightarrow> bool" where
  "cascaded t \<longleftrightarrow> is_active (bt_status t) \<and> is_pipeline_node t"

lemma cascade_other:
  assumes "tasks_wf s" "\<not> sv_panicked s"
  shows "let r = foldl (\<lambda>v c. unless_panicked (\<lambda>u. snd (mark_descendants_failed h now c ''parent task orphaned across restart'' u)) v) s cs in
    \<not> sv_panicked r \<and> (\<forall>i t. get_task i s = Some t \<longrightarrow> \<not> cascaded t \<longrightarrow> get_task i r = Some t) \<and> (\<forall>i. get_task i r = None \<longleftrightarrow> get_task i s = None)"
  using assms
proof (induction cs arbitrary: s)
  case (Cons c cs)
  let ?s = "unless_panicked (\<lambda>u. snd (mark_descendants_failed h now c ''parent task orphaned across restart'' u)) s"
  let ?m = "mark_all_failed h now ''parent task orphaned across restart'' (active_descendants c s) s"
  have s: "?s = s \<or> ?s = ?m" using Cons.prems(2) by (simp add: unless_panicked_def mark_descendants_failed_def)
  note other = all_failed_other[OF Cons.prems quiet_reasons(2), where now = now and ids = "active_descendants c s" and h = h]
  have "i \<notin> set (active_descendants c s)" if "get_task i s = Some t" "\<not> cascaded t" for i t
    using that tasks_wf_member[OF Cons.prems(1)] by (auto simp: active_descendants_def cascaded_def)
  then have kept: "get_task i ?s = Some t" if "get_task i s = Some t" "\<not> cascaded t" for i t using that s other by metis
  have wf: "tasks_wf ?s" "\<not> sv_panicked ?s" using s other Cons.prems by auto
  have "get_task i ?m = None \<longleftrightarrow> get_task i s = None" for i
  proof (cases "i \<in> set (active_descendants c s)")
    case True
    then have "get_task i s \<noteq> None" using tasks_wf_member[OF Cons.prems(1)] by (auto simp: active_descendants_def)
    moreover have "\<exists>t'. get_task i ?m = Some t'" if "get_task i s = Some t" for t
    proof -
      have "distinct (active_descendants c s)" unfolding active_descendants_def by (rule tasks_wf_distinct[OF Cons.prems(1)])
      from micros_verdict[OF anytime.all_failed_steps[OF Cons.prems(1) this] that] show ?thesis by blast
    qed
    ultimately show ?thesis by auto
  qed (use other in simp)
  then have none: "get_task i ?s = None \<longleftrightarrow> get_task i s = None" for i using s by metis
  from Cons.IH[OF wf] kept none show ?case by (simp add: Let_def)
qed simp

lemma restored_supervisor:
  assumes "reliable_disk h" "[] \<notin> set (hm_keys (ledger_table h p d))"
    and r_def: "r = snd (enable_persistence h now p (supervisor_new obs {} d))"
  shows "\<not> sv_panicked r \<and> (\<forall>i. get_task i r = None \<longleftrightarrow> hm_get (ledger_table h p d) i = None)
    \<and> (\<forall>i t. hm_get (ledger_table h p d) i = Some t \<longrightarrow>
        (let t1 = t\<lparr>bt_task_ledger_path := Some p\<rparr>; t2 = (if is_terminal_runtime_state (bt_runtime_state t) then t1 else settle_orphan now t1)
         in \<not> cascaded t2 \<longrightarrow> get_task i r = Some t2))"
proof -
  let ?rows = "ledger_table h p d"
  let ?s = "(supervisor_new obs {} d)\<lparr>sv_tasks := with_ledger_path p ?rows, sv_persistence_path := Some p\<rparr>"
  let ?orphans = "filter (is_orphan ?s) (hm_values (sv_tasks ?s))"
  let ?s4 = "foldl (sweep_orphan h now) ?s ?orphans"
  let ?s5 = "foldl (\<lambda>v c. unless_panicked (\<lambda>u. snd (mark_descendants_failed h now c ''parent task orphaned across restart'' u)) v) ?s4 (cascade_ids ?orphans)"
  note rows = ledger_table_wf[of h p d]
  have get: "get_task i ?s = map_option (\<lambda>t. t\<lparr>bt_task_ledger_path := Some p\<rparr>) (hm_get ?rows i)" for i
    by (simp add: get_task_def with_ledger_path_def map_prod_def map_of_map)
  have wf: "tasks_wf ?s" using rows assms(2) by (auto simp: tasks_wf_def with_ledger_path_def comp_def image_iff split_beta)
  have fresh: "filter (\<lambda>t. bt_id t \<notin> set (rev (hm_keys ?rows) @ [])) (hm_values (with_ledger_path p ?rows)) = []"
    using rows by (auto simp: filter_empty_conv with_ledger_path_def image_iff split_beta)
  have "foldl restore_row ([], []) ?rows = (?rows, rev (hm_keys ?rows) @ [])" using restore_all[of ?rows "[]" "[]"] rows by simp
  then have r: "r = unless_panicked notify_restore ?s5"
    unfolding r_def enable_persistence_def enable_persistence_with_recovery_def load_table[OF assms(1)] using fresh assms(1)
    by (simp add: supervisor_new_def reliable_disk_def Let_def)
  have orphan: "is_orphan ?s t \<longleftrightarrow> \<not> is_terminal_runtime_state (bt_runtime_state t)" for t
    by (simp add: is_orphan_def is_task_live_def supervisor_new_def list_ex_iff)
  note sweep = sweep_all[OF wf, of ?orphans h now]
  have "\<not> sv_panicked ?s" by (simp add: supervisor_new_def)
  moreover have "distinct (map bt_id ?orphans)" by (rule tasks_wf_distinct[OF wf])
  moreover have mem: "get_task (bt_id t) ?s = Some t" if "t \<in> set ?orphans" for t using that tasks_wf_member[OF wf, of t] by simp
  ultimately have s4: "tasks_wf ?s4" "\<not> sv_panicked ?s4"
    "\<And>i. get_task i ?s4 = (if i \<in> bt_id ` set ?orphans then map_option (settle_orphan now) (get_task i ?s) else get_task i ?s)"
    using sweep by blast+
  have swept: "get_task i ?s4 = Some (if is_terminal_runtime_state (bt_runtime_state t) then t else settle_orphan now t)"
    if "get_task i ?s = Some t" for i t
  proof -
    have id: "bt_id t = i" using wf that by (rule tasks_wf_get)
    have "i \<in> bt_id ` set ?orphans \<longleftrightarrow> t \<in> set ?orphans"
    proof
      assume "i \<in> bt_id ` set ?orphans"
      then obtain u where u: "u \<in> set ?orphans" "bt_id u = i" by auto
      with mem[OF u(1)] that have "u = t" by simp
      with u(1) show "t \<in> set ?orphans" by simp
    qed (use id in auto)
    also have "\<dots> \<longleftrightarrow> \<not> is_terminal_runtime_state (bt_runtime_state t)"
      using that id tasks_wf_member[OF wf, of t] orphan by simp
    finally have iff: "i \<in> bt_id ` set ?orphans \<longleftrightarrow> \<not> is_terminal_runtime_state (bt_runtime_state t)" .
    show ?thesis unfolding s4(3) iff that by simp
  qed
  note cascade = cascade_other[OF s4(1,2), of h now "cascade_ids ?orphans", unfolded Let_def]
  have same: "get_task i r = get_task i ?s5" "sv_panicked r = sv_panicked ?s5" for i
    unfolding r by (simp_all add: unless_panicked_def notify_restore_def get_task_def)
  have none: "get_task i r = None \<longleftrightarrow> hm_get ?rows i = None" for i
  proof -
    have "get_task i r = None \<longleftrightarrow> get_task i ?s4 = None" unfolding same using cascade by blast
    also have "\<dots> \<longleftrightarrow> get_task i ?s = None" unfolding s4(3) by simp
    finally show ?thesis unfolding get by simp
  qed
  have "get_task i r = Some t2" if "hm_get ?rows i = Some t" "t1 = t\<lparr>bt_task_ledger_path := Some p\<rparr>"
    "t2 = (if is_terminal_runtime_state (bt_runtime_state t) then t1 else settle_orphan now t1)" "\<not> cascaded t2" for i t t1 t2
  proof -
    have "get_task i ?s = Some t1" unfolding get using that(1,2) by simp
    then have "get_task i ?s4 = Some t2" using swept[of i t1] that(2,3) by simp
    then show ?thesis unfolding same using cascade that(4) by blast
  qed
  moreover have "\<not> sv_panicked r" unfolding same using cascade by blast
  ultimately show ?thesis using none by (simp add: Let_def)
qed

lemma started_supervisor:
  assumes "reliable_disk h"
  shows "let s = snd (enable_persistence h t0 p (supervisor_new obs live [])) in
    tasks_wf s \<and> (\<forall>i. get_task i s = None) \<and> replays h p s"
proof -
  have table: "ledger_table h p [] = []" by (simp add: ledger_table_def disk_lines_def ledger_rows_def List.map_filter_def)
  have s: "snd (enable_persistence h t0 p (supervisor_new obs live [])) = notify_restore ((supervisor_new obs live [])\<lparr>sv_persistence_path := Some p\<rparr>)"
    using assms table load_table[OF assms, of p "[]"]
    by (simp add: enable_persistence_def enable_persistence_with_recovery_def supervisor_new_def reliable_disk_def Let_def
        with_ledger_path_def cascade_ids_def unless_panicked_def)
  show ?thesis unfolding s using table
    by (simp add: Let_def notify_restore_def supervisor_new_def tasks_wf_def get_task_def replays_def)
qed

subsection \<open>Properties of a restart\<close>


text \<open>A lawful host: rows are encoded as numbers.\<close>

instance TaskStatus :: countable
  by countable_datatype

instance ChildSessionTerminalState :: countable
  by countable_datatype

instance ChildSessionJoinState :: countable
  by countable_datatype

instance ChildSessionFailureAction :: countable
  by countable_datatype

instance TaskRuntimeState :: countable
  by countable_datatype

definition row_fields where
  "row_fields r = (let t = pt_task r in ((pt_schema_version r, bt_id t, bt_tool_name t, bt_tool_call_id t, bt_parent_session_key t, bt_child_session_key t,
     bt_child_terminal_state t, bt_child_join_state t), (bt_child_joined_at t, bt_child_failure_action t, bt_task_ledger_path t, bt_status t,
     bt_runtime_state t, bt_runtime_detail t, bt_started_at t, bt_updated_at t), (bt_completed_at t, bt_output_files t, bt_error t, bt_final_output t,
     bt_failed_by_observer t, bt_session_key t, bt_tool_input t, bt_originating_client_message_id t), bt_source t, bt_role t, bt_summary t,
     bt_artifact_count t, bt_runtime_policy_stamp t, bt_projection_metadata t, bt_workspace_root t))"

definition row_of_fields :: "_ \<Rightarrow> PersistedTaskRecord" where
  "row_of_fields = (\<lambda>((v, i, n, c, pk, ck, cs, cj), (ca, cf, lp, st, rs, rd, sa, ua), (co, fs, er, fo, ob, sk, ti, om), so, ro, su, ac, po, pm, ws).
     \<lparr>pt_schema_version = v, pt_task = \<lparr>bt_id = i, bt_tool_name = n, bt_tool_call_id = c, bt_parent_session_key = pk, bt_child_session_key = ck,
       bt_child_terminal_state = cs, bt_child_join_state = cj, bt_child_joined_at = ca, bt_child_failure_action = cf, bt_task_ledger_path = lp,
       bt_status = st, bt_runtime_state = rs, bt_runtime_detail = rd, bt_started_at = sa, bt_updated_at = ua, bt_completed_at = co,
       bt_output_files = fs, bt_error = er, bt_final_output = fo, bt_failed_by_observer = ob, bt_session_key = sk, bt_tool_input = ti,
       bt_originating_client_message_id = om, bt_source = so, bt_role = ro, bt_summary = su, bt_artifact_count = ac,
       bt_runtime_policy_stamp = po, bt_projection_metadata = pm, bt_workspace_root = ws\<rparr>\<rparr>)"

definition row_host :: task_host where
  "row_host = sample_host\<lparr>th_encode := \<lambda>r. CHR ''#'' # nat_text (to_nat (row_fields r)) @ ''#'',
     th_decode := \<lambda>l. Some (row_of_fields (from_nat (digits_value (butlast (tl l)))))\<rparr>"

lemma row_roundtrip: "row_of_fields (row_fields r) = r"
  by (simp add: row_of_fields_def row_fields_def Let_def)

lemma reliable_row_host: "reliable_disk row_host"
  by (simp add: reliable_disk_def row_host_def sample_host_def)

lemma lawful_row_host: "lawful_codec row_host"
proof -
  have mark: "\<not> is_whitespace ''#''" by code_simp
  have "trim_start (CHR ''#'' # s) = CHR ''#'' # s" "trim_end_rev (CHR ''#'' # s) = CHR ''#'' # s" for s
    by (subst trim_start.simps trim_end_rev.simps; simp add: next_scalar_def scalar_len_def byte_def is_continuation_def mark)+
  then have "trim (CHR ''#'' # s @ ''#'') \<noteq> []" for s by (simp add: trim_def trim_end_def)
  then show ?thesis by (simp add: lawful_codec_def row_host_def digits_value_nat_text row_roundtrip)
qed


subsection \<open>Rows of several supervisors\<close>

definition freshest :: "BackgroundTask list \<Rightarrow> string \<Rightarrow> BackgroundTask \<Rightarrow> bool" where
  "freshest ts i t \<longleftrightarrow> t \<in> set ts \<and> bt_id t = i \<and> (\<forall>u \<in> set ts. bt_id u = i \<longrightarrow> bt_updated_at u \<le> bt_updated_at t)"

definition distinct_times :: "BackgroundTask list \<Rightarrow> bool" where
  "distinct_times ts \<longleftrightarrow> (\<forall>t \<in> set ts. \<forall>u \<in> set ts. bt_id t = bt_id u \<longrightarrow> bt_updated_at t = bt_updated_at u \<longrightarrow> t = u)"

lemma advances_iff_later: "bt_updated_at t \<noteq> bt_updated_at e \<Longrightarrow> task_snapshot_advances t e \<longleftrightarrow> bt_updated_at e < bt_updated_at t"
  by (auto simp: task_snapshot_advances_def)

lemma freshest_exists: "e \<in> set ts \<Longrightarrow> bt_id e = i \<Longrightarrow> \<exists>t. freshest ts i t"
proof -
  assume e: "e \<in> set ts" "bt_id e = i"
  let ?S = "bt_updated_at ` {e \<in> set ts. bt_id e = i}"
  have S: "finite ?S" "?S \<noteq> {}" using e by auto
  obtain t where "t \<in> set ts" "bt_id t = i" "Max ?S = bt_updated_at t" using imageE[OF Max_in[OF S]] by blast
  moreover from this have "bt_updated_at u \<le> bt_updated_at t" if "u \<in> set ts" "bt_id u = i" for u
    using Max_ge[OF S(1), of "bt_updated_at u"] that by auto
  ultimately show ?thesis by (auto simp: freshest_def)
qed

lemma freshest_snoc:
  "bt_id u \<noteq> i \<Longrightarrow> freshest (ts @ [u]) i t \<longleftrightarrow> freshest ts i t"
  "u \<in> set ts \<Longrightarrow> freshest (ts @ [u]) i t \<longleftrightarrow> freshest ts i t"
  "bt_id u = i \<Longrightarrow> (\<And>e. e \<in> set ts \<Longrightarrow> bt_id e = i \<Longrightarrow> bt_updated_at e < bt_updated_at u) \<Longrightarrow> freshest (ts @ [u]) i t \<longleftrightarrow> t = u"
  "e \<in> set ts \<Longrightarrow> bt_id e = i \<Longrightarrow> bt_updated_at u < bt_updated_at e \<Longrightarrow> freshest (ts @ [u]) i t \<longleftrightarrow> freshest ts i t"
proof -
  show "freshest (ts @ [u]) i t \<longleftrightarrow> t = u" if "bt_id u = i" "\<And>e. e \<in> set ts \<Longrightarrow> bt_id e = i \<Longrightarrow> bt_updated_at e < bt_updated_at u"
  proof
    assume "freshest (ts @ [u]) i t"
    with that(1) have "t \<in> set ts \<or> t = u" "bt_id t = i" "bt_updated_at u \<le> bt_updated_at t" by (auto simp: freshest_def)
    with that(2)[of t] show "t = u" by auto
  next
    assume "t = u"
    with that(1) less_imp_le[OF that(2)] show "freshest (ts @ [u]) i t" by (auto simp: freshest_def)
  qed
qed (auto simp: freshest_def)

lemma merge_freshest: "distinct_times ts \<Longrightarrow> hm_get (foldl merge_row [] ts) i = Some t \<longleftrightarrow> freshest ts i t"
proof (induction ts arbitrary: t rule: rev_induct)
  case Nil
  then show ?case by (simp add: freshest_def)
next
  case (snoc u ts)
  have dt: "distinct_times ts" using snoc.prems by (auto simp: distinct_times_def)
  let ?m = "foldl merge_row [] ts"
  note IH = snoc.IH[OF dt]
  have "hm_get (merge_row ?m u) i = Some t \<longleftrightarrow> freshest (ts @ [u]) i t"
  proof (cases "bt_id u = i")
    case id: True
    show ?thesis
    proof (cases "hm_get ?m i")
      case None
      then have "e \<notin> set ts \<or> bt_id e \<noteq> i" for e using IH freshest_exists[of e ts i] by fastforce
      then have "freshest (ts @ [u]) i t \<longleftrightarrow> t = u" using freshest_snoc(3)[OF id, of ts t] by blast
      with id None show ?thesis by (auto simp: merge_row_get)
    next
      case (Some e)
      then have e: "freshest ts i e" using IH by simp
      have tie: "u = e" if "bt_updated_at u = bt_updated_at e"
        using snoc.prems e id that by (auto simp: distinct_times_def freshest_def)
      show ?thesis
      proof (cases "bt_updated_at e < bt_updated_at u")
        case True
        then have "bt_updated_at x < bt_updated_at u" if "x \<in> set ts" "bt_id x = i" for x using e that by (force simp: freshest_def)
        then have "freshest (ts @ [u]) i t \<longleftrightarrow> t = u" using freshest_snoc(3)[OF id, of ts t] by blast
        with id True Some show ?thesis by (auto simp: merge_row_get task_snapshot_advances_def)
      next
        case False
        then have "\<not> task_snapshot_advances u e" using tie advances_iff_later[of u e] by (cases "bt_updated_at u = bt_updated_at e") (auto simp: task_snapshot_advances_def)
        moreover have "freshest (ts @ [u]) i t \<longleftrightarrow> freshest ts i t"
          using False tie e freshest_snoc(2)[of u ts i t] freshest_snoc(4)[of e ts i u t] by (force simp: freshest_def)
        ultimately show ?thesis using Some IH[of t] by (auto simp: merge_row_get)
      qed
    qed
  qed (use IH in \<open>auto simp: merge_row_get freshest_snoc(1)\<close>)
  then show ?case by simp
qed

text \<open>C27. Supervisors of different turns append to one ledger, and it does not matter how their rows interleave: as long as no two rows of a
  task have the same time, reading the ledger gives the row of each task with the latest time, the same for every order of the rows.\<close>

theorem ledger_order_irrelevant:
  assumes "mset (ledger_rows h ls) = mset (ledger_rows h ls')" "distinct_times (ledger_rows h ls)" "th_read_ok h p [(p, ls)]" "th_read_ok h p [(p, ls')]"
  shows "\<exists>m m'. load_persisted_tasks h p [(p, ls)] = Some m \<and> load_persisted_tasks h p [(p, ls')] = Some m'
    \<and> (\<forall>i. hm_get m i = hm_get m' i) \<and> (\<forall>i t. hm_get m i = Some t \<longleftrightarrow> freshest (ledger_rows h ls) i t)"
proof -
  have set: "set (ledger_rows h ls) = set (ledger_rows h ls')" using assms(1) by (rule mset_eq_setD)
  then have "distinct_times (ledger_rows h ls')" using assms(2) by (simp add: distinct_times_def)
  note m = merge_freshest[OF assms(2)] merge_freshest[OF this]
  have "freshest (ledger_rows h ls) = freshest (ledger_rows h ls')" using set by (auto simp: freshest_def fun_eq_iff)
  with m have "hm_get (foldl merge_row [] (ledger_rows h ls)) i = hm_get (foldl merge_row [] (ledger_rows h ls')) i" for i
    by (metis not_None_eq)
  with m assms(3,4) show ?thesis by (simp add: load_persisted_tasks_def)
qed

definition plain_task :: "int \<Rightarrow> string \<Rightarrow> BackgroundTask" where
  "plain_task now i = new_task now i ''spawn'' ''c'' (Some ''main'') None None None None"

definition two_rows_host :: task_host where
  "two_rows_host = sample_host\<lparr>th_decode := \<lambda>l. Some \<lparr>pt_schema_version = 1,
     pt_task = (if l = ''1'' then plain_task 1 ''a'' else (plain_task 2 ''a'')\<lparr>bt_status := TaskCompleted, bt_runtime_state := RtCompleted\<rparr>)\<rparr>\<rparr>"

theorem ledger_order_irrelevant_witness:
  "\<exists>m m'. load_persisted_tasks two_rows_host ''p'' [(''p'', [''1'', ''2''])] = Some m \<and> load_persisted_tasks two_rows_host ''p'' [(''p'', [''2'', ''1''])] = Some m'
    \<and> (\<forall>i. hm_get m i = hm_get m' i)"
proof -
  let ?t = "plain_task 1 ''a''" and ?u = "(plain_task 2 ''a'')\<lparr>bt_status := TaskCompleted, bt_runtime_state := RtCompleted\<rparr>"
  have rows: "ledger_rows two_rows_host [''1'', ''2''] = [?t, ?u]" "ledger_rows two_rows_host [''2'', ''1''] = [?u, ?t]" by code_simp+
  have "mset (ledger_rows two_rows_host [''1'', ''2'']) = mset (ledger_rows two_rows_host [''2'', ''1''])" unfolding rows by simp
  moreover have "distinct_times (ledger_rows two_rows_host [''1'', ''2''])" unfolding rows by (simp add: distinct_times_def plain_task_def new_task_def)
  moreover have "th_read_ok two_rows_host ''p'' d" for d by (simp add: two_rows_host_def sample_host_def)
  ultimately show ?thesis using ledger_order_irrelevant by blast
qed

subsection \<open>Too many tasks\<close>

lemma find_text_needs: "find_text n s \<noteq> None \<Longrightarrow> set n \<subseteq> set s"
proof (induction n s rule: find_text.induct)
  case (2 n c cs)
  then show ?case using set_mono_prefix[of n "c # cs"] by (cases "prefix n (c # cs)") (auto simp: starts_with_def)
qed (simp split: if_splits)

definition fanout_reason :: "nat \<Rightarrow> nat \<Rightarrow> string" where
  "fanout_reason k cap = ''child fanout exceeded ('' @ nat_text k @ '' of '' @ nat_text cap @ '')''"

lemma fanout_reason_quiet: "parse_alternatives wide (fanout_reason k cap) = Some []"
proof -
  have digit: "byte c < 128 \<and> ascii_lower c \<noteq> CHR ''v''" if "is_ascii_digit c" for c
    using that by (auto simp: is_ascii_digit_def ascii_lower_def byte_def)
  have "\<forall>c \<in> set (fanout_reason k cap). byte c < 128 \<and> ascii_lower c \<noteq> CHR ''v''"
  proof -
    have "list_all (\<lambda>c. byte c < 128 \<and> ascii_lower c \<noteq> CHR ''v'') (''child fanout exceeded ('' @ '' of '' @ '')'')" by code_simp
    then show ?thesis using digit nat_text_digits by (fastforce simp: fanout_reason_def list_all_iff)
  qed
  then have "to_lowercase wide (fanout_reason k cap) = to_ascii_lowercase (fanout_reason k cap)"
    "CHR ''v'' \<notin> set (to_ascii_lowercase (fanout_reason k cap))"
    by (auto simp: to_lowercase_def list_all_iff to_ascii_lowercase_def)
  moreover from this have "find_text ''available:'' (to_ascii_lowercase (fanout_reason k cap)) = None"
    using find_text_needs[of "''available:''"] by fastforce
  ultimately show ?thesis by (simp add: parse_alternatives_def)
qed

lemma all_failed_get:
  assumes "tasks_wf s" "\<not> sv_panicked s" "parse_alternatives (th_lowercase h) e = Some []" "distinct ids"
  shows "get_task i (mark_all_failed h now e ids s) = (if i \<in> set ids then map_option (\<lambda>t.
      if bt_status t = TaskCancelled \<or> bt_status t = TaskCompleted then t else failed_task now e False t) (get_task i s) else get_task i s)"
  using assms(1,2,4)
proof (induction ids arbitrary: s)
  case (Cons j ids)
  let ?s = "mark_failed h now j e s"
  have wf: "tasks_wf ?s" "\<not> sv_panicked ?s" using failed_wf[OF Cons.prems(1)] failed_quiet[OF assms(3)] Cons.prems(2) by simp_all
  have "get_task j ?s = map_option (\<lambda>t. if bt_status t = TaskCancelled \<or> bt_status t = TaskCompleted then t else failed_task now e False t) (get_task j s)"
    using get_failed[OF Cons.prems(1)] by (cases "get_task j s") (auto simp: mark_failed_def mark_failed_inner_def)
  moreover have "get_task i ?s = get_task i s" if "i \<noteq> j" using anytime.get_failed_other[OF Cons.prems(1) that] by (simp add: mark_failed_def)
  ultimately show ?case using Cons.IH[OF wf] Cons.prems(2,3) by (cases "i = j") (simp_all add: mark_all_failed_def)
qed (simp add: mark_all_failed_def)

lemma children_failed:
  assumes "tasks_wf s" "\<not> sv_panicked s"
    and s'_def: "s' = mark_all_failed h now (fanout_reason k cap) (active_children key s) (s\<lparr>sv_poisoned_parents := insert key (sv_poisoned_parents s)\<rparr>)"
  shows "get_task i s = Some t \<Longrightarrow> bt_parent_session_key t = Some key \<Longrightarrow> is_active (bt_status t)
      \<Longrightarrow> get_task i s' = Some (failed_task now (fanout_reason k cap) False t)"
    and "get_task i s = Some t \<Longrightarrow> bt_parent_session_key t \<noteq> Some key \<or> \<not> is_active (bt_status t) \<Longrightarrow> get_task i s' = Some t"
    and "get_task i s' = None \<longleftrightarrow> get_task i s = None" "\<not> sv_panicked s'"
proof -
  let ?p = "s\<lparr>sv_poisoned_parents := insert key (sv_poisoned_parents s)\<rparr>"
  have wf: "tasks_wf ?p" "\<not> sv_panicked ?p" "\<And>i. get_task i ?p = get_task i s" using assms(1,2) by (simp_all add: tasks_wf_def get_task_def)
  have ids: "distinct (active_children key s)" unfolding active_children_def by (rule tasks_wf_distinct[OF assms(1)])
  note get = all_failed_get[OF wf(1,2) fanout_reason_quiet[of "th_lowercase h" k cap] ids, where now = now, folded s'_def, unfolded wf(3)]
  have mem: "i \<in> set (active_children key s) \<longleftrightarrow> bt_parent_session_key t = Some key \<and> is_active (bt_status t)" if "get_task i s = Some t" for i t
  proof
    assume "i \<in> set (active_children key s)"
    then obtain u where u: "u \<in> set (hm_values (sv_tasks s))" "bt_parent_session_key u = Some key \<and> is_active (bt_status u)" "bt_id u = i"
      unfolding active_children_def by auto
    then have "get_task i s = Some u" using tasks_wf_member[OF assms(1), of u] by simp
    with that u(2) show "bt_parent_session_key t = Some key \<and> is_active (bt_status t)" by simp
  next
    have id: "bt_id t = i" using assms(1) that by (rule tasks_wf_get)
    then have "t \<in> set (hm_values (sv_tasks s))" using tasks_wf_member[OF assms(1), of t] that by simp
    moreover assume "bt_parent_session_key t = Some key \<and> is_active (bt_status t)"
    ultimately show "i \<in> set (active_children key s)" unfolding active_children_def using id by auto
  qed
  show "get_task i s' = Some (failed_task now (fanout_reason k cap) False t)"
    if "get_task i s = Some t" "bt_parent_session_key t = Some key" "is_active (bt_status t)"
    using mem[OF that(1)] that unfolding get by (auto simp: is_active_def)
  show "get_task i s' = Some t" if "get_task i s = Some t" "bt_parent_session_key t \<noteq> Some key \<or> \<not> is_active (bt_status t)"
    using mem[OF that(1)] that unfolding get by auto
  show "get_task i s' = None \<longleftrightarrow> get_task i s = None" unfolding get by auto
  show "\<not> sv_panicked s'" unfolding s'_def using all_failed_other[OF wf(1,2) fanout_reason_quiet] by blast
qed

lemma all_failed_poison: "sv_poisoned_parents (mark_all_failed h now e ids v) = sv_poisoned_parents v"
proof -
  have "sv_poisoned_parents (notify_terminal al t s) = sv_poisoned_parents s" "sv_poisoned_parents (notify_failure al t s) = sv_poisoned_parents s"
    "sv_poisoned_parents (publish h t s) = sv_poisoned_parents s" for al t s
    by (auto simp: notify_terminal_def notify_failure_def invoke_failure_callback_def publish_def notify_change_def put_task_def emit_def
        persist_snapshot_def persist_snapshot_strict_def Let_def split: prod.splits bool.splits option.splits)
  then have "sv_poisoned_parents (mark_failed h now i e s) = sv_poisoned_parents s" for i s
    by (auto simp: mark_failed_def mark_failed_inner_def report_failure_def Let_def split: option.splits)
  then show ?thesis unfolding mark_all_failed_def by (induction ids arbitrary: v) auto
qed

lemma hm_insert_new: "\<not> hm_contains m k \<Longrightarrow> hm_insert k v m = m @ [(k, v)]"
  by (induction m) (auto simp: hm_contains_iff)

text \<open>C20. The limit on background tasks of a session holds. Below it, a registration succeeds and the session has one live task more, still
  within the limit. At the limit, the registration is refused, every active task of the session is failed with the reason, no other task
  changes, and the session is barred; a barred session is refused without another effect.\<close>

theorem fanout_limit_holds:
  assumes "tasks_wf s" "\<not> sv_panicked s" "\<not> hm_contains (sv_tasks s) i" "terminal_parent chk s = None"
  shows "let (res, s') = register_full_with_workspace h now i n c (Some key) l inp m chk w False s;
      cap = max_children_per_parent h; live = length (live_children key s) in
    if key \<in> sv_poisoned_parents s then res = Inl (ChildFanoutExceeded key live cap) \<and> s' = s
    else if cap \<le> live then res = Inl (ChildFanoutExceeded key live cap) \<and> key \<in> sv_poisoned_parents s' \<and> \<not> sv_panicked s'
      \<and> (\<forall>j t. get_task j s = Some t \<longrightarrow> (if bt_parent_session_key t = Some key \<and> is_active (bt_status t)
          then get_task j s' = Some (failed_task now (fanout_reason live cap) False t) else get_task j s' = Some t))
    else res = Inr i \<and> length (live_children key s') = Suc live \<and> length (live_children key s') \<le> cap"
proof -
  let ?cap = "max_children_per_parent h" and ?live = "length (live_children key s)"
  let ?t = "new_task now i n c (Some key) (or_else l (sv_persistence_path s)) inp m (non_empty w)"
  let ?r = "register_full_with_workspace h now i n c (Some key) l inp m chk w False s"
  let ?p = "mark_all_failed h now (fanout_reason ?live ?cap) (active_children key s) (s\<lparr>sv_poisoned_parents := insert key (sv_poisoned_parents s)\<rparr>)"
  consider (barred) "key \<in> sv_poisoned_parents s" | (full) "key \<notin> sv_poisoned_parents s" "?cap \<le> ?live"
    | (room) "key \<notin> sv_poisoned_parents s" "\<not> ?cap \<le> ?live" by blast
  then show ?thesis
  proof cases
    case barred
    then show ?thesis using assms(4) by (simp add: register_full_with_workspace_def fanout_gate_def Let_def)
  next
    case full
    have "?r = (Inl (ChildFanoutExceeded key ?live ?cap), ?p)"
      using full assms(4) by (simp add: register_full_with_workspace_def fanout_gate_def Let_def fanout_reason_def)
    moreover have "sv_poisoned_parents ?p = insert key (sv_poisoned_parents s)" by (simp add: all_failed_poison)
    ultimately show ?thesis using full children_failed[OF assms(1,2) refl, where h = h and now = now and k = ?live and cap = ?cap and key = key]
      by (auto simp: Let_def)
  next
    case room
    let ?s = "notify_register i (persist_snapshot h ?t (put_task ?t s))"
    have r: "?r = (Inr i, ?s)" using room assms(4) by (simp add: register_full_with_workspace_def fanout_gate_def Let_def)
    have id: "bt_id ?t = i" "bt_parent_session_key ?t = Some key" "bt_status ?t = TaskSpawned" by (simp_all add: new_task_def)
    have "sv_tasks ?s = sv_tasks s @ [(i, ?t)]" using assms(3) id(1) by (simp add: hm_insert_new)
    then have "live_children key ?s = live_children key s @ [?t]"
      using id by (simp add: live_children_def is_task_live_def is_active_def)
    with room r show ?thesis by (simp add: Let_def)
  qed
qed

definition narrow_host :: task_host where
  "narrow_host = sample_host\<lparr>th_max_children := Some ''1''\<rparr>"

definition one_task :: supervisor where
  "one_task = sup_run sample_host (supervisor_new all_observers {} []) [(1, spawn_op ''a'' ''c'')]"

theorem fanout_limit_holds_witness:
  "let (res, s') = register_full_with_workspace narrow_host 2 ''b'' ''spawn'' ''d'' (Some ''main'') None None None None None False one_task
   in res = Inl (ChildFanoutExceeded ''main'' 1 1) \<and> (\<exists>t. get_task ''a'' s' = Some t \<and> bt_status t = TaskFailed)"
proof -
  have s: "tasks_wf one_task" "\<not> sv_panicked one_task" "\<not> hm_contains (sv_tasks one_task) ''b''" "terminal_parent None one_task = None" by code_simp+
  have e: "''main'' \<notin> sv_poisoned_parents one_task" "length (live_children ''main'' one_task) = 1" by code_simp+
  have cap: "max_children_per_parent narrow_host = 1"
  proof -
    have "nat_text 1 = ''1''" by code_simp
    with parse_uint_nat_text[of 1 "2 ^ 64 - 1"] have "parse_usize ''1'' = Some 1" by (simp add: parse_usize_def)
    then show ?thesis by (simp add: max_children_per_parent_def narrow_host_def)
  qed
  have "map_option (\<lambda>t. (bt_parent_session_key t, is_active (bt_status t))) (get_task ''a'' one_task) = Some (Some ''main'', True)" by code_simp
  then obtain t where t: "get_task ''a'' one_task = Some t" "bt_parent_session_key t = Some ''main''" "is_active (bt_status t)" by auto
  obtain res s' where r: "register_full_with_workspace narrow_host 2 ''b'' ''spawn'' ''d'' (Some ''main'') None None None None None False one_task = (res, s')"
    by fastforce
  have "bt_status (failed_task now err False t) = TaskFailed" for now err by (simp add: failed_task_def)
  with fanout_limit_holds[OF s, of narrow_host 2 "''spawn''" "''d''" "''main''" None None None None] e cap t
  show ?thesis unfolding r by (auto simp: Let_def)
qed

definition turkish_error :: string where
  "turkish_error = [CHR 0xC4, CHR 0xB0] @ ''available:''"

definition turkish_lowercase :: "string \<Rightarrow> string" where
  "turkish_lowercase s = (if s = turkish_error then [CHR ''i'', CHR 0xCC, CHR 0x87] @ ''available:'' else s)"

definition one_row_host :: task_host where
  "one_row_host = sample_host\<lparr>th_decode := \<lambda>_. Some \<lparr>pt_schema_version = 1,
     pt_task = (plain_task 1 ''a'')\<lparr>bt_status := TaskRunning, bt_runtime_state := RtFailed\<rparr>\<rparr>\<rparr>"

definition ends_of :: "string \<Rightarrow> sup_event list \<Rightarrow> bool list" where
  "ends_of i es = List.map_filter (\<lambda>e. case e of Ended t _ oc \<Rightarrow> if bt_id t = i then Some (oc = OutcomeCompleted) else None | _ \<Rightarrow> None) es"


end
