(* ===== verification/Run_Files.thy ===== *)
theory Run_Files
  imports Handlers Cost_Ledger
begin

text \<open>
  Model of the files of a run: the artifact store (\<^verbatim>\<open>artifact.rs\<close>), the run directory (\<^verbatim>\<open>run_dir.rs\<close>), and what \<^verbatim>\<open>tool.rs\<close> does around
  them: the id of a run, the removal of old run directories, and the time stamp. Files are a map from paths to contents. Whether a file
  operation succeeds, what a failed write leaves behind, and the JSON encoding of a record are fields of the record \<open>file_host\<close>.
\<close>

subsection \<open>Files\<close>

type_synonym files = "(string, string) hashmap"

record NodeStatus =
  st_node_id :: string
  st_label :: "string option"
  st_status :: OutcomeStatus
  st_model :: "string option"
  st_duration_ms :: u64
  st_token_usage :: TokenUsage
  st_start_time :: string
  st_content_length :: nat

record PipelineRunSummary =
  ps_graph_id :: string
  ps_success :: bool
  ps_duration_ms :: u64
  ps_total_tokens :: TokenUsage
  ps_nodes_executed :: nat
  ps_start_time :: string
  ps_context_mode :: "string option"
  ps_context_reason :: "string option"

record file_host =
  fl_mkdir :: "string \<Rightarrow> files \<Rightarrow> bool"
  fl_write :: "string \<Rightarrow> string \<Rightarrow> files \<Rightarrow> bool"
  fl_left :: "string \<Rightarrow> string \<Rightarrow> files \<Rightarrow> string option"
  fl_read :: "string \<Rightarrow> files \<Rightarrow> bool"
  fl_status_json :: "NodeStatus \<Rightarrow> string option"
  fl_summary_json :: "PipelineRunSummary \<Rightarrow> string option"

datatype io_error = BadId id_error | MkdirFailed string | WriteFailed string | ReadFailed string | EncodeFailed

definition write_file :: "file_host \<Rightarrow> string \<Rightarrow> string \<Rightarrow> files \<Rightarrow> (io_error, unit) sum \<times> files" where
  "write_file h target content fs = (if fl_write h target content fs then (Inr (), hm_insert target content fs)
     else (Inl (WriteFailed target), (case fl_left h target content fs of Some torn \<Rightarrow> hm_insert target torn fs | None \<Rightarrow> fs)))"

definition read_file :: "file_host \<Rightarrow> string \<Rightarrow> files \<Rightarrow> (io_error, string) sum" where
  "read_file h target fs = (case hm_get fs target of
       Some content \<Rightarrow> if fl_read h target fs then Inr content else Inl (ReadFailed target)
     | None \<Rightarrow> Inl (ReadFailed target))"

subsection \<open>Artifacts\<close>

definition SPILL_THRESHOLD :: nat where "SPILL_THRESHOLD = 64 * 1024"

datatype ArtifactBacking = InMemory string | OnDisk string

record ArtifactStore =
  as_artifacts :: "(string, ArtifactBacking) hashmap"
  as_run_dir :: "string option"

definition artifact_store_new :: "string \<Rightarrow> ArtifactStore" where
  "artifact_store_new run_dir = \<lparr>as_artifacts = [], as_run_dir = Some run_dir\<rparr>"

definition artifact_store_in_memory :: ArtifactStore where
  "artifact_store_in_memory = \<lparr>as_artifacts = [], as_run_dir = None\<rparr>"

definition put :: "file_host \<Rightarrow> string \<Rightarrow> string \<Rightarrow> ArtifactStore \<Rightarrow> files \<Rightarrow> (io_error, unit) sum \<times> ArtifactStore \<times> files" where
  "put h node_id content a fs =
     (let stored = (\<lambda>b. a\<lparr>as_artifacts := hm_insert node_id b (as_artifacts a)\<rparr>) in
      case validate_pipeline_id node_id of
        Inl e \<Rightarrow> (Inl (BadId e), a, fs)
      | Inr _ \<Rightarrow> (case (if SPILL_THRESHOLD < length content then as_run_dir a else None) of
          None \<Rightarrow> (Inr (), stored (InMemory content), fs)
        | Some dir \<Rightarrow>
            let artifact_dir = path_join dir ''artifacts''; target = path_join artifact_dir (node_id @ ''.txt'') in
            if \<not> fl_mkdir h artifact_dir fs then (Inl (MkdirFailed artifact_dir), a, fs)
            else (case write_file h target content fs of
                (Inl e, fs1) \<Rightarrow> (Inl e, a, fs1)
              | (Inr _, fs1) \<Rightarrow> (Inr (), stored (OnDisk target), fs1))))"

definition get :: "file_host \<Rightarrow> string \<Rightarrow> ArtifactStore \<Rightarrow> files \<Rightarrow> (io_error, string option) sum" where
  "get h node_id a fs = (case hm_get (as_artifacts a) node_id of
       Some (InMemory s) \<Rightarrow> Inr (Some s)
     | Some (OnDisk target) \<Rightarrow> (case read_file h target fs of Inl e \<Rightarrow> Inl e | Inr content \<Rightarrow> Inr (Some content))
     | None \<Rightarrow> Inr None)"

definition artifact_contains :: "string \<Rightarrow> ArtifactStore \<Rightarrow> bool" where
  "artifact_contains node_id a = hm_contains (as_artifacts a) node_id"

definition is_on_disk :: "string \<Rightarrow> ArtifactStore \<Rightarrow> bool" where
  "is_on_disk node_id a = (case hm_get (as_artifacts a) node_id of Some (OnDisk _) \<Rightarrow> True | _ \<Rightarrow> False)"

subsection \<open>Run directories\<close>

definition MIN_CONTENT_LENGTH :: nat where "MIN_CONTENT_LENGTH = 100"

record RunDir =
  rd_base :: "string option"

definition run_dir_new :: "file_host \<Rightarrow> string \<Rightarrow> string \<Rightarrow> files \<Rightarrow> (io_error, RunDir) sum" where
  "run_dir_new h working_dir run_id fs = (case validate_pipeline_id run_id of
       Inl e \<Rightarrow> Inl (BadId e)
     | Inr _ \<Rightarrow> let base = path_join (path_join working_dir ''.octos/runs'') run_id in
         if fl_mkdir h base fs then Inr \<lparr>rd_base = Some base\<rparr> else Inl (MkdirFailed base))"

definition run_dir_noop :: RunDir where
  "run_dir_noop = \<lparr>rd_base = None\<rparr>"

definition write_node_status :: "file_host \<Rightarrow> RunDir \<Rightarrow> NodeStatus \<Rightarrow> files \<Rightarrow> (io_error, unit) sum \<times> files" where
  "write_node_status h rd status fs = (case rd_base rd of
       None \<Rightarrow> (Inr (), fs)
     | Some base \<Rightarrow> (case validate_pipeline_id (st_node_id status) of
         Inl e \<Rightarrow> (Inl (BadId e), fs)
       | Inr _ \<Rightarrow> let node_dir = path_join base (st_node_id status) in
           if \<not> fl_mkdir h node_dir fs then (Inl (MkdirFailed node_dir), fs)
           else (case fl_status_json h status of
               None \<Rightarrow> (Inl EncodeFailed, fs)
             | Some json \<Rightarrow> write_file h (path_join node_dir ''status.json'') json fs)))"

definition write_node_content :: "file_host \<Rightarrow> RunDir \<Rightarrow> string \<Rightarrow> string \<Rightarrow> files \<Rightarrow> (io_error, string option) sum \<times> files" where
  "write_node_content h rd node_id content fs = (case rd_base rd of
       None \<Rightarrow> (Inr None, fs)
     | Some base \<Rightarrow>
         if length content < MIN_CONTENT_LENGTH then (Inr None, fs)
         else (case validate_pipeline_id node_id of
             Inl e \<Rightarrow> (Inl (BadId e), fs)
           | Inr _ \<Rightarrow> let node_dir = path_join base node_id; content_path = path_join node_dir ''output.txt'' in
               if \<not> fl_mkdir h node_dir fs then (Inl (MkdirFailed node_dir), fs)
               else (case write_file h content_path content fs of
                   (Inl e, fs1) \<Rightarrow> (Inl e, fs1) | (Inr _, fs1) \<Rightarrow> (Inr (Some content_path), fs1))))"

definition write_summary :: "file_host \<Rightarrow> RunDir \<Rightarrow> PipelineRunSummary \<Rightarrow> files \<Rightarrow> (io_error, unit) sum \<times> files" where
  "write_summary h rd summary fs = (case rd_base rd of
       None \<Rightarrow> (Inr (), fs)
     | Some base \<Rightarrow> (case fl_summary_json h summary of
         None \<Rightarrow> (Inl EncodeFailed, fs)
       | Some json \<Rightarrow> write_file h (path_join base ''summary.json'') json fs))"

definition with_external_context_unmanaged :: "string \<Rightarrow> PipelineRunSummary \<Rightarrow> PipelineRunSummary" where
  "with_external_context_unmanaged reason s =
     s\<lparr>ps_context_mode := Some ''external_context_unmanaged'', ps_context_reason := Some reason\<rparr>"

subsection \<open>Run ids\<close>

text \<open>The characters that an id may keep; the others become underscores.\<close>

definition id_char :: "string \<Rightarrow> bool" where
  "id_char sc = (case sc of [c] \<Rightarrow> is_ascii_alphanumeric c \<or> c = CHR ''_'' \<or> c = CHR ''-'' | _ \<Rightarrow> False)"

definition graph_id_from_dot :: "string \<Rightarrow> string" where
  "graph_id_from_dot dot_content =
     (let header = (case strip_prefix ''digraph'' (trim_start dot_content) of Some rest \<Rightarrow> trim_start rest | None \<Rightarrow> []);
          candidate = concat (takeWhile id_char (scalars header))
      in if candidate = [] then ''pipeline'' else candidate)"

text \<open>A start before the epoch is \<open>None\<close>. The counter of the process is threaded through.\<close>

definition generate_run_id :: "string \<Rightarrow> (u64 \<times> u32) option \<Rightarrow> u32 \<Rightarrow> u64 \<Rightarrow> string \<times> u64" where
  "generate_run_id graph_id started_at pid counter =
     (let (secs, nanos) = (case started_at of Some t \<Rightarrow> t | None \<Rightarrow> (0, 0));
          safe_graph = concat (take 64 (map (\<lambda>c. if id_char c then c else ''_'') (scalars graph_id)));
          stamp = ''-'' @ nat_text (unat secs) @ ''-'' @ pad_zeros 9 (nat_text (unat nanos)) @ ''-'' @ nat_text (unat pid)
            @ ''-'' @ nat_text (unat counter);
          candidate = safe_graph @ stamp
      in (if candidate = [] \<or> 128 < length candidate then ''pipeline'' @ stamp else candidate, counter + 1))"

subsection \<open>Old run directories\<close>

definition MAX_RETAINED_RUN_DIRS :: nat where "MAX_RETAINED_RUN_DIRS = 20"

record dir_entry =
  de_path :: string
  de_name :: string
  de_is_dir :: bool
  de_mtime :: "int option"

text \<open>The directories that pruning removes, oldest first; an unreadable time counts as the epoch.\<close>

definition mtime_or_epoch :: "dir_entry \<Rightarrow> int" where
  "mtime_or_epoch e = (case de_mtime e of Some t \<Rightarrow> t | None \<Rightarrow> 0)"

definition run_dirs :: "dir_entry list \<Rightarrow> dir_entry list" where
  "run_dirs = filter (\<lambda>e. de_is_dir e \<and> de_name e \<noteq> ''latest'')"

definition prune_old_run_dirs :: "dir_entry list option \<Rightarrow> nat \<Rightarrow> dir_entry list" where
  "prune_old_run_dirs entries keep = (case entries of
       None \<Rightarrow> []
     | Some es \<Rightarrow> let dirs = run_dirs es in
         if length dirs \<le> keep then [] else take (length dirs - keep) (sort_key mtime_or_epoch dirs))"

subsection \<open>Time stamps\<close>

text \<open>The year is unbounded here and an \<^verbatim>\<open>i32\<close> in the code; they agree for every date up to the year 9999, which the code is said to handle.\<close>

definition leap :: "int \<Rightarrow> bool" where
  "leap year \<longleftrightarrow> (year mod 4 = 0 \<and> year mod 100 \<noteq> 0) \<or> year mod 400 = 0"

definition year_days :: "int \<Rightarrow> int" where
  "year_days year = (if leap year then 366 else 365)"

definition month_lens :: "int \<Rightarrow> int list" where
  "month_lens year = [31, if leap year then 29 else 28, 31, 30, 31, 30, 31, 31, 30, 31, 30, 31]"

function find_year :: "int \<Rightarrow> int \<Rightarrow> int \<times> int" where
  "find_year year days = (if days < year_days year then (year, days) else find_year (year + 1) (days - year_days year))"
  by pat_completeness auto
termination
  by (relation "measure (\<lambda>(_, days). nat days)") (auto simp: year_days_def split: if_splits)

declare find_year.simps [simp del]

fun find_month :: "int list \<Rightarrow> int \<Rightarrow> int \<Rightarrow> int \<times> int" where
  "find_month [] month days = (month, days)"
| "find_month (m # ms) month days = (if days < m then (month, days) else find_month ms (month + 1) (days - m))"

definition unix_secs_to_ymdhms :: "int \<Rightarrow> int \<times> int \<times> int \<times> int \<times> int \<times> int" where
  "unix_secs_to_ymdhms secs = (if secs < 0 then (1970, 1, 1, 0, 0, 0)
     else let sec = secs mod 60; total_mins = secs div 60; minute = total_mins mod 60; total_hours = total_mins div 60;
              hour = total_hours mod 24; (year, rest) = find_year 1970 (total_hours div 24);
              (month, days) = find_month (month_lens year) 1 rest
          in (year, month, days + 1, hour, minute, sec))"

definition systemtime_to_rfc3339 :: "u64 option \<Rightarrow> string" where
  "systemtime_to_rfc3339 t =
     (let (year, month, day, hour, minute, sec) = unix_secs_to_ymdhms (case t of Some s \<Rightarrow> sint s | None \<Rightarrow> 0);
          num = (\<lambda>w n. pad_zeros w (nat_text (nat n)))
      in num 4 year @ ''-'' @ num 2 month @ ''-'' @ num 2 day @ ''T'' @ num 2 hour @ '':'' @ num 2 minute @ '':'' @ num 2 sec @ ''Z'')"

subsection \<open>Paths of a run\<close>

text \<open>A path inside a directory is the directory followed by names, none of which leads out of it.\<close>

definition plain_name :: "string \<Rightarrow> bool" where
  "plain_name c \<longleftrightarrow> c \<noteq> [] \<and> CHR ''/'' \<notin> set c \<and> c \<noteq> ''..''"

definition inside :: "string \<Rightarrow> string \<Rightarrow> bool" where
  "inside dir p \<longleftrightarrow> (\<exists>cs. cs \<noteq> [] \<and> p = dir @ concat (map (\<lambda>c. ''/'' @ c) cs) \<and> list_all plain_name cs)"

definition dir_path :: "string \<Rightarrow> bool" where
  "dir_path dir \<longleftrightarrow> dir \<noteq> [] \<and> last dir \<noteq> CHR ''/''"

lemma path_join_plain: "dir_path dir \<Longrightarrow> \<not> starts_with p ''/'' \<Longrightarrow> path_join dir p = dir @ ''/'' @ p"
  by (simp add: path_join_def dir_path_def)

lemma plain_name_start: "plain_name c \<Longrightarrow> \<not> starts_with (c @ r) ''/''"
  by (cases c) (auto simp: plain_name_def starts_with_def)

lemma path_join_name: "dir_path dir \<Longrightarrow> plain_name c \<Longrightarrow> path_join dir c = dir @ ''/'' @ c"
  using path_join_plain plain_name_start[of c "[]"] by simp

lemma dir_path_join: "dir_path dir \<Longrightarrow> plain_name c \<Longrightarrow> dir_path (path_join dir c)"
  by (auto simp: path_join_name dir_path_def plain_name_def dest: last_in_set)

lemma plain_names [simp]:
  "plain_name ''artifacts''" "plain_name ''status.json''" "plain_name ''output.txt''" "plain_name ''summary.json''"
  by (simp_all add: plain_name_def)

lemma plain_name_txt: "plain_name c \<Longrightarrow> plain_name (c @ ''.txt'')"
  by (auto simp: plain_name_def)

lemma valid_id_plain: "validate_pipeline_id i = Inr u \<Longrightarrow> plain_name i"
  by (auto simp: validate_pipeline_id_def plain_name_def str_contains_iff split: if_splits)

lemma inside_name: "dir_path dir \<Longrightarrow> plain_name c \<Longrightarrow> inside dir (path_join dir c)"
  unfolding inside_def by (rule exI[of _ "[c]"]) (simp add: path_join_name)

lemma inside_names:
  assumes "dir_path dir" "plain_name c" "plain_name d"
  shows "inside dir (path_join (path_join dir c) d)"
proof -
  have "path_join (path_join dir c) d = dir @ concat (map (\<lambda>c. ''/'' @ c) [c, d])"
    using path_join_name[OF dir_path_join[OF assms(1,2)] assms(3)] path_join_name[OF assms(1,2)] by simp
  with assms show ?thesis unfolding inside_def by (intro exI[of _ "[c, d]"]) simp
qed

subsection \<open>What a run writes\<close>

datatype file_op = WriteStatus NodeStatus | WriteContent string string | WriteSummary PipelineRunSummary | PutArtifact string string

fun file_step :: "file_host \<Rightarrow> RunDir \<Rightarrow> ArtifactStore \<times> files \<Rightarrow> file_op \<Rightarrow> ArtifactStore \<times> files" where
  "file_step h rd (a, fs) (WriteStatus s) = (a, snd (write_node_status h rd s fs))"
| "file_step h rd (a, fs) (WriteContent i c) = (a, snd (write_node_content h rd i c fs))"
| "file_step h rd (a, fs) (WriteSummary s) = (a, snd (write_summary h rd s fs))"
| "file_step h rd (a, fs) (PutArtifact i c) = snd (put h i c a fs)"

definition file_run :: "file_host \<Rightarrow> RunDir \<Rightarrow> file_op list \<Rightarrow> ArtifactStore \<times> files \<Rightarrow> ArtifactStore \<times> files" where
  "file_run h rd ops w = foldl (file_step h rd) w ops"

text \<open>The paths that an operation may write.\<close>

fun op_paths :: "string \<Rightarrow> file_op \<Rightarrow> string set" where
  "op_paths base (WriteStatus s) = {path_join (path_join base (st_node_id s)) ''status.json'' | u. validate_pipeline_id (st_node_id s) = Inr u}"
| "op_paths base (WriteContent i c) = {path_join (path_join base i) ''output.txt'' | u. validate_pipeline_id i = Inr u}"
| "op_paths base (WriteSummary s) = {path_join base ''summary.json''}"
| "op_paths base (PutArtifact i c) = {path_join (path_join base ''artifacts'') (i @ ''.txt'') | u. validate_pipeline_id i = Inr u}"

lemma write_file_touches: "write_file h target c fs = (r, fs1) \<Longrightarrow> hm_get fs1 p \<noteq> hm_get fs p \<Longrightarrow> p = target"
  by (auto simp: write_file_def hm_simps split: if_splits option.splits)

lemma writes_touch:
  assumes "rd_base rd = Some base" "hm_get fs1 p \<noteq> hm_get fs p"
  shows "write_node_status h rd s fs = (r, fs1) \<Longrightarrow> p \<in> op_paths base (WriteStatus s)"
    and "write_node_content h rd i c fs = (q, fs1) \<Longrightarrow> p \<in> op_paths base (WriteContent i c)"
    and "write_summary h rd m fs = (r, fs1) \<Longrightarrow> p \<in> op_paths base (WriteSummary m)"
    and "put h i c a fs = (r, a1, fs1) \<Longrightarrow> as_run_dir a = Some base \<Longrightarrow> p \<in> op_paths base (PutArtifact i c)"
  using assms
  by (auto simp: write_node_status_def write_node_content_def write_summary_def put_def Let_def
      dest: write_file_touches split: if_splits option.splits sum.splits prod.splits)

lemma put_keeps_dir: "put h i c a fs = (r, a1, fs1) \<Longrightarrow> as_run_dir a1 = as_run_dir a"
  by (auto simp: put_def Let_def split: if_splits option.splits sum.splits prod.splits)

lemma step_touches:
  assumes "rd_base rd = Some base" "as_run_dir a = Some base" "file_step h rd (a, fs) op = (a1, fs1)"
  shows "hm_get fs1 p \<noteq> hm_get fs p \<Longrightarrow> p \<in> op_paths base op" "as_run_dir a1 = Some base"
proof -
  have "(hm_get fs1 p \<noteq> hm_get fs p \<longrightarrow> p \<in> op_paths base op) \<and> as_run_dir a1 = Some base"
  proof (cases op)
    case (WriteStatus s)
    obtain r where "write_node_status h rd s fs = (r, fs1)" using assms(3) WriteStatus by (cases "write_node_status h rd s fs") simp
    with writes_touch(1)[OF assms(1)] assms WriteStatus show ?thesis by auto
  next
    case (WriteContent i c)
    obtain r where "write_node_content h rd i c fs = (r, fs1)" using assms(3) WriteContent by (cases "write_node_content h rd i c fs") simp
    with writes_touch(2)[OF assms(1)] assms WriteContent show ?thesis by auto
  next
    case (WriteSummary m)
    obtain r where "write_summary h rd m fs = (r, fs1)" using assms(3) WriteSummary by (cases "write_summary h rd m fs") simp
    with writes_touch(3)[OF assms(1)] assms WriteSummary show ?thesis by auto
  next
    case (PutArtifact i c)
    obtain r where "put h i c a fs = (r, a1, fs1)" using assms(3) PutArtifact by (cases "put h i c a fs") simp
    with writes_touch(4)[OF assms(1)] put_keeps_dir assms PutArtifact show ?thesis by (simp del: op_paths.simps)
  qed
  then show "hm_get fs1 p \<noteq> hm_get fs p \<Longrightarrow> p \<in> op_paths base op" "as_run_dir a1 = Some base" by blast+
qed

lemma op_paths_inside: "dir_path base \<Longrightarrow> p \<in> op_paths base op \<Longrightarrow> inside base p"
  by (cases op) (auto intro!: inside_name inside_names plain_name_txt simp del: plain_names simp: plain_names intro: valid_id_plain)

lemma run_touches:
  assumes "rd_base rd = Some base" "as_run_dir a = Some base" "file_run h rd ops (a, fs) = (a1, fs1)" "hm_get fs1 p \<noteq> hm_get fs p"
  shows "\<exists>op \<in> set ops. p \<in> op_paths base op"
  using assms(2-) unfolding file_run_def
proof (induction ops arbitrary: a fs)
  case (Cons op ops)
  obtain a2 fs2 where step: "file_step h rd (a, fs) op = (a2, fs2)" by fastforce
  note one = step_touches[OF assms(1) Cons.prems(1) step]
  show ?case
  proof (cases "hm_get fs2 p = hm_get fs p")
    case True
    with Cons.IH[OF one(2), of fs2] Cons.prems step show ?thesis by simp
  next
    case False
    with one(1) show ?thesis by simp
  qed
qed simp

text \<open>A generated id is one that the run directory accepts.\<close>

lemma id_char_scalar: "id_char c \<Longrightarrow> \<exists>b. c = [b] \<and> (is_ascii_alphanumeric b \<or> b = CHR ''_'' \<or> b = CHR ''-'')"
  by (auto simp: id_char_def split: list.splits)

definition safe_byte :: "char \<Rightarrow> bool" where
  "safe_byte b \<longleftrightarrow> is_ascii_alphanumeric b \<or> b = CHR ''_'' \<or> b = CHR ''-''"

lemma safe_byte_range: "safe_byte b \<Longrightarrow> 32 \<le> byte b \<and> byte b < 127 \<and> b \<noteq> CHR ''/'' \<and> b \<noteq> CHR 0x5C \<and> b \<noteq> CHR 0x00 \<and> b \<noteq> CHR ''.''"
  by (auto simp: safe_byte_def is_ascii_alphanumeric_def is_ascii_digit_def byte_def)

lemma scalars_safe: "list_all safe_byte s \<Longrightarrow> scalars s = map (\<lambda>b. [b]) s"
proof (induction s)
  case Nil
  then show ?case by (subst scalars.simps) (simp add: next_scalar_def)
next
  case (Cons b s)
  then have "next_scalar (b # s) = Some ([b], s)" using next_scalar_ascii safe_byte_range[of b] by fastforce
  with Cons show ?case by (subst scalars.simps) simp
qed

lemma safe_id_valid:
  assumes "list_all safe_byte s" "s \<noteq> []" "length s \<le> 128"
  shows "validate_pipeline_id s = Inr ()"
proof -
  have b: "\<And>b. b \<in> set s \<Longrightarrow> safe_byte b" using assms(1) by (simp add: list_all_iff)
  have "\<not> str_contains s ''..''" using b safe_byte_range set_mono_sublist[of "''..''" s] by (auto simp: str_contains_iff)
  moreover have "\<not> list_ex is_control (scalars s)"
    using b safe_byte_range by (force simp: scalars_safe[OF assms(1)] list_ex_iff)
  ultimately show ?thesis using assms b safe_byte_range by (auto simp: validate_pipeline_id_def)
qed

lemma digits_safe: "list_all safe_byte (nat_text n)"
  using nat_text_digits[of n] by (auto simp: list_all_iff safe_byte_def is_ascii_alphanumeric_def)

lemma padded_safe: "list_all safe_byte (pad_zeros w (nat_text n))"
  using digits_safe by (auto simp: pad_zeros_def list_all_iff safe_byte_def is_ascii_alphanumeric_def is_ascii_digit_def byte_def)

lemma cleaned_safe: "list_all safe_byte (concat (take k (map (\<lambda>c. if id_char c then c else ''_'') cs)))"
  using id_char_scalar by (fastforce simp: list_all_iff safe_byte_def dest!: in_set_takeD)

lemma word_text_length: "length (nat_text (unat (x :: u32))) \<le> 10" "length (nat_text (unat (y :: u64))) \<le> 20"
  using unsigned_less[of x, where 'a = nat] unsigned_less[of y, where 'a = nat] by (auto intro!: length_nat_text_bound)

lemma generated_id_valid: "validate_pipeline_id (fst (generate_run_id gid started pid counter)) = Inr ()"
proof -
  obtain secs nanos where t: "(case started of Some t \<Rightarrow> t | None \<Rightarrow> (0, 0)) = (secs :: u64, nanos :: u32)" by fastforce
  let ?stamp = "''-'' @ nat_text (unat secs) @ ''-'' @ pad_zeros 9 (nat_text (unat nanos)) @ ''-'' @ nat_text (unat pid) @ ''-'' @ nat_text (unat counter)"
  have stamp: "list_all safe_byte ?stamp" using digits_safe padded_safe by (simp add: safe_byte_def)
  have "length ?stamp \<le> 64"
    using word_text_length(1)[of nanos] word_text_length(1)[of pid] word_text_length(2)[of secs] word_text_length(2)[of counter]
    by (auto simp: pad_zeros_def)
  moreover have "list_all safe_byte ''pipeline''" by (simp add: safe_byte_def is_ascii_alphanumeric_def byte_def)
  ultimately have "validate_pipeline_id (''pipeline'' @ ?stamp) = Inr ()" using stamp by (intro safe_id_valid) auto
  moreover have "validate_pipeline_id (concat (take 64 (map (\<lambda>c. if id_char c then c else ''_'') (scalars gid))) @ ?stamp) = Inr ()"
    if "length (concat (take 64 (map (\<lambda>c. if id_char c then c else ''_'') (scalars gid))) @ ?stamp) \<le> 128"
    using that stamp cleaned_safe by (intro safe_id_valid) auto
  ultimately show ?thesis by (auto simp: generate_run_id_def t Let_def simp del: append_assoc)
qed

lemma run_dir_base:
  assumes "run_dir_new h wd rid fs = Inr rd"
  obtains base where "rd_base rd = Some base" "base = path_join (path_join wd ''.octos/runs'') rid" "dir_path base"
    "inside (path_join wd ''.octos/runs'') base"
proof -
  let ?runs = "path_join wd ''.octos/runs''"
  have rid: "plain_name rid" and rd: "rd_base rd = Some (path_join ?runs rid)"
    using assms valid_id_plain by (auto simp: run_dir_new_def Let_def split: sum.splits if_splits)
  have runs: "dir_path ?runs" by (auto simp: path_join_def dir_path_def starts_with_def)
  show ?thesis using that[OF rd refl dir_path_join[OF runs rid] inside_name[OF runs rid]] .
qed

subsection \<open>Artifacts stay where they are\<close>

definition artifact_path :: "string \<Rightarrow> string \<Rightarrow> string" where
  "artifact_path base n = path_join (path_join base ''artifacts'') (n @ ''.txt'')"

lemma two_names: "dir_path base \<Longrightarrow> plain_name c \<Longrightarrow> plain_name d \<Longrightarrow> path_join (path_join base c) d = base @ ''/'' @ c @ ''/'' @ d"
  using path_join_name[OF dir_path_join[of base c], of d] path_join_name[of base c] by simp

lemma same_names: "c @ CHR ''/'' # d = c' @ CHR ''/'' # d' \<Longrightarrow> plain_name c \<Longrightarrow> plain_name c' \<Longrightarrow> c = c' \<and> d = d'"
  using split_once_Some[of "CHR ''/''" "c @ CHR ''/'' # d" c d] split_once_Some[of "CHR ''/''" "c @ CHR ''/'' # d" c' d']
  by (simp add: plain_name_def)

lemma artifact_path_apart:
  assumes "dir_path base" "plain_name n" "artifact_path base n \<in> op_paths base op"
  shows "(\<exists>c. op = PutArtifact n c) \<or> (n = ''output'' \<and> (\<exists>c. op = WriteContent ''artifacts'' c))"
proof -
  have p: "artifact_path base n = base @ ''/'' @ ''artifacts'' @ ''/'' @ n @ ''.txt''"
    unfolding artifact_path_def using two_names[OF assms(1) plain_names(1) plain_name_txt[OF assms(2)]] .
  show ?thesis
  proof (cases op)
    case (WriteStatus s)
    with assms have "base @ ''/'' @ ''artifacts'' @ ''/'' @ n @ ''.txt'' = base @ ''/'' @ st_node_id s @ ''/'' @ ''status.json''"
      using two_names[OF assms(1) _ plain_names(2)] valid_id_plain p by auto
    from arg_cong[OF this, of last] show ?thesis by simp
  next
    case (WriteContent x c)
    with assms have x: "plain_name x" "''artifacts'' @ CHR ''/'' # (n @ ''.txt'') = x @ CHR ''/'' # ''output.txt''"
      using two_names[OF assms(1) _ plain_names(3)] valid_id_plain p by auto
    then have "x = ''artifacts''" "n @ ''.txt'' = ''output'' @ ''.txt''" using same_names[OF x(2)] by (simp_all add: plain_names(1))
    with WriteContent show ?thesis by (auto simp del: append.simps)
  next
    case (WriteSummary m)
    with assms p have "base @ ''/'' @ ''artifacts'' @ ''/'' @ n @ ''.txt'' = base @ ''/'' @ ''summary.json''"
      using path_join_name[OF assms(1) plain_names(4)] by simp
    from arg_cong[OF this, of last] show ?thesis by simp
  next
    case (PutArtifact x c)
    with assms have "base @ ''/'' @ ''artifacts'' @ ''/'' @ n @ ''.txt'' = base @ ''/'' @ ''artifacts'' @ ''/'' @ x @ ''.txt''"
      using two_names[OF assms(1) plain_names(1) plain_name_txt] valid_id_plain p by (auto simp del: append.simps)
    with PutArtifact show ?thesis by simp
  qed
qed

lemma put_other: "put h i c a fs = (r, a1, fs1) \<Longrightarrow> i \<noteq> n \<Longrightarrow> hm_get (as_artifacts a1) n = hm_get (as_artifacts a) n"
  by (auto simp: put_def Let_def hm_simps split: if_splits option.splits sum.splits prod.splits)

lemma run_keeps_entry:
  assumes "\<forall>op \<in> set ops. \<forall>c. op \<noteq> PutArtifact n c" "file_run h rd ops (a, fs) = (a1, fs1)"
  shows "hm_get (as_artifacts a1) n = hm_get (as_artifacts a) n"
  using assms unfolding file_run_def
proof (induction ops arbitrary: a fs)
  case (Cons op ops)
  obtain a2 fs2 where step: "file_step h rd (a, fs) op = (a2, fs2)" by fastforce
  have "hm_get (as_artifacts a2) n = hm_get (as_artifacts a) n"
    using step Cons.prems(1) put_other by (cases op) (auto, metis prod.collapse)
  with Cons.IH[of a2 fs2] Cons.prems step show ?case by simp
qed simp

lemma run_keeps_dir:
  assumes "rd_base rd = Some base" "as_run_dir a = Some base" "file_run h rd ops (a, fs) = (a1, fs1)"
  shows "as_run_dir a1 = Some base"
  using assms(2-) unfolding file_run_def
proof (induction ops arbitrary: a fs)
  case (Cons op ops)
  obtain a2 fs2 where step: "file_step h rd (a, fs) op = (a2, fs2)" by fastforce
  with Cons.IH[OF step_touches(2)[OF assms(1) Cons.prems(1) step]] Cons.prems(2) show ?case by simp
qed simp

lemma put_stores:
  assumes "put h n c a fs = (Inr u, a1, fs1)" "as_run_dir a = Some base"
  shows "plain_name n \<and> (if SPILL_THRESHOLD < length c
      then hm_get (as_artifacts a1) n = Some (OnDisk (artifact_path base n)) \<and> hm_get fs1 (artifact_path base n) = Some c
      else hm_get (as_artifacts a1) n = Some (InMemory c))"
  using assms valid_id_plain
  by (auto simp: put_def Let_def write_file_def artifact_path_def hm_simps split: if_splits option.splits sum.splits prod.splits)

subsection \<open>Calendar\<close>

text \<open>The number of days from the epoch to the first of January of a year, by the rule of the Gregorian calendar.\<close>

definition days_before_year :: "int \<Rightarrow> int" where
  "days_before_year y = 365 * (y - 1970) + ((y - 1) div 4 - (y - 1) div 100 + (y - 1) div 400) - 477"

lemma div_step:
  assumes "0 < (k :: int)"
  shows "y div k = (y - 1) div k + (if y mod k = 0 then 1 else 0)"
proof -
  define q r where "q = (y - 1) div k" and "r = (y - 1) mod k"
  have y: "y = k * q + (r + 1)" using mult_div_mod_eq[of k "y - 1"] unfolding q_def r_def by linarith
  have r: "0 \<le> r" "r < k" using assms by (simp_all add: r_def)
  have "y div k = q + (if y mod k = 0 then 1 else 0)"
  proof (cases "r + 1 = k")
    case True
    with y have "y = k * (q + 1)" by (simp add: algebra_simps)
    with assms show ?thesis by simp
  next
    case False
    then have "y div k = q" "y mod k = r + 1" using y r by (auto intro: int_div_pos_eq int_mod_pos_eq)
    with r show ?thesis by simp
  qed
  then show ?thesis by (simp only: q_def)
qed

lemma leap_count:
  assumes "(a :: int) = a' + (if p then 1 else 0)" "b = b' + (if q then 1 else 0)" "c = c' + (if r then 1 else 0)" "r \<Longrightarrow> q" "q \<Longrightarrow> p"
  shows "365 * (y + 1 - 1970) + (a - b + c) - 477 = 365 * (y - 1970) + (a' - b' + c') - 477 + (if (p \<and> \<not> q) \<or> r then 366 else 365)"
  using assms by auto

lemma days_before_next: "days_before_year (y + 1) = days_before_year y + year_days y"
proof -
  have "y mod 400 = 0 \<Longrightarrow> y mod 100 = 0" "y mod 100 = 0 \<Longrightarrow> y mod 4 = 0"
    unfolding mod_eq_0_iff_dvd by (erule dvd_trans[rotated], simp)+
  from leap_count[OF div_step[of 4 y] div_step[of 100 y] div_step[of 400 y] this, of y] show ?thesis
    by (simp only: days_before_year_def year_days_def leap_def add_diff_cancel_right' zero_less_numeral simp_thms)
qed

lemma days_before_mono:
  assumes "y \<le> z"
  shows "days_before_year y \<le> days_before_year z"
proof -
  have "days_before_year y \<le> days_before_year (y + int k)" for k
  proof (induction k)
    case (Suc k)
    with days_before_next[of "y + int k"] show ?case by (simp add: year_days_def add.commute add.left_commute split: if_splits)
  qed simp
  from this[of "nat (z - y)"] assms show ?thesis by simp
qed

lemma find_year_correct:
  assumes "0 \<le> days" "find_year y days = (y1, rest)"
  shows "y \<le> y1 \<and> 0 \<le> rest \<and> rest < year_days y1 \<and> days_before_year y + days = days_before_year y1 + rest"
  using assms
proof (induction y days rule: find_year.induct)
  case (1 y days)
  show ?case
  proof (cases "days < year_days y")
    case True
    with "1.prems" show ?thesis by (simp add: find_year.simps[of y days])
  next
    case False
    with "1.prems" have "find_year (y + 1) (days - year_days y) = (y1, rest)" by (simp add: find_year.simps[of y days])
    with "1.IH"[OF False] False days_before_next[of y] show ?thesis by simp
  qed
qed

lemma find_month_correct:
  assumes "find_month ms m days = (m1, rest)" "0 \<le> days" "days < sum_list ms"
  shows "m \<le> m1 \<and> m1 < m + int (length ms) \<and> 0 \<le> rest \<and> rest < ms ! nat (m1 - m)
    \<and> days = sum_list (take (nat (m1 - m)) ms) + rest"
  using assms
proof (induction ms m days rule: find_month.induct)
  case (2 l ms m days)
  show ?case
  proof (cases "days < l")
    case True
    with 2 show ?thesis by simp
  next
    case False
    with 2 have ih: "m + 1 \<le> m1 \<and> m1 < m + 1 + int (length ms) \<and> 0 \<le> rest \<and> rest < ms ! nat (m1 - (m + 1))
      \<and> days - l = sum_list (take (nat (m1 - (m + 1))) ms) + rest" by simp
    then have "nat (m1 - m) = Suc (nat (m1 - (m + 1)))" by linarith
    with ih show ?thesis by simp
  qed
qed simp

subsection \<open>Properties\<close>

text \<open>C15. A run leaves no trace outside its own directory. The id that is generated for a run is accepted by the run directory, which
  is made under \<^verbatim>\<open>.octos/runs\<close> of the working directory, and whatever the run then writes (the status and the output of nodes of any
  name, the summary, artifacts), and also where a write fails half way, every file that changes lies inside that directory.\<close>

theorem run_files_confined:
  assumes "rid = fst (generate_run_id gid started pid counter)" "run_dir_new h wd rid fs = Inr rd"
  shows "validate_pipeline_id rid = Inr () \<and> (\<exists>base. rd_base rd = Some base \<and> inside (path_join wd ''.octos/runs'') base
    \<and> (\<forall>ops p. hm_get (snd (file_run h rd ops (artifact_store_new base, fs))) p \<noteq> hm_get fs p \<longrightarrow> inside base p))"
proof -
  obtain base where base: "rd_base rd = Some base" "dir_path base" "inside (path_join wd ''.octos/runs'') base"
    using run_dir_base[OF assms(2)] by metis
  have "inside base p" if p: "hm_get (snd (file_run h rd ops (artifact_store_new base, fs))) p \<noteq> hm_get fs p" for ops p
  proof -
    obtain a1 fs1 where r: "file_run h rd ops (artifact_store_new base, fs) = (a1, fs1)" by fastforce
    with p run_touches[OF base(1) _ r] obtain op where "p \<in> op_paths base op" by (auto simp: artifact_store_new_def)
    with op_paths_inside[OF base(2)] show ?thesis by blast
  qed
  with base generated_id_valid assms(1) show ?thesis by blast
qed

definition good_files :: file_host where
  "good_files = \<lparr>fl_mkdir = \<lambda>_ _. True, fl_write = \<lambda>_ _ _. True, fl_left = \<lambda>_ _ _. None, fl_read = \<lambda>_ _. True,
     fl_status_json = \<lambda>s. Some (st_node_id s), fl_summary_json = \<lambda>s. Some (ps_graph_id s)\<rparr>"

theorem run_files_confined_witness:
  "\<exists>rd base. run_dir_new good_files ''/w'' (fst (generate_run_id ''a/b'' (Some (1, 2)) 3 4)) [] = Inr rd \<and> rd_base rd = Some base
     \<and> inside ''/w/.octos/runs'' base
     \<and> (\<forall>p. hm_get (snd (file_run good_files rd [WriteContent ''..'' (replicate 200 (CHR ''x''))] (artifact_store_new base, []))) p \<noteq> None \<longrightarrow> inside base p)"
proof -
  let ?rid = "fst (generate_run_id ''a/b'' (Some (1, 2)) 3 4)"
  have "\<exists>rd. run_dir_new good_files ''/w'' ?rid [] = Inr rd"
    using generated_id_valid by (simp add: run_dir_new_def good_files_def)
  then obtain rd where rd: "run_dir_new good_files ''/w'' ?rid [] = Inr rd" by blast
  have "path_join ''/w'' ''.octos/runs'' = ''/w/.octos/runs''" by code_simp
  with run_files_confined[OF refl rd] rd show ?thesis by auto
qed

text \<open>C33. An artifact is read back as it was stored. Once the store has accepted the output of a node, small or spilled to a file, reading it
  gives that output, whatever else the run writes later and whether those writes succeed or fail, until the node's artifact is stored again. The one
  exception is a node called \<^verbatim>\<open>artifacts\<close>, whose output file is the artifact file of the node called \<^verbatim>\<open>output\<close>.\<close>

theorem artifacts_read_back:
  assumes "run_dir_new h wd rid fs = Inr rd" "rd_base rd = Some base" "file_run h rd ops (artifact_store_new base, fs) = (a, fs1)"
    and "put h n c a fs1 = (Inr u, a2, fs2)" "file_run h rd later (a2, fs2) = (a3, fs3)"
    and "\<forall>op \<in> set later. \<forall>d. op \<noteq> PutArtifact n d \<and> (n = ''output'' \<longrightarrow> op \<noteq> WriteContent ''artifacts'' d)"
    and "fl_read h (artifact_path base n) fs3"
  shows "get h n a3 fs3 = Inr (Some c) \<and> (is_on_disk n a3 \<longleftrightarrow> SPILL_THRESHOLD < length c)"
proof -
  have base: "dir_path base" using run_dir_base[OF assms(1)] assms(2) by auto
  have dir: "as_run_dir a = Some base" using run_keeps_dir[OF assms(2) _ assms(3)] by (simp add: artifact_store_new_def)
  then have dir2: "as_run_dir a2 = Some base" using put_keeps_dir[OF assms(4)] by simp
  note stored = put_stores[OF assms(4) dir]
  have "hm_get fs3 (artifact_path base n) = hm_get fs2 (artifact_path base n)"
    using run_touches[OF assms(2) dir2 assms(5)] artifact_path_apart[OF base conjunct1[OF stored]] assms(6) by blast
  moreover have "hm_get (as_artifacts a3) n = hm_get (as_artifacts a2) n" using run_keeps_entry[OF _ assms(5)] assms(6) by blast
  ultimately show ?thesis using stored assms(7) by (auto simp: get_def is_on_disk_def read_file_def split: if_splits)
qed

theorem artifacts_read_back_witness:
  "let w = file_run good_files \<lparr>rd_base = Some ''/w/.octos/runs/r''\<rparr> [PutArtifact ''n'' ''hi'', PutArtifact ''m'' ''x'']
      (artifact_store_new ''/w/.octos/runs/r'', [])
   in get good_files ''n'' (fst w) (snd w) = Inr (Some ''hi'')"
proof -
  let ?base = "''/w/.octos/runs/r''" and ?rd = "\<lparr>rd_base = Some ''/w/.octos/runs/r''\<rparr>"
  have rd: "run_dir_new good_files ''/w'' ''r'' [] = Inr ?rd" by code_simp
  have start: "file_run good_files ?rd [] (artifact_store_new ?base, []) = (artifact_store_new ?base, [])" by (simp add: file_run_def)
  obtain a2 fs2 where p: "put good_files ''n'' ''hi'' (artifact_store_new ?base) [] = (Inr (), a2, fs2)"
    using safe_id_valid[of "''n''"]
    by (auto simp: put_def SPILL_THRESHOLD_def safe_byte_def is_ascii_alphanumeric_def byte_def Let_def)
  obtain a3 fs3 where l: "file_run good_files ?rd [PutArtifact ''m'' ''x''] (a2, fs2) = (a3, fs3)" by fastforce
  have "get good_files ''n'' a3 fs3 = Inr (Some ''hi'')"
    using artifacts_read_back[OF rd _ start p l] by (simp add: good_files_def)
  with p l show ?thesis by (simp add: file_run_def Let_def)
qed

text \<open>The time stamp of a run is the right date: the fields of \<open>unix_secs_to_ymdhms\<close> are a day of the Gregorian calendar and a time of
  day, and the seconds that the calendar counts from the epoch to that moment are the argument. Until the end of the year 9999 the year has
  four digits.\<close>

theorem timestamp_exact:
  assumes "0 \<le> secs" "unix_secs_to_ymdhms secs = (year, month, day, hour, minute, sec)"
  shows "1970 \<le> year \<and> 1 \<le> month \<and> month \<le> 12 \<and> 1 \<le> day \<and> day \<le> month_lens year ! nat (month - 1)
    \<and> 0 \<le> hour \<and> hour < 24 \<and> 0 \<le> minute \<and> minute < 60 \<and> 0 \<le> sec \<and> sec < 60
    \<and> secs = (((days_before_year year + sum_list (take (nat (month - 1)) (month_lens year)) + day - 1) * 24 + hour) * 60 + minute) * 60 + sec
    \<and> (secs < 253402300800 \<longrightarrow> year \<le> 9999)"
proof -
  let ?d = "secs div 60 div 60 div 24"
  obtain rest where y: "find_year 1970 ?d = (year, rest)" using assms by (auto simp: unix_secs_to_ymdhms_def Let_def split: prod.splits)
  with assms have m: "find_month (month_lens year) 1 rest = (month, day - 1)" and t: "hour = secs div 60 div 60 mod 24" "minute = secs div 60 mod 60"
    "sec = secs mod 60" by (auto simp: unix_secs_to_ymdhms_def Let_def split: prod.splits)
  have d: "0 \<le> ?d" using assms(1) by (simp add: pos_imp_zdiv_nonneg_iff)
  have yd: "sum_list (month_lens year) = year_days year" "length (month_lens year) = 12" by (simp_all add: month_lens_def year_days_def)
  have year: "1970 \<le> year" "0 \<le> rest" "rest < year_days year" "?d = days_before_year year + rest"
    using find_year_correct[OF d y] by (auto simp: days_before_year_def)
  have month: "1 \<le> month \<and> month \<le> 12 \<and> 0 \<le> day - 1 \<and> day - 1 < month_lens year ! nat (month - 1)
    \<and> rest = sum_list (take (nat (month - 1)) (month_lens year)) + (day - 1)"
    using find_month_correct[OF m year(2)] year(3) yd by simp
  have split: "secs = ((?d * 24 + hour) * 60 + minute) * 60 + sec" by (simp add: t)
  have "year \<le> 9999" if "secs < 253402300800"
  proof (rule ccontr)
    assume "\<not> year \<le> 9999"
    then have "days_before_year 10000 \<le> days_before_year year" by (intro days_before_mono) simp
    moreover have "?d < 2932897" using that by linarith
    ultimately show False using year by (simp add: days_before_year_def[of 10000])
  qed
  moreover have "0 \<le> hour \<and> hour < 24 \<and> 0 \<le> minute \<and> minute < 60 \<and> 0 \<le> sec \<and> sec < 60" by (simp add: t)
  moreover have "secs = (((days_before_year year + sum_list (take (nat (month - 1)) (month_lens year)) + day - 1) * 24 + hour) * 60 + minute) * 60 + sec"
    using split month year(4) by simp
  ultimately show ?thesis using month year by auto
qed

theorem timestamp_exact_witness:
  "unix_secs_to_ymdhms 951782401 = (2000, 2, 29, 0, 0, 1) \<and> days_before_year 2000 + sum_list (take 1 (month_lens 2000)) + 29 - 1 = 951782401 div 86400"
proof -
  have "unix_secs_to_ymdhms 951782401 = (2000, 2, 29, 0, 0, 1)" by code_simp
  with timestamp_exact[OF _ this] show ?thesis by simp
qed

text \<open>Pruning keeps the newest run directories, as many as it should, and never the entry \<^verbatim>\<open>latest\<close>.\<close>

lemma prune_keeps_newest:
  assumes "prune_old_run_dirs (Some es) keep = old" "rest = filter (\<lambda>e. e \<notin> set old) (run_dirs es)" "distinct es"
  shows "length rest = min keep (length (run_dirs es)) \<and> (\<forall>e \<in> set old. de_is_dir e \<and> de_name e \<noteq> ''latest''
    \<and> (\<forall>d \<in> set rest. mtime_or_epoch e \<le> mtime_or_epoch d))"
proof (cases "length (run_dirs es) \<le> keep")
  case True
  with assms show ?thesis by (simp add: prune_old_run_dirs_def Let_def)
next
  case False
  let ?s = "sort_key mtime_or_epoch (run_dirs es)" and ?k = "length (run_dirs es) - keep"
  have old: "old = take ?k ?s" using False assms(1) by (simp add: prune_old_run_dirs_def Let_def)
  have d: "distinct ?s" "distinct (run_dirs es)" using assms(3) by (simp_all add: run_dirs_def)
  have parts: "set (take ?k ?s) \<inter> set (drop ?k ?s) = {}" "set (take ?k ?s) \<union> set (drop ?k ?s) = set (run_dirs es)"
    using d(1) by (metis append_take_drop_id distinct_append, metis append_take_drop_id set_append set_sort)
  then have rest: "set rest = set (drop ?k ?s)" using assms(2) old by auto
  have "distinct rest" using d(2) assms(2) by simp
  then have "length rest = length (drop ?k ?s)" using rest d(1) by (metis distinct_card distinct_drop)
  then have "length rest = keep" using False by simp
  moreover have "mtime_or_epoch e \<le> mtime_or_epoch f" if "e \<in> set old" "f \<in> set rest" for e f
  proof -
    have "sorted (map mtime_or_epoch (take ?k ?s @ drop ?k ?s))" by simp
    with that old rest show ?thesis unfolding map_append sorted_append by auto
  qed
  moreover have "set old \<subseteq> set (run_dirs es)" using parts(2) old by blast
  ultimately show ?thesis using False by (auto simp: run_dirs_def)
qed

end
