(* ===== verification/Discovery.thy ===== *)
theory Discovery
  imports Run_Files
begin

text \<open>
  Model of \<^verbatim>\<open>discovery.rs\<close>, which finds the text of a pipeline in the directories of an installation, and of the functions of \<^verbatim>\<open>tool.rs\<close> that
  turn the argument of an agent's call into a pipeline. The directory tree is the record \<open>dir_host\<close>; paths are strings, taken apart as
  \<^verbatim>\<open>std::path\<close> does on Unix. The texts compiled into the binary are the record \<open>bundled_texts\<close>.
\<close>

subsection \<open>Paths\<close>

definition path_components :: "string \<Rightarrow> string list" where
  "path_components p =
     (let parts = split_char (CHR ''/'') p; names = filter (\<lambda>c. c \<noteq> [] \<and> c \<noteq> ''.'') parts
      in if starts_with p ''/'' then ''/'' # names else if hd parts = ''.'' then ''.'' # names else names)"

definition path_starts_with :: "string \<Rightarrow> string \<Rightarrow> bool" where
  "path_starts_with p base \<longleftrightarrow> prefix (path_components base) (path_components p)"

definition file_name :: "string \<Rightarrow> string option" where
  "file_name p = (let names = filter (\<lambda>c. c \<noteq> [] \<and> c \<noteq> ''.'') (split_char (CHR ''/'') p)
     in if names = [] \<or> last names = ''..'' then None else Some (last names))"

text \<open>The part of a file name before its last dot and the part after it; a dot at the start does not count.\<close>

definition rsplit_file_at_dot :: "string \<Rightarrow> string option \<times> string option" where
  "rsplit_file_at_dot file = (if file = ''..'' then (Some file, None)
     else (case rfind_char (CHR ''.'') file of
         None \<Rightarrow> (None, Some file)
       | Some 0 \<Rightarrow> (Some file, None)
       | Some k \<Rightarrow> (Some (take k file), Some (drop (Suc k) file))))"

definition path_extension :: "string \<Rightarrow> string option" where
  "path_extension p = Option.bind (file_name p) (\<lambda>f. case rsplit_file_at_dot f of (Some _, after) \<Rightarrow> after | (None, _) \<Rightarrow> None)"

definition file_stem :: "string \<Rightarrow> string option" where
  "file_stem p = Option.bind (file_name p) (\<lambda>f. case rsplit_file_at_dot f of (before, after) \<Rightarrow> or_else before after)"

subsection \<open>Discovery\<close>

record dir_host =
  dh_read_dir :: "string \<Rightarrow> string list option"
  dh_is_dir :: "string \<Rightarrow> bool"
  dh_is_file :: "string \<Rightarrow> bool"
  dh_exists :: "string \<Rightarrow> bool"
  dh_read :: "string \<Rightarrow> (string, string) sum"

record PipelineInfo =
  pi_name :: string
  pi_path :: string

datatype PipelineResolveError = NotFound string "string list" | ReadError string string

record PipelineDiscovery =
  pd_search_paths :: "string list"
  pd_bundled_dirs :: "string list"

definition BUNDLED_PIPELINES_DIR :: string where "BUNDLED_PIPELINES_DIR = ''bundled-pipelines''"

definition discovery_new :: "string \<Rightarrow> string \<Rightarrow> PipelineDiscovery" where
  "discovery_new data_dir working_dir = \<lparr>pd_search_paths = [path_join (path_join working_dir ''.octos'') ''pipelines'',
     path_join data_dir ''pipelines'', path_join data_dir ''skills''], pd_bundled_dirs = []\<rparr>"

definition new_operator_trusted :: "string \<Rightarrow> PipelineDiscovery" where
  "new_operator_trusted data_dir =
     \<lparr>pd_search_paths = [path_join data_dir ''pipelines'', path_join data_dir ''skills''], pd_bundled_dirs = []\<rparr>"

definition add_search_path :: "string \<Rightarrow> PipelineDiscovery \<Rightarrow> PipelineDiscovery" where
  "add_search_path p d = (if p \<in> set (pd_search_paths d) then d else d\<lparr>pd_search_paths := pd_search_paths d @ [p]\<rparr>)"

definition add_bundled_pipelines_dir :: "string \<Rightarrow> PipelineDiscovery \<Rightarrow> PipelineDiscovery" where
  "add_bundled_pipelines_dir home d =
     (let dir = path_join home BUNDLED_PIPELINES_DIR
      in if dir \<in> set (pd_bundled_dirs d) then d else d\<lparr>pd_bundled_dirs := pd_bundled_dirs d @ [dir]\<rparr>)"

definition ordered_search_paths :: "PipelineDiscovery \<Rightarrow> string list" where
  "ordered_search_paths d = pd_search_paths d @ pd_bundled_dirs d"

definition scan_entry :: "string \<Rightarrow> PipelineInfo list \<Rightarrow> string \<Rightarrow> PipelineInfo list" where
  "scan_entry dir pipelines entry =
     (let p = path_join dir entry in
      if path_extension p \<noteq> Some ''dot'' then pipelines
      else let name = (case file_stem p of Some n \<Rightarrow> n | None \<Rightarrow> [])
           in if list_ex (\<lambda>i. pi_name i = name) pipelines then pipelines else pipelines @ [\<lparr>pi_name = name, pi_path = p\<rparr>])"

definition scan_dot_files :: "dir_host \<Rightarrow> PipelineInfo list \<Rightarrow> string \<Rightarrow> PipelineInfo list" where
  "scan_dot_files h pipelines dir = (case dh_read_dir h dir of
       None \<Rightarrow> pipelines | Some entries \<Rightarrow> foldl (scan_entry dir) pipelines entries)"

definition scan_search_path :: "dir_host \<Rightarrow> PipelineInfo list \<Rightarrow> string \<Rightarrow> PipelineInfo list" where
  "scan_search_path h pipelines dir = (case dh_read_dir h dir of
       None \<Rightarrow> scan_dot_files h pipelines dir
     | Some entries \<Rightarrow> foldl (scan_dot_files h) (scan_dot_files h pipelines dir) (filter (dh_is_dir h) (map (path_join dir) entries)))"

definition list_available :: "dir_host \<Rightarrow> PipelineDiscovery \<Rightarrow> PipelineInfo list" where
  "list_available h d = foldl (scan_search_path h) [] (ordered_search_paths d)"

definition is_dot_file :: "dir_host \<Rightarrow> string \<Rightarrow> bool" where
  "is_dot_file h p \<longleftrightarrow> dh_is_file h p \<and> path_extension p = Some ''dot''"

definition read_located :: "dir_host \<Rightarrow> string \<Rightarrow> (PipelineResolveError, string) sum" where
  "read_located h p = (case dh_read h p of Inr t \<Rightarrow> Inr t | Inl e \<Rightarrow> Inl (ReadError p e))"

definition pipeline_name_stem :: "string \<Rightarrow> string" where
  "pipeline_name_stem name_or_path =
     (let file = (case file_name name_or_path of Some f \<Rightarrow> f | None \<Rightarrow> name_or_path)
      in (case strip_suffix ''.dot'' file of Some stem \<Rightarrow> stem | None \<Rightarrow> file))"

fun locate_direct :: "dir_host \<Rightarrow> string \<Rightarrow> string list \<Rightarrow> string option" where
  "locate_direct h name [] = None"
| "locate_direct h name (dir # dirs) =
     (if is_dot_file h (path_join dir name) then Some (path_join dir name)
      else if is_dot_file h (path_join dir (name @ ''.dot'')) then Some (path_join dir (name @ ''.dot''))
      else locate_direct h name dirs)"

definition resolve :: "dir_host \<Rightarrow> PipelineDiscovery \<Rightarrow> string \<Rightarrow> (PipelineResolveError, string) sum" where
  "resolve h d name_or_path =
     (let trimmed = trim name_or_path in
      if starts_with trimmed ''digraph '' \<or> starts_with trimmed (''digraph'' @ [CHR 0x7B]) then Inr name_or_path
      else if dh_exists h name_or_path \<and> path_extension name_or_path = Some ''dot'' then read_located h name_or_path
      else (case locate_direct h name_or_path (pd_search_paths d) of
          Some p \<Rightarrow> read_located h p
        | None \<Rightarrow> (case List.find (\<lambda>i. pi_name i = pipeline_name_stem name_or_path) (list_available h d) of
            Some i \<Rightarrow> read_located h (pi_path i)
          | None \<Rightarrow> Inl (NotFound name_or_path (map pi_name (list_available h d))))))"

definition resolve_installed :: "dir_host \<Rightarrow> PipelineDiscovery \<Rightarrow> string \<Rightarrow> (PipelineResolveError, string option) sum" where
  "resolve_installed h d name =
     (let want_stem = pipeline_name_stem (trim name);
          installed = filter (\<lambda>i. \<not> list_ex (path_starts_with (pi_path i)) (pd_bundled_dirs d)) (list_available h d)
      in (case List.find (\<lambda>i. pi_name i = want_stem) installed of
          None \<Rightarrow> Inr None
        | Some i \<Rightarrow> (case read_located h (pi_path i) of Inl e \<Rightarrow> Inl e | Inr t \<Rightarrow> Inr (Some t))))"

subsection \<open>The argument of a call\<close>

record bundled_texts =
  bn_dots :: "(string \<times> string) list"
  bn_irs :: "(string \<times> string) list"

definition bundled_ir :: "bundled_texts \<Rightarrow> string \<Rightarrow> string option" where
  "bundled_ir b name = map_option snd (List.find (\<lambda>(n, _). n = name) (bn_irs b))"

definition embedded_dot :: "bundled_texts \<Rightarrow> string \<Rightarrow> string option" where
  "embedded_dot b want = map_option snd
     (List.find (\<lambda>(file, _). want = (case strip_suffix ''.dot'' file of Some stem \<Rightarrow> stem | None \<Rightarrow> file)) (bn_dots b))"

datatype ResolvedPipeline = ResolvedIr string | ResolvedDot string

datatype resolve_error = INLINE_DOT_REJECTION | PIPELINE_PATH_REJECTION | DiscoveryFailed PipelineResolveError

definition is_bare_pipeline_name :: "string \<Rightarrow> bool" where
  "is_bare_pipeline_name s \<longleftrightarrow> s \<noteq> [] \<and> list_all id_char (scalars s)"

definition looks_like_inline_dot :: "string \<Rightarrow> bool" where
  "looks_like_inline_dot s \<longleftrightarrow> list_ex (\<lambda>c. starts_with (trim_start s) (''digraph'' @ [c]))
     [CHR '' '', CHR 0x7B, CHR 0x09, CHR 0x0A, CHR 0x0D]"

definition resolve_named_with_bundled_fallback :: "dir_host \<Rightarrow> PipelineDiscovery \<Rightarrow> bundled_texts \<Rightarrow> string
    \<Rightarrow> (PipelineResolveError, string) sum" where
  "resolve_named_with_bundled_fallback h d b name_or_path = (case resolve h d name_or_path of
       Inr dot \<Rightarrow> Inr dot
     | Inl (ReadError p e) \<Rightarrow> Inl (ReadError p e)
     | Inl (NotFound r a) \<Rightarrow> (case embedded_dot b (pipeline_name_stem (trim name_or_path)) of
         Some dot \<Rightarrow> Inr dot | None \<Rightarrow> Inl (NotFound r a)))"

definition resolve_with_fallback :: "dir_host \<Rightarrow> PipelineDiscovery \<Rightarrow> bundled_texts \<Rightarrow> string \<Rightarrow> (resolve_error, string) sum" where
  "resolve_with_fallback h d b pipeline_str =
     (if looks_like_inline_dot pipeline_str then Inl INLINE_DOT_REJECTION
      else if \<not> is_bare_pipeline_name (trim pipeline_str) then Inl PIPELINE_PATH_REJECTION
      else (case resolve_named_with_bundled_fallback h d b (trim pipeline_str) of
          Inl e \<Rightarrow> Inl (DiscoveryFailed e) | Inr t \<Rightarrow> Inr t))"

definition resolve_named :: "dir_host \<Rightarrow> PipelineDiscovery \<Rightarrow> bundled_texts \<Rightarrow> string \<Rightarrow> (resolve_error, ResolvedPipeline) sum" where
  "resolve_named h d b pipeline_str =
     (if looks_like_inline_dot pipeline_str then Inl INLINE_DOT_REJECTION
      else let name = trim pipeline_str in
        if \<not> is_bare_pipeline_name name then Inl PIPELINE_PATH_REJECTION
        else (case resolve_installed h d name of
            Inl e \<Rightarrow> Inl (DiscoveryFailed e)
          | Inr (Some dot) \<Rightarrow> Inr (ResolvedDot dot)
          | Inr None \<Rightarrow> (case bundled_ir b name of
              Some ir \<Rightarrow> Inr (ResolvedIr ir)
            | None \<Rightarrow> (case resolve_named_with_bundled_fallback h d b name of
                Inl e \<Rightarrow> Inl (DiscoveryFailed e) | Inr dot \<Rightarrow> Inr (ResolvedDot dot)))))"

subsection \<open>Names\<close>

text \<open>What a listing of a directory looks like: names without separators, and every file is listed.\<close>

definition real_dirs :: "dir_host \<Rightarrow> bool" where
  "real_dirs h \<longleftrightarrow> (\<forall>dir es e. dh_read_dir h dir = Some es \<longrightarrow> e \<in> set es \<longrightarrow> plain_name e \<and> e \<noteq> ''.'')
     \<and> (\<forall>dir e. plain_name e \<longrightarrow> dh_is_file h (path_join dir e) \<longrightarrow> (\<exists>es. dh_read_dir h dir = Some es \<and> e \<in> set es))"

lemma split_char_plain: "d \<notin> set s \<Longrightarrow> split_char d s = [s]"
  by (induction d s rule: split_char.induct) auto

lemma split_char_append: "split_char d (a @ d # b) = split_char d a @ split_char d b"
  by (induction d a rule: split_char.induct) (auto split: list.splits)

text \<open>A name in a directory, whether or not the path of the directory ends in a separator.\<close>

lemma join_components:
  assumes "CHR ''/'' \<notin> set e" "e \<noteq> []"
  shows "\<exists>pre. split_char (CHR ''/'') (path_join dir e) = pre @ [e] \<and> path_components (path_join dir e) = path_components dir @ filter (\<lambda>c. c \<noteq> [] \<and> c \<noteq> ''.'') [e]
     \<or> dir = [] \<and> path_join dir e = e"
proof -
  have start: "\<not> starts_with e ''/''" using assms by (cases e) (auto simp: starts_with_def)
  consider "dir = []" | init where "dir = init @ ''/''" | "dir \<noteq> []" "last dir \<noteq> CHR ''/''"
    by (metis append_butlast_last_id)
  then show ?thesis
  proof cases
    case 1
    with start show ?thesis by (simp add: path_join_def)
  next
    case (2 init)
    then have j: "path_join dir e = init @ CHR ''/'' # e" using start by (simp add: path_join_def)
    have s: "split_char (CHR ''/'') dir = split_char (CHR ''/'') init @ [[]]" using split_char_append[of _ init "[]"] 2 by simp
    have "starts_with (init @ CHR ''/'' # e) ''/'' \<longleftrightarrow> starts_with dir ''/''" using 2 by (cases init) (auto simp: starts_with_def)
    moreover have "split_char (CHR ''/'') (init @ CHR ''/'' # e) = split_char (CHR ''/'') init @ [e]"
      using split_char_append[of "CHR ''/''" init e] split_char_plain[OF assms(1)] by simp
    ultimately show ?thesis using s by (auto simp: path_components_def j Let_def hd_append)
  next
    case 3
    then have j: "path_join dir e = dir @ CHR ''/'' # e" using start by (simp add: path_join_def)
    have "starts_with (dir @ CHR ''/'' # e) ''/'' \<longleftrightarrow> starts_with dir ''/''" using 3 by (cases dir) (auto simp: starts_with_def)
    moreover have "split_char (CHR ''/'') (dir @ CHR ''/'' # e) = split_char (CHR ''/'') dir @ [e]"
      using split_char_append[of "CHR ''/''" dir e] split_char_plain[OF assms(1)] by simp
    ultimately show ?thesis by (auto simp: path_components_def j Let_def hd_append)
  qed
qed

lemma joined_file_name:
  assumes "plain_name e" "e \<noteq> ''.''"
  shows "file_name (path_join dir e) = Some e"
proof -
  have "\<exists>pre. split_char (CHR ''/'') (path_join dir e) = pre @ [e]"
    using join_components[of e dir] split_char_plain[of "CHR ''/''" e] assms by (auto simp: plain_name_def)
  with assms show ?thesis by (auto simp: file_name_def plain_name_def)
qed

lemma joined_starts:
  assumes "plain_name e" "e \<noteq> ''.''"
  shows "path_starts_with (path_join dir e) dir"
  using join_components[of e dir] assms
  by (auto simp: path_starts_with_def plain_name_def path_components_def starts_with_def)

lemma starts_trans: "path_starts_with p q \<Longrightarrow> path_starts_with q r \<Longrightarrow> path_starts_with p r"
  using prefix_order.trans by (auto simp: path_starts_with_def)

text \<open>A bare name has no dot, so that it is its own stem and has no extension; with \<^verbatim>\<open>.dot\<close> it is the stem of a file.\<close>

lemma bare_name_bytes:
  assumes "is_bare_pipeline_name s"
  shows "list_all safe_byte s"
proof -
  have "safe_byte b" if "c \<in> set (scalars s)" "b \<in> set c" for b c
    using that assms id_char_scalar[of c] by (auto simp: is_bare_pipeline_name_def list_all_iff safe_byte_def)
  then have "list_all safe_byte (concat (scalars s))" by (auto simp: list_all_iff)
  then show ?thesis by (simp only: concat_scalars)
qed

lemma bare_name_plain:
  assumes "is_bare_pipeline_name s"
  shows "plain_name s" "s \<noteq> ''.''" "CHR ''.'' \<notin> set s" "plain_name (s @ ''.dot'')" "s @ ''.dot'' \<noteq> ''.''"
proof -
  have b: "\<And>b. b \<in> set s \<Longrightarrow> safe_byte b" "s \<noteq> []" using bare_name_bytes[OF assms] assms by (auto simp: list_all_iff is_bare_pipeline_name_def)
  then have "CHR ''.'' \<notin> set s" "CHR ''/'' \<notin> set s" using safe_byte_range by blast+
  with b(2) show "plain_name s" "s \<noteq> ''.''" "CHR ''.'' \<notin> set s" "plain_name (s @ ''.dot'')" "s @ ''.dot'' \<noteq> ''.''"
    by (auto simp: plain_name_def)
qed

lemma rfind_none: "c \<notin> set s \<Longrightarrow> rfind_char c s = None"
  by (simp add: rfind_char_def find_char_None)

lemma rfind_last: "c \<notin> set b \<Longrightarrow> rfind_char c (a @ c # b) = Some (length a)"
proof -
  assume "c \<notin> set b"
  then have "find_char c (rev b @ c # rev a) = Some (length b)" 
    using split_once_Some[of c "rev b @ c # rev a" "rev b" "rev a"]
    by (cases "find_char c (rev b @ c # rev a)") (auto simp: split_once_def dest: arg_cong[where f = length])
  then show ?thesis by (simp add: rfind_char_def)
qed

lemma bare_extension: "is_bare_pipeline_name s \<Longrightarrow> path_extension (path_join dir s) = None"
  using joined_file_name[of s dir] bare_name_plain[of s] rfind_none[of "CHR ''.''" s]
  by (auto simp: path_extension_def rsplit_file_at_dot_def plain_name_def)

lemma dot_file_parts:
  assumes "is_bare_pipeline_name s"
  shows "path_extension (path_join dir (s @ ''.dot'')) = Some ''dot'' \<and> file_stem (path_join dir (s @ ''.dot'')) = Some s"
proof -
  have "rfind_char (CHR ''.'') (s @ ''.dot'') = Some (length s)" using rfind_last[of "CHR ''.''" "''dot''" s] by simp
  moreover have "s @ ''.dot'' \<noteq> ''..''" "s \<noteq> []" using assms bare_name_plain(4)[OF assms] by (auto simp: plain_name_def is_bare_pipeline_name_def)
  ultimately have "rsplit_file_at_dot (s @ ''.dot'') = (Some s, Some ''dot'')"
    by (cases "length s") (auto simp: rsplit_file_at_dot_def)
  then show ?thesis using joined_file_name[OF bare_name_plain(4,5)[OF assms], of dir]
    by (simp add: path_extension_def file_stem_def or_else_def)
qed

lemma bare_stem: "is_bare_pipeline_name s \<Longrightarrow> pipeline_name_stem s = s"
  using joined_file_name[of s "[]"] bare_name_plain[of s] 
  by (auto simp: pipeline_name_stem_def path_join_def strip_suffix_def suffix_def split: option.splits)

lemma rfind_Some:
  assumes "rfind_char c s = Some k"
  shows "s = take k s @ c # drop (Suc k) s"
proof -
  obtain j where j: "find_char c (rev s) = Some j" "k = length s - Suc j" using assms by (auto simp: rfind_char_def)
  then have "j < length s" "rev s ! j = c" using find_char_Some[OF j(1)] by auto
  then have "k < length s" "s ! k = c" using j(2) by (auto simp: rev_nth)
  then show ?thesis using id_take_nth_drop by metis
qed

lemma dot_file_name:
  assumes "plain_name e" "e \<noteq> ''.''" "path_extension (path_join dir e) = Some ''dot''" "file_stem (path_join dir e) = Some n"
  shows "e = n @ ''.dot''"
proof -
  have e: "e \<noteq> ''..''" using assms(1) by (simp add: plain_name_def)
  obtain k where k: "rfind_char (CHR ''.'') e = Some k" "k \<noteq> 0"
    using assms(3) joined_file_name[OF assms(1,2), of dir] e
    by (auto simp: path_extension_def rsplit_file_at_dot_def split: option.splits nat.splits)
  then have "rsplit_file_at_dot e = (Some (take k e), Some (drop (Suc k) e))"
    using e by (auto simp: rsplit_file_at_dot_def split: nat.splits)
  then have "drop (Suc k) e = ''dot''" "take k e = n"
    using assms(3,4) joined_file_name[OF assms(1,2), of dir] by (auto simp: path_extension_def file_stem_def or_else_def)
  with rfind_Some[OF k(1)] show ?thesis by simp
qed

subsection \<open>Listings\<close>

lemma foldl_extends:
  assumes "\<And>a x. x \<in> set xs \<Longrightarrow> \<exists>ys. f a x = a @ ys \<and> (\<forall>i \<in> set ys. P x i)"
  shows "\<exists>ys. foldl f a xs = a @ ys \<and> (\<forall>i \<in> set ys. \<exists>x \<in> set xs. P x i)"
  using assms
proof (induction xs arbitrary: a)
  case (Cons x xs)
  obtain ys where ys: "f a x = a @ ys" "\<forall>i \<in> set ys. P x i" using Cons.prems by fastforce
  obtain zs where "foldl f (a @ ys) xs = (a @ ys) @ zs" "\<forall>i \<in> set zs. \<exists>x \<in> set xs. P x i"
    using Cons.IH[of "a @ ys"] Cons.prems by auto
  with ys show ?case by (intro exI[of _ "ys @ zs"]) auto
qed simp

definition entry_of :: "dir_host \<Rightarrow> string \<Rightarrow> PipelineInfo \<Rightarrow> bool" where
  "entry_of h dir i \<longleftrightarrow> (\<exists>es. dh_read_dir h dir = Some es \<and> pi_name i @ ''.dot'' \<in> set es) \<and> pi_path i = path_join dir (pi_name i @ ''.dot'')"

definition found_under :: "dir_host \<Rightarrow> string \<Rightarrow> PipelineInfo \<Rightarrow> bool" where
  "found_under h dir i \<longleftrightarrow> entry_of h dir i
     \<or> (\<exists>es sub. dh_read_dir h dir = Some es \<and> sub \<in> set es \<and> dh_is_dir h (path_join dir sub) \<and> entry_of h (path_join dir sub) i)"

lemma scan_entry_extends:
  assumes "plain_name e" "e \<noteq> ''.''"
  shows "\<exists>ys. scan_entry dir a e = a @ ys \<and> (\<forall>i \<in> set ys. e = pi_name i @ ''.dot'' \<and> pi_path i = path_join dir e)"
proof (cases "path_extension (path_join dir e) = Some ''dot''")
  case True
  then have "file_stem (path_join dir e) \<noteq> None"
    using joined_file_name[OF assms, of dir]
    by (auto simp: path_extension_def file_stem_def or_else_def split: prod.splits option.splits)
  then obtain n where n: "file_stem (path_join dir e) = Some n" by blast
  from dot_file_name[OF assms True n] n True show ?thesis by (simp add: scan_entry_def Let_def)
qed (simp add: scan_entry_def Let_def)

lemma scan_dot_extends:
  assumes "real_dirs h"
  shows "\<exists>ys. scan_dot_files h a dir = a @ ys \<and> (\<forall>i \<in> set ys. entry_of h dir i)"
proof (cases "dh_read_dir h dir")
  case (Some es)
  have "\<And>a e. e \<in> set es \<Longrightarrow> \<exists>ys. scan_entry dir a e = a @ ys \<and> (\<forall>i \<in> set ys. e = pi_name i @ ''.dot'' \<and> pi_path i = path_join dir e)"
    using scan_entry_extends assms Some unfolding real_dirs_def by blast
  from foldl_extends[where xs = es and f = "scan_entry dir" and a = a
      and P = "\<lambda>e i. e = pi_name i @ ''.dot'' \<and> pi_path i = path_join dir e", OF this] obtain ys where "foldl (scan_entry dir) a es = a @ ys"
    "\<forall>i \<in> set ys. \<exists>e \<in> set es. e = pi_name i @ ''.dot'' \<and> pi_path i = path_join dir e" by blast
  then show ?thesis using Some by (auto simp: scan_dot_files_def entry_of_def)
qed (simp add: scan_dot_files_def)

lemma scan_path_extends:
  assumes "real_dirs h"
  shows "\<exists>ys. scan_search_path h a dir = a @ ys \<and> (\<forall>i \<in> set ys. found_under h dir i)"
proof (cases "dh_read_dir h dir")
  case None
  with scan_dot_extends[OF assms, of a dir] show ?thesis by (auto simp: scan_search_path_def found_under_def)
next
  case (Some es)
  obtain ys where ys: "scan_dot_files h a dir = a @ ys" "\<forall>i \<in> set ys. entry_of h dir i" using scan_dot_extends[OF assms] by blast
  let ?subs = "filter (dh_is_dir h) (map (path_join dir) es)"
  obtain zs where zs: "foldl (scan_dot_files h) (a @ ys) ?subs = (a @ ys) @ zs" "\<forall>i \<in> set zs. \<exists>sub \<in> set ?subs. entry_of h sub i"
    using foldl_extends[of ?subs "scan_dot_files h" "entry_of h" "a @ ys"] scan_dot_extends[OF assms] by blast
  have "found_under h dir i" if "i \<in> set (ys @ zs)" for i
    using that ys(2) zs(2) Some unfolding found_under_def by auto
  then show ?thesis using ys(1) zs(1) Some by (auto simp: scan_search_path_def)
qed

text \<open>The installed pipelines come first, and the bundled directories only add names after them.\<close>

definition installed_listing :: "dir_host \<Rightarrow> PipelineDiscovery \<Rightarrow> PipelineInfo list" where
  "installed_listing h d = foldl (scan_search_path h) [] (pd_search_paths d)"

lemma listing_split:
  assumes "real_dirs h"
  shows "\<exists>ys. list_available h d = installed_listing h d @ ys \<and> (\<forall>i \<in> set ys. \<exists>dir \<in> set (pd_bundled_dirs d). found_under h dir i)"
  using foldl_extends[of "pd_bundled_dirs d" "scan_search_path h" "found_under h" "installed_listing h d"] scan_path_extends[OF assms]
  by (simp add: list_available_def installed_listing_def ordered_search_paths_def)

lemma listing_found:
  assumes "real_dirs h" "i \<in> set (list_available h d)"
  shows "\<exists>dir \<in> set (ordered_search_paths d). found_under h dir i"
  using foldl_extends[of "ordered_search_paths d" "scan_search_path h" "found_under h" "[]"] scan_path_extends[OF assms(1)] assms(2)
  by (auto simp: list_available_def)

lemma found_starts:
  assumes "real_dirs h" "found_under h dir i"
  shows "path_starts_with (pi_path i) dir"
proof -
  have e: "path_starts_with (pi_path i) base" if "entry_of h base i" for base
    using that assms(1) joined_starts unfolding real_dirs_def entry_of_def by metis
  from assms(2) show ?thesis unfolding found_under_def
  proof (elim disjE exE conjE)
    fix es sub
    assume "dh_read_dir h dir = Some es" "sub \<in> set es" and sub: "entry_of h (path_join dir sub) i"
    then have "path_starts_with (path_join dir sub) dir" using assms(1) joined_starts unfolding real_dirs_def by blast
    with e[OF sub] starts_trans show ?thesis by blast
  qed (rule e)
qed

text \<open>A file in a search directory is in the listing, unless another of its name came before.\<close>

lemma entry_listed: "path_extension (path_join dir e) = Some ''dot'' \<Longrightarrow> file_stem (path_join dir e) = Some n
    \<Longrightarrow> \<exists>i \<in> set (scan_entry dir a e). pi_name i = n"
  by (auto simp: scan_entry_def Let_def list_ex_iff)

lemma foldl_listed:
  assumes "x \<in> set xs" "\<And>a. \<exists>i \<in> set (f a x). Q i" "\<And>a y. y \<in> set xs \<Longrightarrow> set a \<subseteq> set (f a y)"
  shows "\<exists>i \<in> set (foldl f a xs). Q i"
proof -
  have grows: "set a \<subseteq> set (foldl f a ys)" if "set ys \<subseteq> set xs" for a ys
    using that
  proof (induction ys arbitrary: a)
    case (Cons y ys)
    have "set a \<subseteq> set (f a y)" "set (f a y) \<subseteq> set (foldl f (f a y) ys)" using assms(3) Cons by auto
    then show ?case by simp
  qed simp
  obtain us vs where "xs = us @ x # vs" using split_list[OF assms(1)] by blast
  with assms(2)[of "foldl f a us"] grows[of vs "f (foldl f a us) x"] show ?thesis by fastforce
qed

lemma direct_file_installed:
  assumes "real_dirs h" "dir \<in> set (pd_search_paths d)" "is_bare_pipeline_name n" "dh_is_file h (path_join dir (n @ ''.dot''))"
  shows "\<exists>i \<in> set (installed_listing h d). pi_name i = n"
proof -
  obtain es where es: "dh_read_dir h dir = Some es" "n @ ''.dot'' \<in> set es" using assms(1,4) bare_name_plain(4)[OF assms(3)] unfolding real_dirs_def by blast
  have entries: "plain_name e \<and> e \<noteq> ''.''" if "e \<in> set es" for e using that es assms(1) unfolding real_dirs_def by blast
  have dot: "\<And>a. \<exists>i \<in> set (scan_entry dir a (n @ ''.dot'')). pi_name i = n"
    using dot_file_parts[OF assms(3), of dir] by (intro entry_listed) simp_all
  have grow: "\<And>a e. e \<in> set es \<Longrightarrow> set a \<subseteq> set (scan_entry dir a e)" 
  proof -
    fix a e assume "e \<in> set es"
    then obtain ys where "scan_entry dir a e = a @ ys" using scan_entry_extends entries by blast
    then show "set a \<subseteq> set (scan_entry dir a e)" by simp
  qed
  have "\<exists>i \<in> set (scan_dot_files h a dir). pi_name i = n" for a
    using foldl_listed[where f = "scan_entry dir" and Q = "\<lambda>i. pi_name i = n" and a = a, OF es(2) dot grow] es(1) by (simp add: scan_dot_files_def)
  moreover have "set (scan_dot_files h a dir) \<subseteq> set (scan_search_path h a dir)" for a
  proof -
    let ?subs = "filter (dh_is_dir h) (map (path_join dir) es)"
    obtain ys where "foldl (scan_dot_files h) (scan_dot_files h a dir) ?subs = scan_dot_files h a dir @ ys"
      using foldl_extends[of ?subs "scan_dot_files h" "entry_of h" "scan_dot_files h a dir"] scan_dot_extends[OF assms(1)] by blast
    then show ?thesis by (simp add: scan_search_path_def es(1))
  qed
  ultimately have one: "\<exists>i \<in> set (scan_search_path h a dir). pi_name i = n" for a by (meson subsetD)
  have grown: "\<And>a x. x \<in> set (pd_search_paths d) \<Longrightarrow> set a \<subseteq> set (scan_search_path h a x)"
    using scan_path_extends[OF assms(1)] by (metis Un_upper1 set_append)
  show ?thesis unfolding installed_listing_def
    using foldl_listed[where f = "scan_search_path h" and Q = "\<lambda>i. pi_name i = n" and a = "[]", OF assms(2) one grown] .
qed

subsection \<open>Resolution of a bare name\<close>

lemma safe_byte_graphic: "safe_byte c \<Longrightarrow> is_graphic c"
  by (auto simp: is_graphic_def safe_byte_def is_ascii_alphanumeric_def is_ascii_digit_def byte_def)

lemma trim_bare:
  assumes "is_bare_pipeline_name s"
  shows "trim s = s"
proof -
  have "s \<noteq> []" using assms by (simp add: is_bare_pipeline_name_def)
  moreover from this have "safe_byte (hd s)" "safe_byte (last s)" using bare_name_bytes[OF assms] by (simp_all add: list_all_iff)
  ultimately show ?thesis using trim_graphic_ends safe_byte_graphic by blast
qed

lemma bare_not_inline:
  assumes "is_bare_pipeline_name s"
  shows "\<not> starts_with s ''digraph ''" "\<not> starts_with s (''digraph'' @ [CHR 0x7B])"
proof -
  have "CHR '' '' \<notin> set s" "CHR 0x7B \<notin> set s"
    using bare_name_bytes[OF assms] by (auto simp: list_all_iff safe_byte_def is_ascii_alphanumeric_def is_ascii_digit_def byte_def)
  then show "\<not> starts_with s ''digraph ''" "\<not> starts_with s (''digraph'' @ [CHR 0x7B])" by (auto simp: starts_with_def prefix_def)
qed

lemma resolve_bare:
  assumes "is_bare_pipeline_name n"
  shows "resolve h d n = (case locate_direct h n (pd_search_paths d) of
      Some p \<Rightarrow> read_located h p
    | None \<Rightarrow> (case List.find (\<lambda>i. pi_name i = n) (list_available h d) of
        Some i \<Rightarrow> read_located h (pi_path i) | None \<Rightarrow> Inl (NotFound n (map pi_name (list_available h d)))))"
  using trim_bare[OF assms] bare_not_inline[OF assms] bare_extension[OF assms, of "[]"] bare_stem[OF assms]
  by (simp add: resolve_def Let_def path_join_def split: option.split)

lemma locate_direct_Some:
  assumes "is_bare_pipeline_name n" "locate_direct h n dirs = Some p"
  shows "\<exists>dir \<in> set dirs. p = path_join dir (n @ ''.dot'') \<and> dh_is_file h p"
  using assms(2) bare_extension[OF assms(1)] by (induction h n dirs rule: locate_direct.induct) (auto simp: is_dot_file_def split: if_splits)

lemma find_append: "List.find P (xs @ ys) = (case List.find P xs of Some x \<Rightarrow> Some x | None \<Rightarrow> List.find P ys)"
  by (induction xs) auto

lemma find_filter_kept: "(\<And>x. x \<in> set xs \<Longrightarrow> Q x) \<Longrightarrow> List.find P (filter Q xs) = List.find P xs"
  by (induction xs) auto

lemma resolve_installed_bare:
  assumes "real_dirs h" "\<forall>i \<in> set (installed_listing h d). \<forall>dir \<in> set (pd_bundled_dirs d). \<not> path_starts_with (pi_path i) dir"
    and "is_bare_pipeline_name n"
  shows "resolve_installed h d n = (case List.find (\<lambda>i. pi_name i = n) (installed_listing h d) of
      None \<Rightarrow> Inr None
    | Some i \<Rightarrow> (case read_located h (pi_path i) of Inl e \<Rightarrow> Inl e | Inr t \<Rightarrow> Inr (Some t)))"
proof -
  let ?keep = "\<lambda>i. \<not> list_ex (path_starts_with (pi_path i)) (pd_bundled_dirs d)"
  obtain ys where ys: "list_available h d = installed_listing h d @ ys" "\<forall>i \<in> set ys. \<exists>dir \<in> set (pd_bundled_dirs d). found_under h dir i"
    using listing_split[OF assms(1)] by blast
  have "filter ?keep ys = []" unfolding filter_empty_conv list_ex_iff using ys(2) found_starts[OF assms(1)] by blast
  moreover have "filter ?keep (installed_listing h d) = installed_listing h d" using assms(2) by (simp add: list_ex_iff)
  ultimately show ?thesis using bare_stem[OF assms(3)] trim_bare[OF assms(3)] by (simp add: resolve_installed_def Let_def ys(1))
qed

lemma no_direct_file:
  assumes "real_dirs h" "is_bare_pipeline_name n" "List.find (\<lambda>i. pi_name i = n) (installed_listing h d) = None"
  shows "locate_direct h n (pd_search_paths d) = None"
proof (rule ccontr)
  assume "locate_direct h n (pd_search_paths d) \<noteq> None"
  then obtain dir where "dir \<in> set (pd_search_paths d)" "dh_is_file h (path_join dir (n @ ''.dot''))"
    using locate_direct_Some[OF assms(2)] by blast
  with direct_file_installed[OF assms(1) _ assms(2)] assms(3) show False by (auto simp: find_None_iff)
qed

text \<open>Where the text of a resolved name was read.\<close>

definition placed :: "dir_host \<Rightarrow> PipelineDiscovery \<Rightarrow> string \<Rightarrow> string \<Rightarrow> bool" where
  "placed h d n t \<longleftrightarrow> (\<exists>dir \<in> set (ordered_search_paths d). \<exists>place.
     (place = dir \<or> (\<exists>es sub. dh_read_dir h dir = Some es \<and> sub \<in> set es \<and> place = path_join dir sub))
     \<and> dh_read h (path_join place (n @ ''.dot'')) = Inr t)"

lemma listed_placed:
  assumes "real_dirs h" "i \<in> set (list_available h d)" "pi_name i = n" "read_located h (pi_path i) = Inr t"
  shows "placed h d n t"
proof -
  obtain dir where dir: "dir \<in> set (ordered_search_paths d)" "found_under h dir i" using listing_found[OF assms(1,2)] by blast
  then obtain place where p: "place = dir \<or> (\<exists>es sub. dh_read_dir h dir = Some es \<and> sub \<in> set es \<and> place = path_join dir sub)" "entry_of h place i"
    unfolding found_under_def by blast
  have "dh_read h (path_join place (n @ ''.dot'')) = Inr t" using p(2) assms(3,4) by (simp add: entry_of_def read_located_def split: sum.splits)
  with p(1) dir(1) show ?thesis unfolding placed_def by blast
qed

lemma installed_placed:
  assumes "real_dirs h" "is_bare_pipeline_name n" "resolve_installed h d n = Inr (Some t)"
  shows "placed h d n t"
proof (cases "List.find (\<lambda>i. pi_name i = n) (filter (\<lambda>i. \<not> list_ex (path_starts_with (pi_path i)) (pd_bundled_dirs d)) (list_available h d))")
  case None
  with assms(3) show ?thesis by (simp add: resolve_installed_def Let_def trim_bare[OF assms(2)] bare_stem[OF assms(2)])
next
  case (Some i)
  with assms(3) have "read_located h (pi_path i) = Inr t"
    by (simp add: resolve_installed_def Let_def trim_bare[OF assms(2)] bare_stem[OF assms(2)] split: sum.splits)
  with find_Some_in[OF Some] show ?thesis by (auto intro: listed_placed[OF assms(1)])
qed

lemma resolved_placed:
  assumes "real_dirs h" "is_bare_pipeline_name n" "resolve h d n = Inr t"
  shows "placed h d n t"
proof (cases "locate_direct h n (pd_search_paths d)")
  case (Some p)
  then obtain dir where dir: "dir \<in> set (pd_search_paths d)" "p = path_join dir (n @ ''.dot'')" using locate_direct_Some[OF assms(2)] by blast
  with assms(3) Some have "dh_read h (path_join dir (n @ ''.dot'')) = Inr t" by (simp add: resolve_bare[OF assms(2)] read_located_def split: sum.splits)
  with dir(1) show ?thesis unfolding placed_def ordered_search_paths_def by auto
next
  case None
  show ?thesis
  proof (cases "List.find (\<lambda>i. pi_name i = n) (list_available h d)")
    case (Some i)
    with assms(3) None have "read_located h (pi_path i) = Inr t" by (simp add: resolve_bare[OF assms(2)])
    with find_Some_in[OF Some] show ?thesis by (auto intro: listed_placed[OF assms(1)])
  qed (use assms(3) None in \<open>simp add: resolve_bare[OF assms(2)]\<close>)
qed

lemma embedded_Some:
  assumes "embedded_dot b n = Some t"
  shows "\<exists>f. (f, t) \<in> set (bn_dots b) \<and> f \<in> {n, n @ ''.dot''}"
proof -
  obtain f where f: "(f, t) \<in> set (bn_dots b)" "n = (case strip_suffix ''.dot'' f of Some stem \<Rightarrow> stem | None \<Rightarrow> f)"
    using assms by (auto simp: embedded_dot_def dest!: find_Some_in)
  then have "f \<in> {n, n @ ''.dot''}" by (cases "strip_suffix ''.dot'' f") (auto simp: strip_suffix_Some)
  with f(1) show ?thesis by blast
qed

lemma fallback_placed:
  assumes "real_dirs h" "is_bare_pipeline_name n" "resolve_named_with_bundled_fallback h d b n = Inr t"
  shows "(\<exists>f. (f, t) \<in> set (bn_dots b) \<and> f \<in> {n, n @ ''.dot''}) \<or> placed h d n t"
proof (cases "resolve h d n")
  case (Inl e)
  with assms(3) have "embedded_dot b n = Some t"
    by (simp add: resolve_named_with_bundled_fallback_def trim_bare[OF assms(2)] bare_stem[OF assms(2)]
        split: PipelineResolveError.splits option.splits)
  with embedded_Some show ?thesis by blast
next
  case (Inr t')
  with assms resolved_placed[OF assms(1,2)] show ?thesis by (simp add: resolve_named_with_bundled_fallback_def)
qed

text \<open>What a name stands for: an installed pipeline, else the bundled document, else a file of a bundled directory, else the text in the binary.\<close>

definition read_pipeline :: "dir_host \<Rightarrow> PipelineInfo \<Rightarrow> (resolve_error, ResolvedPipeline) sum" where
  "read_pipeline h i = (case read_located h (pi_path i) of Inl e \<Rightarrow> Inl (DiscoveryFailed e) | Inr t \<Rightarrow> Inr (ResolvedDot t))"

definition sanctioned :: "dir_host \<Rightarrow> PipelineDiscovery \<Rightarrow> bundled_texts \<Rightarrow> string \<Rightarrow> (resolve_error, ResolvedPipeline) sum" where
  "sanctioned h d b name = (case List.find (\<lambda>i. pi_name i = name) (installed_listing h d) of
       Some i \<Rightarrow> read_pipeline h i
     | None \<Rightarrow> (case bundled_ir b name of
         Some ir \<Rightarrow> Inr (ResolvedIr ir)
       | None \<Rightarrow> (case List.find (\<lambda>i. pi_name i = name) (list_available h d) of
           Some i \<Rightarrow> read_pipeline h i
         | None \<Rightarrow> (case embedded_dot b name of
             Some t \<Rightarrow> Inr (ResolvedDot t)
           | None \<Rightarrow> Inl (DiscoveryFailed (NotFound name (map pi_name (list_available h d))))))))"

subsection \<open>Properties\<close>

text \<open>C14. The order in which a name is resolved is exact. An argument that is a graph or a path is refused. For a bare name, an installed
  pipeline wins over everything that is bundled, the file that the listing finds first is read, and a file that cannot be read is an
  error and never replaced by a bundled text; then comes the bundled document, then a bundled file, and the text compiled
  into the binary only on a true miss.\<close>

theorem resolution_order_exact:
  assumes "real_dirs h" "\<forall>i \<in> set (installed_listing h d). \<forall>dir \<in> set (pd_bundled_dirs d). \<not> path_starts_with (pi_path i) dir"
  shows "resolve_named h d b s = (if looks_like_inline_dot s then Inl INLINE_DOT_REJECTION
     else if \<not> is_bare_pipeline_name (trim s) then Inl PIPELINE_PATH_REJECTION else sanctioned h d b (trim s))"
proof (cases "is_bare_pipeline_name (trim s)")
  case True
  show ?thesis
  proof (cases "List.find (\<lambda>i. pi_name i = trim s) (installed_listing h d)")
    case None
    then show ?thesis
      using True resolve_installed_bare[OF assms True] resolve_bare[OF True, of h d] no_direct_file[OF assms(1) True] trim_bare[OF True] bare_stem[OF True]
      by (auto simp: resolve_named_def sanctioned_def read_pipeline_def read_located_def resolve_named_with_bundled_fallback_def Let_def
          split: option.splits sum.splits)
  next
    case (Some i)
    then show ?thesis using True resolve_installed_bare[OF assms True]
      by (auto simp: resolve_named_def sanctioned_def read_pipeline_def Let_def split: sum.splits)
  qed
qed (simp add: resolve_named_def Let_def)

text \<open>C13. An agent can only run what its operator put there. Whatever text it passes, a pipeline that is resolved is the bundled document or
  the embedded text of the bare name it gave, or the content of the file of that name and the extension \<^verbatim>\<open>.dot\<close> in a search directory
  or in a directory directly below one; never a graph in the argument, and never a file that the argument leads to.\<close>

theorem only_sanctioned_pipelines:
  assumes "real_dirs h" "resolve_named h d b s = Inr r"
  shows "is_bare_pipeline_name (trim s) \<and> (case r of
      ResolvedIr ir \<Rightarrow> (trim s, ir) \<in> set (bn_irs b)
    | ResolvedDot t \<Rightarrow> (\<exists>f. (f, t) \<in> set (bn_dots b) \<and> f \<in> {trim s, trim s @ ''.dot''}) \<or> placed h d (trim s) t)"
proof -
  have bare: "is_bare_pipeline_name (trim s)" using assms(2) by (simp add: resolve_named_def Let_def split: if_splits)
  from assms(2) bare consider (inst) t where "r = ResolvedDot t" "resolve_installed h d (trim s) = Inr (Some t)"
    | (doc) x where "r = ResolvedIr x" "bundled_ir b (trim s) = Some x"
    | (rest) t where "r = ResolvedDot t" "resolve_named_with_bundled_fallback h d b (trim s) = Inr t"
    by (auto simp: resolve_named_def Let_def split: if_splits sum.splits option.splits)
  then show ?thesis
  proof cases
    case inst
    with installed_placed[OF assms(1) bare] bare show ?thesis by simp
  next
    case doc
    then have "(trim s, x) \<in> set (bn_irs b)" by (auto simp: bundled_ir_def dest!: find_Some_in)
    with doc(1) bare show ?thesis by simp
  next
    case rest
    with fallback_placed[OF assms(1) bare] bare show ?thesis by simp
  qed
qed

definition sample_dirs :: dir_host where
  "sample_dirs = \<lparr>dh_read_dir = \<lambda>dir. if dir \<in> {''/d/skills'', ''/d/skills/''} then Some [''x'']
       else if dir \<in> {''/d/skills/x'', ''/d/skills/x/''} then Some [''deep.dot''] else None,
     dh_is_dir = \<lambda>p. p = ''/d/skills/x'', dh_is_file = \<lambda>p. p = ''/d/skills/x/deep.dot'', dh_exists = \<lambda>_. False,
     dh_read = \<lambda>p. if p = ''/d/skills/x/deep.dot'' then Inr ''digraph a {}'' else Inl ''no such file''\<rparr>"

definition sample_discovery :: PipelineDiscovery where
  "sample_discovery = add_bundled_pipelines_dir ''/h'' (new_operator_trusted ''/d'')"

definition sample_bundle :: bundled_texts where
  "sample_bundle = \<lparr>bn_dots = [(''deep.dot'', ''digraph b {}'')], bn_irs = [(''deep'', ''ir'')]\<rparr>"

lemma sample_dirs_real: "real_dirs sample_dirs"
proof -
  have "\<exists>es. dh_read_dir sample_dirs dir = Some es \<and> e \<in> set es" if "plain_name e" "path_join dir e = ''/d/skills/x/deep.dot''" for dir e
  proof -
    have start: "\<not> starts_with e ''/''" using that(1) plain_name_start[of e "[]"] by simp
    have "e \<noteq> ''.''"
    proof
      assume "e = ''.''"
      with that(2) have "last ''/d/skills/x/deep.dot'' = CHR ''.''" by (auto simp: path_join_def starts_with_def split: if_splits dest: arg_cong[where f = last])
      then show False by simp
    qed
    with joined_file_name[OF that(1), of dir] that(2) have "file_name ''/d/skills/x/deep.dot'' = Some e" by simp
    moreover have "file_name ''/d/skills/x/deep.dot'' = Some ''deep.dot''" by code_simp
    ultimately have e: "e = ''deep.dot''" by simp
    have "dir = [] \<or> dir = ''/d/skills/x/'' \<or> dir = ''/d/skills/x''"
      using that(2) start append_same_eq[of dir "''deep.dot''" "''/d/skills/x/''"] append_same_eq[of dir "''/deep.dot''" "''/d/skills/x''"]
      by (auto simp: path_join_def e split: if_splits)
    moreover have "dir \<noteq> []" using that(2) by (auto simp: path_join_def e starts_with_def)
    ultimately have "e = ''deep.dot'' \<and> dir \<in> {''/d/skills/x'', ''/d/skills/x/''}" using e by blast
    then show ?thesis by (auto simp: sample_dirs_def)
  qed
  then show ?thesis by (auto simp: real_dirs_def sample_dirs_def plain_name_def split: if_splits)
qed

theorem resolution_order_exact_witness:
  "resolve_named sample_dirs sample_discovery sample_bundle '' deep '' = Inr (ResolvedDot ''digraph a {}'')"
proof -
  have "\<forall>i \<in> set (installed_listing sample_dirs sample_discovery). \<forall>dir \<in> set (pd_bundled_dirs sample_discovery). \<not> path_starts_with (pi_path i) dir"
    by code_simp
  moreover have "\<not> looks_like_inline_dot '' deep ''" "is_bare_pipeline_name (trim '' deep '')"
    "sanctioned sample_dirs sample_discovery sample_bundle (trim '' deep '') = Inr (ResolvedDot ''digraph a {}'')" by code_simp+
  ultimately show ?thesis using resolution_order_exact[OF sample_dirs_real, of sample_discovery sample_bundle "'' deep ''"] by simp
qed

theorem only_sanctioned_pipelines_witness:
  "\<exists>r. resolve_named sample_dirs sample_discovery sample_bundle ''deep'' = Inr r \<and> is_bare_pipeline_name ''deep''
     \<and> (\<exists>t. r = ResolvedDot t \<and> placed sample_dirs sample_discovery ''deep'' t)"
proof -
  have r: "resolve_named sample_dirs sample_discovery sample_bundle ''deep'' = Inr (ResolvedDot ''digraph a {}'')" by code_simp
  have n: "trim ''deep'' = ''deep''" by code_simp
  from only_sanctioned_pipelines[OF sample_dirs_real r] n
  have "is_bare_pipeline_name ''deep''" "placed sample_dirs sample_discovery ''deep'' ''digraph a {}''" by (auto simp: sample_bundle_def)
  with r show ?thesis by blast
qed

end
