(* ===== verification/Spec2Isabelle.thy ===== *)
theory Spec2Isabelle
  imports Compose Dot_Properties Fidelity Handler_Properties Run_Properties Pricing_Properties Supervisor_Restart Discovery
begin

text \<open>
  \<^bold>\<open>Verification of the octos pipeline engine.\<close>

  octos runs graphs of language-model agents. A pipeline is written as a DOT file or as a JSON workflow document, checked
  against a list of rules, and executed node by node by a scheduler that routes on the outcomes. This library
  models the engine, \<^verbatim>\<open>crates/octos-pipeline\<close>, with three parts of \<^verbatim>\<open>crates/octos-agent\<close>, the tool policy that decides what the
  agents of a pipeline may call, the ledger of what they spend and the
  supervisor of background tasks, and the prices of \<^verbatim>\<open>crates/octos-llm\<close>, and proves what makes each
  part correct.

  \<^bold>\<open>How the parts fit together.\<close> \<^verbatim>\<open>parse_dot\<close> reads a DOT text into a \<^verbatim>\<open>PipelineGraph\<close>; \<^verbatim>\<open>compose\<close> takes a JSON document through
  decoding, cycle check, compilation by node contracts, validation and a profile of limits, and returns the
  same type. A run, \<^verbatim>\<open>run_graph_with_handlers\<close>, assigns models from the catalog to the nodes that name none, applies the 23 rules of \<^verbatim>\<open>validate\<close>,
  reserves budget with the cost accountant, executes the graph on one of two engines, applies the validators declared for the end, and
  commits the reservation with what was spent or lets it be refunded. \<^verbatim>\<open>execute_graph_dag\<close> picks the nodes whose
  inputs are ready, dispatches each to its handler with retries, a deadline and one recovery attempt, decides
  which edges fire with the condition language, prunes branches that cannot run, and retries regions through back
  edges. Graphs with a fan-out, and runs with a checkpoint store, take \<^verbatim>\<open>execute_graph\<close> instead, which walks from node to node along the edge
  that \<^verbatim>\<open>select_next_edge\<close> prefers, asks the guards before each node, spreads a fan-out over concurrent workers and jumps to the node where
  they converge. The result is cut to the size of a text frame before it is handed back. A worker agent started by a node
  is limited by the tool policy its node implies. A pipeline that runs in the background, and each of its nodes, is a task of the
  session's task supervisor, which keeps the status of every task, reports failures to the session, limits how many tasks a session has
  and rebuilds its table from a ledger file after a restart.

  \<^bold>\<open>Theories.\<close>

  \<^item> \<^verbatim>\<open>Prelude\<close>: the Rust standard library as far as the code uses it: strings as lists of bytes or characters, trimming, splitting,
    printing and parsing of numbers, insertion-ordered association lists for \<^verbatim>\<open>HashMap\<close>, saturating arithmetic, results as
    sums. \<^verbatim>\<open>Rust_Float\<close>: \<^verbatim>\<open>f64\<close> as a datatype of finite values, infinities and NaN, with the operations that the code uses.
  \<^item> \<^verbatim>\<open>Graph_Model\<close> and \<^verbatim>\<open>Cycles\<close> (\<^verbatim>\<open>graph.rs\<close>, and the cycle checks of \<^verbatim>\<open>validate.rs\<close> and \<^verbatim>\<open>ir.rs\<close>): the data model; the coloured depth-first
    search, its termination, and that it accepts exactly the acyclic graphs and otherwise reports a real cycle. The
    three cycle checks share one contract, the locale \<open>cycle_check\<close>, interpreted for each.
  \<^item> \<^verbatim>\<open>Fidelity\<close> (\<^verbatim>\<open>fidelity.rs\<close>): context compaction, the result ceiling and the footer. The escaped result with its summary fits the
    frame, and the kept part is the longest prefix that fits.
  \<^item> \<^verbatim>\<open>Condition\<close> (\<^verbatim>\<open>condition.rs\<close>): tokenizer, recursive-descent parser and evaluator of edge conditions; the parser returns on every input
    and reads back what is printed.
  \<^item> \<^verbatim>\<open>Dot_Parser\<close> and \<^verbatim>\<open>Dot_Properties\<close> (\<^verbatim>\<open>parser.rs\<close>): the DOT parser as a total function on Unicode scalars; every graph that it returns is
    well formed.
  \<^item> \<^verbatim>\<open>Tool_Policy\<close> (\<^verbatim>\<open>tools/policy.rs\<close>, \<^verbatim>\<open>tools/robot_groups.rs\<close>, \<^verbatim>\<open>permissions.rs\<close> of \<^verbatim>\<open>octos-agent\<close>, and the worker policy of \<^verbatim>\<open>handler.rs\<close>): exact
    decision rule, nesting of the robot tiers, and that no worker is allowed a shell tool.
  \<^item> \<^verbatim>\<open>Validate\<close> and \<^verbatim>\<open>Validate_Properties\<close> (\<^verbatim>\<open>validate.rs\<close>): the rules as the code has them, and that together they accept exactly the graphs
    of a declarative predicate, \<open>graph_valid\<close>.
  \<^item> \<^verbatim>\<open>Ir\<close> (\<^verbatim>\<open>ir.rs\<close>): node contracts and the compiler; compiled nodes carry exactly the capability of their contract.
  \<^item> \<^verbatim>\<open>Profile\<close> and \<^verbatim>\<open>Profile_Properties\<close> (\<^verbatim>\<open>profile.rs\<close>): the limits of a profile and the longest chain, computed by a topological pass and
    proved equal to the length of a longest path.
  \<^item> \<^verbatim>\<open>Compose\<close> (\<^verbatim>\<open>compose.rs\<close>): the chain of gates and its exact acceptance condition.
  \<^item> \<^verbatim>\<open>Dag_Routing\<close> and \<^verbatim>\<open>Dag_Routing_Properties\<close> (the free functions at the end of \<^verbatim>\<open>executor.rs\<close>): back edges, firing of edges, readiness,
    terminal nodes; each equals a declarative counterpart.
  \<^item> \<^verbatim>\<open>Node_Dispatch\<close> (\<^verbatim>\<open>execute_with_retries\<close>, \<^verbatim>\<open>dispatch_node\<close> and token caps of \<^verbatim>\<open>executor.rs\<close>; \<^verbatim>\<open>recovery.rs\<close>): one node. \<^verbatim>\<open>Dag_Executor\<close>
    (\<^verbatim>\<open>execute_graph_dag\<close>, \<^verbatim>\<open>dag_execute_node\<close>, \<^verbatim>\<open>dag_build_result\<close>): the scheduler, with its local variables as the record \<open>dag_state\<close> and
    its termination.
  \<^item> \<^verbatim>\<open>Dag_Abstract\<close>: the specification of the scheduler, an inductive transition system with run, prune and retry steps, and its
    invariants by rule induction. \<^verbatim>\<open>Dag_Properties\<close>: the scheduler refines it; soundness of a reported success, settlement of every
    node, bound on the node runs. \<^verbatim>\<open>Dispatch_Properties\<close>: retries, deadlines, recovery, budget cap, and that runs return.
  \<^item> \<^verbatim>\<open>Edge_Selection\<close> (\<^verbatim>\<open>select_next_edge\<close>, \<^verbatim>\<open>pick_by_weight\<close>), \<^verbatim>\<open>Guard\<close> (\<^verbatim>\<open>guard.rs\<close>), \<^verbatim>\<open>Checkpoint\<close> (\<^verbatim>\<open>checkpoint.rs\<close>, \<^verbatim>\<open>build_resume_skip_set\<close>; the store
    interface is the locale \<open>checkpoint_store\<close>, interpreted for the file store), \<^verbatim>\<open>Fan_Out\<close> (worker deadlines, \<^verbatim>\<open>run_fanout_worker\<close>,
    \<^verbatim>\<open>process_worker_results\<close>, \<^verbatim>\<open>plan_dynamic_tasks\<close>) and \<^verbatim>\<open>Walk_Executor\<close> (\<^verbatim>\<open>execute_graph\<close>): the walk. One pass through its loop is \<open>walk_step\<close>
    on the record \<open>walk_state\<close>. \<^verbatim>\<open>Walk_Properties\<close>: exact edge selection, loop invariants by the locale \<open>walk_invariant\<close> (fan-out cap,
    token bookkeeping), termination where no path of moves returns, two walks that never end, order of fan-out results.
  \<^item> \<^verbatim>\<open>Model_Assignment\<close> (\<^verbatim>\<open>model_assignment.rs\<close>): the pools of strong and fast models and the round robin over them; the assignment is exact and
    keeps a valid graph valid.
  \<^item> \<^verbatim>\<open>Handlers\<close> and \<^verbatim>\<open>Handler_Properties\<close> (\<^verbatim>\<open>handler.rs\<close>, \<^verbatim>\<open>build_handlers\<close>): agent, gate, shell, check, notification, wait and noop handlers; what a
    gate decides, the compaction of instructions, and that a wait returns.
  \<^item> \<^verbatim>\<open>Cost_Ledger\<close> and \<^verbatim>\<open>Cost_Properties\<close> (\<^verbatim>\<open>cost_ledger.rs\<close> of \<^verbatim>\<open>octos-agent\<close>): attributions, the persistent ledger, budgets and reservations. What the
    accountant needs of a ledger is the locale \<open>cost_ledger\<close>, interpreted for the persistent one; concurrent callers are the transition
    system \<open>office_step\<close>, in which no budget is overspent. The ledger lists what was recorded.
  \<^item> \<^verbatim>\<open>Float_Arith\<close>: addition and multiplication of \<^verbatim>\<open>f64\<close>, exactness and monotonicity of rounding. \<^verbatim>\<open>Pricing\<close> and \<^verbatim>\<open>Pricing_Properties\<close> (\<^verbatim>\<open>pricing.rs\<close> of
    \<^verbatim>\<open>octos-llm\<close>): the catalog of prices and the built-in table; the price of a model is decided by the set of rows alone, and costs are
    monotone and never understated.
  \<^item> \<^verbatim>\<open>Metered\<close>: the locales \<open>metered\<close> and \<open>metered_walk\<close>, an engine whose collaborators keep the books, and that both engines then keep them.
    \<^verbatim>\<open>Pipeline_Run\<close> (the entry points of \<^verbatim>\<open>PipelineExecutor\<close> in \<^verbatim>\<open>executor.rs\<close>) and \<^verbatim>\<open>Run_Properties\<close>: a run closes its books, a success was checked at
    both ends, a refused run touches nothing. The locale is interpreted there for the configured executor.
  \<^item> \<^verbatim>\<open>Task_Supervisor\<close> (\<^verbatim>\<open>task_supervisor.rs\<close> of \<^verbatim>\<open>octos-agent\<close>): tasks and their transitions, the stash of failures that wait for the
    acknowledgement of their tool call, registration with the limit per session, cancellation and relaunch, the events of the harness, the ledger and
    the recovery from it, the reaper. The state is the record \<open>supervisor\<close>. \<^verbatim>\<open>Supervisor_Steps\<close>: the operations as a datatype and a run
    of them, and the relation \<open>micro\<close>, of which every operation is a sequence of steps; an invariant is proved on the steps once.
    \<^verbatim>\<open>Supervisor_Properties\<close>: verdicts are final, each failure is reported once, the stash is bounded. \<^verbatim>\<open>Supervisor_Restart\<close>: a restart brings every
    task back, the order in which supervisors wrote their rows does not matter, the limit per session holds, and four promises that the
    code breaks.
  \<^item> \<^verbatim>\<open>Run_Files\<close> (\<^verbatim>\<open>artifact.rs\<close>, \<^verbatim>\<open>run_dir.rs\<close>, and the run ids, pruning and time stamps of \<^verbatim>\<open>tool.rs\<close>): what a run writes stays inside its own
    directory, artifacts are read back as stored, pruning keeps the newest directories, and a time stamp is the right date.
  \<^item> \<^verbatim>\<open>Discovery\<close> (\<^verbatim>\<open>discovery.rs\<close>, and the resolution of its argument by \<^verbatim>\<open>tool.rs\<close>): where the text of a named pipeline comes from; the order of
    the places is exact, and an agent can name only what its operator installed or what is bundled.

  \<^bold>\<open>Parameters.\<close> What is outside the modelled code is an argument of the definitions: the handlers, which call models and
  processes, and the record \<open>runtime\<close> (sleep, timers, failure hook, shutdown flag) and \<open>host\<close> (task supervisor, cost accountant, declared
  validators, clock), all acting on a world of arbitrary type; for the walk also \<open>fan_host\<close> (the planner's replies, the JSON decoders of
  its plan, the reading of result files, the order of the workers' turns) and \<open>walk_host\<close> (guards, checkpoint store); \<open>handler_host\<close> (the
  agent loop, processes, providers, files and clock that handlers use), \<open>catalog_host\<close> (the catalog files and their decoding, the seed of the
  round robin), \<open>ledger_host\<close> (the encoding of a row, success of a transaction) and \<open>executor\<close> (the configuration of a run: the runner of
  declared validators, the task supervisor, the seeded price catalog, file patterns), and for the task supervisor \<open>task_host\<close> (encoding and decoding of a ledger row, success of file operations, the limit set in the
  environment, lowercase of non-ASCII text), with the readings of the clock and the ids of new tasks as arguments; \<open>file_host\<close> and \<open>dir_host\<close> (success
  of file operations, what a failed write leaves, the directory tree) and \<open>bundled_texts\<close> (the texts in the binary); the JSON decoder of \<open>compose\<close>; the model keys and the tool
  names of installed plugins in the validation context; the classification of non-ASCII characters.

  \<^bold>\<open>Numbers, bounds and termination.\<close> Counters are words of their Rust width. Token totals are added modulo \<open>2 ^ 32\<close>, as a release build
  does. Most recursive functions are structural or come with a termination proof. Two carry fuel, and both are proved never to run
  out of it: the depth-first search of the cycle checks (one more than the number of keys and edges, which bounds the
  length of a path without repetitions) and the condition parser (the number of tokens, since each level of
  parentheses consumes one). The scheduler terminates because each pass either uses up a retry, of which each back-edge
  target has ten, or settles a node. The walk has no such bound and is a partial function: \<open>None\<close> means that it runs forever.

  \<^bold>\<open>Abstractions.\<close> A \<^verbatim>\<open>HashMap\<close> is an association list; where the code sorts what it iterates over, the model does too, and where the
  result is a set the model returns a set (the modified files of a result, the tools of a tier). Each worker of a fan-out acts in one turn,
  and the turns come in any order; the permits that limit how many are in flight are left out. A dropped reservation is refunded
  at once in the model of a run and at any later moment in \<open>office_step\<close>. An operation of the task supervisor is one step, also where the code
  takes a lock twice; a panic sets a flag; observers are flags, and their calls are entries of a log. Log lines, metrics, progress
  events and the heartbeat are left out.

  \<^bold>\<open>Not modelled.\<close> The run-level checkpoint file; human gates, conversation threads, stylesheets and the
  manager of child pipelines, which the executor does not use yet; the tool that wraps a run outside the resolution of its argument; the agent runtime outside its tool policy, its cost ledger and its task
  supervisor, and of that one the installation of observers and the timer of the reaper; the command line, the servers, the
  model clients outside their prices, the message channels, fleets, stores, plugins, sandboxes and bindings, which are mostly input and output.
\<close>

end
